(* ===== verification/Prelude.thy ===== *)
theory Prelude
  imports Main "HOL-Library.Word" "HOL-Library.List_Lexorder"
begin

text \<open>
  Shared vocabulary of the development: machine faults as values, raw memory copies on
  arrays modelled as lists, the little-endian byte image of machine words, and the
  byte-wise comparison \<open>memcmp\<close> with the lemmas that relate it to integer order.
\<close>

section \<open>Machine types and faults\<close>

type_synonym byte = "8 word"
type_synonym u16 = "16 word"
type_synonym u32 = "32 word"
type_synonym u64 = "64 word"

text \<open>
  What a C++ execution can do instead of returning: stop in \<open>abort\<close>/\<open>exit\<close> (the macros
  \<open>INVARIANT\<close> and \<open>COUT_N_EXIT\<close> of \<open>helper.h\<close>), fail an \<open>assert\<close>, touch memory outside
  an array, or never leave a loop.
\<close>

datatype fault = Aborted | AssertFailed | OutOfBounds | Diverges

named_theorems byte_simps \<open>evaluation of byte images\<close>
named_theorems fault_simps \<open>evaluation of computations that may fault\<close>

definition bindE :: "fault + 'a \<Rightarrow> ('a \<Rightarrow> fault + 'b) \<Rightarrow> fault + 'b" where
  "bindE m f = (case m of Inl e \<Rightarrow> Inl e | Inr x \<Rightarrow> f x)"

lemma bindE_Inl [simp, fault_simps]: "bindE (Inl e) f = Inl e"
  by (simp add: bindE_def)

lemma bindE_Inr [simp, fault_simps]: "bindE (Inr x) f = f x"
  by (simp add: bindE_def)

lemma bindE_eq_Inr: "bindE m f = Inr y \<longleftrightarrow> (\<exists>x. m = Inr x \<and> f x = Inr y)"
  by (cases m) simp_all

definition guardE :: "fault \<Rightarrow> bool \<Rightarrow> fault + unit" where
  "guardE e b = (if b then Inr () else Inl e)"

lemma guardE_simps [simp, fault_simps]:
  "guardE e True = Inr ()" "guardE e False = Inl e"
  by (simp_all add: guardE_def)

text \<open>A loop that may not end is an option, None when it does not; in a computation it is \<open>Diverges\<close>.\<close>

definition returnsE :: "(fault + 'a) option \<Rightarrow> fault + 'a" where
  "returnsE m = (case m of None \<Rightarrow> Inl Diverges | Some r \<Rightarrow> r)"

section \<open>Arrays as lists: block copies and element writes\<close>

text \<open>
  \<open>memcpy(dst + doff, src + soff, n)\<close> and \<open>memmove\<close> on element arrays. A copy that leaves
  either array is a fault; \<open>memmove\<close> reads the whole source block before writing, so the
  same definition serves when both arrays are the same.
\<close>

definition blit :: "'a list \<Rightarrow> nat \<Rightarrow> 'a list \<Rightarrow> nat \<Rightarrow> nat \<Rightarrow> fault + 'a list" where
  "blit src soff dst doff n =
     (if soff + n \<le> length src \<and> doff + n \<le> length dst
      then Inr (take doff dst @ take n (drop soff src) @ drop (doff + n) dst)
      else Inl OutOfBounds)"

definition array_write :: "'a list \<Rightarrow> nat \<Rightarrow> 'a \<Rightarrow> fault + 'a list" where
  "array_write a i x = (if i < length a then Inr (a[i := x]) else Inl OutOfBounds)"

definition array_read :: "'a list \<Rightarrow> nat \<Rightarrow> fault + 'a" where
  "array_read a i = (if i < length a then Inr (a ! i) else Inl OutOfBounds)"

lemma blit_Inr_length: "blit src soff dst doff n = Inr r \<Longrightarrow> length r = length dst"
  by (auto simp: blit_def split: if_splits)

lemma array_write_Inr [simp]: "i < length a \<Longrightarrow> array_write a i x = Inr (a[i := x])"
  by (simp add: array_write_def)

lemma array_read_Inr [simp]: "i < length a \<Longrightarrow> array_read a i = Inr (a ! i)"
  by (simp add: array_read_def)

section \<open>Strictly sorted lists\<close>

abbreviation ssorted :: "'a::linorder list \<Rightarrow> bool" where
  "ssorted xs \<equiv> sorted_wrt (<) xs"

lemma ssorted_distinct: "ssorted xs \<Longrightarrow> distinct xs"
  by (simp add: strict_sorted_iff)

lemma ssorted_nth_less: "ssorted xs \<Longrightarrow> i < j \<Longrightarrow> j < length xs \<Longrightarrow> xs ! i < xs ! j"
  by (simp add: sorted_wrt_iff_nth_less)

section \<open>Little-endian byte images\<close>

fun le_nat :: "nat \<Rightarrow> nat \<Rightarrow> byte list" where
  "le_nat 0 v = []"
| "le_nat (Suc n) v = word_of_nat v # le_nat n (v div 256)"

fun of_le :: "byte list \<Rightarrow> nat" where
  "of_le [] = 0"
| "of_le (b # bs) = unat b + 256 * of_le bs"

lemma length_le_nat [simp, byte_simps]: "length (le_nat n v) = n"
  by (induction n arbitrary: v) simp_all

lemma unat_byte_bound: "unat (b :: byte) < 256"
  using unsigned_less [of b, where 'a = nat] by simp

lemma of_le_bound: "of_le bs < 256 ^ length bs"
proof (induction bs)
  case (Cons b bs)
  have "unat b < 256" by (rule unat_byte_bound)
  with Cons show ?case by simp
qed simp

lemma of_le_append: "of_le (xs @ ys) = of_le xs + 256 ^ length xs * of_le ys"
  by (induction xs) (simp_all add: algebra_simps)

lemma of_le_le_nat: "of_le (le_nat n v) = v mod 256 ^ n"
proof (induction n arbitrary: v)
  case (Suc n)
  have "v mod (256 * 256 ^ n) = 256 * (v div 256 mod 256 ^ n) + v mod 256"
    by (rule mod_mult2_eq)
  then show ?case using Suc by (simp add: unat_of_nat)
qed simp

lemma le_nat_of_le: "le_nat (length bs) (of_le bs) = bs"
proof (induction bs)
  case (Cons b bs)
  have "unat b < 256" by (rule unat_byte_bound)
  then have "(unat b + 256 * of_le bs) div 256 = of_le bs" by simp
  moreover have "(word_of_nat (unat b + 256 * of_le bs) :: byte) = b"
  proof (rule word_unat_eq_iff [THEN iffD2])
    show "unat (word_of_nat (unat b + 256 * of_le bs) :: byte) = unat b"
      using \<open>unat b < 256\<close> by (simp only: unat_of_nat) simp
  qed
  ultimately show ?case using Cons by simp
qed simp

lemma of_le_inj: "length xs = length ys \<Longrightarrow> of_le xs = of_le ys \<Longrightarrow> xs = ys"
  by (metis le_nat_of_le)

text \<open>The bytes of an unsigned word in memory order, and the word read back.\<close>

definition wbytes :: "'a::len word \<Rightarrow> byte list" where
  "wbytes w = le_nat (LENGTH('a) div 8) (unat w)"

definition wread :: "byte list \<Rightarrow> 'a::len word" where
  "wread bs = word_of_nat (of_le bs)"

lemma length_wbytes [simp, byte_simps]: "length (wbytes (w :: 'a::len word)) = LENGTH('a) div 8"
  by (simp add: wbytes_def)

lemma of_le_wbytes:
  assumes "8 dvd LENGTH('a)"
  shows "of_le (wbytes (w :: 'a::len word)) = unat w"
proof -
  have "(256::nat) ^ (LENGTH('a) div 8) = 2 ^ (8 * (LENGTH('a) div 8))"
    by (simp add: power_mult)
  with assms have "(256::nat) ^ (LENGTH('a) div 8) = 2 ^ LENGTH('a)" by simp
  moreover have "unat w < 2 ^ LENGTH('a)" by (rule unsigned_less)
  ultimately show ?thesis by (simp add: wbytes_def of_le_le_nat)
qed

lemma wread_wbytes:
  "8 dvd LENGTH('a) \<Longrightarrow> wread (wbytes (w :: 'a::len word)) = w"
  by (simp add: wread_def of_le_wbytes)

lemma wbytes_wread:
  assumes "8 dvd LENGTH('a)" and "length bs = LENGTH('a) div 8"
  shows "wbytes (wread bs :: 'a::len word) = bs"
proof -
  have "(256::nat) ^ (LENGTH('a) div 8) = 2 ^ (8 * (LENGTH('a) div 8))"
    by (simp add: power_mult)
  with assms(1) have "(256::nat) ^ (LENGTH('a) div 8) = 2 ^ LENGTH('a)" by simp
  with of_le_bound [of bs] assms(2) have "of_le bs < 2 ^ LENGTH('a)" by simp
  then have "unat (wread bs :: 'a word) = of_le bs"
    by (simp add: wread_def unat_of_nat)
  with assms(2) show ?thesis by (metis le_nat_of_le wbytes_def)
qed

lemma unat_of_nat_u64: "n < 2 ^ 64 \<Longrightarrow> unat (word_of_nat n :: u64) = n"
  by (simp add: unat_of_nat)

lemma unat_of_nat_u32: "n < 2 ^ 32 \<Longrightarrow> unat (word_of_nat n :: u32) = n"
  by (simp add: unat_of_nat)

lemma unat_inc_u32:
  assumes "(w :: u32) \<noteq> - 1"
  shows "unat (w + 1) = unat w + 1"
proof -
  have "unat w \<noteq> unat (- 1 :: u32)" using assms by (metis word_unat_eq_iff)
  moreover have "unat w < 2 ^ 32" using unsigned_less [of w, where 'a = nat] by simp
  ultimately show ?thesis
    by (simp add: unat_word_ariths unsigned_minus_1_eq_mask mask_eq_exp_minus_1)
qed

section \<open>Byte-wise comparison\<close>

text \<open>\<open>memcmp\<close> on two blocks: the sign of the first difference, bytes read as unsigned.\<close>

fun memcmp :: "byte list \<Rightarrow> byte list \<Rightarrow> int" where
  "memcmp (x # xs) (y # ys) = (if x < y then -1 else if y < x then 1 else memcmp xs ys)"
| "memcmp _ _ = 0"

lemma memcmp_eq0: "length xs = length ys \<Longrightarrow> memcmp xs ys = 0 \<longleftrightarrow> xs = ys"
  by (induction xs ys rule: list_induct2) auto

lemma memcmp_less: "length xs = length ys \<Longrightarrow> memcmp xs ys < 0 \<longleftrightarrow> xs < ys"
  by (induction xs ys rule: list_induct2) auto

lemma memcmp_swap: "memcmp ys xs = - memcmp xs ys"
  by (induction xs ys rule: memcmp.induct) auto

text \<open>
  Comparing the reversed (most significant byte first) images of two equally long blocks
  is comparing the little-endian integers they hold.
\<close>

lemma lex_snoc_less:
  "length xs = length ys \<Longrightarrow>
   (xs @ [a] :: byte list) < ys @ [b] \<longleftrightarrow> xs < ys \<or> xs = ys \<and> a < b"
  by (induction xs ys rule: list_induct2) auto

lemma digit_less:
  "(x::nat) < 256 \<Longrightarrow> y < 256 \<Longrightarrow>
   x + 256 * a < y + 256 * b \<longleftrightarrow> a < b \<or> a = b \<and> x < y"
  by linarith

lemma of_le_less_rev:
  "length xs = length ys \<Longrightarrow> rev xs < rev ys \<longleftrightarrow> of_le xs < of_le ys"
proof (induction xs ys rule: list_induct2)
  case (Cons x xs y ys)
  have b: "unat x < 256" "unat y < 256" by (simp_all add: unat_byte_bound)
  have "rev xs = rev ys \<longleftrightarrow> of_le xs = of_le ys"
    using Cons.hyps by (auto intro: of_le_inj)
  moreover have "unat x + 256 * of_le xs < unat y + 256 * of_le ys \<longleftrightarrow>
      of_le xs < of_le ys \<or> of_le xs = of_le ys \<and> unat x < unat y"
    using b by (rule digit_less)
  ultimately show ?case
    using Cons by (simp add: lex_snoc_less word_less_nat_alt)
qed simp

section \<open>Decimal numbers\<close>

text \<open>The decimal digits of a number, as \<open>%d\<close> prints them.\<close>

fun show_nat :: "nat \<Rightarrow> byte list" where
  "show_nat n = (if n < 10 then [word_of_nat (48 + n)]
                 else show_nat (n div 10) @ [word_of_nat (48 + n mod 10)])"

declare show_nat.simps [simp del]

end
