(* ===== verification/KvInterface.thy ===== *)
theory KvInterface
  imports Prelude
begin

text \<open>
  The contract between the benchmarks and an index: lookups see the last insert of a key,
  removals make it disappear, and an insert only has to succeed while the index has room.
  The benchmark loops drive every index through the same operation list.
\<close>

section \<open>Operation lists\<close>

text \<open>
  The operations a worker loop issues (\<open>Op_Type\<close> of \<open>benchmark/synthetic/micro_common.h\<close>,
  without the scans): a read, an insert or a removal of one key.
\<close>

datatype ('k, 'v) kv_op = OpGet 'k | OpPut 'k 'v | OpDel 'k

fun put_count :: "('k, 'v) kv_op list \<Rightarrow> nat" where
  "put_count [] = 0"
| "put_count (OpPut k v # ops) = Suc (put_count ops)"
| "put_count (OpGet k # ops) = put_count ops"
| "put_count (OpDel k # ops) = put_count ops"

text \<open>Running a list on an index given by its operations; a read logs what it found.\<close>

fun run_index ::
  "('s \<Rightarrow> 'k \<Rightarrow> 'v option) \<Rightarrow> ('s \<Rightarrow> 'k \<Rightarrow> 'v \<Rightarrow> fault + 's \<times> bool) \<Rightarrow>
   ('s \<Rightarrow> 'k \<Rightarrow> fault + 's \<times> bool) \<Rightarrow> ('k, 'v) kv_op list \<Rightarrow> 's \<Rightarrow> fault + 's \<times> 'v option list" where
  "run_index g p d [] s = Inr (s, [])"
| "run_index g p d (OpGet k # ops) s =
     bindE (run_index g p d ops s) (\<lambda>(s', out). Inr (s', g s k # out))"
| "run_index g p d (OpPut k v # ops) s = bindE (p s k v) (\<lambda>(s', b). run_index g p d ops s')"
| "run_index g p d (OpDel k # ops) s = bindE (d s k) (\<lambda>(s', b). run_index g p d ops s')"

text \<open>The same list on a partial map: the specification.\<close>

fun run_map :: "('k, 'v) kv_op list \<Rightarrow> ('k \<rightharpoonup> 'v) \<Rightarrow> ('k \<rightharpoonup> 'v) \<times> 'v option list" where
  "run_map [] m = (m, [])"
| "run_map (OpGet k # ops) m = (let (m', out) = run_map ops m in (m', m k # out))"
| "run_map (OpPut k v # ops) m = run_map ops (m(k \<mapsto> v))"
| "run_map (OpDel k # ops) m = run_map ops (m(k := None))"

section \<open>The interface\<close>

text \<open>
  An index that can be read and written; and one from which keys can be removed as well. Not
  every wrapper implements the second.
\<close>

locale kv_store =
  fixes inv :: "'s \<Rightarrow> bool"
    and room :: "'s \<Rightarrow> nat \<Rightarrow> bool"
    and amap :: "'s \<Rightarrow> 'k \<Rightarrow> 'v option"
    and getf :: "'s \<Rightarrow> 'k \<Rightarrow> 'v option"
    and insf :: "'s \<Rightarrow> 'k \<Rightarrow> 'v \<Rightarrow> fault + 's \<times> bool"
  assumes get_law: "inv s \<Longrightarrow> getf s k = amap s k"
    and ins_law: "inv s \<Longrightarrow> room s (Suc n) \<Longrightarrow>
      \<exists>s' b. insf s k v = Inr (s', b) \<and> inv s' \<and> room s' n \<and> amap s' = (amap s)(k \<mapsto> v)"
begin

lemma get_after_ins:
  assumes "inv s" "room s (Suc n)" "insf s k v = Inr (s', b)"
  shows "getf s' k' = (if k' = k then Some v else getf s k')"
  using ins_law [OF assms(1,2), of k v] assms by (auto simp: get_law)

end

locale kv_index = kv_store inv room amap getf insf
  for inv :: "'s \<Rightarrow> bool" and room and amap :: "'s \<Rightarrow> 'k \<Rightarrow> 'v option" and getf and insf +
  fixes remf :: "'s \<Rightarrow> 'k \<Rightarrow> fault + 's \<times> bool"
  assumes rem_law: "inv s \<Longrightarrow> room s n \<Longrightarrow>
      \<exists>s' b. remf s k = Inr (s', b) \<and> inv s' \<and> room s' n \<and> amap s' = (amap s)(k := None)"
begin

lemma get_after_rem:
  assumes "inv s" "room s n" "remf s k = Inr (s', b)"
  shows "getf s' k' = (if k' = k then None else getf s k')"
  using rem_law [OF assms(1,2), of k] assms by (auto simp: get_law)

text \<open>
  Every operation list with no more inserts than there is room for runs without a fault,
  keeps the invariant and returns exactly what the map specification returns.
\<close>

lemma run_refines:
  "inv s \<Longrightarrow> room s (put_count ops) \<Longrightarrow>
   \<exists>s'. run_index getf insf remf ops s = Inr (s', snd (run_map ops (amap s))) \<and>
     inv s' \<and> amap s' = fst (run_map ops (amap s))"
proof (induction ops arbitrary: s)
  case (Cons op ops)
  show ?case
  proof (cases op)
    case (OpGet k)
    with Cons.prems Cons.IH [of s] show ?thesis
      by (auto simp: get_law split: prod.splits)
  next
    case (OpPut k v)
    with Cons.prems have "room s (Suc (put_count ops))" by simp
    with ins_law [OF Cons.prems(1) this, of k v] Cons.IH OpPut show ?thesis by fastforce
  next
    case (OpDel k)
    with Cons.prems have "room s (put_count ops)" by simp
    with rem_law [OF Cons.prems(1) this, of k] Cons.IH OpDel show ?thesis by fastforce
  qed
qed simp

end

end
