(* ===== verification/BufferKV.thy ===== *)
theory BufferKV
  imports KvInterface
begin

text \<open>
  \<open>src/src/kv/buffer.h\<close>: \<open>BufferKV\<close>, a sorted array of keys with a parallel array of values,
  binary search, in-place shifting on insert and remove, and reallocation when it is full.
  Sizes are \<open>size_t\<close> values far below \<open>2 ^ 63\<close>, modelled as \<open>nat\<close>; the two arrays have
  exactly the allocated length, so a copy or a write outside them is a fault.
\<close>

section \<open>State\<close>

text \<open>
  \<open>lock_ready\<close> records whether \<open>pthread_rwlock_init\<close> has run on \<open>lock\<close>.
\<close>

record ('k, 'v) buffer =
  record_n :: nat
  capacity_n :: nat
  keys :: "'k list"
  vals :: "'v list"
  lock_ready :: bool

text \<open>
  The constructors. \<open>new key_t[n]\<close> leaves elements that are not yet meaningful: they are
  the arguments \<open>jk\<close> and \<open>jv\<close>. The second constructor has its call of
  \<open>pthread_rwlock_init\<close> commented out.
\<close>

definition buffer_new :: "'k \<Rightarrow> 'v \<Rightarrow> ('k, 'v) buffer" where
  "buffer_new jk jv = \<lparr>record_n = 0, capacity_n = 1024,
     keys = replicate 1024 jk, vals = replicate 1024 jv, lock_ready = True\<rparr>"

definition buffer_init ::
  "'k \<Rightarrow> 'v \<Rightarrow> 'k list \<Rightarrow> 'v list \<Rightarrow> nat \<Rightarrow> fault + ('k, 'v) buffer" where
  "buffer_init jk jv init_keys init_vals capacity =
     (let n = length init_keys;
          cap = (if capacity < n then n else capacity)
      in if length init_vals < n then Inl OutOfBounds
         else Inr \<lparr>record_n = n, capacity_n = cap,
           keys = init_keys @ replicate (cap - n) jk,
           vals = take n init_vals @ replicate (cap - n) jv, lock_ready = False\<rparr>)"

definition buffer_size :: "('k, 'v) buffer \<Rightarrow> nat" where
  "buffer_size b = record_n b"

section \<open>Searches\<close>

text \<open>
  The loop of \<open>binary_search\<close>. The source keeps \<open>mid\<close> in a variable that is
  \<open>(search_begin + search_end) / 2\<close> whenever the loop condition is evaluated (initially
  \<open>record_n / 2\<close>); the model computes it there.
\<close>

function bs_loop :: "'k::linorder list \<Rightarrow> 'k \<Rightarrow> nat \<Rightarrow> nat \<Rightarrow> nat" where
  "bs_loop ks k search_begin search_end =
     (let mid = (search_begin + search_end) div 2
      in if search_end > search_begin
         then (if ks ! mid < k then bs_loop ks k (mid + 1) search_end
               else bs_loop ks k search_begin mid)
         else mid)"
  by pat_completeness auto
termination
  by (relation "measure (\<lambda>(ks, k, b, e). e - b)") auto

declare bs_loop.simps [simp del]

definition binary_search :: "('k::linorder, 'v) buffer \<Rightarrow> 'k \<Rightarrow> bool \<times> nat" where
  "binary_search b k =
     (let pos = bs_loop (keys b) k 0 (record_n b)
      in (pos < record_n b \<and> keys b ! pos = k, pos))"

fun ls_loop :: "'k list \<Rightarrow> 'k \<Rightarrow> nat \<Rightarrow> nat \<Rightarrow> bool \<times> nat" where
  "ls_loop ks k 0 i = (False, i)"
| "ls_loop ks k (Suc m) i = (if k = ks ! i then (True, i) else ls_loop ks k m (Suc i))"

definition linear_search :: "('k, 'v) buffer \<Rightarrow> 'k \<Rightarrow> bool \<times> nat" where
  "linear_search b k = ls_loop (keys b) k (record_n b) 0"

section \<open>Operations\<close>

definition buffer_get :: "('k::linorder, 'v) buffer \<Rightarrow> 'k \<Rightarrow> 'v option" where
  "buffer_get b k = (let (found, pos) = binary_search b k in
     if found then Some (vals b ! pos) else None)"

definition buffer_get_pos :: "('k::linorder, 'v) buffer \<Rightarrow> 'k \<Rightarrow> fault + nat" where
  "buffer_get_pos b k = (let (found, pos) = binary_search b k in
     if found then Inr pos else Inl AssertFailed)"

text \<open>
  The not-full branch shared by \<open>insert\<close> and \<open>insert_if_not_exst\<close>: shift the tail of both
  arrays one slot to the right and write the new record.
\<close>

definition shift_in :: "('k, 'v) buffer \<Rightarrow> nat \<Rightarrow> 'k \<Rightarrow> 'v \<Rightarrow> fault + ('k, 'v) buffer" where
  "shift_in b pos k v =
     bindE (blit (keys b) pos (keys b) (pos + 1) (record_n b - pos)) (\<lambda>ks.
     bindE (blit (vals b) pos (vals b) (pos + 1) (record_n b - pos)) (\<lambda>vs.
     bindE (array_write ks pos k) (\<lambda>ks.
     bindE (array_write vs pos v) (\<lambda>vs.
     Inr (b\<lparr>keys := ks, vals := vs, record_n := record_n b + 1\<rparr>)))))"

text \<open>
  The full branch: both arrays are reallocated with \<open>capacity_n >> 2\<close> elements, the two
  halves of the old arrays are copied around the new slot, and the slot is written.
\<close>

definition grow_in ::
  "'k \<Rightarrow> 'v \<Rightarrow> ('k, 'v) buffer \<Rightarrow> nat \<Rightarrow> 'k \<Rightarrow> 'v \<Rightarrow> fault + ('k, 'v) buffer" where
  "grow_in jk jv b pos k v =
     (let new_capacity = capacity_n b div 4;
          nk = replicate new_capacity jk;
          nv = replicate new_capacity jv
      in bindE (blit (keys b) 0 nk 0 pos) (\<lambda>nk.
         bindE (blit (vals b) 0 nv 0 pos) (\<lambda>nv.
         bindE (blit (keys b) pos nk (pos + 1) (record_n b - pos)) (\<lambda>nk.
         bindE (blit (vals b) pos nv (pos + 1) (record_n b - pos)) (\<lambda>nv.
         bindE (array_write nk pos k) (\<lambda>nk.
         bindE (array_write nv pos v) (\<lambda>nv.
         Inr (b\<lparr>keys := nk, vals := nv, capacity_n := new_capacity,
                record_n := record_n b + 1\<rparr>))))))))"

definition buffer_insert ::
  "'k \<Rightarrow> 'v \<Rightarrow> ('k::linorder, 'v) buffer \<Rightarrow> 'k \<Rightarrow> 'v \<Rightarrow> fault + ('k, 'v) buffer \<times> bool" where
  "buffer_insert jk jv b k v =
     bindE (guardE AssertFailed (record_n b \<le> capacity_n b)) (\<lambda>_.
     let (found, pos) = binary_search b k in
     bindE (guardE AssertFailed (pos \<le> capacity_n b)) (\<lambda>_.
     if found then bindE (array_write (vals b) pos v) (\<lambda>vs. Inr (b\<lparr>vals := vs\<rparr>, True))
     else bindE (if record_n b = capacity_n b then grow_in jk jv b pos k v
                 else shift_in b pos k v) (\<lambda>b'. Inr (b', True))))"

definition buffer_insert_if_not_exst ::
  "'k \<Rightarrow> 'v \<Rightarrow> ('k::linorder, 'v) buffer \<Rightarrow> 'k \<Rightarrow> 'v \<Rightarrow> fault + ('k, 'v) buffer \<times> bool" where
  "buffer_insert_if_not_exst jk jv b k v =
     bindE (guardE AssertFailed (record_n b \<le> capacity_n b)) (\<lambda>_.
     let (found, pos) = binary_search b k in
     bindE (guardE AssertFailed (pos \<le> capacity_n b)) (\<lambda>_.
     if found then Inr (b, False)
     else bindE (if record_n b = capacity_n b then grow_in jk jv b pos k v
                 else shift_in b pos k v) (\<lambda>b'. Inr (b', True))))"

definition buffer_remove ::
  "('k::linorder, 'v) buffer \<Rightarrow> 'k \<Rightarrow> fault + ('k, 'v) buffer \<times> bool" where
  "buffer_remove b k =
     bindE (guardE AssertFailed (record_n b \<le> capacity_n b)) (\<lambda>_.
     let (found, pos) = binary_search b k in
     if found then
       bindE (blit (keys b) (pos + 1) (keys b) pos (record_n b - pos - 1)) (\<lambda>ks.
       bindE (blit (vals b) (pos + 1) (vals b) pos (record_n b - pos - 1)) (\<lambda>vs.
       Inr (b\<lparr>keys := ks, vals := vs, record_n := record_n b - 1\<rparr>, True)))
     else Inr (b, False))"

definition buffer_scan_keys :: "('k, 'v) buffer \<Rightarrow> 'k list \<Rightarrow> 'k list" where
  "buffer_scan_keys b result = result @ map (\<lambda>i. keys b ! i) [0..<record_n b]"

section \<open>Invariant and abstraction\<close>

definition buffer_ok :: "('k::linorder, 'v) buffer \<Rightarrow> bool" where
  "buffer_ok b \<longleftrightarrow> record_n b \<le> capacity_n b \<and> length (keys b) = capacity_n b \<and>
     length (vals b) = capacity_n b \<and> ssorted (take (record_n b) (keys b))"

definition contents :: "('k, 'v) buffer \<Rightarrow> ('k \<times> 'v) list" where
  "contents b = zip (take (record_n b) (keys b)) (take (record_n b) (vals b))"

definition buffer_map :: "('k, 'v) buffer \<Rightarrow> 'k \<rightharpoonup> 'v" where
  "buffer_map b = map_of (contents b)"

section \<open>The searches find the lower bound\<close>

definition lower_bound_at :: "'k::linorder list \<Rightarrow> nat \<Rightarrow> 'k \<Rightarrow> nat \<Rightarrow> bool" where
  "lower_bound_at ks n k p \<longleftrightarrow>
     p \<le> n \<and> (\<forall>i<p. ks ! i < k) \<and> (\<forall>i. p \<le> i \<longrightarrow> i < n \<longrightarrow> k \<le> ks ! i)"

lemma bs_loop_lower_bound:
  assumes inc: "\<And>i j. i < j \<Longrightarrow> j < n \<Longrightarrow> ks ! i < ks ! j"
    and "b \<le> e" "e \<le> n" "\<And>i. i < b \<Longrightarrow> ks ! i < k" "\<And>i. e \<le> i \<Longrightarrow> i < n \<Longrightarrow> k \<le> ks ! i"
  shows "lower_bound_at ks n k (bs_loop ks k b e)"
  using assms(2-)
proof (induction "e - b" arbitrary: b e rule: less_induct)
  case less
  note unf = bs_loop.simps [of ks k b e]
  show ?case
  proof (cases "b < e")
    case False
    with less.prems(1) have "bs_loop ks k b e = e" by (simp add: bs_loop.simps [of ks k e e])
    with False less.prems show ?thesis by (simp add: lower_bound_at_def)
  next
    case True
    define mid where "mid = (b + e) div 2"
    from True have mid: "b \<le> mid" "mid < e" by (auto simp: mid_def)
    show ?thesis
    proof (cases "ks ! mid < k")
      case lt: True
      have "\<And>i. i < mid + 1 \<Longrightarrow> ks ! i < k"
        using lt inc mid less.prems(2) by (metis Suc_eq_plus1 dual_order.strict_trans2 less_Suc_eq order_less_trans)
      then have "lower_bound_at ks n k (bs_loop ks k (mid + 1) e)"
        using less.prems mid by (intro less.hyps) auto
      with True lt show ?thesis by (simp add: unf mid_def)
    next
      case ge: False
      have "\<And>i. mid \<le> i \<Longrightarrow> i < n \<Longrightarrow> k \<le> ks ! i"
        using ge inc by (metis le_neq_implies_less less_le_trans linorder_not_le order_less_imp_le)
      then have "lower_bound_at ks n k (bs_loop ks k b mid)"
        using less.prems mid by (intro less.hyps) auto
      with True ge show ?thesis by (simp add: unf mid_def)
    qed
  qed
qed

lemma buffer_ok_nth_less:
  assumes "buffer_ok b" "i < j" "j < record_n b"
  shows "keys b ! i < keys b ! j"
proof -
  have "ssorted (take (record_n b) (keys b))" "record_n b \<le> length (keys b)"
    using assms(1) by (auto simp: buffer_ok_def)
  then show ?thesis
    using assms(2,3) ssorted_nth_less [of "take (record_n b) (keys b)" i j] by simp
qed

lemma binary_search_lower_bound:
  "buffer_ok b \<Longrightarrow> binary_search b k = (found, pos) \<Longrightarrow>
   lower_bound_at (keys b) (record_n b) k pos \<and>
   (found \<longleftrightarrow> pos < record_n b \<and> keys b ! pos = k)"
  by (auto simp: binary_search_def Let_def intro!: bs_loop_lower_bound buffer_ok_nth_less)

lemma lower_bound_found:
  assumes "lower_bound_at ks n k p" and inc: "\<And>i j. i < j \<Longrightarrow> j < n \<Longrightarrow> ks ! i < ks ! j"
  shows "(\<exists>i<n. ks ! i = k) \<longleftrightarrow> p < n \<and> ks ! p = k"
proof
  assume "\<exists>i<n. ks ! i = k"
  then obtain i where i: "i < n" "ks ! i = k" by blast
  with assms have "p \<le> i" by (force simp: lower_bound_at_def not_less [symmetric])
  with i have "p < n" by simp
  with assms(1) have "k \<le> ks ! p" by (auto simp: lower_bound_at_def)
  moreover have "ks ! p \<le> ks ! i"
    using \<open>p \<le> i\<close> inc [of p i] i by (cases "p = i") auto
  ultimately show "p < n \<and> ks ! p = k" using i \<open>p < n\<close> by auto
qed blast

lemma ex_from_i:
  "(\<exists>j. i \<le> j \<and> j < i + Suc m \<and> P j) \<longleftrightarrow> P i \<or> (\<exists>j. Suc i \<le> j \<and> j < Suc i + m \<and> P j)"
proof -
  have "j = i \<or> Suc i \<le> j" if "i \<le> j" for j using that by linarith
  then show ?thesis by force
qed

lemma ls_loop_found:
  "fst (ls_loop ks k m i) \<longleftrightarrow> (\<exists>j. i \<le> j \<and> j < i + m \<and> ks ! j = k)"
proof (induction m arbitrary: i)
  case (Suc m)
  have "(\<exists>j. i \<le> j \<and> j < i + Suc m \<and> ks ! j = k) \<longleftrightarrow>
      ks ! i = k \<or> (\<exists>j. Suc i \<le> j \<and> j < Suc i + m \<and> ks ! j = k)"
    by (rule ex_from_i)
  with Suc show ?case by auto
qed simp

lemma ls_loop_pos:
  "ls_loop ks k m i = (True, p) \<Longrightarrow> i \<le> p \<and> p < i + m \<and> ks ! p = k"
  by (induction m arbitrary: i) (fastforce split: if_splits)+

section \<open>The array and the list of records\<close>

lemma length_contents [simp]:
  "buffer_ok b \<Longrightarrow> length (contents b) = record_n b"
  by (simp add: contents_def buffer_ok_def)

lemma map_fst_contents:
  "buffer_ok b \<Longrightarrow> map fst (contents b) = take (record_n b) (keys b)"
  by (simp add: contents_def buffer_ok_def)

lemma contents_nth:
  "buffer_ok b \<Longrightarrow> i < record_n b \<Longrightarrow> contents b ! i = (keys b ! i, vals b ! i)"
  by (simp add: contents_def buffer_ok_def)

lemma contents_map_at:
  assumes "buffer_ok b" "i < record_n b"
  shows "buffer_map b (keys b ! i) = Some (vals b ! i)"
proof -
  have "distinct (map fst (contents b))"
    using assms(1) by (simp add: map_fst_contents buffer_ok_def ssorted_distinct)
  moreover have "(keys b ! i, vals b ! i) \<in> set (contents b)"
    using assms by (metis contents_nth length_contents nth_mem)
  ultimately show ?thesis by (simp add: buffer_map_def)
qed

lemma buffer_map_None:
  assumes "buffer_ok b" "\<And>i. i < record_n b \<Longrightarrow> keys b ! i \<noteq> k"
  shows "buffer_map b k = None"
proof -
  have "k \<notin> fst ` set (contents b)"
    using assms by (auto simp: in_set_conv_nth contents_nth)
  then show ?thesis by (simp add: buffer_map_def map_of_eq_None_iff)
qed

lemma buffer_get_map:
  assumes ok: "buffer_ok b"
  shows "buffer_get b k = buffer_map b k"
proof (cases "binary_search b k")
  case (Pair found pos)
  note lb = binary_search_lower_bound [OF ok Pair]
  show ?thesis
  proof (cases found)
    case True
    with lb have "pos < record_n b" "keys b ! pos = k" by auto
    with contents_map_at [OF ok] True Pair show ?thesis by (auto simp: buffer_get_def)
  next
    case False
    with lb lower_bound_found [OF _ buffer_ok_nth_less [OF ok]]
    have "\<not> (\<exists>i<record_n b. keys b ! i = k)" by blast
    then have "buffer_map b k = None" by (intro buffer_map_None [OF ok]) blast
    with False Pair show ?thesis by (simp add: buffer_get_def)
  qed
qed

section \<open>Block copies as list insertion and deletion\<close>

lemma take_open_slot:
  assumes "p \<le> n" "n < length xs"
  shows "take (Suc n) ((take (p + 1) xs @ take (n - p) (drop p xs) @ drop (p + 1 + (n - p)) xs)[p := x])
    = take p (take n xs) @ x # drop p (take n xs)"
proof -
  define us where "us = take p xs"
  define ts where "ts = take (n - p) (drop p xs)"
  define ws where "ws = drop (p + 1 + (n - p)) xs"
  have 1: "take (p + 1) xs = us @ [xs ! p]"
    using assms by (simp add: take_Suc_conv_app_nth us_def)
  have 2: "length us = p" "length ts = n - p" using assms by (simp_all add: us_def ts_def)
  have 3: "(us @ [xs ! p] @ ts @ ws)[p := x] = us @ x # ts @ ws"
    using 2 by (simp add: list_update_append)
  have "take (Suc n) (us @ x # ts @ ws) = us @ x # ts"
    using 2 assms by (simp add: Suc_diff_le)
  moreover have "take p (take n xs) = us" "drop p (take n xs) = ts"
    using assms by (simp_all add: us_def ts_def min_def drop_take)
  ultimately show ?thesis
    unfolding 1 ts_def [symmetric] ws_def [symmetric] using 3 by simp
qed

lemma blit_open_slot:
  assumes "p \<le> n" "n < length xs"
  shows "\<exists>ys. blit xs p xs (p + 1) (n - p) = Inr ys \<and> length ys = length xs \<and>
    take (Suc n) (ys[p := x]) = take p (take n xs) @ x # drop p (take n xs)"
proof -
  let ?ys = "take (p + 1) xs @ take (n - p) (drop p xs) @ drop (p + 1 + (n - p)) xs"
  have "blit xs p xs (p + 1) (n - p) = Inr ?ys"
    using assms by (simp add: blit_def)
  moreover have "length ?ys = length xs" using assms by simp
  moreover have "take (Suc n) (?ys[p := x]) = take p (take n xs) @ x # drop p (take n xs)"
    using assms by (rule take_open_slot)
  ultimately show ?thesis by blast
qed

lemma blit_close_slot:
  assumes "p < n" "n \<le> length xs"
  shows "\<exists>ys. blit xs (p + 1) xs p (n - p - 1) = Inr ys \<and> length ys = length xs \<and>
    take (n - 1) ys = take p (take n xs) @ drop (Suc p) (take n xs)"
proof -
  let ?ys = "take p xs @ take (n - p - 1) (drop (p + 1) xs) @ drop (p + (n - p - 1)) xs"
  have "blit xs (p + 1) xs p (n - p - 1) = Inr ?ys"
    using assms by (simp add: blit_def)
  moreover have "length ?ys = length xs" using assms by simp
  moreover have "take (n - 1) ?ys = take p (take n xs) @ drop (Suc p) (take n xs)"
    using assms by (cases "n = Suc p") (auto simp: drop_take min_def)
  ultimately show ?thesis by blast
qed

lemma zip_insert_at:
  "length xs = length ys \<Longrightarrow>
   zip (take p xs @ x # drop p xs) (take p ys @ y # drop p ys)
   = take p (zip xs ys) @ (x, y) # drop p (zip xs ys)"
  by (simp add: zip_append take_zip drop_zip)

lemma zip_delete_at:
  "length xs = length ys \<Longrightarrow>
   zip (take p xs @ drop (Suc p) xs) (take p ys @ drop (Suc p) ys)
   = take p (zip xs ys) @ drop (Suc p) (zip xs ys)"
  by (simp add: zip_append take_zip drop_zip)

lemma ssorted_insert_at:
  assumes "ssorted xs" "\<forall>i<p. xs ! i < x" "\<forall>i. p \<le> i \<longrightarrow> i < length xs \<longrightarrow> x < xs ! i"
  shows "ssorted (take p xs @ x # drop p xs)"
proof -
  have "\<forall>a\<in>set (take p xs). a < x"
    using assms(2) by (auto simp: in_set_conv_nth)
  moreover have "\<forall>a\<in>set (drop p xs). x < a"
    using assms(3) by (auto simp: in_set_conv_nth)
  moreover have "\<forall>a\<in>set (take p xs). \<forall>c\<in>set (drop p xs). a < c"
    using calculation by (meson order_less_trans)
  moreover have "ssorted (take p xs)" "ssorted (drop p xs)"
    using assms(1) sorted_wrt_append [of "(<)" "take p xs" "drop p xs"] by auto
  ultimately show ?thesis by (auto simp: sorted_wrt_append)
qed

lemma ssorted_delete_at: "ssorted xs \<Longrightarrow> ssorted (take p xs @ drop (Suc p) xs)"
proof -
  assume "ssorted xs"
  then have "ssorted (take p xs @ drop p xs)" by simp
  then have "ssorted (take p xs)" "ssorted (drop p xs)"
      "\<forall>a\<in>set (take p xs). \<forall>c\<in>set (drop p xs). a < c"
    by (auto simp: sorted_wrt_append simp del: append_take_drop_id)
  moreover have "drop (Suc p) xs = drop 1 (drop p xs)" by simp
  ultimately show ?thesis
    by (metis sorted_wrt_append sorted_wrt_drop in_set_dropD)
qed

lemma map_of_insert_at:
  assumes "k \<notin> fst ` set ps"
  shows "map_of (take p ps @ (k, v) # drop p ps) = (map_of ps)(k \<mapsto> v)"
proof
  fix x
  have none: "map_of (take p ps) k = None"
    using assms by (auto simp: map_of_eq_None_iff dest: in_set_takeD)
  have "map_of ps x = (map_of (drop p ps) ++ map_of (take p ps)) x"
    by (metis append_take_drop_id map_of_append)
  with none show "map_of (take p ps @ (k, v) # drop p ps) x = ((map_of ps)(k \<mapsto> v)) x"
    by (auto simp: map_add_def split: option.splits)
qed

lemma map_of_delete_at:
  assumes "distinct (map fst ps)" "p < length ps" "ps ! p = (k, v)"
  shows "map_of (take p ps @ drop (Suc p) ps) = (map_of ps)(k := None)"
proof
  fix x
  have ps: "ps = take p ps @ (k, v) # drop (Suc p) ps"
    using assms(2,3) by (metis id_take_nth_drop)
  then have "distinct (map fst (take p ps @ (k, v) # drop (Suc p) ps))"
    using assms(1) by simp
  then have "map_of (take p ps) k = None" "map_of (drop (Suc p) ps) k = None"
    by (auto simp: map_of_eq_None_iff)
  moreover have "map_of ps x = (map_of ((k, v) # drop (Suc p) ps) ++ map_of (take p ps)) x"
    by (metis ps map_of_append)
  ultimately show "map_of (take p ps @ drop (Suc p) ps) x = ((map_of ps)(k := None)) x"
    by (auto simp: map_add_def split: option.splits)
qed

lemma map_of_update_at:
  assumes "distinct (map fst ps)" "p < length ps" "fst (ps ! p) = k"
  shows "map_of (ps[p := (k, v)]) = (map_of ps)(k \<mapsto> v)"
proof
  fix x
  have ps: "ps = take p ps @ ps ! p # drop (Suc p) ps"
    using assms(2) by (metis id_take_nth_drop)
  then have "distinct (map fst (take p ps @ ps ! p # drop (Suc p) ps))"
    using assms(1) by simp
  with assms(3) have "map_of (take p ps) k = None"
    by (auto simp: map_of_eq_None_iff)
  moreover have "map_of ps x = (map_of (ps ! p # drop (Suc p) ps) ++ map_of (take p ps)) x"
    by (metis ps map_of_append)
  moreover have "ps[p := (k, v)] = take p ps @ (k, v) # drop (Suc p) ps"
    using assms(2) by (simp add: upd_conv_take_nth_drop)
  ultimately show "map_of (ps[p := (k, v)]) x = ((map_of ps)(k \<mapsto> v)) x"
    using assms(3) by (cases "ps ! p") (auto simp: map_add_def split: option.splits)
qed

section \<open>What every operation does\<close>

lemma contents_split:
  "buffer_ok b \<Longrightarrow> contents b = zip (take (record_n b) (keys b)) (take (record_n b) (vals b))"
  by (simp add: contents_def)

lemma shift_in_ok:
  assumes ok: "buffer_ok b" and room: "record_n b < capacity_n b"
    and lb: "lower_bound_at (keys b) (record_n b) k pos"
    and new: "\<not> (pos < record_n b \<and> keys b ! pos = k)"
  shows "\<exists>b'. shift_in b pos k v = Inr b' \<and> buffer_ok b' \<and>
    record_n b' = Suc (record_n b) \<and> capacity_n b' = capacity_n b \<and>
    contents b' = take pos (contents b) @ (k, v) # drop pos (contents b)"
proof -
  let ?n = "record_n b"
  have p: "pos \<le> ?n" using lb by (simp add: lower_bound_at_def)
  have lens: "?n < length (keys b)" "?n < length (vals b)"
    using ok room by (simp_all add: buffer_ok_def)
  from blit_open_slot [OF p lens(1), of k] obtain ks where
    ks: "blit (keys b) pos (keys b) (pos + 1) (?n - pos) = Inr ks" "length ks = length (keys b)"
      "take (Suc ?n) (ks[pos := k]) = take pos (take ?n (keys b)) @ k # drop pos (take ?n (keys b))"
    by blast
  from blit_open_slot [OF p lens(2), of v] obtain vs where
    vs: "blit (vals b) pos (vals b) (pos + 1) (?n - pos) = Inr vs" "length vs = length (vals b)"
      "take (Suc ?n) (vs[pos := v]) = take pos (take ?n (vals b)) @ v # drop pos (take ?n (vals b))"
    by blast
  let ?b = "b\<lparr>keys := ks[pos := k], vals := vs[pos := v], record_n := ?n + 1\<rparr>"
  have "shift_in b pos k v = Inr ?b"
    using ks vs p lens by (simp add: shift_in_def)
  moreover have "ssorted (take (Suc ?n) (ks[pos := k]))"
    unfolding ks(3)
  proof (rule ssorted_insert_at)
    show "ssorted (take ?n (keys b))" using ok by (simp add: buffer_ok_def)
    show "\<forall>i<pos. take ?n (keys b) ! i < k" using lb p by (auto simp: lower_bound_at_def)
    have "k < keys b ! i" if "pos \<le> i" "i < ?n" for i
    proof (cases "i = pos")
      case True
      with lb new that show ?thesis by (auto simp: lower_bound_at_def order_less_le)
    next
      case False
      with that have "keys b ! pos < keys b ! i" by (intro buffer_ok_nth_less [OF ok]) auto
      moreover have "k \<le> keys b ! pos" using lb that by (auto simp: lower_bound_at_def)
      ultimately show ?thesis by simp
    qed
    then show "\<forall>i. pos \<le> i \<longrightarrow> i < length (take ?n (keys b)) \<longrightarrow> k < take ?n (keys b) ! i" by simp
  qed
  then have "buffer_ok ?b"
    using ok room ks(2) vs(2) by (simp add: buffer_ok_def)
  moreover have "contents ?b = take pos (contents b) @ (k, v) # drop pos (contents b)"
    using lens zip_insert_at [of "take ?n (keys b)" "take ?n (vals b)" pos k v]
    by (simp add: contents_def ks(3) vs(3) del: take_take)
  ultimately show ?thesis by (intro exI [of _ ?b]) simp
qed

lemma buffer_keys_distinct: "buffer_ok b \<Longrightarrow> distinct (map fst (contents b))"
  by (simp add: map_fst_contents buffer_ok_def ssorted_distinct)

lemma fst_contents_keys:
  "buffer_ok b \<Longrightarrow> k \<in> fst ` set (contents b) \<longleftrightarrow> (\<exists>i<record_n b. keys b ! i = k)"
  by (force simp: in_set_conv_nth contents_nth image_iff)

lemma buffer_map_dom:
  "buffer_ok b \<Longrightarrow> k \<in> dom (buffer_map b) \<longleftrightarrow> (\<exists>i<record_n b. keys b ! i = k)"
  by (metis buffer_map_def dom_map_of_conv_image_fst fst_contents_keys)

lemma binary_search_found:
  assumes ok: "buffer_ok b" and bs: "binary_search b k = (found, pos)"
  shows "found \<longleftrightarrow> k \<in> dom (buffer_map b)"
proof -
  from binary_search_lower_bound [OF ok bs]
  have lb: "lower_bound_at (keys b) (record_n b) k pos"
    and f: "found \<longleftrightarrow> pos < record_n b \<and> keys b ! pos = k" by auto
  have "(\<exists>i<record_n b. keys b ! i = k) \<longleftrightarrow> pos < record_n b \<and> keys b ! pos = k"
    by (rule lower_bound_found [OF lb]) (rule buffer_ok_nth_less [OF ok])
  with f show ?thesis by (simp add: buffer_map_dom [OF ok])
qed

lemma insert_new_ok:
  assumes ok: "buffer_ok b" and room: "record_n b < capacity_n b"
    and new: "k \<notin> dom (buffer_map b)" and bs: "binary_search b k = (found, pos)"
  shows "\<not> found \<and> (\<exists>b'. shift_in b pos k v = Inr b' \<and> buffer_ok b' \<and>
    record_n b' = Suc (record_n b) \<and> capacity_n b' = capacity_n b \<and>
    buffer_map b' = (buffer_map b)(k \<mapsto> v))"
proof -
  note lb = binary_search_lower_bound [OF ok bs]
  have nf: "\<not> (pos < record_n b \<and> keys b ! pos = k)"
    using new by (auto simp: buffer_map_dom [OF ok])
  with shift_in_ok [OF ok room _ nf, of v] lb obtain b' where
    b': "shift_in b pos k v = Inr b'" "buffer_ok b'" "record_n b' = Suc (record_n b)"
      "capacity_n b' = capacity_n b"
      "contents b' = take pos (contents b) @ (k, v) # drop pos (contents b)"
    by blast
  have "k \<notin> fst ` set (contents b)"
    using new ok by (simp add: buffer_map_dom fst_contents_keys)
  then have "buffer_map b' = (buffer_map b)(k \<mapsto> v)"
    unfolding buffer_map_def b'(5) by (rule map_of_insert_at)
  with b' nf lb show ?thesis by blast
qed

lemma update_found_ok:
  assumes ok: "buffer_ok b" and p: "pos < record_n b" "keys b ! pos = k"
  shows "buffer_ok (b\<lparr>vals := (vals b)[pos := v]\<rparr>) \<and>
    buffer_map (b\<lparr>vals := (vals b)[pos := v]\<rparr>) = (buffer_map b)(k \<mapsto> v)"
proof -
  have "contents (b\<lparr>vals := (vals b)[pos := v]\<rparr>) = (contents b)[pos := (k, v)]"
  proof (rule nth_equalityI)
    show "length (contents (b\<lparr>vals := (vals b)[pos := v]\<rparr>)) = length ((contents b)[pos := (k, v)])"
      by (simp add: contents_def)
    fix i assume "i < length (contents (b\<lparr>vals := (vals b)[pos := v]\<rparr>))"
    with ok p show "contents (b\<lparr>vals := (vals b)[pos := v]\<rparr>) ! i = (contents b)[pos := (k, v)] ! i"
      by (cases "i = pos") (auto simp: contents_def buffer_ok_def)
  qed
  then show ?thesis
    using ok p by (simp add: buffer_ok_def buffer_map_def)
      (simp add: map_of_update_at buffer_keys_distinct contents_nth buffer_ok_def)
qed

lemma buffer_insert_cases:
  assumes ok: "buffer_ok b" and bs: "binary_search b k = (found, pos)"
  shows "buffer_insert jk jv b k v =
    (if found then Inr (b\<lparr>vals := (vals b)[pos := v]\<rparr>, True)
     else bindE (if record_n b = capacity_n b then grow_in jk jv b pos k v
                 else shift_in b pos k v) (\<lambda>b'. Inr (b', True)))"
proof -
  note lb = binary_search_lower_bound [OF ok bs]
  then have "record_n b \<le> capacity_n b" "pos \<le> capacity_n b" "found \<Longrightarrow> pos < length (vals b)"
    using ok by (auto simp: lower_bound_at_def buffer_ok_def)
  then show ?thesis by (simp add: buffer_insert_def bs)
qed

lemma buffer_insert_ok:
  assumes ok: "buffer_ok b" and room: "k \<in> dom (buffer_map b) \<or> record_n b < capacity_n b"
  shows "\<exists>b'. buffer_insert jk jv b k v = Inr (b', True) \<and> buffer_ok b' \<and>
    buffer_map b' = (buffer_map b)(k \<mapsto> v) \<and> capacity_n b' = capacity_n b \<and>
    record_n b' = (if k \<in> dom (buffer_map b) then record_n b else Suc (record_n b))"
proof -
  obtain found pos where bs: "binary_search b k = (found, pos)" by fastforce
  note lb = binary_search_lower_bound [OF ok bs]
  have f: "found \<longleftrightarrow> k \<in> dom (buffer_map b)"
    by (rule binary_search_found [OF ok bs])
  show ?thesis
  proof (cases found)
    case True
    with lb f update_found_ok [OF ok, of pos k v] show ?thesis
      by (simp add: buffer_insert_cases [OF ok bs])
  next
    case False
    with room f have "record_n b < capacity_n b" "k \<notin> dom (buffer_map b)" by auto
    with insert_new_ok [OF ok this bs, of v] f False show ?thesis
      by (auto simp: buffer_insert_cases [OF ok bs])
  qed
qed

lemma grow_in_faults:
  assumes "buffer_ok b" "record_n b = capacity_n b" "pos \<le> record_n b"
  shows "grow_in jk jv b pos k v = Inl OutOfBounds"
  using assms by (auto simp: grow_in_def Let_def blit_def buffer_ok_def bindE_def)

lemma buffer_insert_full:
  assumes ok: "buffer_ok b" and "record_n b = capacity_n b" and "k \<notin> dom (buffer_map b)"
  shows "buffer_insert jk jv b k v = Inl OutOfBounds"
proof -
  obtain found pos where bs: "binary_search b k = (found, pos)" by fastforce
  note lb = binary_search_lower_bound [OF ok bs]
  then have "\<not> found" using assms(3) by (auto simp: buffer_map_dom [OF ok])
  with lb grow_in_faults [OF assms(1,2)] assms(2) show ?thesis
    by (simp add: buffer_insert_cases [OF ok bs] lower_bound_at_def)
qed

lemma buffer_insert_if_not_exst_eq:
  assumes ok: "buffer_ok b"
  shows "buffer_insert_if_not_exst jk jv b k v =
    (if k \<in> dom (buffer_map b) then Inr (b, False) else buffer_insert jk jv b k v)"
proof -
  obtain found pos where bs: "binary_search b k = (found, pos)" by fastforce
  note lb = binary_search_lower_bound [OF ok bs]
  have f: "found \<longleftrightarrow> k \<in> dom (buffer_map b)"
    by (rule binary_search_found [OF ok bs])
  have "record_n b \<le> capacity_n b" "pos \<le> capacity_n b"
    using ok lb by (auto simp: lower_bound_at_def buffer_ok_def)
  with f show ?thesis
    by (simp add: buffer_insert_if_not_exst_def buffer_insert_cases [OF ok bs] bs)
qed

lemma buffer_remove_ok:
  assumes ok: "buffer_ok b"
  shows "\<exists>b'. buffer_remove b k = Inr (b', k \<in> dom (buffer_map b)) \<and> buffer_ok b' \<and>
    buffer_map b' = (buffer_map b)(k := None) \<and> capacity_n b' = capacity_n b \<and>
    record_n b' \<le> record_n b"
proof -
  obtain found pos where bs: "binary_search b k = (found, pos)" by fastforce
  note lb = binary_search_lower_bound [OF ok bs]
  have f: "found \<longleftrightarrow> k \<in> dom (buffer_map b)"
    by (rule binary_search_found [OF ok bs])
  have cap: "record_n b \<le> capacity_n b" using ok by (simp add: buffer_ok_def)
  let ?n = "record_n b"
  show ?thesis
  proof (cases found)
    case False
    with f have "(buffer_map b)(k := None) = buffer_map b" by (auto simp: dom_def)
    with False f ok cap bs show ?thesis by (simp add: buffer_remove_def)
  next
    case True
    with lb have p: "pos < ?n" "keys b ! pos = k" by auto
    have lens: "?n \<le> length (keys b)" "?n \<le> length (vals b)" using ok by (simp_all add: buffer_ok_def)
    from blit_close_slot [OF p(1) lens(1)] obtain ks where
      ks: "blit (keys b) (pos + 1) (keys b) pos (?n - pos - 1) = Inr ks" "length ks = length (keys b)"
        "take (?n - 1) ks = take pos (take ?n (keys b)) @ drop (Suc pos) (take ?n (keys b))" by blast
    from blit_close_slot [OF p(1) lens(2)] obtain vs where
      vs: "blit (vals b) (pos + 1) (vals b) pos (?n - pos - 1) = Inr vs" "length vs = length (vals b)"
        "take (?n - 1) vs = take pos (take ?n (vals b)) @ drop (Suc pos) (take ?n (vals b))" by blast
    let ?b = "b\<lparr>keys := ks, vals := vs, record_n := ?n - 1\<rparr>"
    have "buffer_remove b k = Inr (?b, True)"
      using ks vs cap bs True by (simp add: buffer_remove_def)
    moreover have "buffer_ok ?b"
      using ok ks vs ssorted_delete_at [of "take ?n (keys b)" pos] by (auto simp: buffer_ok_def)
    moreover have "contents ?b = take pos (contents b) @ drop (Suc pos) (contents b)"
      using lens ks(3) vs(3) zip_delete_at [of "take ?n (keys b)" "take ?n (vals b)" pos]
      by (simp add: contents_def del: take_take One_nat_def)
    then have "buffer_map ?b = (buffer_map b)(k := None)"
      using map_of_delete_at [OF buffer_keys_distinct [OF ok], of pos k "vals b ! pos"] p ok
      by (simp add: buffer_map_def contents_nth)
    ultimately show ?thesis using f True by (intro exI [of _ ?b]) simp
  qed
qed

section \<open>The buffer provides the index interface while it is not full\<close>

definition buffer_room :: "('k, 'v) buffer \<Rightarrow> nat \<Rightarrow> bool" where
  "buffer_room b n \<longleftrightarrow> record_n b + n \<le> capacity_n b"

interpretation buf: kv_index buffer_ok buffer_room buffer_map buffer_get
  "buffer_insert jk jv" buffer_remove for jk :: "'k::linorder" and jv :: 'v
proof
  fix b :: "('k, 'v) buffer" and k v n
  assume ok: "buffer_ok b"
  show "buffer_get b k = buffer_map b k" by (rule buffer_get_map [OF ok])
  { assume "buffer_room b (Suc n)"
    then have room: "record_n b < capacity_n b" "record_n b + Suc n \<le> capacity_n b"
      by (simp_all add: buffer_room_def)
    with buffer_insert_ok [OF ok, of k jk jv v]
    show "\<exists>s' b'. buffer_insert jk jv b k v = Inr (s', b') \<and> buffer_ok s' \<and> buffer_room s' n \<and>
        buffer_map s' = (buffer_map b)(k \<mapsto> v)"
      by (fastforce simp: buffer_room_def split: if_splits) }
  { assume "buffer_room b n"
    with buffer_remove_ok [OF ok, of k]
    show "\<exists>s' b'. buffer_remove b k = Inr (s', b') \<and> buffer_ok s' \<and> buffer_room s' n \<and>
        buffer_map s' = (buffer_map b)(k := None)"
      by (fastforce simp: buffer_room_def) }
qed

section \<open>Properties\<close>

text \<open>C29: the two searches of the buffer are equivalent on every well-formed buffer: the binary
  search reports a match exactly when the linear one does, at the same position, and on a miss
  it returns the insertion point (all smaller keys before it, all larger keys from it on).\<close>

theorem binary_linear_search_equiv:
  assumes "buffer_ok b"
  shows "fst (binary_search b k) = fst (linear_search b k) \<and>
    (fst (linear_search b k) \<longrightarrow> binary_search b k = linear_search b k) \<and>
    lower_bound_at (keys b) (record_n b) k (snd (binary_search b k))"
proof -
  obtain found pos where bs: "binary_search b k = (found, pos)" by fastforce
  obtain lfound lpos where ls: "linear_search b k = (lfound, lpos)" by fastforce
  note lb = binary_search_lower_bound [OF assms bs]
  have "lfound \<longleftrightarrow> found"
    using ls_loop_found [of "keys b" k "record_n b" 0] ls binary_search_found [OF assms bs]
    by (auto simp: linear_search_def buffer_map_dom [OF assms])
  moreover have "lpos = pos" if lfound
  proof -
    from that ls have "lpos < record_n b" "keys b ! lpos = k"
      using ls_loop_pos [of "keys b" k "record_n b" 0 lpos] by (auto simp: linear_search_def)
    with lb that calculation buffer_ok_nth_less [OF assms] show ?thesis
      by (metis linorder_neqE_nat order_less_irrefl)
  qed
  ultimately show ?thesis using bs ls lb by auto
qed

definition sample_buffer :: "(nat, nat) buffer" where
  "sample_buffer = \<lparr>record_n = 2, capacity_n = 4, keys = [3, 7, 0, 0], vals = [30, 70, 0, 0],
     lock_ready = True\<rparr>"

lemma sample_buffer_ok: "buffer_ok sample_buffer"
  by (simp add: sample_buffer_def buffer_ok_def numeral_2_eq_2)

lemma binary_linear_search_equiv_witness:
  "buffer_ok sample_buffer \<and> fst (binary_search sample_buffer 7) = fst (linear_search sample_buffer 7)"
  using sample_buffer_ok binary_linear_search_equiv [OF sample_buffer_ok, of 7] by blast

text \<open>C1: any sequence of reads, inserts and removals with no more inserts than free slots runs
  on the array without a fault, keeps it sorted and well formed, and every read returns exactly
  what the same sequence returns on a partial map.\<close>

theorem buffer_run_refines_map:
  assumes "buffer_ok b" and "record_n b + put_count ops \<le> capacity_n b"
  shows "\<exists>b'. run_index buffer_get (buffer_insert jk jv) buffer_remove ops b
      = Inr (b', snd (run_map ops (buffer_map b))) \<and>
    buffer_ok b' \<and> buffer_map b' = fst (run_map ops (buffer_map b))"
  using assms by (intro buf.run_refines) (simp_all add: buffer_room_def)

lemma buffer_run_refines_map_witness:
  "\<exists>b'. run_index buffer_get (buffer_insert 0 0) buffer_remove
      [OpPut 5 50, OpDel 3, OpGet 5, OpGet 3] sample_buffer = Inr (b', [Some 50, None])"
proof -
  have "record_n sample_buffer + put_count [OpPut 5 50, OpDel 3, OpGet 5, OpGet (3::nat)]
      \<le> capacity_n sample_buffer" by (simp add: sample_buffer_def)
  from buffer_run_refines_map [OF sample_buffer_ok this, of 0 0] show ?thesis by auto
qed

text \<open>C30: inserting a new key into a full buffer always leaves the arrays: the reallocation
  asks for \<open>capacity_n >> 2\<close> slots, a quarter of the old size instead of a larger array, and the
  copies around the new slot run past it, whatever the capacity.\<close>

theorem full_insert_overflows:
  assumes "buffer_ok b" and "record_n b = capacity_n b" and "buffer_map b k = None"
  shows "buffer_insert jk jv b k v = Inl OutOfBounds \<and>
    buffer_insert_if_not_exst jk jv b k v = Inl OutOfBounds"
  using assms by (simp add: buffer_insert_full buffer_insert_if_not_exst_eq dom_def)

lemma full_insert_overflows_witness:
  "let b = \<lparr>record_n = 2, capacity_n = 2, keys = [3, 7], vals = [30, 70], lock_ready = True\<rparr>
   in buffer_insert (0::nat) (0::nat) b 5 50 = Inl OutOfBounds"
proof -
  let ?b = "\<lparr>record_n = 2, capacity_n = 2, keys = [3, 7], vals = [30, 70], lock_ready = True\<rparr>
    :: (nat, nat) buffer"
  have "buffer_ok ?b" by (simp add: buffer_ok_def numeral_2_eq_2)
  moreover have "buffer_map ?b 5 = None" by (simp add: buffer_map_def contents_def numeral_2_eq_2)
  ultimately show ?thesis using full_insert_overflows [of ?b 5 0 0 50] by (simp add: Let_def)
qed

end
