(* ===== verification/OrderedStore.thy ===== *)
theory OrderedStore
  imports KvInterface
begin

text \<open>
  What an ordered index promises: a finite map whose records are held in key order, so that a
  scan from a key returns the records from that key on. This is the contract under which the
  benchmarks use \<open>MasstreeKV\<close>; the byte-string instance is the contract of the vendored
  Masstree itself, and \<open>KvWrappers\<close> connects the two.
\<close>

section \<open>The store\<close>

type_synonym ('k, 'v) ostore = "('k \<times> 'v) list"

definition os_empty :: "('k, 'v) ostore" where
  "os_empty = []"

fun os_get :: "('k, 'v) ostore \<Rightarrow> 'k \<Rightarrow> 'v option" where
  "os_get [] k = None"
| "os_get ((k', v) # s) k = (if k = k' then Some v else os_get s k)"

fun os_insert :: "('k::linorder, 'v) ostore \<Rightarrow> 'k \<Rightarrow> 'v \<Rightarrow> ('k, 'v) ostore" where
  "os_insert [] k v = [(k, v)]"
| "os_insert ((k', v') # s) k v =
     (if k < k' then (k, v) # (k', v') # s
      else if k = k' then (k, v) # s
      else (k', v') # os_insert s k v)"

fun os_remove :: "('k, 'v) ostore \<Rightarrow> 'k \<Rightarrow> ('k, 'v) ostore" where
  "os_remove [] k = []"
| "os_remove ((k', v) # s) k = (if k = k' then s else (k', v) # os_remove s k)"

definition os_scan :: "('k::linorder, 'v) ostore \<Rightarrow> 'k \<Rightarrow> nat \<Rightarrow> ('k \<times> 'v) list" where
  "os_scan s k n = take n (dropWhile (\<lambda>(k', v). k' < k) s)"

definition os_range :: "('k::linorder, 'v) ostore \<Rightarrow> 'k \<Rightarrow> 'k \<Rightarrow> ('k \<times> 'v) list" where
  "os_range s lo hi = takeWhile (\<lambda>(k', v). k' < hi) (dropWhile (\<lambda>(k', v). k' < lo) s)"

definition os_ok :: "('k::linorder, 'v) ostore \<Rightarrow> bool" where
  "os_ok s \<longleftrightarrow> ssorted (map fst s)"

definition os_keys :: "('k, 'v) ostore \<Rightarrow> 'k set" where
  "os_keys s = fst ` set s"

named_theorems os_simps \<open>lookups after updates of an ordered store\<close>

section \<open>Lookups and updates\<close>

lemma os_ok_Nil [simp]: "os_ok []" "os_ok os_empty"
  by (simp_all add: os_ok_def os_empty_def)

lemma os_ok_Cons: "os_ok ((k, v) # s) \<longleftrightarrow> (\<forall>k'\<in>os_keys s. k < k') \<and> os_ok s"
  by (auto simp: os_ok_def os_keys_def)

lemma os_keys_simps [simp]: "os_keys [] = {}" "os_keys ((k, v) # s) = insert k (os_keys s)"
  by (simp_all add: os_keys_def)

lemma os_get_eq_map_of: "os_get s k = map_of s k"
  by (induction s k rule: os_get.induct) auto

lemma os_get_None: "os_get s k = None \<longleftrightarrow> k \<notin> os_keys s"
  by (induction s k rule: os_get.induct) auto

lemma os_get_Some_keys: "os_get s k = Some v \<Longrightarrow> k \<in> os_keys s"
  by (metis option.distinct(1) os_get_None)

lemma os_keys_insert [simp]: "os_keys (os_insert s k v) = insert k (os_keys s)"
  by (induction s k v rule: os_insert.induct) auto

lemma os_keys_remove: "os_ok s \<Longrightarrow> os_keys (os_remove s k) = os_keys s - {k}"
  by (induction s k rule: os_remove.induct) (auto simp: os_ok_Cons)

lemma os_ok_insert [simp]: "os_ok s \<Longrightarrow> os_ok (os_insert s k v)"
  by (induction s k v rule: os_insert.induct) (auto simp: os_ok_Cons)

lemma os_ok_remove [simp]: "os_ok s \<Longrightarrow> os_ok (os_remove s k)"
  by (induction s k rule: os_remove.induct) (auto simp: os_ok_Cons os_keys_remove)

lemma os_get_insert [simp, os_simps]:
  "os_get (os_insert s k v) k' = (if k' = k then Some v else os_get s k')"
  by (induction s k v rule: os_insert.induct) auto

lemma os_get_remove [simp, os_simps]:
  "os_ok s \<Longrightarrow> os_get (os_remove s k) k' = (if k' = k then None else os_get s k')"
  by (induction s k rule: os_remove.induct) (auto simp: os_ok_Cons os_get_None)

lemma os_get_in_set: "os_ok s \<Longrightarrow> os_get s k = Some v \<longleftrightarrow> (k, v) \<in> set s"
  by (simp add: os_get_eq_map_of os_ok_def strict_sorted_iff)

section \<open>Scans\<close>

lemma dropWhile_less_filter:
  "os_ok s \<Longrightarrow> dropWhile (\<lambda>(k', v). k' < k) s = filter (\<lambda>(k', v). k \<le> k') s"
proof (induction s)
  case (Cons x s)
  obtain k' v where x: "x = (k', v)" by fastforce
  show ?case
  proof (cases "k' < k")
    case False
    with Cons.prems x have "\<forall>y\<in>set s. k \<le> fst y"
      by (force simp: os_ok_Cons os_keys_def)
    then have "filter (\<lambda>(k', v). k \<le> k') s = s" by (intro filter_True) auto
    with False x show ?thesis by auto
  qed (use Cons x in \<open>auto simp: os_ok_Cons\<close>)
qed simp

text \<open>A scan returns the first \<open>n\<close> records whose key is at least \<open>k\<close>, in key order.\<close>

lemma os_scan_eq: "os_ok s \<Longrightarrow> os_scan s k n = take n (filter (\<lambda>(k', v). k \<le> k') s)"
  by (simp add: os_scan_def dropWhile_less_filter)

lemma os_scan_mem:
  assumes "os_ok s" "(k', v) \<in> set (os_scan s k n)"
  shows "k \<le> k' \<and> os_get s k' = Some v"
  using assms by (auto simp: os_scan_eq os_get_in_set dest!: in_set_takeD)

lemma os_scan_length: "length (os_scan s k n) \<le> n"
  by (simp add: os_scan_def)

lemma os_ok_filter: "os_ok s \<Longrightarrow> os_ok (filter P s)"
  by (induction s) (auto simp: os_ok_def)

lemma os_ok_take: "os_ok s \<Longrightarrow> os_ok (take n s)"
  unfolding os_ok_def take_map [symmetric] by (rule sorted_wrt_take)

lemma os_scan_sorted: "os_ok s \<Longrightarrow> os_ok (os_scan s k n)"
  by (simp add: os_scan_eq os_ok_filter os_ok_take)

text \<open>
  A record at or after the start key is in the scan exactly when fewer than \<open>n\<close> records lie
  between the start key and it.
\<close>

lemma os_scan_complete:
  assumes "os_ok s" "os_get s k' = Some v" "k \<le> k'"
    and "length (filter (\<lambda>(x, _). k \<le> x \<and> x < k') s) < n"
  shows "(k', v) \<in> set (os_scan s k n)"
proof -
  let ?f = "filter (\<lambda>(x, _). k \<le> x) s"
  have "(k', v) \<in> set ?f" using assms by (simp add: os_get_in_set)
  then obtain i where i: "i < length ?f" "?f ! i = (k', v)" by (metis in_set_conv_nth)
  have ok: "os_ok ?f" using assms(1) by (rule os_ok_filter)
  have "\<forall>j<i. fst (?f ! j) < k'"
    using ok i ssorted_nth_less [of "map fst ?f"] by (fastforce simp: os_ok_def)
  then have "filter (\<lambda>(x, _). x < k') (take i ?f) = take i ?f"
    by (intro filter_True) (force simp: in_set_conv_nth)
  then have "i \<le> length (filter (\<lambda>(x, _). x < k') ?f)"
    using i(1) by (metis append_take_drop_id filter_append le_add1 length_append length_take
        less_imp_le min.absorb2 min.commute)
  also have "filter (\<lambda>(x, _). x < k') ?f = filter (\<lambda>(x, _). k \<le> x \<and> x < k') s"
    by (auto simp: intro!: filter_cong)
  finally have "i < n" using assms(4) by simp
  with i have "take n ?f ! i = (k', v)" "i < length (take n ?f)" by auto
  then show ?thesis using assms(1) by (metis nth_mem os_scan_eq)
qed

section \<open>Order embeddings commute with the operations\<close>

definition os_image :: "('k \<Rightarrow> 'l) \<Rightarrow> ('k, 'v) ostore \<Rightarrow> ('l, 'v) ostore" where
  "os_image f s = map (\<lambda>(k, v). (f k, v)) s"

lemma os_image_simps [simp]:
  "os_image f [] = []" "os_image f ((k, v) # s) = (f k, v) # os_image f s"
  by (simp_all add: os_image_def)

lemma os_image_get: "inj f \<Longrightarrow> os_get (os_image f s) (f k) = os_get s k"
  by (induction s k rule: os_get.induct) (auto simp: inj_eq)

lemma os_image_remove: "inj f \<Longrightarrow> os_remove (os_image f s) (f k) = os_image f (os_remove s k)"
  by (induction s k rule: os_remove.induct) (auto simp: inj_eq)

lemma os_image_insert:
  fixes f :: "'k::linorder \<Rightarrow> 'l::linorder"
  assumes "\<And>x y. f x < f y \<longleftrightarrow> x < y"
  shows "os_insert (os_image f s) (f k) v = os_image f (os_insert s k v)"
proof -
  have "f x = f y \<longleftrightarrow> x = y" for x y
    using assms by (metis less_irrefl linorder_less_linear)
  with assms show ?thesis by (induction s k v rule: os_insert.induct) auto
qed

lemma os_image_scan:
  fixes f :: "'k::linorder \<Rightarrow> 'l::linorder" and s :: "('k, 'v) ostore"
  assumes "\<And>x y. f x < f y \<longleftrightarrow> x < y"
  shows "os_scan (os_image f s) (f k) n = map (\<lambda>(k, v). (f k, v)) (os_scan s k n)"
proof -
  have "(\<lambda>(k', v). k' < f k) \<circ> (\<lambda>(k, v). (f k, v)) = (\<lambda>(k' :: 'k, v :: 'v). k' < k)"
    using assms by auto
  then show ?thesis by (simp add: os_scan_def os_image_def dropWhile_map take_map)
qed

section \<open>The store as an index\<close>

definition os_put :: "('k::linorder, 'v) ostore \<Rightarrow> 'k \<Rightarrow> 'v \<Rightarrow> fault + ('k, 'v) ostore \<times> bool" where
  "os_put s k v = Inr (os_insert s k v, True)"

definition os_del :: "('k::linorder, 'v) ostore \<Rightarrow> 'k \<Rightarrow> fault + ('k, 'v) ostore \<times> bool" where
  "os_del s k = Inr (os_remove s k, True)"

interpretation os: kv_index os_ok "\<lambda>_ _. True" os_get os_get os_put os_del
  by unfold_locales (auto simp: os_put_def os_del_def)

end
