(* ===== verification/KeyCodec.thy ===== *)
theory KeyCodec
  imports OrderedStore
begin

text \<open>
  How a C++ key becomes the byte string an index stores. The key structs are packed, so a key
  is its memory image; \<open>to_str_key\<close> reverses that image on a little-endian machine, so that
  comparing strings byte by byte compares the integers the key holds.
\<close>

section \<open>Byte reversal\<close>

text \<open>The loop \<open>reverse[byte_i] = this[sizeof - byte_i - 1]\<close> of every \<open>to_str_key\<close>.\<close>

definition reverse_bytes :: "byte list \<Rightarrow> byte list" where
  "reverse_bytes bs = map (\<lambda>byte_i. bs ! (length bs - byte_i - 1)) [0..<length bs]"

lemma reverse_bytes_rev: "reverse_bytes bs = rev bs"
  by (rule nth_equalityI) (simp_all add: reverse_bytes_def rev_nth)

text \<open>
  \<open>little_endian()\<close> of \<open>helper.h\<close>: the first byte of the \<open>int\<close> 1. The memory model of this
  development is little-endian.
\<close>

definition little_endian :: bool where
  "little_endian = (hd (wbytes (1 :: u32)) = 1)"

lemma little_endian [simp]: "little_endian = True"
proof -
  have "LENGTH(32) div 8 = Suc 3" by simp
  then have "wbytes (1 :: u32) = le_nat (Suc 3) 1" by (simp only: wbytes_def unsigned_1)
  then show ?thesis by (simp only: little_endian_def le_nat.simps list.sel of_nat_1 simp_thms)
qed

definition str_key_of :: "('k \<Rightarrow> byte list) \<Rightarrow> (byte list \<Rightarrow> 'k) \<Rightarrow> 'k \<Rightarrow> 'k" where
  "str_key_of pack unpack k =
     (if little_endian then unpack (reverse_bytes (pack k)) else k)"

text \<open>\<open>memset(&k, b, sizeof(k))\<close> on a key.\<close>

definition memset_key :: "(byte list \<Rightarrow> 'k) \<Rightarrow> nat \<Rightarrow> byte \<Rightarrow> 'k" where
  "memset_key unpack n b = unpack (replicate n b)"

section \<open>Packed keys\<close>

locale packed_key =
  fixes pack :: "'k \<Rightarrow> byte list" and unpack :: "byte list \<Rightarrow> 'k" and size_of :: nat
  assumes length_pack: "length (pack k) = size_of"
    and unpack_pack: "unpack (pack k) = k"
    and pack_unpack: "length bs = size_of \<Longrightarrow> pack (unpack bs) = bs"
begin

lemma pack_inject: "pack k = pack l \<longleftrightarrow> k = l"
  by (metis unpack_pack)

lemma pack_str_key: "pack (str_key_of pack unpack k) = rev (pack k)"
  by (simp add: str_key_of_def reverse_bytes_rev pack_unpack length_pack)

lemma str_key_involutive: "str_key_of pack unpack (str_key_of pack unpack k) = k"
  by (metis pack_str_key pack_inject rev_rev_ident)

lemma pack_memset: "pack (memset_key unpack size_of b) = replicate size_of b"
  by (simp add: memset_key_def pack_unpack)

lemma str_key_memset:
  "str_key_of pack unpack (memset_key unpack size_of b) = memset_key unpack size_of b"
  by (metis pack_inject pack_memset pack_str_key rev_replicate)

end

text \<open>
  Keys compared as the unsigned integer their bytes hold: the reversed image is an order
  embedding into byte strings, and the all-zero and all-one images are the least and the
  greatest key.
\<close>

locale ordered_key = packed_key pack unpack size_of
  for pack :: "'k::linorder \<Rightarrow> byte list" and unpack and size_of +
  assumes less_pack: "k < l \<longleftrightarrow> of_le (pack k) < of_le (pack l)"
begin

lemma str_key_less:
  "pack (str_key_of pack unpack k) < pack (str_key_of pack unpack l) \<longleftrightarrow> k < l"
  by (simp add: pack_str_key of_le_less_rev length_pack less_pack)

lemma str_key_memcmp:
  "memcmp (pack (str_key_of pack unpack k)) (pack (str_key_of pack unpack l)) < 0 \<longleftrightarrow> k < l"
  by (simp add: memcmp_less length_pack str_key_less)

lemma less_eq_pack: "k \<le> l \<longleftrightarrow> of_le (pack k) \<le> of_le (pack l)"
  by (meson less_pack not_le)

lemma memset_least: "memset_key unpack size_of 0 \<le> k"
proof -
  have "of_le (replicate n 0) = 0" for n by (induction n) simp_all
  then show ?thesis by (simp add: less_eq_pack pack_memset)
qed

lemma memset_greatest: "k \<le> memset_key unpack size_of 255"
proof -
  have "Suc (of_le (replicate n 255)) = 256 ^ n" for n by (induction n) simp_all
  then show ?thesis
    using of_le_bound [of "pack k"]
    by (metis length_pack less_Suc_eq_le less_eq_pack pack_memset)
qed

end

section \<open>Keys of an index\<close>

text \<open>
  What an index wrapper needs of a key type: an order-preserving encoding into byte strings
  with a left inverse.
\<close>

locale index_key =
  fixes enc :: "'k::linorder \<Rightarrow> byte list" and dec :: "byte list \<Rightarrow> 'k"
  assumes dec_enc: "dec (enc k) = k"
    and enc_less: "enc k < enc l \<longleftrightarrow> k < l"
begin

lemma enc_inj: "inj enc"
  by (metis dec_enc injI)

lemma image_get: "os_get (os_image enc s) (enc k) = os_get s k"
  by (rule os_image_get [OF enc_inj])

lemma image_insert: "os_insert (os_image enc s) (enc k) v = os_image enc (os_insert s k v)"
  by (rule os_image_insert) (rule enc_less)

lemma image_remove: "os_remove (os_image enc s) (enc k) = os_image enc (os_remove s k)"
  by (rule os_image_remove [OF enc_inj])

lemma image_scan:
  "map (\<lambda>(b, v). (dec b, v)) (os_scan (os_image enc s) (enc k) n) = os_scan s k n"
  using os_image_scan [of enc s k n] enc_less by (simp add: split_beta comp_def dec_enc)

end

text \<open>The encoding of the integer keys: the image of \<open>to_str_key\<close>, read back by \<open>to_normal_key\<close>.\<close>

definition str_enc :: "('k \<Rightarrow> byte list) \<Rightarrow> (byte list \<Rightarrow> 'k) \<Rightarrow> 'k \<Rightarrow> byte list" where
  "str_enc pack unpack k = pack (str_key_of pack unpack k)"

definition str_dec :: "('k \<Rightarrow> byte list) \<Rightarrow> (byte list \<Rightarrow> 'k) \<Rightarrow> byte list \<Rightarrow> 'k" where
  "str_dec pack unpack bs = str_key_of pack unpack (unpack bs)"

sublocale ordered_key \<subseteq> index_key "str_enc pack unpack" "str_dec pack unpack"
  by unfold_locales
    (simp_all add: str_enc_def str_dec_def unpack_pack str_key_involutive str_key_less)

section \<open>Layouts\<close>

text \<open>Packing and reading consecutive integer fields.\<close>

lemma take_wbytes_append [byte_simps]:
  "n = LENGTH('a) div 8 \<Longrightarrow> take n (wbytes (w :: 'a::len word) @ bs) = wbytes w"
  by simp

lemma drop_wbytes_append [byte_simps]:
  "n = LENGTH('a) div 8 \<Longrightarrow> drop n (wbytes (w :: 'a::len word) @ bs) = bs"
  by simp

lemma of_le_word_append:
  assumes "8 dvd LENGTH('a)"
  shows "of_le (wbytes (w :: 'a::len word) @ bs) = unat w + 2 ^ LENGTH('a) * of_le bs"
proof -
  have "(256::nat) ^ (LENGTH('a) div 8) = 2 ^ (8 * (LENGTH('a) div 8))"
    by (simp add: power_mult)
  with assms show ?thesis by (simp add: of_le_append of_le_wbytes)
qed

lemma less_digit_word:
  "unat (w :: 'a::len word) + 2 ^ LENGTH('a) * a < unat w' + 2 ^ LENGTH('a) * b \<longleftrightarrow>
   a < b \<or> a = b \<and> w < w'"
proof -
  have b: "unat w < 2 ^ LENGTH('a)" "unat w' < 2 ^ LENGTH('a)" by (rule unsigned_less)+
  show ?thesis
  proof (cases a b rule: linorder_cases)
    case less
    then have "2 ^ LENGTH('a) * a + 2 ^ LENGTH('a) \<le> 2 ^ LENGTH('a) * b"
      by (metis Suc_leI mult_Suc_right add.commute mult_le_mono2)
    with less b show ?thesis by linarith
  next
    case greater
    then have "2 ^ LENGTH('a) * b + 2 ^ LENGTH('a) \<le> 2 ^ LENGTH('a) * a"
      by (metis Suc_leI mult_Suc_right add.commute mult_le_mono2)
    with greater b show ?thesis by linarith
  qed (simp add: word_less_nat_alt)
qed

end
