(* ===== verification/Floats.thy ===== *)
theory Floats
  imports Complex_Main "HOL-Library.Log_Nat" "HOL-Library.Word"
begin

text \<open>
  Binary floating point as the benchmarks use it: a \<open>float\<close> or \<open>double\<close> is the rational it
  denotes, and every operation rounds its exact result to 24 or 53 significant bits, ties to
  even. The exponent range is not modelled: the values of the benchmarks (money amounts, rates,
  probabilities, identifiers) stay far inside the normal range, so no operation overflows or
  becomes subnormal.
\<close>

section \<open>Rounding\<close>

definition round_even :: "rat \<Rightarrow> int" where
  "round_even y =
     (let f = \<lfloor>y\<rfloor>; d = y - of_int f
      in if d < 1 / 2 then f else if 1 / 2 < d then f + 1 else if even f then f else f + 1)"

text \<open>The exponent of the leading bit of a positive rational.\<close>

definition ilog2 :: "rat \<Rightarrow> int" where
  "ilog2 x =
     (let (n, d) = quotient_of x; e = bitlen n - bitlen d
      in if x < 2 powi e then e - 1 else e)"

definition rnd :: "int \<Rightarrow> rat \<Rightarrow> rat" where
  "rnd p x =
     (if x = 0 then 0
      else let ulp = 2 powi (ilog2 \<bar>x\<bar> - p + 1) in of_int (round_even (x / ulp)) * ulp)"

definition f32 :: "rat \<Rightarrow> rat" where
  "f32 x = rnd 24 x"

definition f64 :: "rat \<Rightarrow> rat" where
  "f64 x = rnd 53 x"

section \<open>Exact values\<close>

lemma round_even_of_int [simp]: "round_even (of_int i) = i"
  by (simp add: round_even_def)

lemma rnd_0 [simp]: "rnd p 0 = 0"
  by (simp add: rnd_def)

lemma round_even_error: "\<bar>of_int (round_even y) - y\<bar> \<le> 1 / 2"
proof -
  define f :: rat where "f = of_int \<lfloor>y\<rfloor>"
  have "f \<le> y" "y < f + 1" unfolding f_def by linarith+
  then show ?thesis by (auto simp: round_even_def Let_def abs_if simp flip: f_def)
qed

lemma bitlen_pos_bounds:
  assumes "0 < (n::int)"
  shows "(2::rat) powi (bitlen n - 1) \<le> of_int n \<and> of_int n < (2::rat) powi bitlen n"
proof -
  have b: "0 < bitlen n" using assms by (metis bitlen_eq_zero_iff bitlen_nonneg linorder_not_less order_le_less)
  have lo: "2 ^ nat (bitlen n - 1) \<le> n" and hi: "n < 2 ^ nat (bitlen n)"
    using bitlen_bounds [OF assms] by auto
  have "(of_int (2 ^ nat (bitlen n - 1)) :: rat) \<le> of_int n"
    using lo by (simp only: of_int_le_iff)
  moreover have "(of_int n :: rat) < of_int (2 ^ nat (bitlen n))"
    using hi by (simp only: of_int_less_iff)
  ultimately show ?thesis using b by (simp add: power_int_def)
qed

lemma ilog2_bounds:
  assumes "0 < x"
  shows "2 powi ilog2 x \<le> x \<and> x < 2 powi (ilog2 x + 1)"
proof -
  obtain n d where nd: "quotient_of x = (n, d)" by fastforce
  then have d: "0 < d" and x: "x = of_int n / of_int d"
    by (simp_all add: quotient_of_denom_pos quotient_of_div)
  with assms have n: "0 < n" by (simp add: zero_less_divide_iff)
  let ?e = "bitlen n - bitlen d"
  note nb = bitlen_pos_bounds [OF n] and db = bitlen_pos_bounds [OF d]
  have p: "(0::rat) < 2 powi i" for i by simp
  have "(2::rat) powi (?e - 1) * of_int d \<le> 2 powi (?e - 1) * 2 powi bitlen d"
    using db p by (intro mult_left_mono) (auto intro: less_imp_le)
  also have "\<dots> = 2 powi (bitlen n - 1)" by (simp flip: power_int_add)
  also have "\<dots> \<le> of_int n" using nb by simp
  finally have lo: "2 powi (?e - 1) \<le> x" using d by (simp add: x pos_le_divide_eq)
  have "of_int n < (2::rat) powi bitlen n" using nb by simp
  also have "\<dots> = 2 powi (?e + 1) * 2 powi (bitlen d - 1)" by (simp flip: power_int_add)
  also have "\<dots> \<le> 2 powi (?e + 1) * of_int d"
    using db p by (intro mult_left_mono) (auto intro: less_imp_le)
  finally have hi: "x < 2 powi (?e + 1)" using d by (simp add: x pos_divide_less_eq)
  show ?thesis using lo hi by (auto simp: ilog2_def nd Let_def)
qed

text \<open>Integers of at most \<open>p\<close> bits are representable.\<close>

lemma rnd_exact_int:
  assumes "\<bar>i\<bar> < 2 ^ p"
  shows "rnd (int p) (of_int i) = of_int i"
proof (cases "i = 0")
  case False
  then have pos: "(0::rat) < \<bar>of_int i\<bar>" by simp
  let ?e = "ilog2 \<bar>of_int i\<bar>"
  have "2 powi ?e \<le> (\<bar>of_int i\<bar> :: rat)" using ilog2_bounds [OF pos] by simp
  also have "(\<bar>of_int i\<bar> :: rat) < of_int (2 ^ p)"
    using assms by (simp only: of_int_less_iff flip: of_int_abs)
  finally have "(2::rat) powi ?e < 2 powi int p" by simp
  then have "\<not> int p \<le> ?e"
    using power_int_increasing [of "int p" ?e "2::rat"] by auto
  then have "0 \<le> int p - 1 - ?e" by simp
  then obtain k where "int p - 1 - ?e = int k" by (rule nonneg_int_cases)
  then have k: "?e - int p + 1 = - int k" by simp
  have "of_int i / 2 powi (- int k) = (of_int (i * 2 ^ k) :: rat)"
    by (simp add: power_int_minus field_simps)
  then have "of_int (round_even (of_int i / 2 powi (- int k))) * 2 powi (- int k) = (of_int i :: rat)"
    by (simp only: round_even_of_int) (simp add: power_int_minus)
  then show ?thesis using False by (simp add: rnd_def Let_def k)
qed simp

text \<open>Rounding does not cross a representable integer, nor zero.\<close>

lemma round_even_le: "y \<le> of_int m \<Longrightarrow> round_even y \<le> m"
proof -
  assume y: "y \<le> of_int m"
  show ?thesis
  proof (cases "y = of_int m")
    case False
    with y have "\<lfloor>y\<rfloor> < m" by linarith
    then show ?thesis by (simp add: round_even_def Let_def)
  qed simp
qed

lemma round_even_ge0: "0 \<le> y \<Longrightarrow> 0 \<le> round_even y"
proof -
  assume "0 \<le> y"
  then have "0 \<le> \<lfloor>y\<rfloor>" by simp
  then show ?thesis by (simp add: round_even_def Let_def)
qed

lemma rnd_le_int:
  assumes "0 \<le> x" "x \<le> of_int i" "i < 2 ^ p"
  shows "0 \<le> rnd (int p) x \<and> rnd (int p) x \<le> of_int i"
proof (cases "x = 0")
  case False
  with assms(1) have pos: "0 < x" by simp
  let ?e = "ilog2 x"
  have "2 powi ?e \<le> x" using ilog2_bounds [OF pos] by simp
  also have "\<dots> < of_int (2 ^ p)"
    using assms(2,3) by (meson le_less_trans of_int_less_iff)
  finally have "(2::rat) powi ?e < 2 powi int p" by simp
  then have "\<not> int p \<le> ?e" using power_int_increasing [of "int p" ?e "2::rat"] by auto
  then obtain k where "int p - 1 - ?e = int k" by (metis nonneg_int_cases diff_ge_0_iff_ge
    not_le zle_diff1_eq)
  then have k: "?e - int p + 1 = - int k" by simp
  have r: "rnd (int p) x = of_int (round_even (x * 2 ^ k)) / 2 ^ k"
    using pos unfolding rnd_def Let_def by (simp add: k) (simp add: power_int_minus divide_inverse)
  have "x * 2 ^ k \<le> of_int (i * 2 ^ k)" using assms(2) by (simp add: mult_right_mono)
  then have "round_even (x * 2 ^ k) \<le> i * 2 ^ k" by (rule round_even_le)
  then have "of_int (round_even (x * 2 ^ k)) \<le> (of_int (i * 2 ^ k) :: rat)" by (simp only: of_int_le_iff)
  moreover have "0 \<le> (of_int (round_even (x * 2 ^ k)) :: rat)"
    using pos by (simp add: round_even_ge0)
  ultimately show ?thesis by (simp add: r pos_divide_le_eq)
qed (use assms in simp)

section \<open>Order\<close>

lemma ilog2_unique:
  assumes "2 powi e \<le> x" "x < 2 powi (e + 1)"
  shows "ilog2 x = e"
proof -
  have "0 < x" using assms(1) by (meson less_le_trans zero_less_power_int zero_less_numeral)
  from ilog2_bounds [OF this] assms have a: "(2::rat) powi ilog2 x < 2 powi (e + 1)" "(2::rat) powi e < 2 powi (ilog2 x + 1)"
    by (meson le_less_trans)+
  have "ilog2 x < e + 1" using a(1) power_int_increasing [of "e + 1" "ilog2 x" "2::rat"] by force
  moreover have "e < ilog2 x + 1" using a(2) power_int_increasing [of "ilog2 x + 1" e "2::rat"] by force
  ultimately show ?thesis by simp
qed

lemma round_even_mono: "x \<le> y \<Longrightarrow> round_even x \<le> round_even y"
proof -
  assume xy: "x \<le> y"
  show ?thesis
  proof (cases "\<lfloor>x\<rfloor> = \<lfloor>y\<rfloor>")
    case True
    with xy show ?thesis by (simp add: round_even_def Let_def)
  next
    case False
    with xy have lt: "\<lfloor>x\<rfloor> < \<lfloor>y\<rfloor>" using floor_mono [OF xy] by simp
    have "round_even x \<le> \<lfloor>x\<rfloor> + 1" "\<lfloor>y\<rfloor> \<le> round_even y" by (simp_all add: round_even_def Let_def)
    with lt show ?thesis by simp
  qed
qed

lemma rnd_pow_bounds:
  assumes "0 < x" "0 < p"
  shows "2 powi ilog2 x \<le> rnd p x" "rnd p x \<le> 2 powi (ilog2 x + 1)"
proof -
  let ?e = "ilog2 x" let ?u = "(2::rat) powi (?e - p + 1)"
  have u: "0 < ?u" by simp
  have r: "rnd p x = of_int (round_even (x / ?u)) * ?u" using assms(1) by (simp add: rnd_def Let_def)
  note b = ilog2_bounds [OF assms(1)]
  have p1: "(2::rat) powi (p - 1) = of_int (2 ^ nat (p - 1))" "(2::rat) powi p = of_int (2 ^ nat p)"
    using assms(2) by (simp_all add: power_int_def)
  have e: "2 powi ?e = 2 powi (p - 1) * ?u" "2 powi (?e + 1) = 2 powi p * ?u"
    by (simp_all flip: power_int_add)
  have "2 powi (p - 1) \<le> x / ?u" using b u unfolding e by (simp add: pos_le_divide_eq)
  then have "round_even (of_int (2 ^ nat (p - 1))) \<le> round_even (x / ?u)" unfolding p1 by (rule round_even_mono)
  then have "of_int (2 ^ nat (p - 1)) \<le> (of_int (round_even (x / ?u)) :: rat)"
    by (simp only: round_even_of_int of_int_le_iff)
  then show "2 powi ilog2 x \<le> rnd p x" unfolding r e p1 using u by (simp only: mult_right_mono less_imp_le)
  have "x / ?u \<le> 2 powi p" using b u unfolding e by (simp add: pos_divide_le_eq)
  then have "round_even (x / ?u) \<le> round_even (of_int (2 ^ nat p))" unfolding p1 by (rule round_even_mono)
  then have "(of_int (round_even (x / ?u)) :: rat) \<le> of_int (2 ^ nat p)"
    by (simp only: round_even_of_int of_int_le_iff)
  then show "rnd p x \<le> 2 powi (ilog2 x + 1)" unfolding r e p1 using u by (simp only: mult_right_mono less_imp_le)
qed

lemma rnd_nonneg: "0 \<le> x \<Longrightarrow> 0 < p \<Longrightarrow> 0 \<le> rnd p x"
  using rnd_pow_bounds(1) [of x p] by (cases "x = 0") (auto intro: order_trans [of _ "2 powi ilog2 x"])

text \<open>Rounding is monotone.\<close>

lemma rnd_mono:
  assumes "0 \<le> x" "x \<le> y" "0 < p"
  shows "rnd p x \<le> rnd p y"
proof (cases "x = 0")
  case True
  with assms rnd_nonneg show ?thesis by simp
next
  case False
  with assms have pos: "0 < x" "0 < y" by simp_all
  have "(2::rat) powi ilog2 x < 2 powi (ilog2 y + 1)"
    using ilog2_bounds [OF pos(1)] ilog2_bounds [OF pos(2)] assms(2) by (meson le_less_trans order_trans)
  then have "ilog2 x \<le> ilog2 y"
    using power_int_increasing [of "ilog2 y + 1" "ilog2 x" "2::rat"] by force
  then consider "ilog2 x = ilog2 y" | "ilog2 x + 1 \<le> ilog2 y" by linarith
  then show ?thesis
  proof cases
    case 1
    let ?u = "(2::rat) powi (ilog2 y - p + 1)"
    have "round_even (x / ?u) \<le> round_even (y / ?u)"
      using assms(2) by (intro round_even_mono divide_right_mono) simp_all
    with 1 pos show ?thesis by (simp add: rnd_def Let_def mult_right_mono)
  next
    case 2
    have "rnd p x \<le> 2 powi (ilog2 x + 1)" using pos assms(3) by (intro rnd_pow_bounds)
    also have "\<dots> \<le> 2 powi ilog2 y" using 2 by (intro power_int_increasing) simp_all
    also have "\<dots> \<le> rnd p y" using pos assms(3) by (intro rnd_pow_bounds)
    finally show ?thesis .
  qed
qed

text \<open>Integers of at most \<open>p\<close> bits times a power of two are representable.\<close>

lemma rnd_scale: "0 < x \<Longrightarrow> rnd p (x * 2 powi k) = rnd p x * 2 powi k"
proof -
  assume x: "0 < x"
  have "ilog2 (x * 2 powi k) = ilog2 x + k"
    using ilog2_bounds [OF x] by (intro ilog2_unique) (simp_all add: power_int_add mult_right_mono)
  then show ?thesis using x by (simp add: rnd_def Let_def power_int_add power_int_diff)
qed

lemma rnd_dyadic: "0 \<le> i \<Longrightarrow> i < 2 ^ p \<Longrightarrow> rnd (int p) (of_int i * 2 powi k) = of_int i * 2 powi k"
  using rnd_scale [of "of_int i" "int p" k] rnd_exact_int [of i p] by (cases "i = 0") simp_all

end
