(* ===== verification/ModelKeys.thy ===== *)
theory ModelKeys
  imports KeyCodec Floats
begin

text \<open>
  Two pieces that several key types share: the fixed-size strings \<open>varibale_str<N>\<close> of
  \<open>benchmark/real_world/tpcc.h\<close>, and the conversion of a byte-string key into the numeric
  vector \<open>to_model_key\<close> (the same code in \<open>StrBagKey\<close> of \<open>benchmark/synthetic/micro_base.h\<close>
  and in \<open>CustomerNameIndexKey\<close>).
\<close>

section \<open>Fixed-size strings\<close>

text \<open>\<open>strlen\<close>: the bytes before the terminator.\<close>

definition c_str :: "byte list \<Rightarrow> byte list" where
  "c_str s = takeWhile (\<lambda>c. c \<noteq> 0) s"

definition fill_char :: byte where
  "fill_char = 32"

text \<open>\<open>assign(const char *s)\<close>, and \<open>assign(const std::string &s)\<close> which calls it on \<open>s.data()\<close>.\<close>

definition var_assign :: "nat \<Rightarrow> byte list \<Rightarrow> byte list" where
  "var_assign N s =
     (let n = length (c_str s)
      in take (if n < N then n else N) (c_str s) @ (if N > n then replicate (N - n) fill_char else []))"

text \<open>\<open>assign(const char *s, size_t n)\<close>: reads \<open>min(n, N)\<close> bytes of \<open>s\<close>.\<close>

definition var_assign_n :: "nat \<Rightarrow> byte list \<Rightarrow> nat \<Rightarrow> fault + byte list" where
  "var_assign_n N s n =
     (let m = (if n < N then n else N)
      in if length s < m then Inl OutOfBounds
         else Inr (take m s @ (if N > n then replicate (N - n) fill_char else [])))"

definition var_eq :: "byte list \<Rightarrow> byte list \<Rightarrow> bool" where
  "var_eq a b \<longleftrightarrow> memcmp a b = 0"

definition var_to_string :: "byte list \<Rightarrow> byte list" where
  "var_to_string a = a"

lemma length_var_assign [simp]: "length (var_assign N s) = N"
  by (simp add: var_assign_def Let_def)

lemma length_var_assign_n: "var_assign_n N s n = Inr b \<Longrightarrow> length b = N"
  by (auto simp: var_assign_n_def Let_def split: if_splits)

lemma var_eq_iff: "length a = length b \<Longrightarrow> var_eq a b \<longleftrightarrow> a = b"
  by (simp add: var_eq_def memcmp_eq0)

lemma c_str_id: "0 \<notin> set s \<Longrightarrow> c_str s = s"
  by (simp add: c_str_def) (metis (mono_tags, lifting) takeWhile_eq_all_conv)

lemma var_assign_short: "0 \<notin> set s \<Longrightarrow> length s \<le> N \<Longrightarrow>
  var_assign N s = s @ replicate (N - length s) fill_char"
  by (simp add: var_assign_def c_str_id Let_def)

section \<open>Byte strings as vectors of numbers\<close>

text \<open>
  \<open>temp\<close> holds a block of the key in reversed order and is read as a little-endian integer:
  the block's big-endian value.
\<close>

definition be_value :: "byte list \<Rightarrow> nat" where
  "be_value bs = of_le (reverse_bytes bs)"

definition model_unit :: nat where
  "model_unit = 8"

definition model_key_size :: "nat \<Rightarrow> nat" where
  "model_key_size len =
     (if len mod model_unit = 0 then len div model_unit else len div model_unit + 1)"

definition model_blocks :: "byte list \<Rightarrow> nat list" where
  "model_blocks bs =
     map (\<lambda>k_i. be_value (take model_unit (drop (k_i * model_unit) bs)))
       [0..<model_key_size (length bs) - 1]"

definition model_trailing :: "byte list \<Rightarrow> fault + nat" where
  "model_trailing bs =
     (let p = (model_key_size (length bs) - 1) * model_unit;
          trailing_byte_n = length bs - p
      in if trailing_byte_n \<in> {1, 2, 4, 8} then Inr (be_value (drop p bs)) else Inl Aborted)"

definition bytes_model_key :: "byte list \<Rightarrow> fault + nat list" where
  "bytes_model_key bs = bindE (model_trailing bs) (\<lambda>t. Inr (model_blocks bs @ [t]))"

lemma be_value_less: "length x = length y \<Longrightarrow> be_value x < be_value y \<longleftrightarrow> x < y"
  using of_le_less_rev [of "rev x" "rev y"] by (simp add: be_value_def reverse_bytes_rev)

lemma be_value_eq: "length x = length y \<Longrightarrow> be_value x = be_value y \<longleftrightarrow> x = y"
  by (auto simp: be_value_def reverse_bytes_rev dest: of_le_inj [rotated])

lemma less_append_same_length:
  "length x = length y \<Longrightarrow> (x @ xs :: byte list) < y @ ys \<longleftrightarrow> x < y \<or> x = y \<and> xs < ys"
  by (induction x y rule: list_induct2) auto

lemma model_key_size_long:
  "8 < n \<Longrightarrow> model_key_size n = Suc (model_key_size (n - 8))"
  by (auto simp: model_key_size_def model_unit_def le_mod_geq le_div_geq)

lemma model_key_size_short: "0 < n \<Longrightarrow> n \<le> 8 \<Longrightarrow> model_key_size n = 1"
  by (cases "n = 8") (auto simp: model_key_size_def model_unit_def)

lemma model_key_size_pos: "0 < n \<Longrightarrow> 0 < model_key_size n"
  by (auto simp: model_key_size_def model_unit_def)

lemma model_blocks_long:
  assumes "8 < length bs"
  shows "model_blocks bs = be_value (take 8 bs) # model_blocks (drop 8 bs)"
proof -
  let ?m = "model_key_size (length bs - 8)"
  have m: "model_key_size (length bs) - 1 = Suc (?m - 1)"
    using assms model_key_size_pos [of "length bs - 8"] by (simp add: model_key_size_long)
  have "model_blocks bs = be_value (take 8 bs) #
      map (\<lambda>k. be_value (take 8 (drop (Suc k * 8) bs))) [0..<?m - 1]"
    by (simp only: model_blocks_def m map_upt_Suc) (simp add: model_unit_def)
  then show ?thesis by (simp add: model_blocks_def model_unit_def add.commute)
qed

lemma model_trailing_long:
  assumes "8 < length bs"
  shows "model_trailing bs = model_trailing (drop 8 bs)"
proof -
  have "model_key_size (length bs) - 1 = Suc (model_key_size (length bs - 8) - 1)"
    using assms model_key_size_pos [of "length bs - 8"] by (simp add: model_key_size_long)
  then show ?thesis
    unfolding model_trailing_def Let_def by (simp add: model_unit_def add.commute)
qed

lemma bytes_model_key_short:
  "0 < length bs \<Longrightarrow> length bs \<le> 8 \<Longrightarrow> bytes_model_key bs =
   (if length bs \<in> {1, 2, 4, 8} then Inr [be_value bs] else Inl Aborted)"
  by (simp add: bytes_model_key_def model_blocks_def model_trailing_def model_key_size_short)

lemma bytes_model_key_long:
  "8 < length bs \<Longrightarrow> bytes_model_key bs =
   bindE (bytes_model_key (drop 8 bs)) (\<lambda>ks. Inr (be_value (take 8 bs) # ks))"
  by (cases "model_trailing (drop 8 bs)")
    (simp_all add: bytes_model_key_def model_blocks_long model_trailing_long)

lemma bytes_model_key_less:
  "length xs = length ys \<Longrightarrow> 0 < length xs \<Longrightarrow>
   bytes_model_key xs = Inr ks \<Longrightarrow> bytes_model_key ys = Inr ls \<Longrightarrow>
   length ks = length ls \<and> (ks < ls \<longleftrightarrow> xs < ys)"
proof (induction "length xs" arbitrary: xs ys ks ls rule: less_induct)
  case less
  show ?case
  proof (cases "8 < length xs")
    case False
    with less.prems show ?thesis
      by (auto simp: bytes_model_key_short be_value_less split: if_splits)
  next
    case True
    with less.prems obtain ks' ls' where
      k: "bytes_model_key (drop 8 xs) = Inr ks'" "ks = be_value (take 8 xs) # ks'"
      and l: "bytes_model_key (drop 8 ys) = Inr ls'" "ls = be_value (take 8 ys) # ls'"
      by (auto simp: bytes_model_key_long bindE_eq_Inr)
    have "length ks' = length ls' \<and> (ks' < ls' \<longleftrightarrow> drop 8 xs < drop 8 ys)"
      using True less.prems k l by (intro less.hyps) auto
    moreover have "xs < ys \<longleftrightarrow>
        take 8 xs < take 8 ys \<or> take 8 xs = take 8 ys \<and> drop 8 xs < drop 8 ys"
      using less_append_same_length [of "take 8 xs" "take 8 ys" "drop 8 xs" "drop 8 ys"] less.prems(1)
      by simp
    ultimately show ?thesis
      using less.prems(1) by (auto simp: k l be_value_less be_value_eq)
  qed
qed

lemma bytes_model_key_aborts:
  "0 < length bs \<Longrightarrow> length bs mod 8 \<in> {3, 5, 6, 7} \<Longrightarrow> bytes_model_key bs = Inl Aborted"
proof (induction "length bs" arbitrary: bs rule: less_induct)
  case less
  show ?case
  proof (cases "8 < length bs")
    case True
    then have "bytes_model_key (drop 8 bs) = Inl Aborted"
      using less.prems by (intro less.hyps) (auto simp: le_mod_geq)
    with True show ?thesis by (simp add: bytes_model_key_long)
  next
    case False
    with less.prems have "length bs \<in> {3, 5, 6, 7}" by (cases "length bs = 8") auto
    with less.prems False show ?thesis by (auto simp: bytes_model_key_short)
  qed
qed

lemma bytes_model_key_total:
  "0 < length bs \<Longrightarrow> length bs mod 8 \<in> {0, 1, 2, 4} \<Longrightarrow> \<exists>ks. bytes_model_key bs = Inr ks"
proof (induction "length bs" arbitrary: bs rule: less_induct)
  case less
  show ?case
  proof (cases "8 < length bs")
    case True
    then have "\<exists>ks. bytes_model_key (drop 8 bs) = Inr ks"
      using less.prems by (intro less.hyps) (auto simp: le_mod_geq)
    with True show ?thesis by (auto simp: bytes_model_key_long)
  next
    case False
    with less.prems have "length bs \<in> {1, 2, 4, 8}"
      by (cases "length bs = 8") auto
    with less.prems False show ?thesis by (auto simp: bytes_model_key_short)
  qed
qed

end
