(* ===== verification/TpccKeys.thy ===== *)
theory TpccKeys
  imports ModelKeys
begin

text \<open>
  The twelve key structs of \<open>benchmark/real_world/tpcc.h\<close>. Every struct is packed; a key is a
  datatype whose selectors are the struct's fields in memory order (the padding array
  \<open>dummy[n]\<close> is one word of \<open>n\<close> bytes, and a few fields carry a prefix so that selectors are
  distinct). \<open>pack_\<dots>\<close> is the memory image. The comparison operators read the eight bytes as one
  \<open>uint64_t\<close>; each key type is an instance of \<open>linorder\<close> with that order.
\<close>

section \<open>Eight-byte keys\<close>

text \<open>\<open>*((uint64_t *)&k)\<close>.\<close>

definition as_u64 :: "('k \<Rightarrow> byte list) \<Rightarrow> 'k \<Rightarrow> u64" where
  "as_u64 pack k = wread (pack k)"

locale u64_key = packed_key +
  assumes size8: "size_of = 8"
begin

lemma unat_as_u64: "unat (as_u64 pack k) = of_le (pack k)"
proof -
  have "of_le (pack k) < 256 ^ 8" using of_le_bound [of "pack k"] by (simp add: length_pack size8)
  then show ?thesis by (simp add: as_u64_def wread_def unat_of_nat)
qed

lemma as_u64_less: "as_u64 pack k < as_u64 pack l \<longleftrightarrow> of_le (pack k) < of_le (pack l)"
  by (simp add: word_less_nat_alt unat_as_u64)

lemma as_u64_inject: "as_u64 pack k = as_u64 pack l \<longleftrightarrow> k = l"
proof
  assume "as_u64 pack k = as_u64 pack l"
  then have "of_le (pack k) = of_le (pack l)" by (metis unat_as_u64)
  then have "pack k = pack l" by (intro of_le_inj) (simp_all add: length_pack)
  then show "k = l" by (simp add: pack_inject)
qed simp

end

text \<open>Cutting an image into its fields.\<close>

lemma split2: "length bs = a + b \<Longrightarrow> take a bs @ drop a bs = bs"
  by simp

lemma split3: "take a bs @ take b (drop a bs) @ drop (a + b) bs = bs"
  by (metis add.commute append_take_drop_id drop_drop)

lemma split4:
  "take a bs @ take b (drop a bs) @ take c (drop (a + b) bs) @ drop (a + b + c) bs = bs"
  by (metis add.commute append_take_drop_id drop_drop)

lemma eq_digit_word:
  "unat (w :: 'a::len word) + 2 ^ LENGTH('a) * a = unat w' + 2 ^ LENGTH('a) * b \<longleftrightarrow>
   a = b \<and> w = w'"
proof -
  have b: "unat w < 2 ^ LENGTH('a)" "unat w' < 2 ^ LENGTH('a)" by (rule unsigned_less)+
  then have "(unat w + 2 ^ LENGTH('a) * a) div 2 ^ LENGTH('a) = a"
    "(unat w' + 2 ^ LENGTH('a) * b) div 2 ^ LENGTH('a) = b" by simp_all
  then show ?thesis by (metis add_right_cancel word_unat_eq_iff)
qed

lemma wbytes_u16: "wbytes (w :: u16) = [word_of_nat (unat w), word_of_nat (unat w div 256)]"
proof -
  have "LENGTH(16) div 8 = Suc (Suc 0)" by simp
  then show ?thesis by (simp only: wbytes_def le_nat.simps)
qed

text \<open>Comparing images is comparing fields, the last one first.\<close>

lemma split6:
  "take a bs @ take b (drop a bs) @ take c (drop (a + b) bs) @ take d (drop (a + b + c) bs) @
     take e (drop (a + b + c + d) bs) @ drop (a + b + c + d + e) bs = bs"
  by (metis add.commute append_take_drop_id drop_drop)

named_theorems image_order \<open>comparison of packed images\<close>

lemma image_less [image_order]:
  "8 dvd LENGTH('a) \<Longrightarrow> of_le (wbytes (w :: 'a::len word) @ xs) < of_le (wbytes w' @ ys) \<longleftrightarrow>
   of_le xs < of_le ys \<or> of_le xs = of_le ys \<and> w < w'"
  by (simp only: of_le_word_append less_digit_word)

lemma image_eq [image_order]:
  "8 dvd LENGTH('a) \<Longrightarrow> of_le (wbytes (w :: 'a::len word) @ xs) = of_le (wbytes w' @ ys) \<longleftrightarrow>
   of_le xs = of_le ys \<and> w = w'"
  by (simp only: of_le_word_append eq_digit_word)

lemma image_less_last [image_order]:
  "8 dvd LENGTH('a) \<Longrightarrow> of_le (wbytes (w :: 'a::len word)) < of_le (wbytes w') \<longleftrightarrow> w < w'"
  by (simp only: of_le_wbytes word_less_nat_alt)

lemma image_eq_last [image_order]:
  "8 dvd LENGTH('a) \<Longrightarrow> of_le (wbytes (w :: 'a::len word)) = of_le (wbytes w') \<longleftrightarrow> w = w'"
  by (simp only: of_le_wbytes word_unat_eq_iff)

subsection \<open>\<open>W_key\<close>\<close>

datatype W_key = mk_W_key (w_id: u64)

definition W_key :: "u64 \<Rightarrow> W_key" where
  "W_key i = mk_W_key i"

definition pack_W :: "W_key \<Rightarrow> byte list" where
  "pack_W k = wbytes (w_id k)"

definition unpack_W :: "byte list \<Rightarrow> W_key" where
  "unpack_W bs =
     mk_W_key (wread bs)"

definition W_key_to_model_key :: "W_key \<Rightarrow> rat list" where
  "W_key_to_model_key k = [f64 (of_nat (unat (w_id k)))]"

definition W_key_max :: W_key where
  "W_key_max = memset_key unpack_W 8 255"

definition W_key_min :: W_key where
  "W_key_min = memset_key unpack_W 8 0"

definition W_key_to_str_key :: "W_key \<Rightarrow> W_key" where
  "W_key_to_str_key k = str_key_of pack_W unpack_W k"

definition W_key_to_normal_key :: "W_key \<Rightarrow> W_key" where
  "W_key_to_normal_key k = W_key_to_str_key k"

definition W_key_lt :: "W_key \<Rightarrow> W_key \<Rightarrow> bool" where
  "W_key_lt l r \<longleftrightarrow> as_u64 pack_W l < as_u64 pack_W r"

definition W_key_eq :: "W_key \<Rightarrow> W_key \<Rightarrow> bool" where
  "W_key_eq l r \<longleftrightarrow> as_u64 pack_W l = as_u64 pack_W r"

lemma W_key_unpack_pack: "unpack_W (pack_W k) = k"
  by (cases k) (simp add: pack_W_def unpack_W_def wread_wbytes)

lemma W_key_pack_unpack: "length bs = 8 \<Longrightarrow> pack_W (unpack_W bs) = bs"
  by (simp add: pack_W_def unpack_W_def wbytes_wread)

interpretation W_u64: u64_key pack_W unpack_W 8
  by unfold_locales
    (simp_all add: pack_W_def W_key_unpack_pack [unfolded pack_W_def] W_key_pack_unpack [unfolded pack_W_def])

instantiation W_key :: linorder
begin

definition less_W_key :: "W_key \<Rightarrow> W_key \<Rightarrow> bool" where
  "less_W_key l r \<longleftrightarrow> W_key_lt l r"

definition less_eq_W_key :: "W_key \<Rightarrow> W_key \<Rightarrow> bool" where
  "less_eq_W_key l r \<longleftrightarrow> \<not> W_key_lt r l"

instance
  by standard (auto simp: less_W_key_def less_eq_W_key_def W_key_lt_def W_u64.as_u64_inject)

end

interpretation W: ordered_key pack_W unpack_W 8
  by unfold_locales (simp add: less_W_key_def W_key_lt_def W_u64.as_u64_less)

lemma W_key_eq [simp]: "W_key_eq l r \<longleftrightarrow> l = r"
  by (simp add: W_key_eq_def W_u64.as_u64_inject)

lemma W_key_less_iff:
  "k < l \<longleftrightarrow>
     w_id k < w_id l"
  by (auto simp: W.less_pack pack_W_def image_order)

subsection \<open>\<open>D_key\<close>\<close>

datatype D_key = mk_D_key (d_dummy: "40 word") (d_id: byte) (d_w_id: u16)

definition D_key :: "u16 \<Rightarrow> byte \<Rightarrow> D_key" where
  "D_key dw di = mk_D_key 0 di dw"

definition pack_D :: "D_key \<Rightarrow> byte list" where
  "pack_D k = wbytes (d_dummy k) @ wbytes (d_id k) @ wbytes (d_w_id k)"

definition unpack_D :: "byte list \<Rightarrow> D_key" where
  "unpack_D bs =
     mk_D_key (wread (take 5 bs))
       (wread (take 1 (drop 5 bs)))
       (wread (drop 6 bs))"

definition D_key_to_model_key :: "D_key \<Rightarrow> rat list" where
  "D_key_to_model_key k = [f64 (of_nat (unat (d_w_id k))), f64 (of_nat (unat (d_id k)))]"

definition D_key_max :: D_key where
  "D_key_max = memset_key unpack_D 8 255"

definition D_key_min :: D_key where
  "D_key_min = memset_key unpack_D 8 0"

definition D_key_to_str_key :: "D_key \<Rightarrow> D_key" where
  "D_key_to_str_key k = str_key_of pack_D unpack_D k"

definition D_key_to_normal_key :: "D_key \<Rightarrow> D_key" where
  "D_key_to_normal_key k = D_key_to_str_key k"

definition D_key_lt :: "D_key \<Rightarrow> D_key \<Rightarrow> bool" where
  "D_key_lt l r \<longleftrightarrow> as_u64 pack_D l < as_u64 pack_D r"

definition D_key_eq :: "D_key \<Rightarrow> D_key \<Rightarrow> bool" where
  "D_key_eq l r \<longleftrightarrow> as_u64 pack_D l = as_u64 pack_D r"

lemma D_key_unpack_pack: "unpack_D (pack_D k) = k"
  by (cases k) (simp add: pack_D_def unpack_D_def wread_wbytes)

lemma D_key_pack_unpack: "length bs = 8 \<Longrightarrow> pack_D (unpack_D bs) = bs"
  using split3 [of 5 bs 1, simplified]
  by (simp add: pack_D_def unpack_D_def wbytes_wread)

interpretation D_u64: u64_key pack_D unpack_D 8
  by unfold_locales
    (simp_all add: pack_D_def D_key_unpack_pack [unfolded pack_D_def] D_key_pack_unpack [unfolded pack_D_def])

instantiation D_key :: linorder
begin

definition less_D_key :: "D_key \<Rightarrow> D_key \<Rightarrow> bool" where
  "less_D_key l r \<longleftrightarrow> D_key_lt l r"

definition less_eq_D_key :: "D_key \<Rightarrow> D_key \<Rightarrow> bool" where
  "less_eq_D_key l r \<longleftrightarrow> \<not> D_key_lt r l"

instance
  by standard (auto simp: less_D_key_def less_eq_D_key_def D_key_lt_def D_u64.as_u64_inject)

end

interpretation D: ordered_key pack_D unpack_D 8
  by unfold_locales (simp add: less_D_key_def D_key_lt_def D_u64.as_u64_less)

lemma D_key_eq [simp]: "D_key_eq l r \<longleftrightarrow> l = r"
  by (simp add: D_key_eq_def D_u64.as_u64_inject)

lemma D_key_less_iff:
  "k < l \<longleftrightarrow>
     d_w_id k < d_w_id l \<or>
     d_w_id k = d_w_id l \<and> d_id k < d_id l \<or>
     d_w_id k = d_w_id l \<and> d_id k = d_id l \<and> d_dummy k < d_dummy l"
  by (auto simp: D.less_pack pack_D_def image_order)

subsection \<open>\<open>OrderCidIndexKey\<close>\<close>

datatype OrderCidIndexKey = mk_OrderCidIndexKey (oc_o_id: u32) (oc_c_id: u16) (oc_d_id: byte) (oc_w_id: byte)

definition OrderCidIndexKey :: "byte \<Rightarrow> byte \<Rightarrow> u16 \<Rightarrow> u32 \<Rightarrow> OrderCidIndexKey" where
  "OrderCidIndexKey w d c oo = mk_OrderCidIndexKey oo c d w"

definition pack_OC :: "OrderCidIndexKey \<Rightarrow> byte list" where
  "pack_OC k = wbytes (oc_o_id k) @ wbytes (oc_c_id k) @ wbytes (oc_d_id k) @ wbytes (oc_w_id k)"

definition unpack_OC :: "byte list \<Rightarrow> OrderCidIndexKey" where
  "unpack_OC bs =
     mk_OrderCidIndexKey (wread (take 4 bs))
       (wread (take 2 (drop 4 bs)))
       (wread (take 1 (drop 6 bs)))
       (wread (drop 7 bs))"

text \<open>The body of \<open>to_model_key\<close> starts with \<open>COUT_N_EXIT\<close>.\<close>

definition OrderCidIndexKey_to_model_key :: "OrderCidIndexKey \<Rightarrow> fault + rat list" where
  "OrderCidIndexKey_to_model_key k = Inl Aborted"

definition OrderCidIndexKey_max :: OrderCidIndexKey where
  "OrderCidIndexKey_max = memset_key unpack_OC 8 255"

definition OrderCidIndexKey_min :: OrderCidIndexKey where
  "OrderCidIndexKey_min = memset_key unpack_OC 8 0"

definition OrderCidIndexKey_to_str_key :: "OrderCidIndexKey \<Rightarrow> OrderCidIndexKey" where
  "OrderCidIndexKey_to_str_key k = str_key_of pack_OC unpack_OC k"

definition OrderCidIndexKey_to_normal_key :: "OrderCidIndexKey \<Rightarrow> OrderCidIndexKey" where
  "OrderCidIndexKey_to_normal_key k = OrderCidIndexKey_to_str_key k"

definition OrderCidIndexKey_lt :: "OrderCidIndexKey \<Rightarrow> OrderCidIndexKey \<Rightarrow> bool" where
  "OrderCidIndexKey_lt l r \<longleftrightarrow> as_u64 pack_OC l < as_u64 pack_OC r"

definition OrderCidIndexKey_eq :: "OrderCidIndexKey \<Rightarrow> OrderCidIndexKey \<Rightarrow> bool" where
  "OrderCidIndexKey_eq l r \<longleftrightarrow> as_u64 pack_OC l = as_u64 pack_OC r"

lemma OrderCidIndexKey_unpack_pack: "unpack_OC (pack_OC k) = k"
  by (cases k) (simp add: pack_OC_def unpack_OC_def wread_wbytes)

lemma OrderCidIndexKey_pack_unpack: "length bs = 8 \<Longrightarrow> pack_OC (unpack_OC bs) = bs"
  using split4 [of 4 bs 2 1, simplified]
  by (simp add: pack_OC_def unpack_OC_def wbytes_wread)

interpretation OC_u64: u64_key pack_OC unpack_OC 8
  by unfold_locales
    (simp_all add: pack_OC_def OrderCidIndexKey_unpack_pack [unfolded pack_OC_def] OrderCidIndexKey_pack_unpack [unfolded pack_OC_def])

instantiation OrderCidIndexKey :: linorder
begin

definition less_OrderCidIndexKey :: "OrderCidIndexKey \<Rightarrow> OrderCidIndexKey \<Rightarrow> bool" where
  "less_OrderCidIndexKey l r \<longleftrightarrow> OrderCidIndexKey_lt l r"

definition less_eq_OrderCidIndexKey :: "OrderCidIndexKey \<Rightarrow> OrderCidIndexKey \<Rightarrow> bool" where
  "less_eq_OrderCidIndexKey l r \<longleftrightarrow> \<not> OrderCidIndexKey_lt r l"

instance
  by standard (auto simp: less_OrderCidIndexKey_def less_eq_OrderCidIndexKey_def OrderCidIndexKey_lt_def OC_u64.as_u64_inject)

end

interpretation OC: ordered_key pack_OC unpack_OC 8
  by unfold_locales (simp add: less_OrderCidIndexKey_def OrderCidIndexKey_lt_def OC_u64.as_u64_less)

lemma OrderCidIndexKey_eq [simp]: "OrderCidIndexKey_eq l r \<longleftrightarrow> l = r"
  by (simp add: OrderCidIndexKey_eq_def OC_u64.as_u64_inject)

lemma OrderCidIndexKey_less_iff:
  "k < l \<longleftrightarrow>
     oc_w_id k < oc_w_id l \<or>
     oc_w_id k = oc_w_id l \<and> oc_d_id k < oc_d_id l \<or>
     oc_w_id k = oc_w_id l \<and> oc_d_id k = oc_d_id l \<and> oc_c_id k < oc_c_id l \<or>
     oc_w_id k = oc_w_id l \<and> oc_d_id k = oc_d_id l \<and> oc_c_id k = oc_c_id l \<and> oc_o_id k < oc_o_id l"
  by (auto simp: OC.less_pack pack_OC_def image_order)

subsection \<open>\<open>C_key\<close>\<close>

datatype C_key = mk_C_key (c_dummy: "24 word") (c_id: u16) (c_d_id: byte) (c_w_id: u16)

definition C_key :: "u16 \<Rightarrow> byte \<Rightarrow> u16 \<Rightarrow> C_key" where
  "C_key ci di wi = mk_C_key 0 ci di wi"

definition pack_C :: "C_key \<Rightarrow> byte list" where
  "pack_C k = wbytes (c_dummy k) @ wbytes (c_id k) @ wbytes (c_d_id k) @ wbytes (c_w_id k)"

definition unpack_C :: "byte list \<Rightarrow> C_key" where
  "unpack_C bs =
     mk_C_key (wread (take 3 bs))
       (wread (take 2 (drop 3 bs)))
       (wread (take 1 (drop 5 bs)))
       (wread (drop 6 bs))"

definition C_key_to_model_key :: "C_key \<Rightarrow> rat list" where
  "C_key_to_model_key k = [f64 (of_nat (unat (c_w_id k))), f64 (of_nat (unat (c_d_id k))), f64 (of_nat (unat (c_id k)))]"

definition C_key_max :: C_key where
  "C_key_max = memset_key unpack_C 8 255"

definition C_key_min :: C_key where
  "C_key_min = memset_key unpack_C 8 0"

definition C_key_to_str_key :: "C_key \<Rightarrow> C_key" where
  "C_key_to_str_key k = str_key_of pack_C unpack_C k"

definition C_key_to_normal_key :: "C_key \<Rightarrow> C_key" where
  "C_key_to_normal_key k = C_key_to_str_key k"

definition C_key_lt :: "C_key \<Rightarrow> C_key \<Rightarrow> bool" where
  "C_key_lt l r \<longleftrightarrow> as_u64 pack_C l < as_u64 pack_C r"

definition C_key_eq :: "C_key \<Rightarrow> C_key \<Rightarrow> bool" where
  "C_key_eq l r \<longleftrightarrow> as_u64 pack_C l = as_u64 pack_C r"

lemma C_key_unpack_pack: "unpack_C (pack_C k) = k"
  by (cases k) (simp add: pack_C_def unpack_C_def wread_wbytes)

lemma C_key_pack_unpack: "length bs = 8 \<Longrightarrow> pack_C (unpack_C bs) = bs"
  using split4 [of 3 bs 2 1, simplified]
  by (simp add: pack_C_def unpack_C_def wbytes_wread)

interpretation C_u64: u64_key pack_C unpack_C 8
  by unfold_locales
    (simp_all add: pack_C_def C_key_unpack_pack [unfolded pack_C_def] C_key_pack_unpack [unfolded pack_C_def])

instantiation C_key :: linorder
begin

definition less_C_key :: "C_key \<Rightarrow> C_key \<Rightarrow> bool" where
  "less_C_key l r \<longleftrightarrow> C_key_lt l r"

definition less_eq_C_key :: "C_key \<Rightarrow> C_key \<Rightarrow> bool" where
  "less_eq_C_key l r \<longleftrightarrow> \<not> C_key_lt r l"

instance
  by standard (auto simp: less_C_key_def less_eq_C_key_def C_key_lt_def C_u64.as_u64_inject)

end

interpretation C: ordered_key pack_C unpack_C 8
  by unfold_locales (simp add: less_C_key_def C_key_lt_def C_u64.as_u64_less)

lemma C_key_eq [simp]: "C_key_eq l r \<longleftrightarrow> l = r"
  by (simp add: C_key_eq_def C_u64.as_u64_inject)

lemma C_key_less_iff:
  "k < l \<longleftrightarrow>
     c_w_id k < c_w_id l \<or>
     c_w_id k = c_w_id l \<and> c_d_id k < c_d_id l \<or>
     c_w_id k = c_w_id l \<and> c_d_id k = c_d_id l \<and> c_id k < c_id l \<or>
     c_w_id k = c_w_id l \<and> c_d_id k = c_d_id l \<and> c_id k = c_id l \<and> c_dummy k < c_dummy l"
  by (auto simp: C.less_pack pack_C_def image_order)

subsection \<open>\<open>NO_key\<close>\<close>

datatype NO_key = mk_NO_key (no_dummy_key: byte) (no_o_id: u32) (no_d_id: byte) (no_w_id: u16)

definition NO_key :: "u16 \<Rightarrow> byte \<Rightarrow> u32 \<Rightarrow> NO_key" where
  "NO_key wi di oi = mk_NO_key 0 oi di wi"

definition pack_NO :: "NO_key \<Rightarrow> byte list" where
  "pack_NO k = wbytes (no_dummy_key k) @ wbytes (no_o_id k) @ wbytes (no_d_id k) @ wbytes (no_w_id k)"

definition unpack_NO :: "byte list \<Rightarrow> NO_key" where
  "unpack_NO bs =
     mk_NO_key (wread (take 1 bs))
       (wread (take 4 (drop 1 bs)))
       (wread (take 1 (drop 5 bs)))
       (wread (drop 6 bs))"

definition NO_key_to_model_key :: "NO_key \<Rightarrow> rat list" where
  "NO_key_to_model_key k = [f64 (of_nat (unat (no_w_id k))), f64 (of_nat (unat (no_d_id k))), f64 (of_nat (unat (no_o_id k)))]"

definition NO_key_max :: NO_key where
  "NO_key_max = memset_key unpack_NO 8 255"

definition NO_key_min :: NO_key where
  "NO_key_min = memset_key unpack_NO 8 0"

definition NO_key_to_str_key :: "NO_key \<Rightarrow> NO_key" where
  "NO_key_to_str_key k = str_key_of pack_NO unpack_NO k"

definition NO_key_to_normal_key :: "NO_key \<Rightarrow> NO_key" where
  "NO_key_to_normal_key k = NO_key_to_str_key k"

definition NO_key_lt :: "NO_key \<Rightarrow> NO_key \<Rightarrow> bool" where
  "NO_key_lt l r \<longleftrightarrow> as_u64 pack_NO l < as_u64 pack_NO r"

definition NO_key_eq :: "NO_key \<Rightarrow> NO_key \<Rightarrow> bool" where
  "NO_key_eq l r \<longleftrightarrow> as_u64 pack_NO l = as_u64 pack_NO r"

lemma NO_key_unpack_pack: "unpack_NO (pack_NO k) = k"
  by (cases k) (simp add: pack_NO_def unpack_NO_def wread_wbytes)

lemma NO_key_pack_unpack: "length bs = 8 \<Longrightarrow> pack_NO (unpack_NO bs) = bs"
  using split4 [of 1 bs 4 1, simplified]
  by (simp add: pack_NO_def unpack_NO_def wbytes_wread)

interpretation NO_u64: u64_key pack_NO unpack_NO 8
  by unfold_locales
    (simp_all add: pack_NO_def NO_key_unpack_pack [unfolded pack_NO_def] NO_key_pack_unpack [unfolded pack_NO_def])

instantiation NO_key :: linorder
begin

definition less_NO_key :: "NO_key \<Rightarrow> NO_key \<Rightarrow> bool" where
  "less_NO_key l r \<longleftrightarrow> NO_key_lt l r"

definition less_eq_NO_key :: "NO_key \<Rightarrow> NO_key \<Rightarrow> bool" where
  "less_eq_NO_key l r \<longleftrightarrow> \<not> NO_key_lt r l"

instance
  by standard (auto simp: less_NO_key_def less_eq_NO_key_def NO_key_lt_def NO_u64.as_u64_inject)

end

interpretation NO: ordered_key pack_NO unpack_NO 8
  by unfold_locales (simp add: less_NO_key_def NO_key_lt_def NO_u64.as_u64_less)

lemma NO_key_eq [simp]: "NO_key_eq l r \<longleftrightarrow> l = r"
  by (simp add: NO_key_eq_def NO_u64.as_u64_inject)

lemma NO_key_less_iff:
  "k < l \<longleftrightarrow>
     no_w_id k < no_w_id l \<or>
     no_w_id k = no_w_id l \<and> no_d_id k < no_d_id l \<or>
     no_w_id k = no_w_id l \<and> no_d_id k = no_d_id l \<and> no_o_id k < no_o_id l \<or>
     no_w_id k = no_w_id l \<and> no_d_id k = no_d_id l \<and> no_o_id k = no_o_id l \<and> no_dummy_key k < no_dummy_key l"
  by (auto simp: NO.less_pack pack_NO_def image_order)

subsection \<open>\<open>O_key\<close>\<close>

datatype O_key = mk_O_key (o_dummy: byte) (o_id: u32) (o_d_id: byte) (o_w_id: u16)

definition O_key :: "u16 \<Rightarrow> byte \<Rightarrow> u32 \<Rightarrow> O_key" where
  "O_key wi di oi = mk_O_key 0 oi di wi"

definition pack_O :: "O_key \<Rightarrow> byte list" where
  "pack_O k = wbytes (o_dummy k) @ wbytes (o_id k) @ wbytes (o_d_id k) @ wbytes (o_w_id k)"

definition unpack_O :: "byte list \<Rightarrow> O_key" where
  "unpack_O bs =
     mk_O_key (wread (take 1 bs))
       (wread (take 4 (drop 1 bs)))
       (wread (take 1 (drop 5 bs)))
       (wread (drop 6 bs))"

definition O_key_to_model_key :: "O_key \<Rightarrow> rat list" where
  "O_key_to_model_key k = [f64 (of_nat (unat (o_w_id k))), f64 (of_nat (unat (o_d_id k))), f64 (of_nat (unat (o_id k)))]"

definition O_key_max :: O_key where
  "O_key_max = memset_key unpack_O 8 255"

definition O_key_min :: O_key where
  "O_key_min = memset_key unpack_O 8 0"

definition O_key_to_str_key :: "O_key \<Rightarrow> O_key" where
  "O_key_to_str_key k = str_key_of pack_O unpack_O k"

definition O_key_to_normal_key :: "O_key \<Rightarrow> O_key" where
  "O_key_to_normal_key k = O_key_to_str_key k"

definition O_key_lt :: "O_key \<Rightarrow> O_key \<Rightarrow> bool" where
  "O_key_lt l r \<longleftrightarrow> as_u64 pack_O l < as_u64 pack_O r"

definition O_key_eq :: "O_key \<Rightarrow> O_key \<Rightarrow> bool" where
  "O_key_eq l r \<longleftrightarrow> as_u64 pack_O l = as_u64 pack_O r"

lemma O_key_unpack_pack: "unpack_O (pack_O k) = k"
  by (cases k) (simp add: pack_O_def unpack_O_def wread_wbytes)

lemma O_key_pack_unpack: "length bs = 8 \<Longrightarrow> pack_O (unpack_O bs) = bs"
  using split4 [of 1 bs 4 1, simplified]
  by (simp add: pack_O_def unpack_O_def wbytes_wread)

interpretation O_u64: u64_key pack_O unpack_O 8
  by unfold_locales
    (simp_all add: pack_O_def O_key_unpack_pack [unfolded pack_O_def] O_key_pack_unpack [unfolded pack_O_def])

instantiation O_key :: linorder
begin

definition less_O_key :: "O_key \<Rightarrow> O_key \<Rightarrow> bool" where
  "less_O_key l r \<longleftrightarrow> O_key_lt l r"

definition less_eq_O_key :: "O_key \<Rightarrow> O_key \<Rightarrow> bool" where
  "less_eq_O_key l r \<longleftrightarrow> \<not> O_key_lt r l"

instance
  by standard (auto simp: less_O_key_def less_eq_O_key_def O_key_lt_def O_u64.as_u64_inject)

end

interpretation O: ordered_key pack_O unpack_O 8
  by unfold_locales (simp add: less_O_key_def O_key_lt_def O_u64.as_u64_less)

lemma O_key_eq [simp]: "O_key_eq l r \<longleftrightarrow> l = r"
  by (simp add: O_key_eq_def O_u64.as_u64_inject)

lemma O_key_less_iff:
  "k < l \<longleftrightarrow>
     o_w_id k < o_w_id l \<or>
     o_w_id k = o_w_id l \<and> o_d_id k < o_d_id l \<or>
     o_w_id k = o_w_id l \<and> o_d_id k = o_d_id l \<and> o_id k < o_id l \<or>
     o_w_id k = o_w_id l \<and> o_d_id k = o_d_id l \<and> o_id k = o_id l \<and> o_dummy k < o_dummy l"
  by (auto simp: O.less_pack pack_O_def image_order)

subsection \<open>\<open>OL_key\<close>\<close>

datatype OL_key = mk_OL_key (ol_number: byte) (ol_o_id: u32) (ol_d_id: byte) (ol_w_id: u16)

definition OL_key :: "u16 \<Rightarrow> byte \<Rightarrow> u32 \<Rightarrow> byte \<Rightarrow> OL_key" where
  "OL_key w d oi n = mk_OL_key n oi d w"

definition pack_OL :: "OL_key \<Rightarrow> byte list" where
  "pack_OL k = wbytes (ol_number k) @ wbytes (ol_o_id k) @ wbytes (ol_d_id k) @ wbytes (ol_w_id k)"

definition unpack_OL :: "byte list \<Rightarrow> OL_key" where
  "unpack_OL bs =
     mk_OL_key (wread (take 1 bs))
       (wread (take 4 (drop 1 bs)))
       (wread (take 1 (drop 5 bs)))
       (wread (drop 6 bs))"

definition OL_key_to_model_key :: "OL_key \<Rightarrow> rat list" where
  "OL_key_to_model_key k = [f64 (of_nat (unat (ol_w_id k))), f64 (of_nat (unat (ol_d_id k))), f64 (of_nat (unat (ol_o_id k))), f64 (of_nat (unat (ol_number k)))]"

definition OL_key_max :: OL_key where
  "OL_key_max = memset_key unpack_OL 8 255"

definition OL_key_min :: OL_key where
  "OL_key_min = memset_key unpack_OL 8 0"

definition OL_key_to_str_key :: "OL_key \<Rightarrow> OL_key" where
  "OL_key_to_str_key k = str_key_of pack_OL unpack_OL k"

definition OL_key_to_normal_key :: "OL_key \<Rightarrow> OL_key" where
  "OL_key_to_normal_key k = OL_key_to_str_key k"

definition OL_key_lt :: "OL_key \<Rightarrow> OL_key \<Rightarrow> bool" where
  "OL_key_lt l r \<longleftrightarrow> as_u64 pack_OL l < as_u64 pack_OL r"

definition OL_key_eq :: "OL_key \<Rightarrow> OL_key \<Rightarrow> bool" where
  "OL_key_eq l r \<longleftrightarrow> as_u64 pack_OL l = as_u64 pack_OL r"

lemma OL_key_unpack_pack: "unpack_OL (pack_OL k) = k"
  by (cases k) (simp add: pack_OL_def unpack_OL_def wread_wbytes)

lemma OL_key_pack_unpack: "length bs = 8 \<Longrightarrow> pack_OL (unpack_OL bs) = bs"
  using split4 [of 1 bs 4 1, simplified]
  by (simp add: pack_OL_def unpack_OL_def wbytes_wread)

interpretation OL_u64: u64_key pack_OL unpack_OL 8
  by unfold_locales
    (simp_all add: pack_OL_def OL_key_unpack_pack [unfolded pack_OL_def] OL_key_pack_unpack [unfolded pack_OL_def])

instantiation OL_key :: linorder
begin

definition less_OL_key :: "OL_key \<Rightarrow> OL_key \<Rightarrow> bool" where
  "less_OL_key l r \<longleftrightarrow> OL_key_lt l r"

definition less_eq_OL_key :: "OL_key \<Rightarrow> OL_key \<Rightarrow> bool" where
  "less_eq_OL_key l r \<longleftrightarrow> \<not> OL_key_lt r l"

instance
  by standard (auto simp: less_OL_key_def less_eq_OL_key_def OL_key_lt_def OL_u64.as_u64_inject)

end

interpretation OL: ordered_key pack_OL unpack_OL 8
  by unfold_locales (simp add: less_OL_key_def OL_key_lt_def OL_u64.as_u64_less)

lemma OL_key_eq [simp]: "OL_key_eq l r \<longleftrightarrow> l = r"
  by (simp add: OL_key_eq_def OL_u64.as_u64_inject)

lemma OL_key_less_iff:
  "k < l \<longleftrightarrow>
     ol_w_id k < ol_w_id l \<or>
     ol_w_id k = ol_w_id l \<and> ol_d_id k < ol_d_id l \<or>
     ol_w_id k = ol_w_id l \<and> ol_d_id k = ol_d_id l \<and> ol_o_id k < ol_o_id l \<or>
     ol_w_id k = ol_w_id l \<and> ol_d_id k = ol_d_id l \<and> ol_o_id k = ol_o_id l \<and> ol_number k < ol_number l"
  by (auto simp: OL.less_pack pack_OL_def image_order)

subsection \<open>\<open>I_key\<close>\<close>

datatype I_key = mk_I_key (i_id: u64)

definition I_key :: "u64 \<Rightarrow> I_key" where
  "I_key i = mk_I_key i"

definition pack_I :: "I_key \<Rightarrow> byte list" where
  "pack_I k = wbytes (i_id k)"

definition unpack_I :: "byte list \<Rightarrow> I_key" where
  "unpack_I bs =
     mk_I_key (wread bs)"

definition I_key_to_model_key :: "I_key \<Rightarrow> rat list" where
  "I_key_to_model_key k = [f64 (of_nat (unat (i_id k)))]"

definition I_key_max :: I_key where
  "I_key_max = memset_key unpack_I 8 255"

definition I_key_min :: I_key where
  "I_key_min = memset_key unpack_I 8 0"

definition I_key_to_str_key :: "I_key \<Rightarrow> I_key" where
  "I_key_to_str_key k = str_key_of pack_I unpack_I k"

definition I_key_to_normal_key :: "I_key \<Rightarrow> I_key" where
  "I_key_to_normal_key k = I_key_to_str_key k"

definition I_key_lt :: "I_key \<Rightarrow> I_key \<Rightarrow> bool" where
  "I_key_lt l r \<longleftrightarrow> as_u64 pack_I l < as_u64 pack_I r"

definition I_key_eq :: "I_key \<Rightarrow> I_key \<Rightarrow> bool" where
  "I_key_eq l r \<longleftrightarrow> as_u64 pack_I l = as_u64 pack_I r"

lemma I_key_unpack_pack: "unpack_I (pack_I k) = k"
  by (cases k) (simp add: pack_I_def unpack_I_def wread_wbytes)

lemma I_key_pack_unpack: "length bs = 8 \<Longrightarrow> pack_I (unpack_I bs) = bs"
  by (simp add: pack_I_def unpack_I_def wbytes_wread)

interpretation I_u64: u64_key pack_I unpack_I 8
  by unfold_locales
    (simp_all add: pack_I_def I_key_unpack_pack [unfolded pack_I_def] I_key_pack_unpack [unfolded pack_I_def])

instantiation I_key :: linorder
begin

definition less_I_key :: "I_key \<Rightarrow> I_key \<Rightarrow> bool" where
  "less_I_key l r \<longleftrightarrow> I_key_lt l r"

definition less_eq_I_key :: "I_key \<Rightarrow> I_key \<Rightarrow> bool" where
  "less_eq_I_key l r \<longleftrightarrow> \<not> I_key_lt r l"

instance
  by standard (auto simp: less_I_key_def less_eq_I_key_def I_key_lt_def I_u64.as_u64_inject)

end

interpretation I: ordered_key pack_I unpack_I 8
  by unfold_locales (simp add: less_I_key_def I_key_lt_def I_u64.as_u64_less)

lemma I_key_eq [simp]: "I_key_eq l r \<longleftrightarrow> l = r"
  by (simp add: I_key_eq_def I_u64.as_u64_inject)

lemma I_key_less_iff:
  "k < l \<longleftrightarrow>
     i_id k < i_id l"
  by (auto simp: I.less_pack pack_I_def image_order)

subsection \<open>\<open>S_key\<close>\<close>

datatype S_key = mk_S_key (s_dummy: u16) (s_i_id: u32) (s_w_id: u16)

definition S_key :: "u16 \<Rightarrow> u32 \<Rightarrow> S_key" where
  "S_key wi ii = mk_S_key 0 ii wi"

definition pack_S :: "S_key \<Rightarrow> byte list" where
  "pack_S k = wbytes (s_dummy k) @ wbytes (s_i_id k) @ wbytes (s_w_id k)"

definition unpack_S :: "byte list \<Rightarrow> S_key" where
  "unpack_S bs =
     mk_S_key (wread (take 2 bs))
       (wread (take 4 (drop 2 bs)))
       (wread (drop 6 bs))"

definition S_key_to_model_key :: "S_key \<Rightarrow> rat list" where
  "S_key_to_model_key k = [f64 (of_nat (unat (s_w_id k))), f64 (of_nat (unat (s_i_id k)))]"

definition S_key_max :: S_key where
  "S_key_max = memset_key unpack_S 8 255"

definition S_key_min :: S_key where
  "S_key_min = memset_key unpack_S 8 0"

definition S_key_to_str_key :: "S_key \<Rightarrow> S_key" where
  "S_key_to_str_key k = str_key_of pack_S unpack_S k"

definition S_key_to_normal_key :: "S_key \<Rightarrow> S_key" where
  "S_key_to_normal_key k = S_key_to_str_key k"

definition S_key_lt :: "S_key \<Rightarrow> S_key \<Rightarrow> bool" where
  "S_key_lt l r \<longleftrightarrow> as_u64 pack_S l < as_u64 pack_S r"

definition S_key_eq :: "S_key \<Rightarrow> S_key \<Rightarrow> bool" where
  "S_key_eq l r \<longleftrightarrow> as_u64 pack_S l = as_u64 pack_S r"

lemma S_key_unpack_pack: "unpack_S (pack_S k) = k"
  by (cases k) (simp add: pack_S_def unpack_S_def wread_wbytes)

lemma S_key_pack_unpack: "length bs = 8 \<Longrightarrow> pack_S (unpack_S bs) = bs"
  using split3 [of 2 bs 4, simplified]
  by (simp add: pack_S_def unpack_S_def wbytes_wread)

interpretation S_u64: u64_key pack_S unpack_S 8
  by unfold_locales
    (simp_all add: pack_S_def S_key_unpack_pack [unfolded pack_S_def] S_key_pack_unpack [unfolded pack_S_def])

instantiation S_key :: linorder
begin

definition less_S_key :: "S_key \<Rightarrow> S_key \<Rightarrow> bool" where
  "less_S_key l r \<longleftrightarrow> S_key_lt l r"

definition less_eq_S_key :: "S_key \<Rightarrow> S_key \<Rightarrow> bool" where
  "less_eq_S_key l r \<longleftrightarrow> \<not> S_key_lt r l"

instance
  by standard (auto simp: less_S_key_def less_eq_S_key_def S_key_lt_def S_u64.as_u64_inject)

end

interpretation S: ordered_key pack_S unpack_S 8
  by unfold_locales (simp add: less_S_key_def S_key_lt_def S_u64.as_u64_less)

lemma S_key_eq [simp]: "S_key_eq l r \<longleftrightarrow> l = r"
  by (simp add: S_key_eq_def S_u64.as_u64_inject)

lemma S_key_less_iff:
  "k < l \<longleftrightarrow>
     s_w_id k < s_w_id l \<or>
     s_w_id k = s_w_id l \<and> s_i_id k < s_i_id l \<or>
     s_w_id k = s_w_id l \<and> s_i_id k = s_i_id l \<and> s_dummy k < s_dummy l"
  by (auto simp: S.less_pack pack_S_def image_order)

subsection \<open>\<open>S_Data_key\<close>\<close>

datatype S_Data_key = mk_S_Data_key (sd_dummy: u16) (sd_i_id: u32) (sd_w_id: u16)

definition S_Data_key :: "u16 \<Rightarrow> u32 \<Rightarrow> S_Data_key" where
  "S_Data_key wi ii = mk_S_Data_key 0 ii wi"

definition pack_SD :: "S_Data_key \<Rightarrow> byte list" where
  "pack_SD k = wbytes (sd_dummy k) @ wbytes (sd_i_id k) @ wbytes (sd_w_id k)"

definition unpack_SD :: "byte list \<Rightarrow> S_Data_key" where
  "unpack_SD bs =
     mk_S_Data_key (wread (take 2 bs))
       (wread (take 4 (drop 2 bs)))
       (wread (drop 6 bs))"

definition S_Data_key_to_model_key :: "S_Data_key \<Rightarrow> rat list" where
  "S_Data_key_to_model_key k = [f64 (of_nat (unat (sd_w_id k))), f64 (of_nat (unat (sd_i_id k)))]"

definition S_Data_key_max :: S_Data_key where
  "S_Data_key_max = memset_key unpack_SD 8 255"

definition S_Data_key_min :: S_Data_key where
  "S_Data_key_min = memset_key unpack_SD 8 0"

definition S_Data_key_to_str_key :: "S_Data_key \<Rightarrow> S_Data_key" where
  "S_Data_key_to_str_key k = str_key_of pack_SD unpack_SD k"

definition S_Data_key_to_normal_key :: "S_Data_key \<Rightarrow> S_Data_key" where
  "S_Data_key_to_normal_key k = S_Data_key_to_str_key k"

definition S_Data_key_lt :: "S_Data_key \<Rightarrow> S_Data_key \<Rightarrow> bool" where
  "S_Data_key_lt l r \<longleftrightarrow> as_u64 pack_SD l < as_u64 pack_SD r"

definition S_Data_key_eq :: "S_Data_key \<Rightarrow> S_Data_key \<Rightarrow> bool" where
  "S_Data_key_eq l r \<longleftrightarrow> as_u64 pack_SD l = as_u64 pack_SD r"

lemma S_Data_key_unpack_pack: "unpack_SD (pack_SD k) = k"
  by (cases k) (simp add: pack_SD_def unpack_SD_def wread_wbytes)

lemma S_Data_key_pack_unpack: "length bs = 8 \<Longrightarrow> pack_SD (unpack_SD bs) = bs"
  using split3 [of 2 bs 4, simplified]
  by (simp add: pack_SD_def unpack_SD_def wbytes_wread)

interpretation SD_u64: u64_key pack_SD unpack_SD 8
  by unfold_locales
    (simp_all add: pack_SD_def S_Data_key_unpack_pack [unfolded pack_SD_def] S_Data_key_pack_unpack [unfolded pack_SD_def])

instantiation S_Data_key :: linorder
begin

definition less_S_Data_key :: "S_Data_key \<Rightarrow> S_Data_key \<Rightarrow> bool" where
  "less_S_Data_key l r \<longleftrightarrow> S_Data_key_lt l r"

definition less_eq_S_Data_key :: "S_Data_key \<Rightarrow> S_Data_key \<Rightarrow> bool" where
  "less_eq_S_Data_key l r \<longleftrightarrow> \<not> S_Data_key_lt r l"

instance
  by standard (auto simp: less_S_Data_key_def less_eq_S_Data_key_def S_Data_key_lt_def SD_u64.as_u64_inject)

end

interpretation SD: ordered_key pack_SD unpack_SD 8
  by unfold_locales (simp add: less_S_Data_key_def S_Data_key_lt_def SD_u64.as_u64_less)

lemma S_Data_key_eq [simp]: "S_Data_key_eq l r \<longleftrightarrow> l = r"
  by (simp add: S_Data_key_eq_def SD_u64.as_u64_inject)

lemma S_Data_key_less_iff:
  "k < l \<longleftrightarrow>
     sd_w_id k < sd_w_id l \<or>
     sd_w_id k = sd_w_id l \<and> sd_i_id k < sd_i_id l \<or>
     sd_w_id k = sd_w_id l \<and> sd_i_id k = sd_i_id l \<and> sd_dummy k < sd_dummy l"
  by (auto simp: SD.less_pack pack_SD_def image_order)

section \<open>The history key\<close>

text \<open>
  \<open>H_key\<close> has twelve bytes and is compared field by field through \<open>to_model_key\<close>, whose
  entries are exact because the fields have at most 32 bits.
\<close>

subsection \<open>\<open>H_key\<close>\<close>

datatype H_key = mk_H_key (h_c_id: u16) (h_c_d_id: byte) (h_c_w_id: u16) (h_date: u32) (h_d_id: byte) (h_w_id: u16)

definition H_key :: "u16 \<Rightarrow> byte \<Rightarrow> u16 \<Rightarrow> byte \<Rightarrow> u16 \<Rightarrow> u32 \<Rightarrow> H_key" where
  "H_key wi di cwi cdi ci ts = mk_H_key ci cdi cwi ts di wi"

definition pack_H :: "H_key \<Rightarrow> byte list" where
  "pack_H k = wbytes (h_c_id k) @ wbytes (h_c_d_id k) @ wbytes (h_c_w_id k) @ wbytes (h_date k) @ wbytes (h_d_id k) @ wbytes (h_w_id k)"

definition unpack_H :: "byte list \<Rightarrow> H_key" where
  "unpack_H bs =
     mk_H_key (wread (take 2 bs))
       (wread (take 1 (drop 2 bs)))
       (wread (take 2 (drop 3 bs)))
       (wread (take 4 (drop 5 bs)))
       (wread (take 1 (drop 9 bs)))
       (wread (drop 10 bs))"

definition H_key_to_model_key :: "H_key \<Rightarrow> rat list" where
  "H_key_to_model_key k = [f64 (of_nat (unat (h_w_id k))), f64 (of_nat (unat (h_d_id k))), f64 (of_nat (unat (h_date k))), f64 (of_nat (unat (h_c_w_id k))), f64 (of_nat (unat (h_c_d_id k))), f64 (of_nat (unat (h_c_id k)))]"

definition H_key_max :: H_key where
  "H_key_max = memset_key unpack_H 12 255"

definition H_key_min :: H_key where
  "H_key_min = memset_key unpack_H 12 0"

definition H_key_to_str_key :: "H_key \<Rightarrow> H_key" where
  "H_key_to_str_key k = str_key_of pack_H unpack_H k"

definition H_key_to_normal_key :: "H_key \<Rightarrow> H_key" where
  "H_key_to_normal_key k = H_key_to_str_key k"

lemma H_key_unpack_pack: "unpack_H (pack_H k) = k"
  by (cases k) (simp add: pack_H_def unpack_H_def wread_wbytes)

lemma H_key_pack_unpack: "length bs = 12 \<Longrightarrow> pack_H (unpack_H bs) = bs"
  using split6 [of 2 bs 1 2 4 1, simplified]
  by (simp add: pack_H_def unpack_H_def wbytes_wread)

fun smaller_loop :: "rat list \<Rightarrow> rat list \<Rightarrow> bool" where
  "smaller_loop (a # k1) (b # k2) =
     (if a > b then False else if a < b then True else smaller_loop k1 k2)"
| "smaller_loop _ _ = False"

definition H_key_smaller :: "H_key \<Rightarrow> H_key \<Rightarrow> bool" where
  "H_key_smaller k r = smaller_loop (H_key_to_model_key k) (H_key_to_model_key r)"

definition H_key_lt :: "H_key \<Rightarrow> H_key \<Rightarrow> bool" where
  "H_key_lt l r \<longleftrightarrow> H_key_smaller l r"

definition H_key_eq :: "H_key \<Rightarrow> H_key \<Rightarrow> bool" where
  "H_key_eq l r \<longleftrightarrow> \<not> H_key_smaller l r \<and> \<not> H_key_smaller r l"

lemma f64_word_exact:
  assumes "LENGTH('a) \<le> 53"
  shows "f64 (of_nat (unat (w :: 'a::len word))) = of_nat (unat w)"
proof -
  have "unat w < 2 ^ LENGTH('a)" by (rule unsigned_less)
  also have "\<dots> \<le> (2::nat) ^ 53" using assms by (intro power_increasing) simp_all
  finally have "int (unat w) < int (2 ^ 53)" by (simp only: of_nat_less_iff)
  then have "int (unat w) < 2 ^ 53" by (simp del: of_nat_unat)
  then show ?thesis using rnd_exact_int [of "int (unat w)" 53] by (simp add: f64_def)
qed

lemma H_key_smaller_fields:
  "H_key_smaller k l \<longleftrightarrow> of_le (pack_H k) < of_le (pack_H l)"
  by (auto simp: H_key_smaller_def H_key_to_model_key_def f64_word_exact pack_H_def image_order
      word_less_nat_alt word_unat_eq_iff simp del: of_nat_unat)

interpretation H_packed: packed_key pack_H unpack_H 12
  by unfold_locales
    (simp_all add: pack_H_def H_key_unpack_pack [unfolded pack_H_def] H_key_pack_unpack [unfolded pack_H_def])

lemma H_image_inject: "of_le (pack_H k) = of_le (pack_H l) \<longleftrightarrow> k = l"
  by (metis H_packed.length_pack H_packed.pack_inject of_le_inj)

instantiation H_key :: linorder
begin

definition less_H_key :: "H_key \<Rightarrow> H_key \<Rightarrow> bool" where
  "less_H_key l r \<longleftrightarrow> H_key_lt l r"

definition less_eq_H_key :: "H_key \<Rightarrow> H_key \<Rightarrow> bool" where
  "less_eq_H_key l r \<longleftrightarrow> \<not> H_key_lt r l"

instance
  by standard
    (auto simp: less_H_key_def less_eq_H_key_def H_key_lt_def H_key_smaller_fields H_image_inject
      simp flip: H_image_inject)

end

interpretation H: ordered_key pack_H unpack_H 12
  by unfold_locales (simp add: less_H_key_def H_key_lt_def H_key_smaller_fields)

lemma H_key_eq [simp]: "H_key_eq l r \<longleftrightarrow> l = r"
  by (auto simp: H_key_eq_def H_key_smaller_fields simp flip: H_image_inject)

section \<open>The customer name index key\<close>

text \<open>
  Compared with \<open>memcmp\<close> on the whole struct, and used as a string without reversal. The two
  strings have 16 bytes each.
\<close>

datatype CustomerNameIndexKey =
  CustomerNameIndexKey (ci_w_id: u16) (ci_d_id: byte) (ci_last: "byte list") (ci_first: "byte list")

definition pack_CN :: "CustomerNameIndexKey \<Rightarrow> byte list" where
  "pack_CN k = wbytes (ci_w_id k) @ wbytes (ci_d_id k) @ ci_last k @ ci_first k"

definition unpack_CN :: "byte list \<Rightarrow> CustomerNameIndexKey" where
  "unpack_CN bs =
     CustomerNameIndexKey (wread (take 2 bs)) (wread (take 1 (drop 2 bs)))
       (take 16 (drop 3 bs)) (drop 19 bs)"

definition CustomerNameIndexKey_ok :: "CustomerNameIndexKey \<Rightarrow> bool" where
  "CustomerNameIndexKey_ok k \<longleftrightarrow> length (ci_last k) = 16 \<and> length (ci_first k) = 16"

definition CustomerNameIndexKey_to_model_key :: "CustomerNameIndexKey \<Rightarrow> fault + rat list" where
  "CustomerNameIndexKey_to_model_key k =
     bindE (bytes_model_key (pack_CN k)) (\<lambda>ks. Inr (map (\<lambda>n. f64 (of_nat n)) ks))"

definition CustomerNameIndexKey_max :: CustomerNameIndexKey where
  "CustomerNameIndexKey_max = memset_key unpack_CN 35 255"

definition CustomerNameIndexKey_min :: CustomerNameIndexKey where
  "CustomerNameIndexKey_min = memset_key unpack_CN 35 0"

definition CustomerNameIndexKey_to_str_key :: "CustomerNameIndexKey \<Rightarrow> CustomerNameIndexKey" where
  "CustomerNameIndexKey_to_str_key k = k"

definition CustomerNameIndexKey_to_normal_key :: "CustomerNameIndexKey \<Rightarrow> CustomerNameIndexKey" where
  "CustomerNameIndexKey_to_normal_key k = CustomerNameIndexKey_to_str_key k"

definition CustomerNameIndexKey_lt :: "CustomerNameIndexKey \<Rightarrow> CustomerNameIndexKey \<Rightarrow> bool" where
  "CustomerNameIndexKey_lt l r \<longleftrightarrow> memcmp (pack_CN l) (pack_CN r) < 0"

definition CustomerNameIndexKey_eq :: "CustomerNameIndexKey \<Rightarrow> CustomerNameIndexKey \<Rightarrow> bool" where
  "CustomerNameIndexKey_eq l r \<longleftrightarrow> memcmp (pack_CN l) (pack_CN r) = 0"

lemma length_pack_CN: "CustomerNameIndexKey_ok k \<Longrightarrow> length (pack_CN k) = 35"
  by (simp add: CustomerNameIndexKey_ok_def pack_CN_def)

section \<open>Properties\<close>

text \<open>C32: for each of the eleven integer-valued key types, comparing the byte strings handed to
  the index (\<open>to_str_key\<close>) with \<open>memcmp\<close> is comparing the keys with the struct's own
  \<open>operator<\<close>: a scan of the index visits the keys in key order.\<close>

theorem tpcc_str_keys_ordered:
  "(memcmp (pack_W (W_key_to_str_key w1)) (pack_W (W_key_to_str_key w2)) < 0 \<longleftrightarrow> W_key_lt w1 w2) \<and>
   (memcmp (pack_D (D_key_to_str_key d1)) (pack_D (D_key_to_str_key d2)) < 0 \<longleftrightarrow> D_key_lt d1 d2) \<and>
   (memcmp (pack_C (C_key_to_str_key c1)) (pack_C (C_key_to_str_key c2)) < 0 \<longleftrightarrow> C_key_lt c1 c2) \<and>
   (memcmp (pack_H (H_key_to_str_key h1)) (pack_H (H_key_to_str_key h2)) < 0 \<longleftrightarrow> H_key_lt h1 h2) \<and>
   (memcmp (pack_NO (NO_key_to_str_key n1)) (pack_NO (NO_key_to_str_key n2)) < 0 \<longleftrightarrow> NO_key_lt n1 n2) \<and>
   (memcmp (pack_O (O_key_to_str_key o1)) (pack_O (O_key_to_str_key o2)) < 0 \<longleftrightarrow> O_key_lt o1 o2) \<and>
   (memcmp (pack_OL (OL_key_to_str_key l1)) (pack_OL (OL_key_to_str_key l2)) < 0 \<longleftrightarrow> OL_key_lt l1 l2) \<and>
   (memcmp (pack_I (I_key_to_str_key i1)) (pack_I (I_key_to_str_key i2)) < 0 \<longleftrightarrow> I_key_lt i1 i2) \<and>
   (memcmp (pack_S (S_key_to_str_key s1)) (pack_S (S_key_to_str_key s2)) < 0 \<longleftrightarrow> S_key_lt s1 s2) \<and>
   (memcmp (pack_SD (S_Data_key_to_str_key x1)) (pack_SD (S_Data_key_to_str_key x2)) < 0 \<longleftrightarrow> S_Data_key_lt x1 x2) \<and>
   (memcmp (pack_OC (OrderCidIndexKey_to_str_key y1)) (pack_OC (OrderCidIndexKey_to_str_key y2)) < 0
      \<longleftrightarrow> OrderCidIndexKey_lt y1 y2)"
  by (simp add: W_key_to_str_key_def D_key_to_str_key_def C_key_to_str_key_def H_key_to_str_key_def
      NO_key_to_str_key_def O_key_to_str_key_def OL_key_to_str_key_def I_key_to_str_key_def
      S_key_to_str_key_def S_Data_key_to_str_key_def OrderCidIndexKey_to_str_key_def
      W.str_key_memcmp D.str_key_memcmp C.str_key_memcmp H.str_key_memcmp NO.str_key_memcmp
      O.str_key_memcmp OL.str_key_memcmp I.str_key_memcmp S.str_key_memcmp SD.str_key_memcmp
      OC.str_key_memcmp less_W_key_def less_D_key_def less_C_key_def less_H_key_def less_NO_key_def
      less_O_key_def less_OL_key_def less_I_key_def less_S_key_def less_S_Data_key_def
      less_OrderCidIndexKey_def)

text \<open>C33: \<open>to_normal_key\<close> undoes \<open>to_str_key\<close> for every key type, so a key read back from the
  index is the key that was inserted.\<close>

theorem tpcc_normal_key_roundtrip:
  "W_key_to_normal_key (W_key_to_str_key w) = w \<and> D_key_to_normal_key (D_key_to_str_key d) = d \<and>
   C_key_to_normal_key (C_key_to_str_key c) = c \<and> H_key_to_normal_key (H_key_to_str_key h) = h \<and>
   NO_key_to_normal_key (NO_key_to_str_key n) = n \<and> O_key_to_normal_key (O_key_to_str_key k) = k \<and>
   OL_key_to_normal_key (OL_key_to_str_key l) = l \<and> I_key_to_normal_key (I_key_to_str_key i) = i \<and>
   S_key_to_normal_key (S_key_to_str_key s) = s \<and>
   S_Data_key_to_normal_key (S_Data_key_to_str_key x) = x \<and>
   OrderCidIndexKey_to_normal_key (OrderCidIndexKey_to_str_key y) = y \<and>
   CustomerNameIndexKey_to_normal_key (CustomerNameIndexKey_to_str_key z) = z"
  by (simp add: W_key_to_str_key_def D_key_to_str_key_def C_key_to_str_key_def H_key_to_str_key_def
      NO_key_to_str_key_def O_key_to_str_key_def OL_key_to_str_key_def I_key_to_str_key_def
      S_key_to_str_key_def S_Data_key_to_str_key_def OrderCidIndexKey_to_str_key_def
      W_key_to_normal_key_def D_key_to_normal_key_def C_key_to_normal_key_def H_key_to_normal_key_def
      NO_key_to_normal_key_def O_key_to_normal_key_def OL_key_to_normal_key_def
      I_key_to_normal_key_def S_key_to_normal_key_def S_Data_key_to_normal_key_def
      OrderCidIndexKey_to_normal_key_def CustomerNameIndexKey_to_normal_key_def
      CustomerNameIndexKey_to_str_key_def
      W_u64.str_key_involutive D_u64.str_key_involutive C_u64.str_key_involutive H_packed.str_key_involutive
      NO_u64.str_key_involutive O_u64.str_key_involutive OL_u64.str_key_involutive I_u64.str_key_involutive
      S_u64.str_key_involutive SD_u64.str_key_involutive OC_u64.str_key_involutive)

text \<open>\<open>min()\<close> and \<open>max()\<close> of the key types really bound every key.\<close>

theorem tpcc_key_bounds:
  "W_key_min \<le> w \<and> w \<le> W_key_max \<and> D_key_min \<le> d \<and> d \<le> D_key_max \<and>
   C_key_min \<le> c \<and> c \<le> C_key_max \<and> H_key_min \<le> h \<and> h \<le> H_key_max \<and>
   NO_key_min \<le> n \<and> n \<le> NO_key_max \<and> O_key_min \<le> k \<and> k \<le> O_key_max \<and>
   OL_key_min \<le> l \<and> l \<le> OL_key_max \<and> I_key_min \<le> i \<and> i \<le> I_key_max \<and>
   S_key_min \<le> s \<and> s \<le> S_key_max \<and> S_Data_key_min \<le> x \<and> x \<le> S_Data_key_max \<and>
   OrderCidIndexKey_min \<le> y \<and> y \<le> OrderCidIndexKey_max"
  by (simp add: W_key_min_def W_key_max_def D_key_min_def D_key_max_def C_key_min_def C_key_max_def
      H_key_min_def H_key_max_def NO_key_min_def NO_key_max_def O_key_min_def O_key_max_def
      OL_key_min_def OL_key_max_def I_key_min_def I_key_max_def S_key_min_def S_key_max_def
      S_Data_key_min_def S_Data_key_max_def OrderCidIndexKey_min_def OrderCidIndexKey_max_def
      W.memset_least W.memset_greatest D.memset_least D.memset_greatest C.memset_least
      C.memset_greatest H.memset_least H.memset_greatest NO.memset_least NO.memset_greatest
      O.memset_least O.memset_greatest OL.memset_least OL.memset_greatest I.memset_least
      I.memset_greatest S.memset_least S.memset_greatest SD.memset_least SD.memset_greatest
      OC.memset_least OC.memset_greatest)

text \<open>the order lines of one order are exactly the keys from \<open>OL_key(w, d, o, 0)\<close> up to, but
  not including, \<open>OL_key(w, d, o + 1, 0)\<close>: a range scan between these two keys is a scan of
  the order.\<close>

theorem order_line_range:
  assumes "oid \<noteq> - 1"
  shows "OL_key w d oid 0 \<le> k \<and> k < OL_key w d (oid + 1) 0 \<longleftrightarrow>
    ol_w_id k = w \<and> ol_d_id k = d \<and> ol_o_id k = oid"
proof -
  have "unat (oid + 1) = unat oid + 1" using assms by (rule unat_inc_u32)
  then have "a < oid + 1 \<longleftrightarrow> a \<le> oid" for a
    by (simp add: word_less_nat_alt word_le_nat_alt less_Suc_eq_le)
  note lt = this
  have "OL_key w d oid 0 \<le> k \<longleftrightarrow> \<not> k < OL_key w d oid 0" by (rule linorder_not_less [symmetric])
  then show ?thesis
    by (simp only: OL_key_less_iff OL_key_def OL_key.sel lt word_not_simps) (auto dest: order.antisym)
qed

lemma order_line_range_witness:
  "OL_key 1 2 3001 0 \<le> OL_key 1 2 3001 7 \<and> OL_key 1 2 3001 7 < OL_key 1 2 (3001 + 1) 0"
  using order_line_range [of 3001 1 2 "OL_key 1 2 3001 7"] by (simp add: OL_key_def)

end
