(* ===== verification/MicroKeys.thy ===== *)
theory MicroKeys
  imports ModelKeys
begin

text \<open>
  The key and value types of the micro-benchmarks, \<open>benchmark/synthetic/micro_base.h\<close>: \<open>Key\<close>
  (one \<open>uint64_t\<close>, stored byte-reversed), \<open>StrKey<len>\<close> and \<open>StrBagKey<len>\<close> (byte arrays) and
  \<open>Value\<close>. The array length is the argument \<open>len\<close>; the element type of a model key is
  \<open>double\<close>.
\<close>

section \<open>\<open>Key\<close>\<close>

datatype Key = Key (key_val: u64)

definition Key_max :: Key where
  "Key_max = Key (- 1)"

definition Key_min :: Key where
  "Key_min = Key 0"

definition Key_new :: Key where
  "Key_new = Key 0"

definition pack_Key :: "Key \<Rightarrow> byte list" where
  "pack_Key k = wbytes (key_val k)"

definition unpack_Key :: "byte list \<Rightarrow> Key" where
  "unpack_Key bs = Key (wread bs)"

definition Key_to_model_key :: "Key \<Rightarrow> rat list" where
  "Key_to_model_key k = [f64 (of_nat (unat (key_val k)))]"

definition Key_to_str_key :: "Key \<Rightarrow> Key" where
  "Key_to_str_key k = str_key_of pack_Key unpack_Key k"

definition Key_to_wh_key :: "Key \<Rightarrow> Key" where
  "Key_to_wh_key k = Key_to_str_key k"

definition Key_to_normal_key :: "Key \<Rightarrow> Key" where
  "Key_to_normal_key k = Key_to_str_key k"

definition Key_lt :: "Key \<Rightarrow> Key \<Rightarrow> bool" where
  "Key_lt l r \<longleftrightarrow> key_val l < key_val r"

definition Key_eq :: "Key \<Rightarrow> Key \<Rightarrow> bool" where
  "Key_eq l r \<longleftrightarrow> key_val l = key_val r"

instantiation Key :: linorder
begin

definition less_Key :: "Key \<Rightarrow> Key \<Rightarrow> bool" where
  "less_Key l r \<longleftrightarrow> Key_lt l r"

definition less_eq_Key :: "Key \<Rightarrow> Key \<Rightarrow> bool" where
  "less_eq_Key l r \<longleftrightarrow> \<not> Key_lt r l"

instance
  by standard (auto simp: less_Key_def less_eq_Key_def Key_lt_def Key.expand)

end

interpretation MK: ordered_key pack_Key unpack_Key 8
  by unfold_locales
    (simp_all add: pack_Key_def unpack_Key_def wread_wbytes wbytes_wread less_Key_def Key_lt_def
      of_le_wbytes word_less_nat_alt)

section \<open>\<open>Value\<close>\<close>

text \<open>\<open>VAL_LEN\<close> words of padding and the value; only the value is compared.\<close>

datatype Value = Value (val_padding: "u64 list") (val_of: u64)

definition Value_eq :: "Value \<Rightarrow> Value \<Rightarrow> bool" where
  "Value_eq l r \<longleftrightarrow> val_of l = val_of r"

section \<open>\<open>StrKey\<close>\<close>

datatype StrKey = StrKey (str_buf: "byte list")

definition StrKey_ok :: "nat \<Rightarrow> StrKey \<Rightarrow> bool" where
  "StrKey_ok len k \<longleftrightarrow> length (str_buf k) = len"

definition StrKey_max :: "nat \<Rightarrow> StrKey" where
  "StrKey_max len = StrKey (replicate len 255)"

definition StrKey_min :: "nat \<Rightarrow> StrKey" where
  "StrKey_min len = StrKey (replicate len 0)"

definition StrKey_new :: "nat \<Rightarrow> StrKey" where
  "StrKey_new len = StrKey (replicate len 0)"

text \<open>The constructor from a \<open>uint64_t\<close> aborts; the one from a string copies the whole string.\<close>

definition StrKey_of_u64 :: "nat \<Rightarrow> u64 \<Rightarrow> fault + StrKey" where
  "StrKey_of_u64 len k = Inl Aborted"

definition StrKey_of_string :: "nat \<Rightarrow> byte list \<Rightarrow> fault + StrKey" where
  "StrKey_of_string len s =
     bindE (blit s 0 (replicate len 0) 0 (length s)) (\<lambda>b. Inr (StrKey b))"

definition StrKey_assign :: "nat \<Rightarrow> StrKey \<Rightarrow> StrKey" where
  "StrKey_assign len other = StrKey (take len (str_buf other))"

definition StrKey_to_model_key :: "StrKey \<Rightarrow> rat list" where
  "StrKey_to_model_key k = map (\<lambda>b. of_nat (unat b)) (str_buf k)"

definition StrKey_to_str_key :: "StrKey \<Rightarrow> StrKey" where
  "StrKey_to_str_key k = k"

definition StrKey_to_wh_key :: "StrKey \<Rightarrow> StrKey" where
  "StrKey_to_wh_key k = k"

definition StrKey_to_normal_key :: "StrKey \<Rightarrow> StrKey" where
  "StrKey_to_normal_key k = StrKey_to_str_key k"

definition StrKey_cmp :: "nat \<Rightarrow> StrKey \<Rightarrow> StrKey \<Rightarrow> int" where
  "StrKey_cmp len l r = memcmp (take len (str_buf l)) (take len (str_buf r))"

section \<open>\<open>StrBagKey\<close>\<close>

text \<open>
  After the array the struct has a field \<open>key\<close> that no constructor and no assignment sets: a new
  object keeps whatever its memory held, the argument \<open>junk\<close>. The struct is packed, so its
  memory image has \<open>len + 8\<close> bytes.
\<close>

datatype StrBagKey = StrBagKey (bag_buf: "byte list") (bag_key: u64)

definition StrBagKey_ok :: "nat \<Rightarrow> StrBagKey \<Rightarrow> bool" where
  "StrBagKey_ok len k \<longleftrightarrow> length (bag_buf k) = len"

definition StrBagKey_max :: "nat \<Rightarrow> StrBagKey" where
  "StrBagKey_max len = StrBagKey (replicate len 255) 0"

definition StrBagKey_min :: "nat \<Rightarrow> StrBagKey" where
  "StrBagKey_min len = StrBagKey (replicate len 0) 0"

definition StrBagKey_new :: "u64 \<Rightarrow> nat \<Rightarrow> StrBagKey" where
  "StrBagKey_new junk len = StrBagKey (replicate len 0) junk"

definition StrBagKey_of_u64 :: "nat \<Rightarrow> u64 \<Rightarrow> fault + StrBagKey" where
  "StrBagKey_of_u64 len k = Inl Aborted"

definition StrBagKey_of_string :: "u64 \<Rightarrow> nat \<Rightarrow> byte list \<Rightarrow> fault + StrBagKey" where
  "StrBagKey_of_string junk len s =
     bindE (guardE AssertFailed (length s \<le> len)) (\<lambda>_.
     bindE (blit s 0 (replicate len 0) 0 (length s)) (\<lambda>b. Inr (StrBagKey b junk)))"

definition StrBagKey_copy :: "u64 \<Rightarrow> nat \<Rightarrow> StrBagKey \<Rightarrow> StrBagKey" where
  "StrBagKey_copy junk len other = StrBagKey (take len (bag_buf other)) junk"

definition StrBagKey_assign :: "nat \<Rightarrow> StrBagKey \<Rightarrow> StrBagKey \<Rightarrow> StrBagKey" where
  "StrBagKey_assign len this other = StrBagKey (take len (bag_buf other)) (bag_key this)"

definition StrBagKey_to_model_key :: "StrBagKey \<Rightarrow> fault + rat list" where
  "StrBagKey_to_model_key k =
     bindE (bytes_model_key (bag_buf k)) (\<lambda>ks. Inr (map (\<lambda>n. f64 (of_nat n)) ks))"

text \<open>\<open>to_str_key\<close> and \<open>to_wh_key\<close> return a copy of \<open>*this\<close>.\<close>

definition StrBagKey_to_str_key :: "u64 \<Rightarrow> nat \<Rightarrow> StrBagKey \<Rightarrow> StrBagKey" where
  "StrBagKey_to_str_key junk len k = StrBagKey_copy junk len k"

definition StrBagKey_cmp :: "nat \<Rightarrow> StrBagKey \<Rightarrow> StrBagKey \<Rightarrow> int" where
  "StrBagKey_cmp len l r = memcmp (take len (bag_buf l)) (take len (bag_buf r))"

fun keycmp :: "rat list \<Rightarrow> rat list \<Rightarrow> nat \<Rightarrow> int" where
  "keycmp (a # lk) (b # rk) (Suc l) =
     (if a > b then 1 else if a < b then -1 else keycmp lk rk l)"
| "keycmp _ _ _ = 0"

text \<open>The memory image, which the index wrappers use as the key.\<close>

definition pack_StrBag :: "StrBagKey \<Rightarrow> byte list" where
  "pack_StrBag k = bag_buf k @ wbytes (bag_key k)"

section \<open>Properties\<close>

text \<open>The integer vector of a byte-string key (before its entries become \<open>double\<close>s) orders
  keys exactly as \<open>memcmp\<close> does, for every key length whose last block has a supported size;
  for a last block of 3, 5, 6 or 7 bytes \<open>to_model_key\<close> aborts.\<close>

theorem model_key_order:
  assumes "length (bag_buf k) = len" and "length (bag_buf l) = len" and "0 < len"
  shows "(if len mod 8 \<in> {0, 1, 2, 4}
    then \<exists>ks ls. bytes_model_key (bag_buf k) = Inr ks \<and> bytes_model_key (bag_buf l) = Inr ls \<and>
      (ks < ls \<longleftrightarrow> StrBagKey_cmp len k l < 0)
    else StrBagKey_to_model_key k = Inl Aborted)"
proof (cases "len mod 8 \<in> {0, 1, 2, 4}")
  case True
  obtain ks where ks: "bytes_model_key (bag_buf k) = Inr ks"
    using bytes_model_key_total [of "bag_buf k"] assms True by auto
  obtain ls where ls: "bytes_model_key (bag_buf l) = Inr ls"
    using bytes_model_key_total [of "bag_buf l"] assms True by auto
  have "ks < ls \<longleftrightarrow> bag_buf k < bag_buf l"
    using bytes_model_key_less [OF _ _ ks ls] assms by simp
  with True ks ls assms show ?thesis by (simp add: StrBagKey_cmp_def memcmp_less)
next
  case False
  moreover have "len mod 8 < 8" by simp
  ultimately have "len mod 8 \<in> {3, 5, 6, 7}" by auto
  with False assms bytes_model_key_aborts [of "bag_buf k"] show ?thesis
    by (simp add: StrBagKey_to_model_key_def)
qed

lemma model_key_order_witness:
  "\<exists>ks ls. bytes_model_key (replicate 16 1) = Inr ks \<and> bytes_model_key (replicate 16 2) = Inr ls \<and>
    (ks < ls \<longleftrightarrow> StrBagKey_cmp 16 (StrBagKey (replicate 16 1) 0) (StrBagKey (replicate 16 2) 0) < 0)"
  using model_key_order [of "StrBagKey (replicate 16 1) 0" 16 "StrBagKey (replicate 16 2) 0"]
  by simp

text \<open>The strings \<open>Key\<close> hands to the indexes are ordered as the keys are, reversing twice
  gives the key back, and \<open>min\<close> and \<open>max\<close> bound every key.\<close>

theorem Key_str_key_order:
  "(memcmp (pack_Key (Key_to_str_key k)) (pack_Key (Key_to_str_key l)) < 0 \<longleftrightarrow> Key_lt k l) \<and>
   Key_to_normal_key (Key_to_str_key k) = k \<and> Key_min \<le> k \<and> k \<le> Key_max"
  by (simp add: Key_to_normal_key_def Key_to_str_key_def MK.str_key_memcmp MK.str_key_involutive
      less_Key_def less_eq_Key_def Key_lt_def Key_min_def Key_max_def not_less)

text \<open>A \<open>StrBagKey\<close> is not a usable index key: the image passed to the index includes the
  uninitialised field \<open>key\<close>, so two equal keys can have different images.\<close>

theorem StrBagKey_image_ambiguous:
  assumes "StrBagKey_ok len k" and "j \<noteq> j'"
  shows "StrBagKey_cmp len (StrBagKey_to_str_key j len k) (StrBagKey_to_str_key j' len k) = 0 \<and>
    pack_StrBag (StrBagKey_to_str_key j len k) \<noteq> pack_StrBag (StrBagKey_to_str_key j' len k)"
proof -
  have "wbytes j \<noteq> wbytes j'"
  proof
    assume "wbytes j = wbytes j'"
    then have "(wread (wbytes j) :: u64) = wread (wbytes j')" by simp
    with assms(2) show False by (simp add: wread_wbytes)
  qed
  then show ?thesis
    using assms(1) by (simp add: StrBagKey_to_str_key_def StrBagKey_copy_def StrBagKey_cmp_def
        pack_StrBag_def StrBagKey_ok_def memcmp_eq0)
qed

lemma StrBagKey_image_ambiguous_witness:
  "pack_StrBag (StrBagKey_to_str_key 0 3 (StrBagKey [1, 2, 3] 7)) \<noteq>
   pack_StrBag (StrBagKey_to_str_key 1 3 (StrBagKey [1, 2, 3] 7))"
  using StrBagKey_image_ambiguous [of 3 "StrBagKey [1, 2, 3] 7" 0 1] by (simp add: StrBagKey_ok_def)

end
