(* ===== verification/KvWrappers.thy ===== *)
theory KvWrappers
  imports TpccKeys MicroKeys "HOL-Library.Multiset"
begin

unbundle bit_operations_syntax

text \<open>
  Two of the wrappers of \<open>src/src/kv\<close> that give the vendored indexes one interface, \<open>MasstreeKV\<close>
  and \<open>WormholeKV\<close>, and the scan callback of \<open>helper.h\<close> (the others are in \<open>OtherWrappers\<close>). The
  vendored indexes are parameters: a record of the calls the wrapper makes. What a wrapper
  relies on is stated as a locale over that record. A value is copied into and out of the index
  as a block of bytes, so it is an arbitrary type here; a key is the byte string the wrapper
  builds, \<open>enc k\<close>, and \<open>dec\<close> is the reading back through \<open>to_normal_key\<close>.
\<close>

section \<open>Masstree\<close>

datatype result_t = NotFound | Retry | OutOfDate | Inserted | Updated | Found | ScanDone

record ('s, 'v) mt_api =
  run_get1 :: "'s \<Rightarrow> byte list \<Rightarrow> 'v option"
  run_replace :: "'s \<Rightarrow> byte list \<Rightarrow> 'v \<Rightarrow> 's \<times> result_t"
  run_remove :: "'s \<Rightarrow> byte list \<Rightarrow> 's \<times> bool"
  run_scan :: "'s \<Rightarrow> byte list \<Rightarrow> nat \<Rightarrow> (byte list \<times> 'v) list"

definition MasstreeKV_new :: "(int \<Rightarrow> 's) \<Rightarrow> int \<Rightarrow> 's" where
  "MasstreeKV_new initialize cxl_percentage = initialize cxl_percentage"

definition MasstreeKV_get ::
  "('s, 'v) mt_api \<Rightarrow> ('k \<Rightarrow> byte list) \<Rightarrow> 's \<Rightarrow> 'k \<Rightarrow> 'v \<Rightarrow> bool \<times> 'v" where
  "MasstreeKV_get q enc mass_tree k v =
     (case run_get1 q mass_tree (enc k) of Some val_str \<Rightarrow> (True, val_str) | None \<Rightarrow> (False, v))"

text \<open>The outcome of a \<open>get\<close> with \<open>v0\<close> in the caller's variable, as an option.\<close>

definition MasstreeKV_lookup ::
  "('s, 'v) mt_api \<Rightarrow> ('k \<Rightarrow> byte list) \<Rightarrow> 'v \<Rightarrow> 's \<Rightarrow> 'k \<Rightarrow> 'v option" where
  "MasstreeKV_lookup q enc v0 mass_tree k =
     (case MasstreeKV_get q enc mass_tree k v0 of (got, v) \<Rightarrow> if got then Some v else None)"

definition MasstreeKV_insert ::
  "('s, 'v) mt_api \<Rightarrow> ('k \<Rightarrow> byte list) \<Rightarrow> 's \<Rightarrow> 'k \<Rightarrow> 'v \<Rightarrow> fault + 's \<times> bool" where
  "MasstreeKV_insert q enc mass_tree k v =
     (let (mass_tree, res) = run_replace q mass_tree (enc k) v
      in bindE (guardE AssertFailed (res = Inserted \<or> res = Updated))
           (\<lambda>_. Inr (mass_tree, res = Inserted \<or> res = Updated)))"

definition MasstreeKV_remove ::
  "('s, 'v) mt_api \<Rightarrow> ('k \<Rightarrow> byte list) \<Rightarrow> 's \<Rightarrow> 'k \<Rightarrow> fault + 's \<times> bool" where
  "MasstreeKV_remove q enc mass_tree k = Inr (fst (run_remove q mass_tree (enc k)), True)"

definition MasstreeKV_lower_bound :: "'s \<Rightarrow> 'k \<Rightarrow> fault + 'k \<times> 'v" where
  "MasstreeKV_lower_bound mass_tree k = Inl Aborted"

text \<open>The result vector is not cleared: the records are appended to it.\<close>

definition MasstreeKV_scan ::
  "('s, 'v) mt_api \<Rightarrow> ('k \<Rightarrow> byte list) \<Rightarrow> (byte list \<Rightarrow> 'k) \<Rightarrow> 's \<Rightarrow> 'k \<Rightarrow> nat \<Rightarrow>
   ('k \<times> 'v) list \<Rightarrow> ('k \<times> 'v) list \<times> nat" where
  "MasstreeKV_scan q enc dec mass_tree k_start n result =
     (let result = result @ map (\<lambda>(b, v). (dec b, v)) (run_scan q mass_tree (enc k_start) n)
      in (result, length result))"

definition MasstreeKV_range_scan :: "'s \<Rightarrow> 'k \<Rightarrow> 'k \<Rightarrow> fault + ('k \<times> 'v) list" where
  "MasstreeKV_range_scan mass_tree k_start k_end = Inl Aborted"

text \<open>
  \<open>RangeScanCallback\<close>: called on the rows of a scan in key order until it returns false. A row
  that does not have exactly one selected column aborts.
\<close>

definition range_scan_callback ::
  "(byte list \<Rightarrow> 'k) \<Rightarrow> byte list \<Rightarrow> ('k \<times> 'v) list \<Rightarrow> byte list \<Rightarrow> 'v \<times> bool \<Rightarrow>
   fault + ('k \<times> 'v) list \<times> bool" where
  "range_scan_callback dec endk result key row =
     (if memcmp key endk \<ge> 0 then Inr (result, False)
      else if snd row then Inr (result @ [(dec key, fst row)], True)
      else Inl Aborted)"

fun range_scan_rows ::
  "(byte list \<Rightarrow> 'k) \<Rightarrow> byte list \<Rightarrow> ('k \<times> 'v) list \<Rightarrow> (byte list \<times> 'v \<times> bool) list \<Rightarrow>
   fault + ('k \<times> 'v) list" where
  "range_scan_rows dec endk result [] = Inr result"
| "range_scan_rows dec endk result ((key, row) # rows) =
     bindE (range_scan_callback dec endk result key row) (\<lambda>(result, go).
       if go then range_scan_rows dec endk result rows else Inr result)"

text \<open>
  What the wrapper relies on: Masstree is an ordered map of byte strings. Its \<open>run_scan\<close> asserts that
  the number of records asked for, which it reads as a signed \<open>int\<close>, is positive; nothing is assumed
  of a scan for none or for \<open>2 ^ 31\<close> and more.
\<close>

locale masstree_contract =
  fixes q :: "('s, 'v) mt_api" and inv :: "'s \<Rightarrow> bool" and abs :: "'s \<Rightarrow> (byte list, 'v) ostore"
  assumes abs_ok: "inv t \<Longrightarrow> os_ok (abs t)"
    and get1: "inv t \<Longrightarrow> run_get1 q t b = os_get (abs t) b"
    and replace: "inv t \<Longrightarrow> inv (fst (run_replace q t b v)) \<and>
      abs (fst (run_replace q t b v)) = os_insert (abs t) b v \<and>
      snd (run_replace q t b v) = (if os_get (abs t) b = None then Inserted else Updated)"
    and remove: "inv t \<Longrightarrow> inv (fst (run_remove q t b)) \<and>
      abs (fst (run_remove q t b)) = os_remove (abs t) b"
    and scan: "inv t \<Longrightarrow> 0 < n \<Longrightarrow> n < 2 ^ 31 \<Longrightarrow> run_scan q t b n = os_scan (abs t) b n"

text \<open>
  With an order-preserving encoding the wrapper is an ordered map of the keys: the byte-string
  map is the image of a map of keys, and every operation keeps it so.
\<close>

locale masstree_kv = masstree_contract q inv abs + index_key enc dec
  for q :: "('s, 'v) mt_api" and inv abs and enc :: "'k::linorder \<Rightarrow> byte list" and dec
begin

definition repr :: "'s \<Rightarrow> ('k, 'v) ostore \<Rightarrow> bool" where
  "repr t s \<longleftrightarrow> inv t \<and> os_ok s \<and> abs t = os_image enc s"

lemma get_repr: "repr t s \<Longrightarrow> MasstreeKV_get q enc t k v =
    (case os_get s k of Some x \<Rightarrow> (True, x) | None \<Rightarrow> (False, v))"
  by (simp add: MasstreeKV_get_def repr_def get1 image_get)

lemma insert_repr:
  "repr t s \<Longrightarrow> \<exists>t'. MasstreeKV_insert q enc t k v = Inr (t', True) \<and> repr t' (os_insert s k v)"
  using replace [of t "enc k" v]
  by (simp add: MasstreeKV_insert_def repr_def image_insert split_beta Let_def)

lemma remove_repr:
  "repr t s \<Longrightarrow> \<exists>t'. MasstreeKV_remove q enc t k = Inr (t', True) \<and> repr t' (os_remove s k)"
  using remove [of t "enc k"] by (simp add: MasstreeKV_remove_def repr_def image_remove)

lemma scan_repr:
  "repr t s \<Longrightarrow> 0 < n \<Longrightarrow> n < 2 ^ 31 \<Longrightarrow> MasstreeKV_scan q enc dec t k n result =
    (result @ os_scan s k n, length result + length (os_scan s k n))"
  by (simp add: MasstreeKV_scan_def repr_def scan image_scan Let_def)

end

sublocale masstree_kv \<subseteq> mt: kv_index
  "\<lambda>t. \<exists>s. repr t s" "\<lambda>_ _. True" "\<lambda>t k. os_get (abs t) (enc k)"
  "MasstreeKV_lookup q enc v0" "MasstreeKV_insert q enc" "MasstreeKV_remove q enc" for v0
proof
  fix t k v assume r: "\<exists>s. repr t s"
  then obtain s where s: "repr t s" by blast
  then show "MasstreeKV_lookup q enc v0 t k = os_get (abs t) (enc k)"
    by (simp add: MasstreeKV_lookup_def MasstreeKV_get_def repr_def get1 split: option.split)
  obtain t' where t': "MasstreeKV_insert q enc t k v = Inr (t', True)" "repr t' (os_insert s k v)"
    using insert_repr [OF s] by blast
  have "(\<lambda>l. os_get (abs t') (enc l)) = (\<lambda>l. os_get (abs t) (enc l))(k \<mapsto> v)"
    using s t'(2) by (auto simp: repr_def image_get)
  with t' show "\<exists>s' b. MasstreeKV_insert q enc t k v = Inr (s', b) \<and> (\<exists>s. repr s' s) \<and> True \<and>
      (\<lambda>l. os_get (abs s') (enc l)) = (\<lambda>l. os_get (abs t) (enc l))(k \<mapsto> v)" by blast
  obtain t'' where t'': "MasstreeKV_remove q enc t k = Inr (t'', True)" "repr t'' (os_remove s k)"
    using remove_repr [OF s] by blast
  have "(\<lambda>l. os_get (abs t'') (enc l)) = (\<lambda>l. os_get (abs t) (enc l))(k := None)"
    using s t''(2) by (auto simp: repr_def image_get)
  with t'' show "\<exists>s' b. MasstreeKV_remove q enc t k = Inr (s', b) \<and> (\<exists>s. repr s' s) \<and> True \<and>
      (\<lambda>l. os_get (abs s') (enc l)) = (\<lambda>l. os_get (abs t) (enc l))(k := None)" by blast
qed

context masstree_kv
begin

lemma run_is_map:
  assumes "inv t" "abs t = os_empty"
  shows "\<exists>t'. run_index (MasstreeKV_lookup q enc v0) (MasstreeKV_insert q enc) (MasstreeKV_remove q enc) ops t
    = Inr (t', snd (run_map ops Map.empty)) \<and> os_ok (abs t')"
proof -
  have "repr t []" using assms by (simp add: repr_def os_empty_def)
  moreover have "(\<lambda>k. os_get (abs t) (enc k)) = Map.empty" using assms by (simp add: os_empty_def)
  ultimately obtain t' where
    "run_index (MasstreeKV_lookup q enc v0) (MasstreeKV_insert q enc) (MasstreeKV_remove q enc) ops t
      = Inr (t', snd (run_map ops Map.empty))" "\<exists>s. repr t' s"
    using mt.run_refines [where s = t and ops = ops and ?v0.0 = v0] by auto
  then show ?thesis by (auto simp: repr_def abs_ok)
qed

end

text \<open>The contract's own model: the ordered store of byte strings.\<close>

definition os_api :: "((byte list, 'v) ostore, 'v) mt_api" where
  "os_api = \<lparr>run_get1 = os_get,
     run_replace = (\<lambda>s b v. (os_insert s b v, if os_get s b = None then Inserted else Updated)),
     run_remove = (\<lambda>s b. (os_remove s b, os_get s b \<noteq> None)),
     run_scan = os_scan\<rparr>"

lemma os_api_simps [simp]:
  "run_get1 os_api = os_get" "run_scan os_api = os_scan"
  "run_replace os_api s b v = (os_insert s b v, if os_get s b = None then Inserted else Updated)"
  "run_remove os_api s b = (os_remove s b, os_get s b \<noteq> None)"
  by (simp_all add: os_api_def)

lemma os_api_contract: "masstree_contract os_api os_ok id"
  by unfold_locales simp_all

interpretation mtD: masstree_kv os_api os_ok id "str_enc pack_D unpack_D" "str_dec pack_D unpack_D"
  using os_api_contract D.index_key_axioms by (rule masstree_kv.intro)

interpretation mtOL: masstree_kv os_api os_ok id "str_enc pack_OL unpack_OL" "str_dec pack_OL unpack_OL"
  using os_api_contract OL.index_key_axioms by (rule masstree_kv.intro)

interpretation mtKey: masstree_kv os_api os_ok id "str_enc pack_Key unpack_Key" "str_dec pack_Key unpack_Key"
  using os_api_contract MK.index_key_axioms by (rule masstree_kv.intro)

section \<open>Wormhole\<close>

text \<open>
  Every worker must hold a reference of the wormhole (\<open>worker_enter\<close> or \<open>ref\<close>) while it uses
  it. Calling the library with a null reference is a memory fault.
\<close>

record ('s, 'r, 'v) wh_api =
  wormhole_ref :: "'s \<Rightarrow> 's \<times> 'r"
  wormhole_unref :: "'s \<Rightarrow> 'r \<Rightarrow> 's"
  wormhole_get :: "'s \<Rightarrow> 'r \<Rightarrow> byte list \<Rightarrow> 'v option"
  wormhole_put :: "'s \<Rightarrow> 'r \<Rightarrow> byte list \<Rightarrow> 'v \<Rightarrow> 's"
  wormhole_del :: "'s \<Rightarrow> 'r \<Rightarrow> byte list \<Rightarrow> 's"
  wormhole_seek :: "'s \<Rightarrow> 'r \<Rightarrow> byte list \<Rightarrow> (byte list \<times> 'v) list"

record ('s, 'r) wormhole_kv =
  wh_ptr :: 's
  worker_info :: "'r option list"

definition WormholeKV_new :: "(int \<Rightarrow> 's) \<Rightarrow> nat \<Rightarrow> int \<Rightarrow> ('s, 'r) wormhole_kv" where
  "WormholeKV_new create worker_num cxl_percentage =
     \<lparr>wh_ptr = create cxl_percentage, worker_info = replicate worker_num None\<rparr>"

text \<open>The destructor, up to \<open>wormhole_destroy\<close>: the references still held are released.\<close>

definition WormholeKV_release :: "('s, 'r, 'v) wh_api \<Rightarrow> ('s, 'r) wormhole_kv \<Rightarrow> 's" where
  "WormholeKV_release q w =
     foldl (\<lambda>s i. case i of None \<Rightarrow> s | Some r \<Rightarrow> wormhole_unref q s r) (wh_ptr w) (worker_info w)"

definition wh_worker_ref :: "('s, 'r) wormhole_kv \<Rightarrow> nat \<Rightarrow> fault + 'r" where
  "wh_worker_ref w worker_id =
     bindE (guardE AssertFailed (worker_id < length (worker_info w))) (\<lambda>_.
     case worker_info w ! worker_id of None \<Rightarrow> Inl OutOfBounds | Some r \<Rightarrow> Inr r)"

definition WormholeKV_get ::
  "('s, 'r, 'v) wh_api \<Rightarrow> ('k \<Rightarrow> byte list) \<Rightarrow> ('s, 'r) wormhole_kv \<Rightarrow> nat \<Rightarrow> 'k \<Rightarrow> 'v \<Rightarrow>
   fault + bool \<times> 'v" where
  "WormholeKV_get q enc w worker_id k v =
     bindE (wh_worker_ref w worker_id) (\<lambda>ref.
     Inr (case wormhole_get q (wh_ptr w) ref (enc k) of None \<Rightarrow> (False, v) | Some x \<Rightarrow> (True, x)))"

definition WormholeKV_insert ::
  "('s, 'r, 'v) wh_api \<Rightarrow> ('k \<Rightarrow> byte list) \<Rightarrow> ('s, 'r) wormhole_kv \<Rightarrow> nat \<Rightarrow> 'k \<Rightarrow> 'v \<Rightarrow>
   fault + ('s, 'r) wormhole_kv \<times> bool" where
  "WormholeKV_insert q enc w worker_id k v =
     bindE (wh_worker_ref w worker_id) (\<lambda>ref.
     Inr (w\<lparr>wh_ptr := wormhole_put q (wh_ptr w) ref (enc k) v\<rparr>, True))"

definition WormholeKV_remove ::
  "('s, 'r, 'v) wh_api \<Rightarrow> ('k \<Rightarrow> byte list) \<Rightarrow> ('s, 'r) wormhole_kv \<Rightarrow> nat \<Rightarrow> 'k \<Rightarrow>
   fault + ('s, 'r) wormhole_kv \<times> bool" where
  "WormholeKV_remove q enc w worker_id k =
     bindE (wh_worker_ref w worker_id) (\<lambda>ref.
     Inr (w\<lparr>wh_ptr := wormhole_del q (wh_ptr w) ref (enc k)\<rparr>, True))"

definition WormholeKV_lower_bound :: "('s, 'r) wormhole_kv \<Rightarrow> nat \<Rightarrow> 'k \<Rightarrow> fault + 'k \<times> 'v" where
  "WormholeKV_lower_bound w worker_id k = Inl Aborted"

text \<open>The iteration takes at most \<open>n\<close> records; here the result vector is cleared first.\<close>

definition WormholeKV_scan ::
  "('s, 'r, 'v) wh_api \<Rightarrow> ('k \<Rightarrow> byte list) \<Rightarrow> (byte list \<Rightarrow> 'k) \<Rightarrow> ('s, 'r) wormhole_kv \<Rightarrow> nat \<Rightarrow>
   'k \<Rightarrow> nat \<Rightarrow> fault + ('k \<times> 'v) list \<times> nat" where
  "WormholeKV_scan q enc dec w worker_id k_start n =
     bindE (wh_worker_ref w worker_id) (\<lambda>ref.
     let result = map (\<lambda>(b, v). (dec b, v)) (take n (wormhole_seek q (wh_ptr w) ref (enc k_start)))
     in Inr (result, length result))"

definition WormholeKV_range_scan ::
  "('s, 'r) wormhole_kv \<Rightarrow> nat \<Rightarrow> 'k \<Rightarrow> 'k \<Rightarrow> fault + ('k \<times> 'v) list" where
  "WormholeKV_range_scan w worker_id k_start k_end = Inl Aborted"

definition WormholeKV_ref ::
  "('s, 'r, 'v) wh_api \<Rightarrow> ('s, 'r) wormhole_kv \<Rightarrow> nat \<Rightarrow> fault + ('s, 'r) wormhole_kv \<times> bool" where
  "WormholeKV_ref q w worker_id =
     bindE (guardE AssertFailed (worker_id < length (worker_info w))) (\<lambda>_.
     bindE (guardE AssertFailed (worker_info w ! worker_id = None)) (\<lambda>_.
     let (s, r) = wormhole_ref q (wh_ptr w)
     in Inr (w\<lparr>wh_ptr := s, worker_info := (worker_info w)[worker_id := Some r]\<rparr>, True)))"

definition WormholeKV_unref ::
  "('s, 'r, 'v) wh_api \<Rightarrow> ('s, 'r) wormhole_kv \<Rightarrow> nat \<Rightarrow> fault + ('s, 'r) wormhole_kv \<times> bool" where
  "WormholeKV_unref q w worker_id =
     bindE (guardE AssertFailed (worker_id < length (worker_info w))) (\<lambda>_.
     case worker_info w ! worker_id of
       None \<Rightarrow> Inl AssertFailed
     | Some r \<Rightarrow> Inr (w\<lparr>wh_ptr := wormhole_unref q (wh_ptr w) r,
                         worker_info := (worker_info w)[worker_id := None]\<rparr>, True))"

definition WormholeKV_worker_enter ::
  "('s, 'r, 'v) wh_api \<Rightarrow> ('s, 'r) wormhole_kv \<Rightarrow> nat \<Rightarrow> fault + ('s, 'r) wormhole_kv" where
  "WormholeKV_worker_enter q w worker_id =
     bindE (WormholeKV_ref q w worker_id) (\<lambda>(w, _). Inr w)"

definition WormholeKV_worker_exit ::
  "('s, 'r, 'v) wh_api \<Rightarrow> ('s, 'r) wormhole_kv \<Rightarrow> nat \<Rightarrow> fault + ('s, 'r) wormhole_kv" where
  "WormholeKV_worker_exit q w worker_id =
     bindE (WormholeKV_unref q w worker_id) (\<lambda>(w, _). Inr w)"

section \<open>Worker histories of a wormhole\<close>

datatype ('k, 'v) wh_action =
  Enter nat | Exit nat | WGet nat 'k 'v | WPut nat 'k 'v | WDel nat 'k

fun wh_act ::
  "('s, 'r, 'v) wh_api \<Rightarrow> ('k \<Rightarrow> byte list) \<Rightarrow> ('k, 'v) wh_action \<Rightarrow> ('s, 'r) wormhole_kv \<Rightarrow>
   fault + ('s, 'r) wormhole_kv" where
  "wh_act q enc (Enter i) w = WormholeKV_worker_enter q w i"
| "wh_act q enc (Exit i) w = WormholeKV_worker_exit q w i"
| "wh_act q enc (WGet i k v) w = bindE (WormholeKV_get q enc w i k v) (\<lambda>_. Inr w)"
| "wh_act q enc (WPut i k v) w = bindE (WormholeKV_insert q enc w i k v) (\<lambda>(w, _). Inr w)"
| "wh_act q enc (WDel i k) w = bindE (WormholeKV_remove q enc w i k) (\<lambda>(w, _). Inr w)"

fun wh_run ::
  "('s, 'r, 'v) wh_api \<Rightarrow> ('k \<Rightarrow> byte list) \<Rightarrow> ('k, 'v) wh_action list \<Rightarrow> ('s, 'r) wormhole_kv \<Rightarrow>
   fault + ('s, 'r) wormhole_kv" where
  "wh_run q enc [] w = Inr w"
| "wh_run q enc (a # as) w = bindE (wh_act q enc a w) (wh_run q enc as)"

text \<open>
  The discipline the benchmark loops follow: a worker enters once, works, and exits.
  \<open>inside\<close> says which workers are inside.
\<close>

fun wh_legal :: "bool list \<Rightarrow> ('k, 'v) wh_action list \<Rightarrow> bool" where
  "wh_legal inside [] = True"
| "wh_legal inside (Enter i # as) =
     (i < length inside \<and> \<not> inside ! i \<and> wh_legal (inside[i := True]) as)"
| "wh_legal inside (Exit i # as) =
     (i < length inside \<and> inside ! i \<and> wh_legal (inside[i := False]) as)"
| "wh_legal inside (WGet i k v # as) = (i < length inside \<and> inside ! i \<and> wh_legal inside as)"
| "wh_legal inside (WPut i k v # as) = (i < length inside \<and> inside ! i \<and> wh_legal inside as)"
| "wh_legal inside (WDel i k # as) = (i < length inside \<and> inside ! i \<and> wh_legal inside as)"

fun wh_contents :: "('k::linorder, 'v) wh_action list \<Rightarrow> ('k, 'v) ostore \<Rightarrow> ('k, 'v) ostore" where
  "wh_contents [] s = s"
| "wh_contents (WPut i k v # as) s = wh_contents as (os_insert s k v)"
| "wh_contents (WDel i k # as) s = wh_contents as (os_remove s k)"
| "wh_contents (_ # as) s = wh_contents as s"

fun held :: "'r option list \<Rightarrow> 'r multiset" where
  "held [] = {#}"
| "held (None # xs) = held xs"
| "held (Some r # xs) = add_mset r (held xs)"

lemma held_replicate_None [simp]: "held (replicate n None) = {#}"
  by (induction n) simp_all

lemma held_enter:
  "i < length xs \<Longrightarrow> xs ! i = None \<Longrightarrow> held (xs[i := Some r]) = add_mset r (held xs)"
  by (induction xs arbitrary: i rule: held.induct) (auto simp: nth_Cons split: nat.splits)

lemma held_mem: "i < length xs \<Longrightarrow> xs ! i = Some r \<Longrightarrow> r \<in># held xs"
  by (induction xs arbitrary: i rule: held.induct) (auto simp: nth_Cons split: nat.splits)

lemma held_exit:
  "i < length xs \<Longrightarrow> xs ! i = Some r \<Longrightarrow> held (xs[i := None]) = held xs - {#r#}"
  by (induction xs arbitrary: i rule: held.induct)
    (auto simp: nth_Cons held_mem add_mset_remove_trivial_eq split: nat.splits)

text \<open>What the wrapper relies on; \<open>refs\<close> are the references handed out and not yet returned.\<close>

locale wormhole_contract =
  fixes q :: "('s, 'r, 'v) wh_api" and inv :: "'s \<Rightarrow> bool"
    and abs :: "'s \<Rightarrow> (byte list, 'v) ostore" and refs :: "'s \<Rightarrow> 'r multiset"
  assumes abs_ok: "inv s \<Longrightarrow> os_ok (abs s)"
    and ref: "inv s \<Longrightarrow> wormhole_ref q s = (s', r) \<Longrightarrow>
      inv s' \<and> abs s' = abs s \<and> refs s' = add_mset r (refs s)"
    and unref: "inv s \<Longrightarrow> r \<in># refs s \<Longrightarrow> inv (wormhole_unref q s r) \<and>
      abs (wormhole_unref q s r) = abs s \<and> refs (wormhole_unref q s r) = refs s - {#r#}"
    and get: "inv s \<Longrightarrow> r \<in># refs s \<Longrightarrow> wormhole_get q s r b = os_get (abs s) b"
    and put: "inv s \<Longrightarrow> r \<in># refs s \<Longrightarrow> inv (wormhole_put q s r b v) \<and>
      abs (wormhole_put q s r b v) = os_insert (abs s) b v \<and> refs (wormhole_put q s r b v) = refs s"
    and del: "inv s \<Longrightarrow> r \<in># refs s \<Longrightarrow> inv (wormhole_del q s r b) \<and>
      abs (wormhole_del q s r b) = os_remove (abs s) b \<and> refs (wormhole_del q s r b) = refs s"
    and seek: "inv s \<Longrightarrow> r \<in># refs s \<Longrightarrow>
      wormhole_seek q s r b = dropWhile (\<lambda>(k, v). k < b) (abs s)"

locale wormhole_kv_ok = wormhole_contract q inv abs refs + index_key enc dec
  for q :: "('s, 'r, 'v) wh_api" and inv abs refs and enc :: "'k::linorder \<Rightarrow> byte list" and dec
begin

definition wrepr :: "('s, 'r) wormhole_kv \<Rightarrow> bool list \<Rightarrow> ('k, 'v) ostore \<Rightarrow> bool" where
  "wrepr w inside s \<longleftrightarrow> inv (wh_ptr w) \<and> refs (wh_ptr w) = held (worker_info w) \<and>
     inside = map (\<lambda>x. x \<noteq> None) (worker_info w) \<and> os_ok s \<and> abs (wh_ptr w) = os_image enc s"

lemma worker_ref:
  assumes "wrepr w inside s" "i < length inside" "inside ! i"
  obtains r where "wh_worker_ref w i = Inr r" "r \<in># refs (wh_ptr w)"
  using assms held_mem [of i "worker_info w"] by (auto simp: wrepr_def wh_worker_ref_def)

lemma enter_repr:
  assumes "wrepr w inside s" "i < length inside" "\<not> inside ! i"
  shows "\<exists>w'. WormholeKV_worker_enter q w i = Inr w' \<and> wrepr w' (inside[i := True]) s"
proof -
  obtain s' r where r: "wormhole_ref q (wh_ptr w) = (s', r)" by fastforce
  with assms ref [OF _ r] show ?thesis
    by (auto simp: wrepr_def WormholeKV_worker_enter_def WormholeKV_ref_def held_enter map_update)
qed

lemma exit_repr:
  assumes "wrepr w inside s" "i < length inside" "inside ! i"
  shows "\<exists>w'. WormholeKV_worker_exit q w i = Inr w' \<and> wrepr w' (inside[i := False]) s"
proof -
  from assms obtain r where r: "i < length (worker_info w)" "worker_info w ! i = Some r"
    by (auto simp: wrepr_def)
  then have "r \<in># refs (wh_ptr w)" using assms(1) by (simp add: wrepr_def held_mem)
  with assms r unref [of "wh_ptr w" r] show ?thesis
    by (auto simp: wrepr_def WormholeKV_worker_exit_def WormholeKV_unref_def held_exit map_update)
qed

lemma put_repr:
  assumes "wrepr w inside s" "i < length inside" "inside ! i"
  shows "\<exists>w'. WormholeKV_insert q enc w i k v = Inr (w', True) \<and> wrepr w' inside (os_insert s k v)"
proof -
  from worker_ref [OF assms] obtain r where r: "wh_worker_ref w i = Inr r" "r \<in># refs (wh_ptr w)" .
  with assms(1) put [of "wh_ptr w" r "enc k" v] show ?thesis
    by (auto simp: wrepr_def WormholeKV_insert_def image_insert)
qed

lemma del_repr:
  assumes "wrepr w inside s" "i < length inside" "inside ! i"
  shows "\<exists>w'. WormholeKV_remove q enc w i k = Inr (w', True) \<and> wrepr w' inside (os_remove s k)"
proof -
  from worker_ref [OF assms] obtain r where r: "wh_worker_ref w i = Inr r" "r \<in># refs (wh_ptr w)" .
  with assms(1) del [of "wh_ptr w" r "enc k"] show ?thesis
    by (auto simp: wrepr_def WormholeKV_remove_def image_remove)
qed

lemma get_wrepr:
  assumes "wrepr w inside s" "i < length inside" "inside ! i"
  shows "WormholeKV_get q enc w i k v =
    Inr (case os_get s k of None \<Rightarrow> (False, v) | Some x \<Rightarrow> (True, x))"
proof -
  from worker_ref [OF assms] obtain r where "wh_worker_ref w i = Inr r" "r \<in># refs (wh_ptr w)" .
  with assms(1) get [of "wh_ptr w" r "enc k"] show ?thesis
    by (simp add: WormholeKV_get_def wrepr_def image_get)
qed

lemma scan_wrepr:
  assumes "wrepr w inside s" "i < length inside" "inside ! i"
  shows "WormholeKV_scan q enc dec w i k n = Inr (os_scan s k n, length (os_scan s k n))"
proof -
  from worker_ref [OF assms] obtain r where "wh_worker_ref w i = Inr r" "r \<in># refs (wh_ptr w)" .
  moreover from this assms(1) have "map (\<lambda>(b, v). (dec b, v)) (take n (wormhole_seek q (wh_ptr w) r (enc k)))
      = os_scan s k n"
    using seek [of "wh_ptr w" r "enc k"] image_scan [of s k n] by (simp add: wrepr_def os_scan_def)
  ultimately show ?thesis by (simp add: WormholeKV_scan_def Let_def del: length_map flip: length_map)
qed

lemma run_repr:
  "wh_legal inside as \<Longrightarrow> wrepr w inside s \<Longrightarrow>
   \<exists>w' inside'. wh_run q enc as w = Inr w' \<and> wrepr w' inside' (wh_contents as s)"
proof (induction inside as arbitrary: w s rule: wh_legal.induct)
  case (2 inside i as)
  then show ?case using enter_repr [of w inside s i] by fastforce
next
  case (3 inside i as)
  then show ?case using exit_repr [of w inside s i] by fastforce
next
  case (4 inside i k v as)
  then show ?case using get_wrepr [of w inside s i k v] by fastforce
next
  case (5 inside i k v as)
  then show ?case using put_repr [of w inside s i k v] by fastforce
next
  case (6 inside i k as)
  then show ?case using del_repr [of w inside s i k] by fastforce
qed auto

lemma release_refs:
  "inv s \<Longrightarrow> held xs \<subseteq># refs s \<Longrightarrow>
   refs (foldl (\<lambda>s i. case i of None \<Rightarrow> s | Some r \<Rightarrow> wormhole_unref q s r) s xs) = refs s - held xs"
proof (induction xs arbitrary: s rule: held.induct)
  case (3 r xs)
  then have r: "r \<in># refs s" by (simp add: insert_subset_eq_iff)
  show ?case
    using unref [OF 3(2) r] 3 by (simp add: insert_subset_eq_iff)
qed simp_all

lemma release_all: "wrepr w inside s \<Longrightarrow> refs (WormholeKV_release q w) = {#}"
  using release_refs [of "wh_ptr w" "worker_info w"] by (simp add: wrepr_def WormholeKV_release_def)

lemma new_repr:
  "inv (create c) \<Longrightarrow> refs (create c) = {#} \<Longrightarrow> abs (create c) = os_empty \<Longrightarrow>
   wrepr (WormholeKV_new create n c) (replicate n False) os_empty"
  by (simp add: wrepr_def WormholeKV_new_def os_empty_def)

end

context wormhole_kv_ok
begin

lemma workers_safe:
  assumes "inv (create c)" "refs (create c) = {#}" "abs (create c) = os_empty"
    and "wh_legal (replicate n False) acts"
  shows "\<exists>w. wh_run q enc acts (WormholeKV_new create n c) = Inr w \<and>
    abs (wh_ptr w) = os_image enc (wh_contents acts os_empty) \<and>
    refs (WormholeKV_release q w) = {#}"
proof -
  obtain w inside where w: "wh_run q enc acts (WormholeKV_new create n c) = Inr w"
    "wrepr w inside (wh_contents acts os_empty)"
    using run_repr [OF assms(4) new_repr [of create c n, OF assms(1-3)]] by blast
  then show ?thesis using release_all by (auto simp: wrepr_def)
qed

end

text \<open>A reference-counting model of the contract: a reference is a serial number.\<close>

definition wh_model_api :: "((byte list, 'v) ostore \<times> nat multiset, nat, 'v) wh_api" where
  "wh_model_api = \<lparr>wormhole_ref = (\<lambda>(s, m). ((s, add_mset (size m) m), size m)),
     wormhole_unref = (\<lambda>(s, m) r. (s, m - {#r#})),
     wormhole_get = (\<lambda>(s, m) r b. os_get s b),
     wormhole_put = (\<lambda>(s, m) r b v. (os_insert s b v, m)),
     wormhole_del = (\<lambda>(s, m) r b. (os_remove s b, m)),
     wormhole_seek = (\<lambda>(s, m) r b. dropWhile (\<lambda>(k, v). k < b) s)\<rparr>"

lemma wh_model_contract: "wormhole_contract wh_model_api (os_ok \<circ> fst) fst snd"
  by unfold_locales (auto simp: wh_model_api_def)

interpretation whKey: wormhole_kv_ok wh_model_api "os_ok \<circ> fst" fst snd
  "str_enc pack_Key unpack_Key" "str_dec pack_Key unpack_Key"
  using wh_model_contract MK.index_key_axioms by (rule wormhole_kv_ok.intro)

section \<open>Properties\<close>

text \<open>C11: \<open>MasstreeKV\<close> is a map: over any Masstree that behaves as an ordered map of byte
  strings, and for any key type with an order-preserving encoding, every sequence of reads,
  inserts and removals through the wrapper runs without a fault and every read returns exactly
  what it returns on a partial map of the keys.\<close>

theorem masstree_kv_is_map:
  assumes "masstree_contract q ok cont" and "index_key enc dec"
    and "ok t" and "cont t = os_empty"
  shows "\<exists>t'. run_index (MasstreeKV_lookup q enc v0) (MasstreeKV_insert q enc) (MasstreeKV_remove q enc) ops t
    = Inr (t', snd (run_map ops Map.empty)) \<and> os_ok (cont t')"
  using masstree_kv.run_is_map [OF masstree_kv.intro [OF assms(1,2)] assms(3,4)] .

lemma masstree_kv_is_map_witness:
  "\<exists>t'. run_index (MasstreeKV_lookup os_api (str_enc pack_D unpack_D) 0)
      (MasstreeKV_insert os_api (str_enc pack_D unpack_D))
      (MasstreeKV_remove os_api (str_enc pack_D unpack_D))
      [OpPut (D_key 1 2) 7, OpGet (D_key 1 2), OpDel (D_key 1 2), OpGet (D_key 1 2)] os_empty
    = Inr (t', [Some (7::nat), None]) \<and> os_ok t'"
  using masstree_kv_is_map [OF os_api_contract D.index_key_axioms, of os_empty 0
      "[OpPut (D_key 1 2) 7, OpGet (D_key 1 2), OpDel (D_key 1 2), OpGet (D_key 1 2)]"] by simp

text \<open>C31: a scan through \<open>MasstreeKV\<close> for \<open>n\<close> records, \<open>0 < n < 2 ^ 31\<close>, appends, in key order, the first
  \<open>n\<close> records whose key is at least the start key: the wrapper's byte strings do not change what is
  found nor the order. (For other \<open>n\<close> the vendored scan fails its assertion.)\<close>

theorem masstree_scan_in_key_order:
  assumes "masstree_contract q ok cont" and "index_key enc dec"
    and "ok t" and "os_ok s" and "cont t = os_image enc s" and "0 < n" and "n < 2 ^ 31"
  shows "MasstreeKV_scan q enc dec t k n result =
    (let found = take n (filter (\<lambda>(k', _). k \<le> k') s)
     in (result @ found, length result + length found))"
proof -
  have l: "masstree_kv q ok cont enc dec" using assms(1,2) by (rule masstree_kv.intro)
  have "masstree_kv.repr ok cont enc t s" using assms by (simp add: masstree_kv.repr_def [OF l])
  from masstree_kv.scan_repr [OF l this assms(6,7)] show ?thesis by (simp add: os_scan_eq [OF assms(4)] Let_def)
qed

definition sample_ol_store :: "(OL_key, nat) ostore" where
  "sample_ol_store = [(OL_key 1 1 1 1, 10), (OL_key 1 1 2 1, 20), (OL_key 1 2 1 1, 30)]"

lemma sample_ol_store_ok: "os_ok sample_ol_store"
  by (simp add: sample_ol_store_def os_ok_def OL_key_less_iff OL_key_def)

lemma masstree_scan_in_key_order_witness:
  "MasstreeKV_scan os_api (str_enc pack_OL unpack_OL) (str_dec pack_OL unpack_OL)
     (os_image (str_enc pack_OL unpack_OL) sample_ol_store) (OL_key 1 1 2 0) 2 []
   = ([(OL_key 1 1 2 1, 20), (OL_key 1 2 1 1, 30)], 2)"
proof -
  have "os_ok (os_image (str_enc pack_OL unpack_OL) sample_ol_store)"
    using sample_ol_store_ok OL.enc_less by (simp add: os_ok_def os_image_def sample_ol_store_def)
  from masstree_scan_in_key_order [OF os_api_contract OL.index_key_axioms this sample_ol_store_ok, of 2]
  show ?thesis
    by (simp add: Let_def sample_ol_store_def not_less [symmetric] OL_key_less_iff OL_key_def)
qed

text \<open>C12: any number of workers that follow enter, work, exit use one wormhole without a fault:
  every operation finds a live reference, the wormhole holds exactly the records the operations
  in sequence produce, and the destructor returns every reference taken.\<close>

theorem wormhole_workers_safe:
  assumes "wormhole_contract q ok cont refs" and "index_key enc dec"
    and "ok (create c)" and "refs (create c) = {#}" and "cont (create c) = os_empty"
    and "wh_legal (replicate n False) acts"
  shows "\<exists>w. wh_run q enc acts (WormholeKV_new create n c) = Inr w \<and>
    cont (wh_ptr w) = os_image enc (wh_contents acts os_empty) \<and>
    refs (WormholeKV_release q w) = {#}"
  by (rule wormhole_kv_ok.workers_safe [of q ok cont refs enc dec create c n acts,
        OF wormhole_kv_ok.intro [OF assms(1,2)] assms(3-6)])

lemma wormhole_workers_safe_witness:
  "\<exists>w. wh_run wh_model_api (str_enc pack_Key unpack_Key)
      [Enter 0, Enter 1, WPut 0 (Key 5) (50::nat), WGet 1 (Key 5) 0, Exit 0]
      (WormholeKV_new (\<lambda>_. (os_empty, {#})) 2 0) = Inr w \<and>
    snd (WormholeKV_release wh_model_api w) = {#}"
  using wormhole_workers_safe [OF wh_model_contract MK.index_key_axioms, of "\<lambda>_. (os_empty, {#})" 0 2
      "[Enter 0, Enter 1, WPut 0 (Key 5) (50::nat), WGet 1 (Key 5) 0, Exit 0]"]
  by (auto simp: numeral_2_eq_2)

end
