(* ===== verification/OtherWrappers.thy ===== *)
theory OtherWrappers
  imports KvWrappers
begin

unbundle bit_operations_syntax

text \<open>
  The other wrappers of \<open>src/src/kv\<close>: \<open>ARTKV\<close>, \<open>Smart\<close> and \<open>PACTreeKV\<close>, with what each relies
  on stated as a locale over the calls it makes. They do not all give a map: ART keeps no
  values, SMART removes nothing, PACTree keeps the first value of a key.
\<close>

section \<open>ART\<close>

text \<open>
  \<open>adaptive_radix_tree_put\<close> takes no value and \<open>adaptive_radix_tree_get\<close> returns a pointer to the
  stored key. The wrapper reads the value type from that address: \<open>vread\<close>.
\<close>

record 's art_api =
  art_put :: "'s \<Rightarrow> byte list \<Rightarrow> 's \<times> int"
  art_get :: "'s \<Rightarrow> byte list \<Rightarrow> byte list option"

definition ARTKV_new :: "(int \<Rightarrow> 's) \<Rightarrow> int \<Rightarrow> 's" where
  "ARTKV_new create cxl_percentage = create cxl_percentage"

definition ARTKV_get ::
  "'s art_api \<Rightarrow> ('k \<Rightarrow> byte list) \<Rightarrow> (byte list \<Rightarrow> 'v) \<Rightarrow> 's \<Rightarrow> 'k \<Rightarrow> 'v \<Rightarrow> bool \<times> 'v" where
  "ARTKV_get q enc vread tree k v =
     (case art_get q tree (enc k) of None \<Rightarrow> (False, v) | Some p \<Rightarrow> (True, vread p))"

definition ARTKV_insert ::
  "'s art_api \<Rightarrow> ('k \<Rightarrow> byte list) \<Rightarrow> 's \<Rightarrow> 'k \<Rightarrow> 'v \<Rightarrow> 's \<times> bool" where
  "ARTKV_insert q enc tree k v =
     (let (tree, ret) = art_put q tree (enc k) in (tree, 0 \<le> ret))"

definition ARTKV_remove :: "'s \<Rightarrow> 'k \<Rightarrow> 's \<times> bool" where
  "ARTKV_remove tree k = (tree, False)"

definition ARTKV_lower_bound :: "'s \<Rightarrow> 'k \<Rightarrow> bool" where
  "ARTKV_lower_bound tree k = False"

definition ARTKV_scan :: "'s \<Rightarrow> 'k \<Rightarrow> nat \<Rightarrow> ('k \<times> 'v) list \<Rightarrow> ('k \<times> 'v) list \<times> nat" where
  "ARTKV_scan tree k_start n result = (result, 0)"

definition ARTKV_range_scan :: "'s \<Rightarrow> 'k \<Rightarrow> 'k \<Rightarrow> ('k \<times> 'v) list \<Rightarrow> ('k \<times> 'v) list \<times> nat" where
  "ARTKV_range_scan tree k_start k_end result = (result, 0)"

fun ART_insert_all ::
  "'s art_api \<Rightarrow> ('k \<Rightarrow> byte list) \<Rightarrow> ('k \<times> 'v) list \<Rightarrow> 's \<Rightarrow> 's \<times> bool" where
  "ART_insert_all q enc [] tree = (tree, True)"
| "ART_insert_all q enc ((k, v) # kvs) tree =
     (let (tree, a) = ARTKV_insert q enc tree k v; (tree, b) = ART_insert_all q enc kvs tree
      in (tree, a \<and> b))"

text \<open>A set of byte strings; \<open>put\<close> returns 0 for a new one and 1 for one that is present. (The
  vendored tree asserts that a common piece of two keys below one node has at most 8 bytes, which
  is so for the default keys of the benchmarks, of 8 bytes; the contract is for such keys.)\<close>

locale art_contract =
  fixes q :: "'s art_api" and inv :: "'s \<Rightarrow> bool" and members :: "'s \<Rightarrow> byte list set"
  assumes put: "inv t \<Longrightarrow> inv (fst (art_put q t b)) \<and>
      members (fst (art_put q t b)) = insert b (members t) \<and>
      snd (art_put q t b) = (if b \<in> members t then 1 else 0)"
    and get: "inv t \<Longrightarrow> art_get q t b = (if b \<in> members t then Some b else None)"
begin

lemma insert_step:
  "inv t \<Longrightarrow> \<exists>t'. ARTKV_insert q enc t k v = (t', True) \<and> inv t' \<and> members t' = insert (enc k) (members t)"
  using put [of t "enc k"] by (auto simp: ARTKV_insert_def split_beta Let_def)

lemma insert_all:
  "inv t \<Longrightarrow> \<exists>t'. ART_insert_all q enc kvs t = (t', True) \<and> inv t' \<and>
    members t' = enc ` fst ` set kvs \<union> members t"
proof (induction kvs arbitrary: t)
  case (Cons x kvs)
  obtain k v where x: "x = (k, v)" by fastforce
  from insert_step [OF Cons.prems, of enc k v] obtain t1 where
    t1: "ARTKV_insert q enc t k v = (t1, True)" "inv t1" "members t1 = insert (enc k) (members t)" by blast
  from Cons.IH [OF t1(2)] t1 show ?case by (auto simp: x)
qed auto

lemma get_eq: "inv t \<Longrightarrow> ARTKV_get q enc vread t k v =
    (if enc k \<in> members t then (True, vread (enc k)) else (False, v))"
  by (simp add: ARTKV_get_def get)

lemma get_after_insert_all:
  assumes "inv t" "members t = {}" "inj enc"
  shows "\<exists>t'. ART_insert_all q enc kvs t = (t', True) \<and>
    (\<forall>k v. ARTKV_get q enc vread t' k v = (if k \<in> fst ` set kvs then (True, vread (enc k)) else (False, v)))"
proof -
  obtain t' where t': "ART_insert_all q enc kvs t = (t', True)" "inv t'"
    "members t' = enc ` fst ` set kvs"
    using insert_all [OF assms(1), of enc kvs] unfolding assms(2) Un_empty_right by blast
  have "ARTKV_get q enc vread t' k v = (if k \<in> fst ` set kvs then (True, vread (enc k)) else (False, v))"
    for k v
    by (simp only: get_eq [OF t'(2)] t'(3) inj_image_mem_iff [OF assms(3)])
  with t'(1) show ?thesis by blast
qed

end

text \<open>The contract's own model: the list of strings put so far.\<close>

definition art_model :: "byte list list art_api" where
  "art_model = \<lparr>art_put = (\<lambda>t b. (List.insert b t, if b \<in> set t then 1 else 0)),
     art_get = (\<lambda>t b. if b \<in> set t then Some b else None)\<rparr>"

interpretation artM: art_contract art_model "\<lambda>_. True" set
  by unfold_locales (simp_all add: art_model_def)

section \<open>SMART\<close>

definition keyLen :: nat where
  "keyLen = 8"

text \<open>\<open>SMART::int2key\<close>: \<open>keyLen\<close> bytes, the most significant first.\<close>

definition int2key :: "u64 \<Rightarrow> byte list" where
  "int2key k =
     map (\<lambda>i. let shr = (keyLen - i) * 8
               in if 64 \<le> shr then 0 else ucast (drop_bit shr k AND (push_bit 8 1 - 1)))
       [1..<Suc keyLen]"

record 's smart_api =
  smart_search :: "'s \<Rightarrow> byte list \<Rightarrow> u64 \<Rightarrow> bool \<times> u64"
  smart_insert :: "'s \<Rightarrow> byte list \<Rightarrow> u64 \<Rightarrow> 's"
  smart_register :: "'s \<Rightarrow> 's"

text \<open>
  The constructor registers the calling thread with the memory layer; \<open>register_thread\<close> does it
  for the others.
\<close>

definition Smart_new :: "'s smart_api \<Rightarrow> (nat \<Rightarrow> 's) \<Rightarrow> int \<Rightarrow> nat \<Rightarrow> 's" where
  "Smart_new q getInstance cxl_percentage num_threads = smart_register q (getInstance num_threads)"

definition Smart_register_thread :: "'s smart_api \<Rightarrow> 's \<Rightarrow> 's" where
  "Smart_register_thread q tree = smart_register q tree"

text \<open>\<open>value\<close> is an uninitialised local (\<open>junk\<close>), copied to the result even when nothing is found.\<close>

definition Smart_get :: "'s smart_api \<Rightarrow> u64 \<Rightarrow> 's \<Rightarrow> Key \<Rightarrow> Value \<Rightarrow> bool \<times> Value" where
  "Smart_get q junk tree k v =
     (let (ret, value) = smart_search q tree (int2key (key_val k)) junk
      in (ret, Value (val_padding v) value))"

definition Smart_insert :: "'s smart_api \<Rightarrow> 's \<Rightarrow> Key \<Rightarrow> Value \<Rightarrow> 's \<times> bool" where
  "Smart_insert q tree k v =
     (smart_insert q tree (int2key (key_val k)) (val_of v), True)"

definition Smart_remove :: "'s \<Rightarrow> Key \<Rightarrow> 's \<times> bool" where
  "Smart_remove tree k = (tree, False)"

definition Smart_lower_bound :: "'s \<Rightarrow> Key \<Rightarrow> bool" where
  "Smart_lower_bound tree k = False"

definition Smart_scan :: "'s \<Rightarrow> Key \<Rightarrow> nat \<Rightarrow> (Key \<times> Value) list \<Rightarrow> (Key \<times> Value) list \<times> nat" where
  "Smart_scan tree k_start n result = (result, 0)"

definition Smart_range_scan :: "'s \<Rightarrow> Key \<Rightarrow> Key \<Rightarrow> (Key \<times> Value) list \<Rightarrow> (Key \<times> Value) list \<times> nat" where
  "Smart_range_scan tree k_start k_end result = (result, 0)"

text \<open>The outcome of a read as an option, and a write of a plain number.\<close>

definition Smart_lookup :: "'s smart_api \<Rightarrow> u64 \<Rightarrow> 's \<Rightarrow> Key \<Rightarrow> u64 option" where
  "Smart_lookup q junk tree k =
     (case Smart_get q junk tree k (Value [] 0) of (ret, v) \<Rightarrow> if ret then Some (val_of v) else None)"

definition Smart_put :: "'s smart_api \<Rightarrow> 's \<Rightarrow> Key \<Rightarrow> u64 \<Rightarrow> fault + 's \<times> bool" where
  "Smart_put q tree k x = Inr (Smart_insert q tree k (Value [] x))"

lemma int2key_nth:
  assumes "j < 8"
  shows "int2key k ! (7 - j) = ucast (drop_bit (j * 8) k AND 255)"
proof -
  have "int2key k ! (7 - j) = (let shr = (keyLen - (1 + (7 - j))) * 8
      in if 64 \<le> shr then 0 else ucast (drop_bit shr k AND (push_bit 8 1 - 1)))"
    unfolding int2key_def by (subst nth_map) (simp_all add: keyLen_def del: upt_Suc)
  moreover have "(keyLen - (1 + (7 - j))) * 8 = j * 8" using assms by (simp add: keyLen_def)
  ultimately show ?thesis using assms by (simp add: Let_def push_bit_eq_mult)
qed

lemma bit_low_byte:
  assumes "j < 8"
  shows "bit (ucast (drop_bit m (x :: u64) AND 255) :: byte) j = bit x (m + j)"
proof -
  have e: "(255 :: u64) = mask 8" by (simp add: mask_eq_exp_minus_1)
  have "bit (ucast y :: byte) j = bit y j" for y :: u64 using assms by (simp add: bit_simps)
  then show ?thesis using assms unfolding e by (simp only: bit_and_iff bit_drop_bit_eq bit_mask_iff comp_def) auto
qed

lemma int2key_inject: "int2key k = int2key l \<longleftrightarrow> k = l"
proof
  assume eq: "int2key k = int2key l"
  show "k = l"
  proof (rule bit_word_eqI)
    fix n assume "n < LENGTH(64)"
    then have n: "n div 8 < 8" "n mod 8 < 8" by auto
    have "bit (ucast (drop_bit (n div 8 * 8) x AND 255) :: byte) (n mod 8) = bit x n" for x :: u64
      using bit_low_byte [OF n(2), of "n div 8 * 8" x] by simp
    then show "bit k n = bit l n"
      using int2key_nth [OF n(1), of k] int2key_nth [OF n(1), of l] eq by metis
  qed
qed simp

locale smart_contract =
  fixes q :: "'s smart_api" and inv :: "'s \<Rightarrow> bool" and abs :: "'s \<Rightarrow> byte list \<Rightarrow> u64 option"
  assumes search: "inv t \<Longrightarrow> smart_search q t b junk =
      (case abs t b of None \<Rightarrow> (False, junk) | Some x \<Rightarrow> (True, x))"
    and insert: "inv t \<Longrightarrow> inv (smart_insert q t b x) \<and> abs (smart_insert q t b x) = (abs t)(b \<mapsto> x)"

sublocale smart_contract \<subseteq> sm: kv_store inv "\<lambda>_ _. True" "\<lambda>t k. abs t (int2key (key_val k))"
  "Smart_lookup q junk" "Smart_put q" for junk
proof
  fix t k x n assume t: "inv t"
  then show "Smart_lookup q junk t k = abs t (int2key (key_val k))"
    by (simp add: Smart_lookup_def Smart_get_def search split: option.split)
  have "(\<lambda>l. abs (smart_insert q t (int2key (key_val k)) x) (int2key (key_val l))) =
      (\<lambda>l. abs t (int2key (key_val l)))(k \<mapsto> x)"
    using insert [OF t] by (auto simp: int2key_inject Key.expand)
  with insert [OF t] show "\<exists>t' b. Smart_put q t k x = Inr (t', b) \<and> inv t' \<and> True \<and>
      (\<lambda>l. abs t' (int2key (key_val l))) = (\<lambda>l. abs t (int2key (key_val l)))(k \<mapsto> x)"
    by (auto simp: Smart_put_def Smart_insert_def)
qed

context smart_contract
begin

lemma read_after_put:
  "inv t \<Longrightarrow> Smart_put q t k x = Inr (t', b) \<Longrightarrow>
   Smart_lookup q junk t' l = (if l = k then Some x else Smart_lookup q junk t l)"
  by (rule sm.get_after_ins) simp_all

end

definition smart_model :: "(byte list \<Rightarrow> u64 option) smart_api" where
  "smart_model = \<lparr>smart_search = (\<lambda>t b junk. case t b of None \<Rightarrow> (False, junk) | Some x \<Rightarrow> (True, x)),
     smart_insert = (\<lambda>t b x. t(b \<mapsto> x)), smart_register = id\<rparr>"

lemma smart_model_contract: "smart_contract smart_model (\<lambda>_. True) id"
  by unfold_locales (simp_all add: smart_model_def split: option.split)

interpretation smM: smart_contract smart_model "\<lambda>_. True" id
  by (rule smart_model_contract)

section \<open>PACTree\<close>

text \<open>
  \<open>lookup\<close> returns a local variable that is only set when the key is found: its third argument is
  what the variable holds in that call. \<open>insert\<close> returns false and changes nothing when the key is
  present; the wrapper ignores that.
\<close>

record 's pactree_api =
  pt_lookup :: "'s \<Rightarrow> u64 \<Rightarrow> u64 \<Rightarrow> u64"
  pt_insert :: "'s \<Rightarrow> u64 \<Rightarrow> u64 \<Rightarrow> 's \<times> bool"
  pt_remove :: "'s \<Rightarrow> u64 \<Rightarrow> 's"
  pt_registerThread :: "'s \<Rightarrow> 's"
  pt_unregisterThread :: "'s \<Rightarrow> 's"

definition PACTreeKV_new :: "'s pactree_api \<Rightarrow> (int \<Rightarrow> int \<Rightarrow> 's) \<Rightarrow> int \<Rightarrow> 's" where
  "PACTreeKV_new q create cxl_percentage = pt_registerThread q (create 1 cxl_percentage)"

definition PACTreeKV_delete :: "'s pactree_api \<Rightarrow> 's \<Rightarrow> 's" where
  "PACTreeKV_delete q pt = pt_unregisterThread q pt"

definition PACTreeKV_register_thread :: "'s pactree_api \<Rightarrow> 's \<Rightarrow> 's" where
  "PACTreeKV_register_thread q pt = pt_registerThread q pt"

definition PACTreeKV_get :: "'s pactree_api \<Rightarrow> u64 \<Rightarrow> 's \<Rightarrow> Key \<Rightarrow> Value \<Rightarrow> bool \<times> Value" where
  "PACTreeKV_get q junk pt k v = (True, Value (val_padding v) (pt_lookup q pt (key_val k) junk))"

definition PACTreeKV_insert :: "'s pactree_api \<Rightarrow> 's \<Rightarrow> Key \<Rightarrow> Value \<Rightarrow> 's \<times> bool" where
  "PACTreeKV_insert q pt k v = (fst (pt_insert q pt (key_val k) (val_of v)), True)"

definition PACTreeKV_remove :: "'s pactree_api \<Rightarrow> 's \<Rightarrow> Key \<Rightarrow> 's \<times> bool" where
  "PACTreeKV_remove q pt k = (pt_remove q pt (key_val k), True)"

definition PACTreeKV_lower_bound :: "'s \<Rightarrow> Key \<Rightarrow> bool" where
  "PACTreeKV_lower_bound pt k = False"

definition PACTreeKV_scan ::
  "'s \<Rightarrow> Key \<Rightarrow> nat \<Rightarrow> (Key \<times> Value) list \<Rightarrow> (Key \<times> Value) list \<times> nat" where
  "PACTreeKV_scan pt k_start n result = (result, 0)"

definition PACTreeKV_range_scan ::
  "'s \<Rightarrow> Key \<Rightarrow> Key \<Rightarrow> (Key \<times> Value) list \<Rightarrow> (Key \<times> Value) list \<times> nat" where
  "PACTreeKV_range_scan pt k_start k_end result = (result, 0)"

text \<open>
  A list of operations through the wrapper, with the log of the reads; and what it amounts to on
  a map: the first insert of a key stays until the key is removed, and a read of an absent key
  reports the junk. \<open>junk n\<close> is what the uninitialised variable holds in the \<open>n\<close>-th read.
\<close>

fun pac_run ::
  "'s pactree_api \<Rightarrow> (nat \<Rightarrow> u64) \<Rightarrow> (Key, u64) kv_op list \<Rightarrow> 's \<Rightarrow> 's \<times> (bool \<times> u64) list" where
  "pac_run q junk [] pt = (pt, [])"
| "pac_run q junk (OpGet k # ops) pt =
     (let (got, v) = PACTreeKV_get q (junk 0) pt k (Value [] 0); (pt, out) = pac_run q (\<lambda>n. junk (Suc n)) ops pt
      in (pt, (got, val_of v) # out))"
| "pac_run q junk (OpPut k x # ops) pt = pac_run q junk ops (fst (PACTreeKV_insert q pt k (Value [] x)))"
| "pac_run q junk (OpDel k # ops) pt = pac_run q junk ops (fst (PACTreeKV_remove q pt k))"

fun first_write_run ::
  "(nat \<Rightarrow> u64) \<Rightarrow> (Key, u64) kv_op list \<Rightarrow> (Key \<rightharpoonup> u64) \<Rightarrow> (Key \<rightharpoonup> u64) \<times> (bool \<times> u64) list" where
  "first_write_run junk [] m = (m, [])"
| "first_write_run junk (OpGet k # ops) m =
     (let (m', out) = first_write_run (\<lambda>n. junk (Suc n)) ops m
      in (m', (True, case m k of None \<Rightarrow> junk 0 | Some x \<Rightarrow> x) # out))"
| "first_write_run junk (OpPut k x # ops) m =
     first_write_run junk ops (if m k = None then m(k \<mapsto> x) else m)"
| "first_write_run junk (OpDel k # ops) m = first_write_run junk ops (m(k := None))"

text \<open>
  PACTree keeps two keys for itself: the list of a new tree starts with the least and ends with the
  greatest 64-bit number, each with the value 0. The contract is about the other keys, and \<open>abs\<close> is
  the records under them.
\<close>

definition user_key :: "u64 \<Rightarrow> bool" where
  "user_key k \<longleftrightarrow> k \<noteq> 0 \<and> k \<noteq> - 1"

fun op_key :: "(Key, 'v) kv_op \<Rightarrow> Key" where
  "op_key (OpGet k) = k"
| "op_key (OpPut k x) = k"
| "op_key (OpDel k) = k"

locale pactree_contract =
  fixes q :: "'s pactree_api" and inv :: "'s \<Rightarrow> bool" and abs :: "'s \<Rightarrow> u64 \<Rightarrow> u64 option"
  assumes lookup: "inv t \<Longrightarrow> user_key k \<Longrightarrow>
      pt_lookup q t k junk = (case abs t k of None \<Rightarrow> junk | Some x \<Rightarrow> x)"
    and insert: "inv t \<Longrightarrow> user_key k \<Longrightarrow> inv (fst (pt_insert q t k x)) \<and>
      abs (fst (pt_insert q t k x)) = (if abs t k = None then (abs t)(k \<mapsto> x) else abs t) \<and>
      snd (pt_insert q t k x) = (abs t k = None)"
    and remove: "inv t \<Longrightarrow> user_key k \<Longrightarrow> inv (pt_remove q t k) \<and> abs (pt_remove q t k) = (abs t)(k := None)"
begin

lemma run_eq:
  "inv t \<Longrightarrow> \<forall>op\<in>set ops. user_key (key_val (op_key op)) \<Longrightarrow>
    snd (pac_run q junk ops t) = snd (first_write_run junk ops (\<lambda>k. abs t (key_val k))) \<and>
    inv (fst (pac_run q junk ops t)) \<and>
    (\<lambda>k. abs (fst (pac_run q junk ops t)) (key_val k)) = fst (first_write_run junk ops (\<lambda>k. abs t (key_val k)))"
proof (induction ops arbitrary: t junk)
  case (Cons op ops)
  have u: "user_key (key_val (op_key op))" and ops: "\<forall>op\<in>set ops. user_key (key_val (op_key op))"
    using Cons.prems(2) by simp_all
  show ?case
  proof (cases op)
    case (OpGet k)
    with u have "user_key (key_val k)" by simp
    with Cons.IH [OF Cons.prems(1) ops] OpGet Cons.prems(1) show ?thesis
      by (simp add: PACTreeKV_get_def lookup split_beta Let_def)
  next
    case (OpPut k x)
    with u have k: "user_key (key_val k)" by simp
    note insert = insert [OF Cons.prems(1) k]
    let ?t = "fst (pt_insert q t (key_val k) x)"
    have "(\<lambda>l. abs ?t (key_val l)) =
        (if abs t (key_val k) = None then (\<lambda>l. abs t (key_val l))(k \<mapsto> x) else (\<lambda>l. abs t (key_val l)))"
      using insert by (auto simp: Key.expand)
    with Cons.IH [of ?t] ops insert OpPut show ?thesis by (simp add: PACTreeKV_insert_def)
  next
    case (OpDel k)
    with u have k: "user_key (key_val k)" by simp
    note remove = remove [OF Cons.prems(1) k]
    let ?t = "pt_remove q t (key_val k)"
    have "(\<lambda>l. abs ?t (key_val l)) = (\<lambda>l. abs t (key_val l))(k := None)"
      using remove by (auto simp: Key.expand)
    with Cons.IH [of ?t] ops remove OpDel show ?thesis by (simp add: PACTreeKV_remove_def)
  qed
qed simp

end

definition pactree_model :: "(u64 \<Rightarrow> u64 option) pactree_api" where
  "pactree_model = \<lparr>pt_lookup = (\<lambda>t k junk. case t k of None \<Rightarrow> junk | Some x \<Rightarrow> x),
     pt_insert = (\<lambda>t k x. (if t k = None then t(k \<mapsto> x) else t, t k = None)),
     pt_remove = (\<lambda>t k. t(k := None)), pt_registerThread = id, pt_unregisterThread = id\<rparr>"

definition pactree_records :: "(u64 \<Rightarrow> u64 option) \<Rightarrow> u64 \<Rightarrow> u64 option" where
  "pactree_records t = t |` Collect user_key"

definition pactree_fresh :: "u64 \<Rightarrow> u64 option" where
  "pactree_fresh = [0 \<mapsto> 0, - 1 \<mapsto> 0]"

lemma pactree_fresh_empty: "pactree_records pactree_fresh = Map.empty"
  by (auto simp: pactree_records_def pactree_fresh_def restrict_map_def user_key_def)

lemma pactree_model_contract: "pactree_contract pactree_model (\<lambda>_. True) pactree_records"
  by unfold_locales (auto simp: pactree_model_def pactree_records_def restrict_map_def)

interpretation ptM: pactree_contract pactree_model "\<lambda>_. True" pactree_records
  by (rule pactree_model_contract)

section \<open>Properties\<close>



text \<open>\<open>Smart\<close> is a store of 64-bit keys: over any SMART tree that maps byte strings, a read
  after an insert returns the value inserted last, no other key is touched (the eight-byte
  encoding \<open>int2key\<close> separates all keys), and \<open>remove\<close> removes nothing.\<close>

theorem Smart_is_store:
  assumes "smart_contract q ok cont" and "ok t" and "Smart_put q t k x = Inr (t', b)"
  shows "Smart_lookup q junk t' l = (if l = k then Some x else Smart_lookup q junk t l) \<and>
    fst (Smart_remove t' k) = t'"
  using smart_contract.read_after_put [OF assms] by (simp add: Smart_remove_def)

lemma Smart_is_store_witness:
  "\<exists>t'. Smart_put smart_model Map.empty (Key 5) 50 = Inr (t', True) \<and>
    Smart_lookup smart_model 9 t' (Key 5) = Some 50"
proof -
  obtain t' where t': "Smart_put smart_model Map.empty (Key 5) 50 = Inr (t', True)"
    by (simp add: Smart_put_def Smart_insert_def)
  from Smart_is_store [OF smart_model_contract TrueI t', of 9 "Key 5"] t' show ?thesis by simp
qed

text \<open>C37: what \<open>PACTreeKV\<close> does on a new PACTree with keys other than the two that the library keeps for
  itself, 0 and \<open>2 ^ 64 - 1\<close>: a list of operations behaves as a map on which the first insert of a key
  stays (a later insert of the same key reports success and is lost) until the key is removed, and
  every read reports success: of an absent key it returns whatever the uninitialised variable of
  the library holds in that read.\<close>

theorem PACTree_first_write_wins:
  assumes "pactree_contract q ok cont" and "ok t" and "cont t = Map.empty"
    and "\<forall>op\<in>set ops. user_key (key_val (op_key op))"
  shows "snd (pac_run q junk ops t) = snd (first_write_run junk ops Map.empty)"
  using pactree_contract.run_eq [OF assms(1,2,4), of junk] assms(3) by simp

lemma PACTree_first_write_wins_witness:
  "snd (pac_run pactree_model (\<lambda>n. 90 + of_nat n)
      [OpPut (Key 1) 10, OpPut (Key 1) 20, OpGet (Key 1), OpGet (Key 2), OpDel (Key 1), OpGet (Key 1)] pactree_fresh)
    = [(True, 10), (True, 91), (True, 92)]"
  using PACTree_first_write_wins [of pactree_model "\<lambda>_. True" pactree_records pactree_fresh
      "[OpPut (Key 1) 10, OpPut (Key 1) 20, OpGet (Key 1), OpGet (Key 2), OpDel (Key 1), OpGet (Key 1)]"
      "\<lambda>n. 90 + of_nat n", OF pactree_model_contract TrueI pactree_fresh_empty] by (simp add: user_key_def)

end
