(* ===== verification/MicroTables.thy ===== *)
theory MicroTables
  imports OtherWrappers
begin

text \<open>
  The tables of the micro-benchmarks, \<open>benchmark/synthetic/micro_common.h\<close>: every driver is a
  template over the table type, so a table is a record of the calls the drivers make, with one
  record per wrapper; the functions \<open>prepare_*\<close> that fill a table; and what a driver may rely on,
  which four of the five wrappers provide. The key type is \<open>Key\<close>, the default of \<open>index_key_t\<close>.
\<close>

section \<open>The tables\<close>

abbreviation key_enc :: "Key \<Rightarrow> byte list" where
  "key_enc \<equiv> str_enc pack_Key unpack_Key"

abbreviation key_dec :: "byte list \<Rightarrow> Key" where
  "key_dec \<equiv> str_dec pack_Key unpack_Key"

record 's tab_api =
  tab_register_thread :: "'s \<Rightarrow> 's"
  fg_prologue :: "'s \<Rightarrow> nat \<Rightarrow> fault + 's"
  fg_epilogue :: "'s \<Rightarrow> nat \<Rightarrow> fault + 's"
  tab_get :: "'s \<Rightarrow> nat \<Rightarrow> Key \<Rightarrow> Value \<Rightarrow> fault + bool \<times> Value"
  tab_insert :: "'s \<Rightarrow> nat \<Rightarrow> Key \<Rightarrow> Value \<Rightarrow> fault + 's \<times> bool"
  tab_remove :: "'s \<Rightarrow> nat \<Rightarrow> Key \<Rightarrow> fault + 's \<times> bool"

definition tab_mt :: "('s, Value) mt_api \<Rightarrow> 's tab_api" where
  "tab_mt q = \<lparr>tab_register_thread = id,
     fg_prologue = (\<lambda>t i. Inr t), fg_epilogue = (\<lambda>t i. Inr t),
     tab_get = (\<lambda>t i k v. Inr (MasstreeKV_get q key_enc t k v)),
     tab_insert = (\<lambda>t i. MasstreeKV_insert q key_enc t),
     tab_remove = (\<lambda>t i. MasstreeKV_remove q key_enc t)\<rparr>"

definition tab_wh :: "('s, 'r, Value) wh_api \<Rightarrow> ('s, 'r) wormhole_kv tab_api" where
  "tab_wh q = \<lparr>tab_register_thread = id,
     fg_prologue = (\<lambda>w i. bindE (WormholeKV_ref q w i) (\<lambda>(w, _). Inr w)),
     fg_epilogue = (\<lambda>w i. bindE (WormholeKV_unref q w i) (\<lambda>(w, _). Inr w)),
     tab_get = WormholeKV_get q key_enc,
     tab_insert = WormholeKV_insert q key_enc,
     tab_remove = WormholeKV_remove q key_enc\<rparr>"

definition tab_art :: "'s art_api \<Rightarrow> (byte list \<Rightarrow> Value) \<Rightarrow> 's tab_api" where
  "tab_art q vread = \<lparr>tab_register_thread = id,
     fg_prologue = (\<lambda>t i. Inr t), fg_epilogue = (\<lambda>t i. Inr t),
     tab_get = (\<lambda>t i k v. Inr (ARTKV_get q key_enc vread t k v)),
     tab_insert = (\<lambda>t i k v. Inr (ARTKV_insert q key_enc t k v)),
     tab_remove = (\<lambda>t i k. Inr (ARTKV_remove t k))\<rparr>"

text \<open>\<open>junk t i k\<close> is the uninitialised value that worker \<open>i\<close> gets when it reads \<open>k\<close> in vain.\<close>

definition tab_sm :: "'s smart_api \<Rightarrow> ('s \<Rightarrow> nat \<Rightarrow> Key \<Rightarrow> u64) \<Rightarrow> 's tab_api" where
  "tab_sm q junk = \<lparr>tab_register_thread = Smart_register_thread q,
     fg_prologue = (\<lambda>t i. Inr t), fg_epilogue = (\<lambda>t i. Inr t),
     tab_get = (\<lambda>t i k v. Inr (Smart_get q (junk t i k) t k v)),
     tab_insert = (\<lambda>t i k v. Inr (Smart_insert q t k v)),
     tab_remove = (\<lambda>t i k. Inr (Smart_remove t k))\<rparr>"

definition tab_pac :: "'s pactree_api \<Rightarrow> ('s \<Rightarrow> nat \<Rightarrow> Key \<Rightarrow> u64) \<Rightarrow> 's tab_api" where
  "tab_pac q junk = \<lparr>tab_register_thread = PACTreeKV_register_thread q,
     fg_prologue = (\<lambda>t i. Inr t), fg_epilogue = (\<lambda>t i. Inr t),
     tab_get = (\<lambda>t i k v. Inr (PACTreeKV_get q (junk t i k) t k v)),
     tab_insert = (\<lambda>t i k v. Inr (PACTreeKV_insert q t k v)),
     tab_remove = (\<lambda>t i k. Inr (PACTreeKV_remove q t k))\<rparr>"

lemmas tab_defs = tab_mt_def tab_wh_def tab_art_def tab_sm_def tab_pac_def

text \<open>
  \<open>Value v{x}\<close>: with padding words (\<open>VAL_LEN > 0\<close>) the brace list initialises the first of them,
  and \<open>val\<close> is zero.
\<close>

definition Value_brace :: "nat \<Rightarrow> u64 \<Rightarrow> Value" where
  "Value_brace val_len x =
     (if val_len = 0 then Value [] x else Value (x # replicate (val_len - 1) 0) 0)"

definition default_val :: "nat \<Rightarrow> Value" where
  "default_val val_len = Value_brace val_len 1"

section \<open>Filling a table\<close>

text \<open>The loop over \<open>all_keys\<close>; \<open>e\<close> is what happens when an insert reports failure.\<close>

fun load_keys :: "fault \<Rightarrow> 's tab_api \<Rightarrow> nat \<Rightarrow> Key list \<Rightarrow> 's \<Rightarrow> fault + 's" where
  "load_keys e api val_len [] t = Inr t"
| "load_keys e api val_len (k # ks) t =
     bindE (tab_insert api t 0 k (default_val val_len)) (\<lambda>(t, res).
     bindE (guardE e res) (\<lambda>_. load_keys e api val_len ks t))"

definition prepare_masstree ::
  "('s, Value) mt_api \<Rightarrow> (int \<Rightarrow> 's) \<Rightarrow> int \<Rightarrow> nat \<Rightarrow> Key list \<Rightarrow> fault + 's" where
  "prepare_masstree q initialize cxl_percentage val_len all_keys =
     load_keys AssertFailed (tab_mt q) val_len all_keys (MasstreeKV_new initialize cxl_percentage)"

definition prepare_wormhole ::
  "('s, 'r, Value) wh_api \<Rightarrow> (int \<Rightarrow> 's) \<Rightarrow> nat \<Rightarrow> int \<Rightarrow> nat \<Rightarrow> Key list \<Rightarrow>
   fault + ('s, 'r) wormhole_kv" where
  "prepare_wormhole q create fg_n cxl_percentage val_len all_keys =
     bindE (WormholeKV_ref q (WormholeKV_new create fg_n cxl_percentage) 0) (\<lambda>(w, _).
     bindE (load_keys Aborted (tab_wh q) val_len all_keys w) (\<lambda>w.
     bindE (WormholeKV_unref q w 0) (\<lambda>(w, _). Inr w)))"

definition prepare_art ::
  "'s art_api \<Rightarrow> (byte list \<Rightarrow> Value) \<Rightarrow> (int \<Rightarrow> 's) \<Rightarrow> int \<Rightarrow> nat \<Rightarrow> Key list \<Rightarrow> fault + 's" where
  "prepare_art q vread create cxl_percentage val_len all_keys =
     load_keys Aborted (tab_art q vread) val_len all_keys (ARTKV_new create cxl_percentage)"

definition prepare_smart ::
  "'s smart_api \<Rightarrow> ('s \<Rightarrow> nat \<Rightarrow> Key \<Rightarrow> u64) \<Rightarrow> (nat \<Rightarrow> 's) \<Rightarrow> int \<Rightarrow> nat \<Rightarrow> nat \<Rightarrow> Key list \<Rightarrow> fault + 's" where
  "prepare_smart q junk getInstance cxl_percentage fg_n val_len all_keys =
     load_keys Aborted (tab_sm q junk) val_len all_keys (Smart_new q getInstance cxl_percentage fg_n)"

definition prepare_pactree ::
  "'s pactree_api \<Rightarrow> ('s \<Rightarrow> nat \<Rightarrow> Key \<Rightarrow> u64) \<Rightarrow> (int \<Rightarrow> int \<Rightarrow> 's) \<Rightarrow> int \<Rightarrow> nat \<Rightarrow> Key list \<Rightarrow> fault + 's" where
  "prepare_pactree q junk create cxl_percentage val_len all_keys =
     load_keys Aborted (tab_pac q junk) val_len all_keys (PACTreeKV_new q create cxl_percentage)"

section \<open>What a driver relies on\<close>

text \<open>
  \<open>inv t ins m\<close>: the workers inside are \<open>ins\<close> and the table holds the numbers \<open>m\<close>. An insert makes
  the key present and brings in no number but its own; which number the key has afterwards is
  left open, since PACTree keeps the first.
\<close>

locale micro_table =
  fixes api :: "'s tab_api" and inv :: "'s \<Rightarrow> bool list \<Rightarrow> (Key \<rightharpoonup> u64) \<Rightarrow> bool"
  assumes register_law: "inv t ins m \<Longrightarrow> inv (tab_register_thread api t) ins m"
    and prologue_law: "inv t ins m \<Longrightarrow> i < length ins \<Longrightarrow> \<not> ins ! i \<Longrightarrow>
      \<exists>t'. fg_prologue api t i = Inr t' \<and> inv t' (ins[i := True]) m"
    and epilogue_law: "inv t ins m \<Longrightarrow> i < length ins \<Longrightarrow> ins ! i \<Longrightarrow>
      \<exists>t'. fg_epilogue api t i = Inr t' \<and> inv t' (ins[i := False]) m"
    and get_law: "inv t ins m \<Longrightarrow> i < length ins \<Longrightarrow> ins ! i \<Longrightarrow>
      \<exists>b v'. tab_get api t i k v = Inr (b, v') \<and> (\<forall>x. m k = Some x \<longrightarrow> b \<and> val_of v' = x)"
    and insert_law: "inv t ins m \<Longrightarrow> i < length ins \<Longrightarrow> ins ! i \<Longrightarrow>
      \<exists>t' m'. tab_insert api t i k v = Inr (t', True) \<and> inv t' ins m' \<and> dom m' = insert k (dom m) \<and>
        (\<forall>l x. m' l = Some x \<longrightarrow> m l = Some x \<or> l = k \<and> x = val_of v)"
begin

lemma load_keys_ok:
  "inv t ins m \<Longrightarrow> 0 < length ins \<Longrightarrow> ins ! 0 \<Longrightarrow>
   \<exists>t' m'. load_keys e api val_len ks t = Inr t' \<and> inv t' ins m' \<and> dom m' = dom m \<union> set ks \<and>
     ran m' \<subseteq> insert (val_of (default_val val_len)) (ran m)"
proof (induction ks arbitrary: t m)
  case (Cons k ks)
  from insert_law [OF Cons.prems, of k "default_val val_len"] obtain t1 m1 where
    1: "tab_insert api t 0 k (default_val val_len) = Inr (t1, True)" "inv t1 ins m1"
      "dom m1 = insert k (dom m)" "\<And>l x. m1 l = Some x \<Longrightarrow> m l = Some x \<or> l = k \<and> x = val_of (default_val val_len)"
    by blast
  from 1(4) have "ran m1 \<subseteq> insert (val_of (default_val val_len)) (ran m)" by (fastforce simp: ran_def)
  with Cons.IH [OF 1(2) Cons.prems(2,3)] 1(1,3) show ?case by fastforce
qed auto

end

text \<open>A table on which the last insert of a key counts, and which reports absent keys.\<close>

locale last_write_table = micro_table api inv
  for api :: "'s tab_api" and inv :: "'s \<Rightarrow> bool list \<Rightarrow> (Key \<rightharpoonup> u64) \<Rightarrow> bool" +
  assumes absent_law: "inv t ins m \<Longrightarrow> i < length ins \<Longrightarrow> ins ! i \<Longrightarrow> m k = None \<Longrightarrow>
      \<exists>v'. tab_get api t i k v = Inr (False, v')"
    and overwrite_law: "inv t ins m \<Longrightarrow> i < length ins \<Longrightarrow> ins ! i \<Longrightarrow>
      \<exists>t'. tab_insert api t i k v = Inr (t', True) \<and> inv t' ins (m(k \<mapsto> val_of v))"

lemma insert_dom: "dom (m(k \<mapsto> x)) = insert k (dom m) \<and>
    (\<forall>l y. (m(k \<mapsto> x)) l = Some y \<longrightarrow> m l = Some y \<or> l = k \<and> y = x)"
  by auto

text \<open>To show the laws it suffices to give those of the stronger interface.\<close>

lemma last_write_tableI:
  fixes J :: "'s \<Rightarrow> bool list \<Rightarrow> (Key \<rightharpoonup> u64) \<Rightarrow> bool"
  assumes "\<And>t ins m. J t ins m \<Longrightarrow> J (tab_register_thread api t) ins m"
    and "\<And>t ins m i. J t ins m \<Longrightarrow> i < length ins \<Longrightarrow> \<not> ins ! i \<Longrightarrow>
      \<exists>t'. fg_prologue api t i = Inr t' \<and> J t' (ins[i := True]) m"
    and "\<And>t ins m i. J t ins m \<Longrightarrow> i < length ins \<Longrightarrow> ins ! i \<Longrightarrow>
      \<exists>t'. fg_epilogue api t i = Inr t' \<and> J t' (ins[i := False]) m"
    and "\<And>t ins m i k v. J t ins m \<Longrightarrow> i < length ins \<Longrightarrow> ins ! i \<Longrightarrow>
      \<exists>v'. tab_get api t i k v = Inr (m k \<noteq> None, v') \<and> (\<forall>x. m k = Some x \<longrightarrow> val_of v' = x)"
    and put: "\<And>t ins m i k v. J t ins m \<Longrightarrow> i < length ins \<Longrightarrow> ins ! i \<Longrightarrow>
      \<exists>t'. tab_insert api t i k v = Inr (t', True) \<and> J t' ins (m(k \<mapsto> val_of v))"
  shows "last_write_table api J"
proof
  fix t ins m i k v assume t: "J t ins m" "i < length ins" "ins ! i"
  show "\<exists>t' m'. tab_insert api t i k v = Inr (t', True) \<and> J t' ins m' \<and> dom m' = insert k (dom m) \<and>
      (\<forall>l x. m' l = Some x \<longrightarrow> m l = Some x \<or> l = k \<and> x = val_of v)"
    using put [OF t, of k v] insert_dom [of m k "val_of v"] by blast
  show "\<exists>b v'. tab_get api t i k v = Inr (b, v') \<and> (\<forall>x. m k = Some x \<longrightarrow> b \<and> val_of v' = x)"
    using assms(4) [OF t, of k v] by auto
  show "m k = None \<Longrightarrow> \<exists>v'. tab_get api t i k v = Inr (False, v')"
    using assms(4) [OF t, of k v] by auto
qed (rule assms; assumption)+

section \<open>Masstree\<close>

locale micro_masstree = masstree_contract q minv cont
  for q :: "('s, Value) mt_api" and minv and cont :: "'s \<Rightarrow> (byte list, Value) ostore"

sublocale micro_masstree \<subseteq> mkv: masstree_kv q minv cont key_enc key_dec
  using masstree_contract_axioms MK.index_key_axioms by (rule masstree_kv.intro)

definition numbers :: "('k, Value) ostore \<Rightarrow> 'k \<rightharpoonup> u64" where
  "numbers s = (\<lambda>k. map_option val_of (os_get s k))"

lemma numbers_insert [simp]: "os_ok s \<Longrightarrow> numbers (os_insert s k v) = (numbers s)(k \<mapsto> val_of v)"
  by (auto simp: numbers_def)

lemma numbers_empty [simp]: "numbers [] = Map.empty"
  by (auto simp: numbers_def)

text \<open>The table holds the records \<open>s\<close>, and \<open>m\<close> their numbers.\<close>

definition mt_inv ::
  "('s \<Rightarrow> bool) \<Rightarrow> ('s \<Rightarrow> (byte list, Value) ostore) \<Rightarrow> 's \<Rightarrow> bool list \<Rightarrow> (Key \<rightharpoonup> u64) \<Rightarrow> bool" where
  "mt_inv minv cont t ins m \<longleftrightarrow>
     (\<exists>s. minv t \<and> os_ok s \<and> cont t = os_image key_enc s \<and> m = numbers s)"

sublocale micro_masstree \<subseteq> last_write_table "tab_mt q" "mt_inv minv cont"
proof (rule last_write_tableI)
  fix t ins m i k v assume "mt_inv minv cont t ins m"
  then obtain s where s: "mkv.repr t s" "m = numbers s" by (auto simp: mt_inv_def mkv.repr_def)
  show "\<exists>v'. tab_get (tab_mt q) t i k v = Inr (m k \<noteq> None, v') \<and> (\<forall>x. m k = Some x \<longrightarrow> val_of v' = x)"
    by (simp add: tab_mt_def mkv.get_repr [OF s(1)] s(2) numbers_def split: option.split)
  obtain t' where "MasstreeKV_insert q key_enc t k v = Inr (t', True)" "mkv.repr t' (os_insert s k v)"
    using mkv.insert_repr [OF s(1)] by blast
  moreover from this s(1) have "mt_inv minv cont t' ins ((numbers s)(k \<mapsto> val_of v))"
    unfolding mt_inv_def by (intro exI [of _ "os_insert s k v"]) (simp add: mkv.repr_def)
  ultimately show "\<exists>t'. tab_insert (tab_mt q) t i k v = Inr (t', True) \<and> mt_inv minv cont t' ins (m(k \<mapsto> val_of v))"
    using s(2) by (simp add: tab_mt_def)
qed (simp_all add: tab_mt_def mt_inv_def)

context micro_masstree
begin

lemma is_table: "micro_table (tab_mt q) (mt_inv minv cont)"
  by unfold_locales

lemma is_last_write_table: "last_write_table (tab_mt q) (mt_inv minv cont)"
  by unfold_locales

lemma prepare_ok:
  assumes "minv (initialize c)" "cont (initialize c) = os_empty"
  shows "\<exists>t m. prepare_masstree q initialize c val_len ks = Inr t \<and> (\<forall>ins. mt_inv minv cont t ins m) \<and>
    dom m = set ks \<and> ran m \<subseteq> {val_of (default_val val_len)}"
proof -
  have "mt_inv minv cont (initialize c) [True] Map.empty"
    unfolding mt_inv_def by (intro exI [of _ "[]"]) (use assms in \<open>simp add: os_empty_def\<close>)
  from load_keys_ok [OF this, of AssertFailed val_len ks] show ?thesis
    by (auto simp: prepare_masstree_def MasstreeKV_new_def mt_inv_def)
qed

end

interpretation mt_model: micro_masstree os_api os_ok id
  using os_api_contract by (rule micro_masstree.intro)

section \<open>Wormhole\<close>

locale micro_wormhole = wormhole_contract q winv cont refs
  for q :: "('s, 'r, Value) wh_api" and winv and cont :: "'s \<Rightarrow> (byte list, Value) ostore" and refs

sublocale micro_wormhole \<subseteq> wkv: wormhole_kv_ok q winv cont refs key_enc key_dec
  using wormhole_contract_axioms MK.index_key_axioms by (rule wormhole_kv_ok.intro)

definition wh_inv ::
  "('s \<Rightarrow> bool) \<Rightarrow> ('s \<Rightarrow> (byte list, Value) ostore) \<Rightarrow> ('s \<Rightarrow> 'r multiset) \<Rightarrow>
   ('s, 'r) wormhole_kv \<Rightarrow> bool list \<Rightarrow> (Key \<rightharpoonup> u64) \<Rightarrow> bool" where
  "wh_inv winv cont refs w ins m \<longleftrightarrow>
     winv (wh_ptr w) \<and> refs (wh_ptr w) = held (worker_info w) \<and>
     ins = map (\<lambda>x. x \<noteq> None) (worker_info w) \<and>
     (\<exists>s. os_ok s \<and> cont (wh_ptr w) = os_image key_enc s \<and> m = numbers s)"

context micro_wormhole
begin

lemma wh_inv_eq: "wh_inv winv cont refs w ins m \<longleftrightarrow> (\<exists>s. wkv.wrepr w ins s \<and> m = numbers s)"
  by (auto simp: wh_inv_def wkv.wrepr_def)

end

sublocale micro_wormhole \<subseteq> last_write_table "tab_wh q" "wh_inv winv cont refs"
proof (rule last_write_tableI)
  fix w ins m i k v assume "wh_inv winv cont refs w ins m"
  then obtain s where s: "wkv.wrepr w ins s" "m = numbers s" by (auto simp: wh_inv_eq)
  show "wh_inv winv cont refs (tab_register_thread (tab_wh q) w) ins m"
    using s by (auto simp: tab_wh_def wh_inv_eq)
  assume i: "i < length ins"
  { assume "\<not> ins ! i"
    from wkv.enter_repr [OF s(1) i this] s(2)
    show "\<exists>t'. fg_prologue (tab_wh q) w i = Inr t' \<and> wh_inv winv cont refs t' (ins[i := True]) m"
      by (auto simp: tab_wh_def wh_inv_eq WormholeKV_worker_enter_def) }
  assume ins: "ins ! i"
  from wkv.exit_repr [OF s(1) i ins] s(2)
  show "\<exists>t'. fg_epilogue (tab_wh q) w i = Inr t' \<and> wh_inv winv cont refs t' (ins[i := False]) m"
    by (auto simp: tab_wh_def wh_inv_eq WormholeKV_worker_exit_def)
  show "\<exists>v'. tab_get (tab_wh q) w i k v = Inr (m k \<noteq> None, v') \<and> (\<forall>x. m k = Some x \<longrightarrow> val_of v' = x)"
    using wkv.get_wrepr [OF s(1) i ins, of k v] s(2)
    by (simp add: tab_wh_def numbers_def split: option.split)
  obtain w' where w': "WormholeKV_insert q key_enc w i k v = Inr (w', True)" "wkv.wrepr w' ins (os_insert s k v)"
    using wkv.put_repr [OF s(1) i ins] by blast
  moreover have "m(k \<mapsto> val_of v) = numbers (os_insert s k v)" using s by (simp add: wkv.wrepr_def)
  ultimately show "\<exists>t'. tab_insert (tab_wh q) w i k v = Inr (t', True) \<and> wh_inv winv cont refs t' ins (m(k \<mapsto> val_of v))"
    unfolding wh_inv_eq by (auto simp: tab_wh_def)
qed

context micro_wormhole
begin

lemma is_table: "micro_table (tab_wh q) (wh_inv winv cont refs)"
  by unfold_locales

lemma is_last_write_table: "last_write_table (tab_wh q) (wh_inv winv cont refs)"
  by unfold_locales

lemma prepare_ok:
  assumes "winv (create c)" "refs (create c) = {#}" "cont (create c) = os_empty" "0 < n"
  shows "\<exists>w m. prepare_wormhole q create n c val_len ks = Inr w \<and>
    wh_inv winv cont refs w (replicate n False) m \<and>
    dom m = set ks \<and> ran m \<subseteq> {val_of (default_val val_len)}"
proof -
  let ?ins = "(replicate n False)[0 := True]"
  have "wh_inv winv cont refs (WormholeKV_new create n c) (replicate n False) Map.empty"
    unfolding wh_inv_eq by (intro exI [of _ "[]"]) (use wkv.new_repr [where create = create and n = n and c = c, OF assms(1-3)] in \<open>simp add: os_empty_def\<close>)
  from prologue_law [OF this, of 0] assms(4) obtain w1 b where
    w1: "WormholeKV_ref q (WormholeKV_new create n c) 0 = Inr (w1, b)" "wh_inv winv cont refs w1 ?ins Map.empty"
    by (auto simp: tab_wh_def bindE_eq_Inr)
  from load_keys_ok [OF w1(2), of Aborted val_len ks] assms(4) obtain w2 m where
    w2: "load_keys Aborted (tab_wh q) val_len ks w1 = Inr w2" "wh_inv winv cont refs w2 ?ins m"
      "dom m = set ks" "ran m \<subseteq> {val_of (default_val val_len)}" by auto
  from epilogue_law [OF w2(2), of 0] assms(4) obtain w3 b' where
    w3: "WormholeKV_unref q w2 0 = Inr (w3, b')" "wh_inv winv cont refs w3 (?ins[0 := False]) m"
    by (auto simp: tab_wh_def bindE_eq_Inr)
  have "?ins[0 := False] = replicate n False" using assms(4) by (cases n) simp_all
  with w1 w2 w3 show ?thesis by (auto simp: prepare_wormhole_def)
qed

text \<open>When no worker is inside, no reference is held.\<close>

lemma no_refs_left: "wh_inv winv cont refs w (replicate n False) m \<Longrightarrow> refs (wh_ptr w) = {#}"
proof -
  assume w: "wh_inv winv cont refs w (replicate n False) m"
  then have "map (\<lambda>x. x \<noteq> None) (worker_info w) = replicate n False" by (simp add: wh_inv_def)
  then have "set (map (\<lambda>x. x \<noteq> None) (worker_info w)) \<subseteq> {False}" by (simp only: set_replicate_conv_if) simp
  then have "\<forall>x\<in>set (worker_info w). x = None" by auto
  then have "worker_info w = replicate (length (worker_info w)) None" by (intro replicate_eqI) simp_all
  then have "held (worker_info w) = {#}" using held_replicate_None by metis
  with w show ?thesis by (simp add: wh_inv_def)
qed

end

interpretation wh_model: micro_wormhole wh_model_api "os_ok \<circ> fst" fst snd
  using wh_model_contract by (rule micro_wormhole.intro)

section \<open>SMART\<close>

text \<open>Registering a thread with the library leaves the records alone.\<close>

locale micro_smart = smart_contract q sinv cont
  for q :: "'s smart_api" and sinv and cont +
  assumes register: "sinv t \<Longrightarrow> sinv (smart_register q t) \<and> cont (smart_register q t) = cont t"

definition sm_inv ::
  "('s \<Rightarrow> bool) \<Rightarrow> ('s \<Rightarrow> byte list \<Rightarrow> u64 option) \<Rightarrow> 's \<Rightarrow> bool list \<Rightarrow> (Key \<rightharpoonup> u64) \<Rightarrow> bool" where
  "sm_inv sinv cont t ins m \<longleftrightarrow> sinv t \<and> m = (\<lambda>k. cont t (int2key (key_val k)))"

lemma int2key_upd:
  "(\<lambda>l. (f(int2key (key_val k) \<mapsto> x)) (int2key (key_val l))) = (\<lambda>l. f (int2key (key_val l)))(k \<mapsto> x)"
  by (auto simp: int2key_inject Key.expand)

sublocale micro_smart \<subseteq> smt: last_write_table "tab_sm q junk" "sm_inv sinv cont" for junk
proof (rule last_write_tableI)
  fix t ins m i k v assume t: "sm_inv sinv cont t ins m"
  then have t': "sinv t" "m = (\<lambda>k. cont t (int2key (key_val k)))" by (auto simp: sm_inv_def)
  show "sm_inv sinv cont (tab_register_thread (tab_sm q junk) t) ins m"
    using t' register by (simp add: tab_sm_def Smart_register_thread_def sm_inv_def)
  show "\<exists>v'. tab_get (tab_sm q junk) t i k v = Inr (m k \<noteq> None, v') \<and> (\<forall>x. m k = Some x \<longrightarrow> val_of v' = x)"
    by (simp add: tab_sm_def Smart_get_def search [OF t'(1)] t'(2) split: option.split)
  show "\<exists>t'. tab_insert (tab_sm q junk) t i k v = Inr (t', True) \<and> sm_inv sinv cont t' ins (m(k \<mapsto> val_of v))"
    using insert [OF t'(1), of "int2key (key_val k)" "val_of v"] int2key_upd [of "cont t" k "val_of v"]
    by (auto simp: tab_sm_def Smart_insert_def sm_inv_def t'(2) simp del: fun_upd_apply)
qed (simp_all add: tab_sm_def sm_inv_def)

context micro_smart
begin

lemma is_table: "micro_table (tab_sm q junk) (sm_inv sinv cont)"
  by unfold_locales

lemma is_last_write_table: "last_write_table (tab_sm q junk) (sm_inv sinv cont)"
  by unfold_locales

lemma prepare_ok:
  assumes "sinv (getInstance n)" "cont (getInstance n) = Map.empty"
  shows "\<exists>t m. prepare_smart q junk getInstance c n val_len ks = Inr t \<and> (\<forall>ins. sm_inv sinv cont t ins m) \<and>
    dom m = set ks \<and> ran m \<subseteq> {val_of (default_val val_len)}"
proof -
  have "sm_inv sinv cont (Smart_new q getInstance c n) [True] Map.empty"
    using register [OF assms(1)] assms(2) by (simp add: sm_inv_def Smart_new_def)
  from smt.load_keys_ok [OF this, of Aborted junk val_len ks] show ?thesis
    by (auto simp: prepare_smart_def sm_inv_def)
qed

end

interpretation sm_model: micro_smart smart_model "\<lambda>_. True" id
  by (intro micro_smart.intro smart_model_contract micro_smart_axioms.intro) (simp add: smart_model_def)

section \<open>Tables from which keys can be removed\<close>

locale removable_table = last_write_table api inv
  for api :: "'s tab_api" and inv :: "'s \<Rightarrow> bool list \<Rightarrow> (Key \<rightharpoonup> u64) \<Rightarrow> bool" +
  assumes remove_law: "inv t ins m \<Longrightarrow> i < length ins \<Longrightarrow> ins ! i \<Longrightarrow>
      \<exists>t' b. tab_remove api t i k = Inr (t', b) \<and> inv t' ins (m(k := None))"

lemma numbers_remove: "os_ok s \<Longrightarrow> numbers (os_remove s k) = (numbers s)(k := None)"
  by (auto simp: numbers_def)

sublocale micro_masstree \<subseteq> removable_table "tab_mt q" "mt_inv minv cont"
proof
  fix t ins m i k assume "mt_inv minv cont t ins m"
  then obtain s where s: "mkv.repr t s" "m = numbers s" by (auto simp: mt_inv_def mkv.repr_def)
  obtain t' where "MasstreeKV_remove q key_enc t k = Inr (t', True)" "mkv.repr t' (os_remove s k)"
    using mkv.remove_repr [OF s(1)] by blast
  moreover from this s(1) have "mt_inv minv cont t' ins ((numbers s)(k := None))"
    unfolding mt_inv_def by (intro exI [of _ "os_remove s k"]) (simp add: mkv.repr_def numbers_remove)
  ultimately show "\<exists>t' b. tab_remove (tab_mt q) t i k = Inr (t', b) \<and> mt_inv minv cont t' ins (m(k := None))"
    using s(2) by (auto simp: tab_mt_def)
qed

sublocale micro_wormhole \<subseteq> removable_table "tab_wh q" "wh_inv winv cont refs"
proof
  fix w ins m i k assume "wh_inv winv cont refs w ins m" and i: "i < length ins" "ins ! i"
  then obtain s where s: "wkv.wrepr w ins s" "m = numbers s" by (auto simp: wh_inv_eq)
  obtain w' where w': "WormholeKV_remove q key_enc w i k = Inr (w', True)" "wkv.wrepr w' ins (os_remove s k)"
    using wkv.del_repr [OF s(1) i] by blast
  moreover have "m(k := None) = numbers (os_remove s k)" using s by (simp add: wkv.wrepr_def numbers_remove)
  ultimately show "\<exists>t' b. tab_remove (tab_wh q) w i k = Inr (t', b) \<and> wh_inv winv cont refs t' ins (m(k := None))"
    unfolding wh_inv_eq by (auto simp: tab_wh_def)
qed

context micro_masstree
begin

lemma is_removable: "removable_table (tab_mt q) (mt_inv minv cont)"
  by unfold_locales

end

context micro_wormhole
begin

lemma is_removable: "removable_table (tab_wh q) (wh_inv winv cont refs)"
  by unfold_locales

end

end
