(* ===== verification/BenchProtocol.thy ===== *)
theory BenchProtocol
  imports Prelude Complex_Main
begin

text \<open>
  The protocol that the benchmark drivers share (\<open>run_benchmark\<close> and \<open>run_fg\<close>, copied with small
  changes into every driver). The main thread creates the foreground threads, waits until all of
  them have counted themselves in \<open>ready_threads\<close>, sets \<open>running\<close>, sleeps, clears it and joins. A
  foreground thread prepares itself, repeats the warm-up body while \<open>running\<close> is false, then the
  measured body while it is true, and leaves. What the bodies do to the shared table is a
  parameter: a record of functions. An iteration of a body is one atomic step.
\<close>

section \<open>States\<close>

datatype 'w fg_phase =
  NotStarted | is_Warmup: Warmup 'w | is_Measured: Measured 'w | is_Finished: Finished 'w

datatype main_phase = AwaitReady | Sleeping | Joining | Joined

record ('s, 'w, 'e) fg_body =
  fg_start :: "nat \<Rightarrow> 'e \<Rightarrow> 's \<Rightarrow> fault + 's \<times> 'w"
  fg_warm :: "nat \<Rightarrow> 's \<Rightarrow> 'w \<Rightarrow> fault + 's \<times> 'w"
  fg_turn :: "'w \<Rightarrow> 'w"
  fg_run :: "nat \<Rightarrow> rat \<Rightarrow> 's \<Rightarrow> 'w \<Rightarrow> fault + 's \<times> 'w"
  fg_stop :: "nat \<Rightarrow> 's \<Rightarrow> fault + 's"

record ('s, 'w) bench =
  b_table :: 's
  b_fg :: "'w fg_phase list"
  ready_threads :: nat
  running :: bool
  b_main :: main_phase

definition bench_init :: "nat \<Rightarrow> 's \<Rightarrow> ('s, 'w) bench" where
  "bench_init fg_n tab =
     \<lparr>b_table = tab, b_fg = replicate fg_n NotStarted, ready_threads = 0, running = False,
      b_main = AwaitReady\<rparr>"

text \<open>The effect of a worker's iteration on the state, or the fault that ends the program.\<close>

definition fg_result ::
  "('s, 'w) bench \<Rightarrow> nat \<Rightarrow> ('w \<Rightarrow> 'w fg_phase) \<Rightarrow> fault + 's \<times> 'w \<Rightarrow> fault + ('s, 'w) bench" where
  "fg_result b i ph r =
     bindE r (\<lambda>(tab, w). Inr (b\<lparr>b_table := tab, b_fg := (b_fg b)[i := ph w]\<rparr>))"

inductive bench_step ::
  "('s, 'w, 'e) fg_body \<Rightarrow> ('s, 'w) bench \<Rightarrow> fault + ('s, 'w) bench \<Rightarrow> bool" for body where
  start: "i < length (b_fg b) \<Longrightarrow> b_fg b ! i = NotStarted \<Longrightarrow>
    bench_step body b (fg_result (b\<lparr>ready_threads := Suc (ready_threads b)\<rparr>) i Warmup
      (fg_start body i env (b_table b)))"
| warm: "i < length (b_fg b) \<Longrightarrow> b_fg b ! i = Warmup w \<Longrightarrow> \<not> running b \<Longrightarrow>
    bench_step body b (fg_result b i Warmup (fg_warm body i (b_table b) w))"
| turn: "i < length (b_fg b) \<Longrightarrow> b_fg b ! i = Warmup w \<Longrightarrow> running b \<Longrightarrow>
    bench_step body b (Inr (b\<lparr>b_fg := (b_fg b)[i := Measured (fg_turn body w)]\<rparr>))"
| run: "i < length (b_fg b) \<Longrightarrow> b_fg b ! i = Measured w \<Longrightarrow> running b \<Longrightarrow>
    bench_step body b (fg_result b i Measured (fg_run body i d (b_table b) w))"
| stop: "i < length (b_fg b) \<Longrightarrow> b_fg b ! i = Measured w \<Longrightarrow> \<not> running b \<Longrightarrow>
    bench_step body b (fg_result b i Finished
      (bindE (fg_stop body i (b_table b)) (\<lambda>tab. Inr (tab, w))))"
| all_ready: "b_main b = AwaitReady \<Longrightarrow> length (b_fg b) \<le> ready_threads b \<Longrightarrow>
    bench_step body b (Inr (b\<lparr>running := True, b_main := Sleeping\<rparr>))"
| time_up: "b_main b = Sleeping \<Longrightarrow>
    bench_step body b (Inr (b\<lparr>running := False, b_main := Joining\<rparr>))"
| join: "b_main b = Joining \<Longrightarrow> list_all is_Finished (b_fg b) \<Longrightarrow>
    bench_step body b (Inr (b\<lparr>b_main := Joined\<rparr>))"

inductive bench_reach ::
  "('s, 'w, 'e) fg_body \<Rightarrow> ('s, 'w) bench \<Rightarrow> fault + ('s, 'w) bench \<Rightarrow> bool" for body b0 where
  refl: "bench_reach body b0 (Inr b0)"
| step: "bench_reach body b0 (Inr b) \<Longrightarrow> bench_step body b r \<Longrightarrow> bench_reach body b0 r"

inductive_cases bench_stepE: "bench_step body b r"

lemma bench_reach_trans:
  "bench_reach body b (Inr b') \<Longrightarrow> bench_reach body b' r \<Longrightarrow> bench_reach body b r"
  by (rotate_tac, induction rule: bench_reach.induct) (auto intro: bench_reach.intros)

lemma fg_result_eq_Inr:
  "fg_result b i ph r = Inr b' \<longleftrightarrow>
   (\<exists>t w. r = Inr (t, w) \<and> b' = b\<lparr>b_table := t, b_fg := (b_fg b)[i := ph w]\<rparr>)"
  by (cases r) (auto simp: fg_result_def split: prod.splits)

lemmas Inr_eq_fg_result = fg_result_eq_Inr [THEN eq_commute [THEN trans]]

lemma fg_result_Inr: "fg_result b i ph (Inr (t, w)) = Inr (b\<lparr>b_table := t, b_fg := (b_fg b)[i := ph w]\<rparr>)"
  by (simp add: fg_result_def)

section \<open>The protocol's own invariant\<close>

fun busy :: "'w fg_phase \<Rightarrow> bool" where
  "busy NotStarted = False"
| "busy (Warmup w) = True"
| "busy (Measured w) = True"
| "busy (Finished w) = False"

fun fg_data :: "'w fg_phase \<Rightarrow> 'w option" where
  "fg_data NotStarted = None"
| "fg_data (Warmup w) = Some w"
| "fg_data (Measured w) = Some w"
| "fg_data (Finished w) = Some w"

lemma busy_same: "i < length ps \<Longrightarrow> busy (ps ! i) \<Longrightarrow> (map busy ps)[i := True] = map busy ps"
  by (simp add: list_update_same_conv)

definition started :: "'w fg_phase list \<Rightarrow> nat" where
  "started ps = length (filter (\<lambda>p. p \<noteq> NotStarted) ps)"

lemma started_update:
  "i < length ps \<Longrightarrow> started (ps[i := p]) + of_bool (ps ! i \<noteq> NotStarted) = started ps + of_bool (p \<noteq> NotStarted)"
proof (induction ps arbitrary: i)
  case (Cons q ps)
  then show ?case by (cases i) (auto simp: started_def)
qed simp

abbreviation begun :: "'w fg_phase \<Rightarrow> bool" where
  "begun p \<equiv> p \<noteq> NotStarted"

lemma started_all: "started ps = length ps \<longleftrightarrow> list_all begun ps"
proof
  assume eq: "started ps = length ps"
  then show "list_all begun ps"
    using length_filter_less [of _ ps begun] by (fastforce simp: started_def list_all_iff)
next
  assume "list_all begun ps"
  then have "filter begun ps = ps" by (simp add: filter_id_conv list_all_iff)
  then show "started ps = length ps" by (simp add: started_def)
qed

lemma started_le: "started ps \<le> length ps"
  by (simp add: started_def)

lemma list_all_update: "list_all P ps \<Longrightarrow> P q \<Longrightarrow> list_all P (ps[i := q])"
  by (auto simp: list_all_iff dest!: subsetD [OF set_update_subset_insert])

lemma filter_update_less:
  "i < length ps \<Longrightarrow> P (ps ! i) \<Longrightarrow> \<not> P q \<Longrightarrow> length (filter P (ps[i := q])) < length (filter P ps)"
proof (induction ps arbitrary: i)
  case (Cons p ps)
  then show ?case by (cases i) (auto split: if_splits)
qed simp

lemma list_all_nthD: "list_all P ps \<Longrightarrow> i < length ps \<Longrightarrow> P (ps ! i)"
  by (simp add: list_all_length)

text \<open>
  \<open>ready_threads\<close> counts the workers that have begun; before \<open>running\<close> is set no worker measures,
  and afterwards every worker has begun.
\<close>

definition bench_ok :: "('s, 'w) bench \<Rightarrow> bool" where
  "bench_ok b \<longleftrightarrow> ready_threads b = started (b_fg b) \<and> (running b \<longleftrightarrow> b_main b = Sleeping) \<and>
     (b_main b = AwaitReady \<longrightarrow> list_all (\<lambda>p. p = NotStarted \<or> is_Warmup p) (b_fg b)) \<and>
     (b_main b \<noteq> AwaitReady \<longrightarrow> list_all begun (b_fg b)) \<and>
     (b_main b = Joined \<longrightarrow> list_all is_Finished (b_fg b))"

lemma bench_init_ok: "bench_ok (bench_init n t)"
  by (simp add: bench_ok_def bench_init_def started_def list_all_iff)

lemma bench_ok_update:
  assumes ok: "bench_ok b" and i: "i < length (b_fg b)" "begun (b_fg b ! i)" and p: "begun p"
    and m: "b_main b = AwaitReady \<Longrightarrow> is_Warmup p" "b_main b \<noteq> Joined"
  shows "bench_ok (b\<lparr>b_table := t, b_fg := (b_fg b)[i := p]\<rparr>)"
proof -
  have "started ((b_fg b)[i := p]) = started (b_fg b)" using started_update [OF i(1), of p] i(2) p by simp
  with ok p m show ?thesis by (simp add: bench_ok_def list_all_update)
qed

lemma bench_step_ok:
  assumes "bench_step body b (Inr b')" "bench_ok b"
  shows "bench_ok b'"
  using assms(1)
proof (cases rule: bench_step.cases)
  case (start i env)
  from start(1) [symmetric] obtain t w where
    b': "b' = b\<lparr>ready_threads := Suc (ready_threads b), b_table := t, b_fg := (b_fg b)[i := Warmup w]\<rparr>"
    by (auto simp: fg_result_eq_Inr)
  have "\<not> list_all begun (b_fg b)" using start by (auto dest: list_all_nthD)
  then have m: "b_main b = AwaitReady" using assms(2) by (auto simp: bench_ok_def)
  have "started ((b_fg b)[i := Warmup w]) = Suc (started (b_fg b))"
    using started_update [OF start(2), of "Warmup w"] start(3) by simp
  with assms(2) m show ?thesis by (simp add: b' bench_ok_def list_all_update)
next
  case all_ready
  then have "started (b_fg b) = length (b_fg b)"
    using assms(2) started_le [of "b_fg b"] by (simp add: bench_ok_def)
  with all_ready assms(2) show ?thesis using started_all [of "b_fg b"] by (simp add: bench_ok_def)
next
  case (warm i w)
  have "b_main b \<noteq> Joined" using assms(2) warm by (auto simp: bench_ok_def dest: list_all_nthD)
  moreover obtain t w' where "b' = b\<lparr>b_table := t, b_fg := (b_fg b)[i := Warmup w']\<rparr>"
    using warm(1) [symmetric] by (auto simp: fg_result_eq_Inr)
  ultimately show ?thesis using warm(2-) assms(2) by (auto intro: bench_ok_update)
next
  case (turn i w)
  have "b_main b = Sleeping" using assms(2) turn by (simp add: bench_ok_def)
  then have "bench_ok (b\<lparr>b_table := b_table b, b_fg := (b_fg b)[i := Measured (fg_turn body w)]\<rparr>)"
    using assms(2) turn by (intro bench_ok_update) simp_all
  with turn show ?thesis by simp
next
  case (run i w d)
  have "b_main b = Sleeping" using assms(2) run by (simp add: bench_ok_def)
  moreover obtain t w' where "b' = b\<lparr>b_table := t, b_fg := (b_fg b)[i := Measured w']\<rparr>"
    using run(1) [symmetric] by (auto simp: fg_result_eq_Inr)
  ultimately show ?thesis using run(2-) assms(2) by (auto intro: bench_ok_update)
next
  case (stop i w)
  have "b_main b \<noteq> Joined" "b_main b \<noteq> AwaitReady"
    using assms(2) stop by (auto simp: bench_ok_def dest: list_all_nthD)
  moreover obtain t w' where "b' = b\<lparr>b_table := t, b_fg := (b_fg b)[i := Finished w']\<rparr>"
    using stop(1) [symmetric] by (auto simp: fg_result_eq_Inr)
  ultimately show ?thesis using stop(2-) assms(2) by (auto intro: bench_ok_update)
next
  case time_up
  with assms(2) show ?thesis by (simp add: bench_ok_def)
next
  case join
  with assms(2) show ?thesis by (simp add: bench_ok_def)
qed

lemma bench_reach_ok: "bench_reach body b0 r \<Longrightarrow> bench_ok b0 \<Longrightarrow> r = Inr b \<Longrightarrow> bench_ok b"
  by (induction arbitrary: b rule: bench_reach.induct) (auto intro: bench_step_ok)

section \<open>Bodies that keep an invariant\<close>

text \<open>
  What a driver's bodies promise: \<open>inv\<close> relates the table to the workers that are inside (after
  the prologue, before the epilogue), \<open>wok\<close> is the invariant of a worker's own data. A start may
  draw any random environment.
\<close>

locale fg_safe =
  fixes body :: "('s, 'w, 'e) fg_body"
    and inv :: "'s \<Rightarrow> bool list \<Rightarrow> bool" and wok :: "nat \<Rightarrow> 'w \<Rightarrow> bool"
  assumes start_law: "inv t ins \<Longrightarrow> i < length ins \<Longrightarrow> \<not> ins ! i \<Longrightarrow>
      \<exists>t' w. fg_start body i env t = Inr (t', w) \<and> inv t' (ins[i := True]) \<and> wok i w"
    and warm_law: "inv t ins \<Longrightarrow> i < length ins \<Longrightarrow> ins ! i \<Longrightarrow> wok i w \<Longrightarrow>
      \<exists>t' w'. fg_warm body i t w = Inr (t', w') \<and> inv t' ins \<and> wok i w'"
    and turn_law: "wok i w \<Longrightarrow> wok i (fg_turn body w)"
    and run_law: "inv t ins \<Longrightarrow> i < length ins \<Longrightarrow> ins ! i \<Longrightarrow> wok i w \<Longrightarrow>
      \<exists>t' w'. fg_run body i d t w = Inr (t', w') \<and> inv t' ins \<and> wok i w'"
    and stop_law: "inv t ins \<Longrightarrow> i < length ins \<Longrightarrow> ins ! i \<Longrightarrow>
      \<exists>t'. fg_stop body i t = Inr t' \<and> inv t' (ins[i := False])"
begin

definition safe :: "('s, 'w) bench \<Rightarrow> bool" where
  "safe b \<longleftrightarrow> inv (b_table b) (map busy (b_fg b)) \<and>
     (\<forall>i < length (b_fg b). \<forall>w. fg_data (b_fg b ! i) = Some w \<longrightarrow> wok i w)"

lemma safe_init: "inv t (replicate n False) \<Longrightarrow> safe (bench_init n t)"
  by (simp add: safe_def bench_init_def)

lemma safe_update:
  assumes "safe b" "inv t ((map busy (b_fg b))[i := busy p])"
    and "\<And>w. fg_data p = Some w \<Longrightarrow> wok i w"
  shows "safe (b\<lparr>b_table := t, b_fg := (b_fg b)[i := p]\<rparr>)"
proof -
  have "wok k w" if "k < length (b_fg b)" "fg_data ((b_fg b)[i := p] ! k) = Some w" for k w
    using assms(1,3) that by (cases "k = i") (auto simp: safe_def)
  with assms(2) show ?thesis by (simp add: safe_def map_update)
qed

lemma safe_data: "safe b \<Longrightarrow> i < length (b_fg b) \<Longrightarrow> fg_data (b_fg b ! i) = Some w \<Longrightarrow> wok i w"
  by (simp add: safe_def)

text \<open>No step of a safe state is a fault, and every step leads to a safe state.\<close>

lemma step_safe:
  assumes "bench_step body b r" "safe b"
  shows "\<exists>b'. r = Inr b' \<and> safe b'"
proof -
  let ?ins = "map busy (b_fg b)"
  have j: "inv (b_table b) ?ins" using assms(2) by (simp add: safe_def)
  show ?thesis
    using assms(1)
  proof (cases rule: bench_step.cases)
    case (start i env)
    with start_law [OF j, of i env] obtain t w where
      "fg_start body i env (b_table b) = Inr (t, w)" "inv t (?ins[i := True])" "wok i w" by auto
    moreover from this have "safe (b\<lparr>ready_threads := Suc (ready_threads b)\<rparr>
        \<lparr>b_table := t, b_fg := (b_fg b)[i := Warmup w]\<rparr>)"
      using assms(2) by (intro safe_update [of "b\<lparr>ready_threads := Suc (ready_threads b)\<rparr>", simplified])
        (simp_all add: safe_def)
    ultimately show ?thesis using start(1) by (simp add: fg_result_Inr)
  next
    case (warm i w)
    with safe_data [OF assms(2)] warm_law [OF j, of i w] obtain t w' where
      "fg_warm body i (b_table b) w = Inr (t, w')" "inv t ?ins" "wok i w'" by auto
    with warm safe_update [OF assms(2), of t i "Warmup w'"] show ?thesis
      by (simp add: fg_result_Inr busy_same)
  next
    case (turn i w)
    have "safe (b\<lparr>b_table := b_table b, b_fg := (b_fg b)[i := Measured (fg_turn body w)]\<rparr>)"
      using turn j safe_data [OF assms(2), of i w]
      by (intro safe_update [OF assms(2)]) (auto simp: busy_same turn_law)
    with turn show ?thesis by simp
  next
    case (run i w d)
    with safe_data [OF assms(2)] run_law [OF j, of i w d] obtain t w' where
      "fg_run body i d (b_table b) w = Inr (t, w')" "inv t ?ins" "wok i w'" by auto
    with run safe_update [OF assms(2), of t i "Measured w'"] show ?thesis
      by (simp add: fg_result_Inr busy_same)
  next
    case (stop i w)
    with stop_law [OF j, of i] obtain t where
      "fg_stop body i (b_table b) = Inr t" "inv t (?ins[i := False])" by auto
    with stop safe_data [OF assms(2)] safe_update [OF assms(2), of t i "Finished w"] show ?thesis
      by (simp add: fg_result_Inr)
  qed (use assms(2) in \<open>simp_all add: safe_def\<close>)
qed

lemma reach_safe:
  "bench_reach body b0 r \<Longrightarrow> safe b0 \<Longrightarrow> \<exists>b. r = Inr b \<and> safe b"
  by (induction rule: bench_reach.induct) (auto dest: step_safe)

lemma run_safe:
  assumes "inv t (replicate n False)" "bench_reach body (bench_init n t) r"
  shows "\<exists>b. r = Inr b \<and> inv (b_table b) (map busy (b_fg b)) \<and> bench_ok b \<and>
    (\<forall>i < length (b_fg b). \<forall>w. fg_data (b_fg b ! i) = Some w \<longrightarrow> wok i w)"
  using reach_safe [OF assms(2) safe_init [OF assms(1)]] bench_reach_ok [OF assms(2) bench_init_ok]
  by (auto simp: safe_def)

end

section \<open>The window\<close>

text \<open>
  A worker looks at \<open>running\<close> between two iterations. If it looks only before the flag is set and
  after it is cleared, it stays in its warm-up loop, and the main thread waits for it for ever.
\<close>

definition missed :: "nat \<Rightarrow> ('s, 'w) bench \<Rightarrow> bool" where
  "missed i b \<longleftrightarrow> b_main b = Joining \<and> \<not> running b \<and> i < length (b_fg b) \<and> is_Warmup (b_fg b ! i)"

lemma missed_step:
  assumes "bench_step body b (Inr b')" "missed i b"
  shows "missed i b'"
  using assms
  by (cases rule: bench_step.cases)
    (auto simp: missed_def Inr_eq_fg_result nth_list_update dest: list_all_nthD)

lemma missed_for_ever:
  "bench_reach body b0 r \<Longrightarrow> missed i b0 \<Longrightarrow> r = Inr b \<Longrightarrow> missed i b"
  by (induction arbitrary: b rule: bench_reach.induct) (auto intro: missed_step)

context fg_safe
begin

lemma all_can_start:
  assumes "inv t (replicate n False)" "k \<le> n"
  shows "\<exists>b. bench_reach body (bench_init n t) (Inr b) \<and> b_main b = AwaitReady \<and> length (b_fg b) = n \<and>
    (\<forall>i<n. if i < k then is_Warmup (b_fg b ! i) else b_fg b ! i = NotStarted)"
  using assms(2)
proof (induction k)
  case 0
  show ?case by (rule exI [of _ "bench_init n t"]) (simp add: bench_reach.refl, simp add: bench_init_def)
next
  case (Suc k)
  then obtain b where b: "bench_reach body (bench_init n t) (Inr b)" "b_main b = AwaitReady" "length (b_fg b) = n"
    "\<forall>i<n. if i < k then is_Warmup (b_fg b ! i) else b_fg b ! i = NotStarted" by auto
  obtain env :: 'e where True by simp
  have st: "bench_step body b (fg_result (b\<lparr>ready_threads := Suc (ready_threads b)\<rparr>) k Warmup
      (fg_start body k env (b_table b)))" using Suc.prems b by (intro bench_step.start) simp_all
  obtain b' where b': "fg_result (b\<lparr>ready_threads := Suc (ready_threads b)\<rparr>) k Warmup
      (fg_start body k env (b_table b)) = Inr b'"
    using reach_safe [OF bench_reach.step [OF b(1) st] safe_init [OF assms(1)]] by blast
  then have "bench_reach body (bench_init n t) (Inr b')"
    using bench_reach.step [OF b(1) st] by simp
  moreover have "b_main b' = AwaitReady \<and> length (b_fg b') = n \<and>
      (\<forall>i<n. if i < Suc k then is_Warmup (b_fg b' ! i) else b_fg b' ! i = NotStarted)"
    using b' b Suc.prems by (auto simp: fg_result_eq_Inr nth_list_update less_Suc_eq)
  ultimately show ?case by blast
qed

lemma window_missed:
  assumes "inv t (replicate n False)"
  shows "\<exists>b. bench_reach body (bench_init n t) (Inr b) \<and> length (b_fg b) = n \<and> (\<forall>i<n. missed i b)"
proof -
  obtain b where b: "bench_reach body (bench_init n t) (Inr b)" "b_main b = AwaitReady" "length (b_fg b) = n"
    "\<forall>i<n. is_Warmup (b_fg b ! i)" using all_can_start [OF assms order_refl] by auto
  have "list_all begun (b_fg b)" using b(3,4) by (fastforce simp: list_all_length)
  then have "length (b_fg b) \<le> ready_threads b"
    using bench_reach_ok [OF b(1) bench_init_ok HOL.refl] started_all [of "b_fg b"] by (simp add: bench_ok_def)
  from bench_step.all_ready [OF b(2) this, of body]
  have "bench_reach body (bench_init n t) (Inr (b\<lparr>running := True, b_main := Sleeping\<rparr>))"
    by (rule bench_reach.step [OF b(1)])
  from bench_reach.step [OF this bench_step.time_up]
  have "bench_reach body (bench_init n t) (Inr (b\<lparr>running := False, b_main := Joining\<rparr>))" by simp
  with b(3,4) show ?thesis
    by (intro exI [of _ "b\<lparr>running := False, b_main := Joining\<rparr>"]) (simp add: missed_def)
qed

text \<open>When no worker missed the window, the run can always be brought to its end.\<close>

lemma can_join:
  assumes "safe b" "b_main b = Joining" "\<not> running b" "list_all (\<lambda>p. is_Measured p \<or> is_Finished p) (b_fg b)"
  shows "\<exists>b'. bench_reach body b (Inr b') \<and> b_main b' = Joined"
  using assms
proof (induction "length (filter is_Measured (b_fg b))" arbitrary: b rule: less_induct)
  case less
  show ?case
  proof (cases "list_all is_Finished (b_fg b)")
    case True
    then show ?thesis using less.prems(2)
      by (intro exI [of _ "b\<lparr>b_main := Joined\<rparr>"]) (auto intro: bench_reach.intros bench_step.join)
  next
    case False
    then obtain i where i: "i < length (b_fg b)" "\<not> is_Finished (b_fg b ! i)" by (auto simp: list_all_length)
    with less.prems(4) obtain w where w: "b_fg b ! i = Measured w"
      by (metis (no_types, lifting) list_all_nthD is_Measured_def)
    let ?r = "fg_result b i Finished (bindE (fg_stop body i (b_table b)) (\<lambda>tab. Inr (tab, w)))"
    have st: "bench_step body b ?r" using i(1) w less.prems(3) by (intro bench_step.stop)
    with step_safe less.prems(1) obtain b1 where b1: "?r = Inr b1" "safe b1" by blast
    then obtain t where eq: "b1 = b\<lparr>b_table := t, b_fg := (b_fg b)[i := Finished w]\<rparr>"
      by (auto simp: fg_result_eq_Inr bindE_eq_Inr)
    have fewer: "length (filter is_Measured (b_fg b1)) < length (filter is_Measured (b_fg b))"
      using i(1) w by (simp add: eq filter_update_less)
    have "\<exists>b'. bench_reach body b1 (Inr b') \<and> b_main b' = Joined"
      using less.prems b1(2) by (intro less.hyps [OF fewer]) (simp_all add: eq list_all_update)
    then obtain b' where b': "bench_reach body b1 (Inr b')" "b_main b' = Joined" by blast
    have "bench_reach body b (Inr b1)"
      using bench_reach.step [OF bench_reach.refl st] b1(1) by simp
    with b' show ?thesis using bench_reach_trans by blast
  qed
qed

end

section \<open>Simulation\<close>

text \<open>
  Two tables under the same driver: when every body does the same on related tables (the same
  worker data, related tables, or the same fault), every run over the one is a run over the other.
\<close>

type_synonym ('s, 'm) table_rel = "'s \<Rightarrow> bool list \<Rightarrow> 'm \<Rightarrow> bool"

definition same_result ::
  "('s, 'm) table_rel \<Rightarrow> ('w \<Rightarrow> bool) \<Rightarrow> bool list \<Rightarrow> fault + 's \<times> 'w \<Rightarrow> fault + 'm \<times> 'w \<Rightarrow> bool" where
  "same_result R ok ins r r' \<longleftrightarrow> rel_sum (=) (\<lambda>(t, w) (m, w'). w = w' \<and> R t ins m \<and> ok w) r r'"

lemma rel_bindE:
  assumes "rel_sum (=) A r r'" "\<And>x y. A x y \<Longrightarrow> rel_sum (=) B (f x) (g y)"
  shows "rel_sum (=) B (bindE r f) (bindE r' g)"
  using assms by (cases r; cases r') auto

locale fg_sim =
  fixes body :: "('s, 'w, 'e) fg_body" and body' :: "('m, 'w, 'e) fg_body"
    and R :: "'s \<Rightarrow> bool list \<Rightarrow> 'm \<Rightarrow> bool" and wok :: "nat \<Rightarrow> 'w \<Rightarrow> bool"
  assumes start_sim: "R t ins m \<Longrightarrow> i < length ins \<Longrightarrow> \<not> ins ! i \<Longrightarrow>
      same_result R (wok i) (ins[i := True]) (fg_start body i env t) (fg_start body' i env m)"
    and warm_sim: "R t ins m \<Longrightarrow> i < length ins \<Longrightarrow> ins ! i \<Longrightarrow> wok i w \<Longrightarrow>
      same_result R (wok i) ins (fg_warm body i t w) (fg_warm body' i m w)"
    and turn_sim: "wok i w \<Longrightarrow> fg_turn body w = fg_turn body' w \<and> wok i (fg_turn body w)"
    and run_sim: "R t ins m \<Longrightarrow> i < length ins \<Longrightarrow> ins ! i \<Longrightarrow> wok i w \<Longrightarrow>
      same_result R (wok i) ins (fg_run body i d t w) (fg_run body' i d m w)"
    and stop_sim: "R t ins m \<Longrightarrow> i < length ins \<Longrightarrow> ins ! i \<Longrightarrow>
      rel_sum (=) (\<lambda>t m. R t (ins[i := False]) m) (fg_stop body i t) (fg_stop body' i m)"
begin

definition bench_rel :: "('s, 'w) bench \<Rightarrow> ('m, 'w) bench \<Rightarrow> bool" where
  "bench_rel b b' \<longleftrightarrow> R (b_table b) (map busy (b_fg b)) (b_table b') \<and> b_fg b' = b_fg b \<and>
     ready_threads b' = ready_threads b \<and> running b' = running b \<and> b_main b' = b_main b \<and>
     (\<forall>i < length (b_fg b). \<forall>w. fg_data (b_fg b ! i) = Some w \<longrightarrow> wok i w)"

lemma bench_rel_result:
  assumes "bench_rel b b'" "i < length (b_fg b)"
    and "same_result R (wok i) ((map busy (b_fg b))[i := busy (ph w0)]) r r'"
    and "\<And>w. fg_data (ph w) = Some w" "\<And>w. busy (ph w) = busy (ph w0)"
  shows "rel_sum (=) bench_rel (fg_result b i ph r) (fg_result b' i ph r')"
  unfolding fg_result_def
proof (rule rel_bindE)
  show "rel_sum (=) (\<lambda>(t, w) (m, w'). w = w' \<and> R t ((map busy (b_fg b))[i := busy (ph w0)]) m \<and> wok i w) r r'"
    using assms(3) by (simp add: same_result_def)
next
  fix x y assume xy: "(\<lambda>(t, w) (m, w'). w = w' \<and> R t ((map busy (b_fg b))[i := busy (ph w0)]) m \<and> wok i w) x y"
  obtain t w m where x: "x = (t, w)" "y = (m, w)" "R t ((map busy (b_fg b))[i := busy (ph w0)]) m" "wok i w"
    using xy by auto
  have "wok k v" if "k < length (b_fg b)" "fg_data ((b_fg b)[i := ph w] ! k) = Some v" for k v
    using assms(1) x(4) that assms(4) by (cases "k = i") (auto simp: bench_rel_def)
  then show "rel_sum (=) bench_rel ((\<lambda>(tab, w). Inr (b\<lparr>b_table := tab, b_fg := (b_fg b)[i := ph w]\<rparr>)) x)
      ((\<lambda>(tab, w). Inr (b'\<lparr>b_table := tab, b_fg := (b_fg b')[i := ph w]\<rparr>)) y)"
    using assms(1) x assms(5) [of w] by (simp add: bench_rel_def map_update)
qed

lemma step_sim:
  assumes "bench_step body b r" "bench_rel b b'"
  shows "\<exists>r'. bench_step body' b' r' \<and> rel_sum (=) bench_rel r r'"
proof -
  let ?ins = "map busy (b_fg b)"
  have R: "R (b_table b) ?ins (b_table b')" and eq: "b_fg b' = b_fg b" "ready_threads b' = ready_threads b"
    "running b' = running b" "b_main b' = b_main b"
    and wok: "\<And>i w. i < length (b_fg b) \<Longrightarrow> fg_data (b_fg b ! i) = Some w \<Longrightarrow> wok i w"
    using assms(2) by (auto simp: bench_rel_def)
  show ?thesis
    using assms(1)
  proof (cases rule: bench_step.cases)
    case (start i env)
    have "bench_rel (b\<lparr>ready_threads := Suc (ready_threads b)\<rparr>) (b'\<lparr>ready_threads := Suc (ready_threads b')\<rparr>)"
      using assms(2) by (simp add: bench_rel_def)
    from bench_rel_result [where ph = Warmup, OF this] start start_sim [OF R, of i env]
    have "rel_sum (=) bench_rel r (fg_result (b'\<lparr>ready_threads := Suc (ready_threads b')\<rparr>) i Warmup
        (fg_start body' i env (b_table b')))" by simp
    moreover have "bench_step body' b' (fg_result (b'\<lparr>ready_threads := Suc (ready_threads b')\<rparr>) i Warmup
        (fg_start body' i env (b_table b')))" using start eq by (intro bench_step.start) simp_all
    ultimately show ?thesis by blast
  next
    case (warm i w)
    then have "same_result R (wok i) ?ins (fg_warm body i (b_table b) w) (fg_warm body' i (b_table b') w)"
      using R wok by (intro warm_sim) simp_all
    with bench_rel_result [where ph = Warmup, OF assms(2), of i] warm busy_same [of i "b_fg b"]
    have "rel_sum (=) bench_rel r (fg_result b' i Warmup (fg_warm body' i (b_table b') w))" by simp
    moreover have "bench_step body' b' (fg_result b' i Warmup (fg_warm body' i (b_table b') w))"
      using warm eq by (intro bench_step.warm) simp_all
    ultimately show ?thesis by blast
  next
    case (turn i w)
    have w: "wok i w" using wok turn by simp
    from turn_sim [OF w] have t: "fg_turn body w = fg_turn body' w" "wok i (fg_turn body w)" by blast+
    have "rel_sum (=) bench_rel (fg_result b i Measured (Inr (b_table b, fg_turn body w)))
        (fg_result b' i Measured (Inr (b_table b', fg_turn body' w)))"
      using turn busy_same [of i "b_fg b"] R t
      by (intro bench_rel_result [OF assms(2)]) (simp_all add: same_result_def)
    then have "rel_sum (=) bench_rel r (Inr (b'\<lparr>b_fg := (b_fg b')[i := Measured (fg_turn body' w)]\<rparr>))"
      using turn(1) by (simp add: fg_result_Inr)
    moreover have "bench_step body' b' (Inr (b'\<lparr>b_fg := (b_fg b')[i := Measured (fg_turn body' w)]\<rparr>))"
      using turn eq by (intro bench_step.turn) simp_all
    ultimately show ?thesis by blast
  next
    case (run i w d)
    then have "same_result R (wok i) ?ins (fg_run body i d (b_table b) w) (fg_run body' i d (b_table b') w)"
      using R wok by (intro run_sim) simp_all
    with bench_rel_result [where ph = Measured, OF assms(2), of i] run busy_same [of i "b_fg b"]
    have "rel_sum (=) bench_rel r (fg_result b' i Measured (fg_run body' i d (b_table b') w))" by simp
    moreover have "bench_step body' b' (fg_result b' i Measured (fg_run body' i d (b_table b') w))"
      using run eq by (intro bench_step.run) simp_all
    ultimately show ?thesis by blast
  next
    case (stop i w)
    have "rel_sum (=) (\<lambda>t m. R t (?ins[i := False]) m) (fg_stop body i (b_table b)) (fg_stop body' i (b_table b'))"
      using stop R by (intro stop_sim) simp_all
    then have "same_result R (wok i) (?ins[i := False]) (bindE (fg_stop body i (b_table b)) (\<lambda>tab. Inr (tab, w)))
        (bindE (fg_stop body' i (b_table b')) (\<lambda>tab. Inr (tab, w)))"
      unfolding same_result_def by (rule rel_bindE) (use wok stop in simp)
    with bench_rel_result [where ph = Finished, OF assms(2), of i] stop
    have "rel_sum (=) bench_rel r (fg_result b' i Finished
        (bindE (fg_stop body' i (b_table b')) (\<lambda>tab. Inr (tab, w))))" by simp
    moreover have "bench_step body' b' (fg_result b' i Finished
        (bindE (fg_stop body' i (b_table b')) (\<lambda>tab. Inr (tab, w))))"
      using stop eq by (intro bench_step.stop) simp_all
    ultimately show ?thesis by blast
  next
    case all_ready
    have "bench_step body' b' (Inr (b'\<lparr>running := True, b_main := Sleeping\<rparr>))"
      using all_ready eq by (intro bench_step.all_ready) simp_all
    moreover have "rel_sum (=) bench_rel r (Inr (b'\<lparr>running := True, b_main := Sleeping\<rparr>))"
      using assms(2) all_ready by (simp add: bench_rel_def)
    ultimately show ?thesis by blast
  next
    case time_up
    have "bench_step body' b' (Inr (b'\<lparr>running := False, b_main := Joining\<rparr>))"
      using time_up eq by (intro bench_step.time_up) simp_all
    moreover have "rel_sum (=) bench_rel r (Inr (b'\<lparr>running := False, b_main := Joining\<rparr>))"
      using assms(2) time_up by (simp add: bench_rel_def)
    ultimately show ?thesis by blast
  next
    case join
    have "bench_step body' b' (Inr (b'\<lparr>b_main := Joined\<rparr>))"
      using join eq by (intro bench_step.join) simp_all
    moreover have "rel_sum (=) bench_rel r (Inr (b'\<lparr>b_main := Joined\<rparr>))"
      using assms(2) join by (simp add: bench_rel_def)
    ultimately show ?thesis by blast
  qed
qed

lemma bench_sim:
  assumes "R t (replicate n False) m" "bench_reach body (bench_init n t) r"
  shows "\<exists>r'. bench_reach body' (bench_init n m) r' \<and> rel_sum (=) bench_rel r r'"
  using assms(2)
proof (induction rule: bench_reach.induct)
  case refl
  have "bench_rel (bench_init n t) (bench_init n m)" using assms(1) by (simp add: bench_rel_def bench_init_def)
  then show ?case by (intro exI [of _ "Inr (bench_init n m)"]) (simp add: bench_reach.refl)
next
  case (step b r)
  then obtain b' where b': "bench_reach body' (bench_init n m) (Inr b')" "bench_rel b b'"
    by (auto simp: rel_sum.simps)
  from step_sim [OF step.hyps(2) b'(2)] b'(1) show ?case by (meson bench_reach.step)
qed

end

section \<open>Bodies with a joint invariant\<close>

text \<open>
  What \<open>fg_safe\<close> is for an invariant of the table and one of each worker, for an invariant \<open>J\<close> of the
  table and all workers together.
\<close>

locale fg_joint =
  fixes body :: "('s, 'w, 'e) fg_body" and J :: "'s \<Rightarrow> 'w fg_phase list \<Rightarrow> bool"
  assumes start_law: "J t ps \<Longrightarrow> i < length ps \<Longrightarrow> ps ! i = NotStarted \<Longrightarrow>
      \<exists>t' w. fg_start body i env t = Inr (t', w) \<and> J t' (ps[i := Warmup w])"
    and warm_law: "J t ps \<Longrightarrow> i < length ps \<Longrightarrow> ps ! i = Warmup w \<Longrightarrow>
      \<exists>t' w'. fg_warm body i t w = Inr (t', w') \<and> J t' (ps[i := Warmup w'])"
    and turn_law: "J t ps \<Longrightarrow> i < length ps \<Longrightarrow> ps ! i = Warmup w \<Longrightarrow> J t (ps[i := Measured (fg_turn body w)])"
    and run_law: "J t ps \<Longrightarrow> i < length ps \<Longrightarrow> ps ! i = Measured w \<Longrightarrow>
      \<exists>t' w'. fg_run body i d t w = Inr (t', w') \<and> J t' (ps[i := Measured w'])"
    and stop_law: "J t ps \<Longrightarrow> i < length ps \<Longrightarrow> ps ! i = Measured w \<Longrightarrow>
      \<exists>t'. fg_stop body i t = Inr t' \<and> J t' (ps[i := Finished w])"
begin

lemma step_joint:
  assumes "bench_step body b r" "J (b_table b) (b_fg b)"
  shows "\<exists>b'. r = Inr b' \<and> J (b_table b') (b_fg b')"
  using assms(1)
proof (cases rule: bench_step.cases)
  case (start i env)
  with start_law [OF assms(2), of i env] show ?thesis by (auto simp: fg_result_Inr)
next
  case (warm i w)
  with warm_law [OF assms(2), of i w] show ?thesis by (auto simp: fg_result_Inr)
next
  case (turn i w)
  with turn_law [OF assms(2), of i w] show ?thesis by auto
next
  case (run i w d)
  with run_law [OF assms(2), of i w d] show ?thesis by (auto simp: fg_result_Inr)
next
  case (stop i w)
  with stop_law [OF assms(2), of i w] show ?thesis by (auto simp: fg_result_Inr)
qed (use assms(2) in simp_all)

lemma reach_joint:
  "bench_reach body b0 r \<Longrightarrow> J (b_table b0) (b_fg b0) \<Longrightarrow> \<exists>b. r = Inr b \<and> J (b_table b) (b_fg b)"
  by (induction rule: bench_reach.induct) (auto dest: step_joint)

end

end
