(* ===== verification/HelperModel.thy ===== *)
theory HelperModel
  imports Prelude Floats
begin

unbundle bit_operations_syntax

text \<open>
  \<open>src/src/helper.h\<close> and \<open>helper.cpp\<close>: the arithmetic helpers on vectors, the assembly of a
  time stamp from its halves, the clock of \<open>timeit\<close>, and the table that binds worker threads to
  cores. (The scan callback of \<open>helper.h\<close> is in \<open>KvWrappers\<close>, \<open>little_endian\<close> in
  \<open>KeyCodec\<close>; printing is not modelled.)
\<close>

section \<open>Arithmetic helpers\<close>

fun min_max_loop :: "'a::linorder list \<Rightarrow> 'a \<Rightarrow> 'a \<Rightarrow> 'a \<times> 'a" where
  "min_max_loop [] mx mn = (mx, mn)"
| "min_max_loop (v # vals) mx mn =
     min_max_loop vals (if v > mx then v else mx) (if v < mn then v else mn)"

definition min_max :: "'a::linorder list \<Rightarrow> fault + 'a \<times> 'a" where
  "min_max vals =
     bindE (guardE AssertFailed (length vals \<noteq> 0)) (\<lambda>_.
     Inr (min_max_loop vals (vals ! 0) (vals ! 0)))"

fun max_loop :: "'a::linorder list \<Rightarrow> 'a \<Rightarrow> 'a" where
  "max_loop [] mx = mx"
| "max_loop (v # vals) mx = max_loop vals (if v > mx then v else mx)"

definition max_of :: "'a::linorder list \<Rightarrow> fault + 'a" where
  "max_of vals =
     bindE (guardE AssertFailed (length vals \<noteq> 0)) (\<lambda>_. Inr (max_loop vals (vals ! 0)))"

text \<open>\<open>max_range\<close> on the iterators \<open>vals.begin() + b\<close> and \<open>vals.begin() + e\<close>.\<close>

definition max_range :: "'a::linorder list \<Rightarrow> nat \<Rightarrow> nat \<Rightarrow> fault + 'a" where
  "max_range vals b e =
     (let seg = take (e - b) (drop b vals)
      in if b \<le> e \<and> e \<le> length vals
         then bindE (guardE AssertFailed (e - b \<noteq> 0)) (\<lambda>_. Inr (max_loop seg (vals ! b)))
         else Inl OutOfBounds)"

text \<open>The sum is accumulated in a \<open>double\<close>; an empty vector gives NaN, \<open>None\<close> here.\<close>

fun sum_loop :: "rat list \<Rightarrow> rat \<Rightarrow> rat" where
  "sum_loop [] acc = acc"
| "sum_loop (v # vals) acc = sum_loop vals (f64 (acc + f64 v))"

definition mean :: "rat list \<Rightarrow> rat option" where
  "mean vals =
     (if vals = [] then None else Some (f64 (sum_loop vals 0 / f64 (of_nat (length vals)))))"

section \<open>Matrices, comparators and the removed value\<close>

text \<open>
  The rows of a matrix as \<open>print_matrix\<close> (in both overloads) reads and prints them, one line each.
\<close>

definition print_matrix :: "'a list \<Rightarrow> nat \<Rightarrow> nat \<Rightarrow> fault + 'a list list" where
  "print_matrix data row_n col_n =
     (if row_n * col_n \<le> length data
      then Inr (map (\<lambda>row_i. map (\<lambda>col_i. data ! (row_i * col_n + col_i)) [0..<col_n]) [0..<row_n])
      else Inl OutOfBounds)"

definition SortedArrayKeyCompare ::
  "(byte list \<Rightarrow> 'k) \<Rightarrow> ('k \<Rightarrow> 'k \<Rightarrow> bool) \<Rightarrow> byte list \<Rightarrow> byte list \<Rightarrow> bool" where
  "SortedArrayKeyCompare unpack lt left right = lt (unpack left) (unpack right)"

definition StrCompare :: "nat \<Rightarrow> byte list \<Rightarrow> byte list \<Rightarrow> fault + bool" where
  "StrCompare key_seg_size left right =
     bindE (guardE AssertFailed (key_seg_size = 1)) (\<lambda>_. Inr (left < right))"

text \<open>\<open>RemoveVal<val_t>::get\<close>: a value of \<open>sizeof(val_t)\<close> zero bytes.\<close>

definition RemoveVal_get :: "nat \<Rightarrow> (byte list \<Rightarrow> 'v) \<Rightarrow> 'v" where
  "RemoveVal_get n unpack = unpack (replicate n 0)"

section \<open>Time stamps\<close>

definition util_rdtsc :: "u32 \<Rightarrow> u32 \<Rightarrow> u64" where
  "util_rdtsc lo hi = ucast lo OR push_bit 32 (ucast hi)"

definition util_rdtsc_start :: "u32 \<Rightarrow> u32 \<Rightarrow> u64" where
  "util_rdtsc_start lo hi = ucast lo OR push_bit 32 (ucast hi)"

definition util_rdtsc_end :: "u32 \<Rightarrow> u32 \<Rightarrow> u64" where
  "util_rdtsc_end lo hi = ucast lo OR push_bit 32 (ucast hi)"

definition rdtscp :: "u64 \<Rightarrow> u64 \<Rightarrow> u64" where
  "rdtscp rax rdx = push_bit 32 rdx + rax"

text \<open>
  \<open>timeit\<close>: the static variables are the state (\<open>None\<close> before the first call); the result is the
  duration printed. The second reading of the clock, stored for the next call, is \<open>now'\<close>.
\<close>

definition timeit :: "nat option \<Rightarrow> nat \<Rightarrow> nat \<Rightarrow> nat option \<times> nat option" where
  "timeit last_time_point now now' =
     (case last_time_point of
        Some t \<Rightarrow> (Some now', Some (now - t))
      | None \<Rightarrow> (Some now, None))"

section \<open>Thread binding\<close>

definition physical_core_n :: int where
  "physical_core_n = 55"

definition core_mapping :: "nat list" where
  "core_mapping =
     [0, 2, 4, 6, 8, 10, 12, 14, 16, 18, 20, 22,
      1, 3, 5, 7, 9, 11, 13, 15, 17, 19, 21, 23,
      24, 26, 28, 30, 32, 34, 36, 38, 40, 42, 44, 46,
      25, 27, 29, 31, 33, 35, 37, 39, 41, 43, 45, 47,
      96, 98, 100, 102, 104, 106, 108]"

text \<open>The core the calling thread is bound to; the function itself returns 0.\<close>

definition bind_to_physical_cores :: "int \<Rightarrow> fault + nat" where
  "bind_to_physical_cores t_id =
     bindE (guardE Aborted (t_id < physical_core_n)) (\<lambda>_.
     if t_id < 0 then Inl OutOfBounds else array_read core_mapping (nat t_id))"

definition bind_to_physical_cores_reverse :: "int \<Rightarrow> fault + nat" where
  "bind_to_physical_cores_reverse t_id =
     bindE (guardE Aborted (t_id < 24)) (\<lambda>_.
     Inl Aborted)"

section \<open>Lemmas\<close>

lemma min_max_loop_eq:
  "min_max_loop vals mx mn = (foldr max vals mx, foldr min vals mn)"
proof -
  have "foldr max vals (max v mx) = max v (foldr max vals mx)" for v mx :: 'a and vals
    by (induction vals) (simp_all add: max.left_commute)
  moreover have "foldr min vals (min v mn) = min v (foldr min vals mn)" for v mn :: 'a and vals
    by (induction vals) (simp_all add: min.left_commute)
  moreover have "(if v > mx then v else mx) = max v mx" "(if v < mn then v else mn) = min v mn"
    for v mx mn :: 'a by (auto simp: max_def min_def)
  ultimately show ?thesis by (induction vals arbitrary: mx mn) (simp_all only: min_max_loop.simps foldr.simps comp_def id_def)
qed

lemma foldr_max_Max: "foldr max vals x = Max (insert x (set vals))"
  by (induction vals) (auto simp: max.commute insert_commute)

lemma foldr_min_Min: "foldr min vals x = Min (insert x (set vals))"
  by (induction vals) (auto simp: min.commute insert_commute)

lemma max_loop_eq: "max_loop vals mx = fst (min_max_loop vals mx mn)"
  by (induction vals arbitrary: mx mn) simp_all

lemma core_mapping_distinct: "distinct core_mapping \<and> length core_mapping = 55"
  by (simp add: core_mapping_def)

lemma bind_to_physical_cores_eq:
  "bind_to_physical_cores i =
     (if i \<ge> 55 then Inl Aborted else if i < 0 then Inl OutOfBounds else Inr (core_mapping ! nat i))"
  using core_mapping_distinct
  by (auto simp: bind_to_physical_cores_def physical_core_n_def guardE_def array_read_def)

lemma take_mult_Suc: "take (Suc r * c) xs = take (r * c) xs @ take c (drop (r * c) xs)"
  by (metis add.commute mult_Suc take_add)

lemma print_matrix_rows:
  "r * c \<le> length data \<Longrightarrow>
   concat (map (\<lambda>i. map (\<lambda>j. data ! (i * c + j)) [0..<c]) [0..<r]) = take (r * c) data"
proof (induction r)
  case (Suc r)
  have "map (\<lambda>j. data ! (r * c + j)) [0..<c] = take c (drop (r * c) data)"
    using Suc.prems by (intro nth_equalityI) auto
  with Suc show ?case by (simp del: mult_Suc add: take_mult_Suc) (simp add: take_mult_Suc)
qed simp

section \<open>Properties\<close>

text \<open>\<open>print_matrix\<close> prints each of the \<open>row_n * col_n\<close> elements once, in the order of the array,
  on \<open>row_n\<close> lines of \<open>col_n\<close> elements, and reads outside the array exactly when the array is
  smaller.\<close>

theorem print_matrix_correct:
  "(case print_matrix data row_n col_n of
     Inr rows \<Rightarrow> row_n * col_n \<le> length data \<and> concat rows = take (row_n * col_n) data \<and>
       map length rows = replicate row_n col_n
   | Inl e \<Rightarrow> e = OutOfBounds \<and> length data < row_n * col_n)"
  by (simp add: print_matrix_def print_matrix_rows comp_def map_replicate_const)

text \<open>\<open>min_max\<close>, \<open>max\<close> and \<open>max_range\<close> return the extreme elements of their range, and
  fail exactly on an empty one.\<close>

theorem min_max_correct:
  "min_max vals = (if vals = [] then Inl AssertFailed else Inr (Max (set vals), Min (set vals))) \<and>
   max_of vals = (if vals = [] then Inl AssertFailed else Inr (Max (set vals))) \<and>
   (b < e \<and> e \<le> length vals \<longrightarrow> max_range vals b e = Inr (Max ((\<lambda>i. vals ! i) ` {b..<e})))"
proof -
  have 1: "min_max vals = (if vals = [] then Inl AssertFailed else Inr (Max (set vals), Min (set vals)))"
    by (cases vals) (simp_all add: min_max_def min_max_loop_eq foldr_max_Max foldr_min_Min)
  have mx: "max_loop xs (xs ! 0) = Max (set xs)" if "xs \<noteq> []" for xs :: "'a list"
    using that by (cases xs) (simp_all add: max_loop_eq [where mn = "xs ! 0"] min_max_loop_eq foldr_max_Max)
  then have 2: "max_of vals = (if vals = [] then Inl AssertFailed else Inr (Max (set vals)))"
    by (simp add: max_of_def)
  have "max_range vals b e = Inr (Max ((\<lambda>i. vals ! i) ` {b..<e}))" if be: "b < e" "e \<le> length vals"
  proof -
    let ?s = "take (e - b) (drop b vals)"
    have "?s \<noteq> []" "?s ! 0 = vals ! b" using be by auto
    moreover have "set ?s = (\<lambda>i. vals ! i) ` {b..<e}"
    proof -
      have "?s = map (\<lambda>i. vals ! i) [b..<e]"
        using be by (intro nth_equalityI) auto
      then show ?thesis by simp
    qed
    ultimately show ?thesis using be mx [of ?s] by (simp add: max_range_def Let_def)
  qed
  with 1 2 show ?thesis by blast
qed

lemma min_max_correct_witness:
  "max_range [3, 9, 4 :: nat] 0 2 = Inr 9"
proof -
  have "{0..<2::nat} = {0, 1}" by auto
  then show ?thesis using min_max_correct [of "[3, 9, 4 :: nat]" 0 2] by simp
qed

text \<open>the two 32-bit halves of the time stamp counter are put together without loss, by each
  of the four readers.\<close>

theorem rdtsc_combines:
  "unat (util_rdtsc lo hi) = unat lo + 2 ^ 32 * unat hi \<and>
   util_rdtsc_start lo hi = util_rdtsc lo hi \<and> util_rdtsc_end lo hi = util_rdtsc lo hi \<and>
   rdtscp (ucast lo) (ucast hi) = util_rdtsc lo hi"
proof -
  have b: "unat lo < 2 ^ 32" "unat hi < 2 ^ 32"
    using unsigned_less [of lo, where 'a = nat] unsigned_less [of hi, where 'a = nat] by simp_all
  have u: "unat (ucast lo :: u64) = unat lo" "unat (ucast hi :: u64) = unat hi"
    using b by (simp_all add: unsigned_ucast_eq take_bit_eq_mod)
  have p: "unat (push_bit 32 (ucast hi :: u64)) = 2 ^ 32 * unat hi"
    using b by (simp add: push_bit_eq_mult unat_word_ariths u)
  have "ucast lo AND push_bit 32 (ucast hi :: u64) = 0"
    by (rule bit_eqI) (auto simp: bit_simps dest: bit_imp_le_length)
  then have "ucast lo OR push_bit 32 (ucast hi :: u64) = ucast lo + push_bit 32 (ucast hi)"
    by (rule disjunctive_add_eq_or [symmetric])
  moreover have "unat (ucast lo + push_bit 32 (ucast hi) :: u64) = unat lo + 2 ^ 32 * unat hi"
    using b by (simp add: unat_word_ariths u p)
  ultimately show ?thesis
    by (simp add: util_rdtsc_def util_rdtsc_start_def util_rdtsc_end_def rdtscp_def add.commute)
qed

text \<open>Worker ids 0..54 are bound to pairwise different cores, any larger id aborts, and the
  reverse binding aborts for every id.\<close>

theorem core_binding_injective:
  "(\<forall>i. 0 \<le> i \<and> i < 55 \<longrightarrow> (\<exists>c. bind_to_physical_cores i = Inr c)) \<and>
   (\<forall>i j c. bind_to_physical_cores i = Inr c \<and> bind_to_physical_cores j = Inr c \<longrightarrow> i = j) \<and>
   (\<forall>i\<ge>55. bind_to_physical_cores i = Inl Aborted) \<and>
   bind_to_physical_cores_reverse t = Inl Aborted"
proof -
  note len = core_mapping_distinct and ok = bind_to_physical_cores_eq
  have "i = j" if "bind_to_physical_cores i = Inr c" "bind_to_physical_cores j = Inr c" for i j c
  proof -
    from that have "nat i < 55" "nat j < 55" "core_mapping ! nat i = core_mapping ! nat j" "0 \<le> i" "0 \<le> j"
      by (auto simp: ok split: if_splits)
    then show ?thesis using len by (metis nth_eq_iff_index_eq eq_nat_nat_iff)
  qed
  then show ?thesis by (auto simp: ok bind_to_physical_cores_reverse_def guardE_def)
qed

lemma core_binding_injective_witness: "\<exists>c. bind_to_physical_cores 24 = Inr c"
  using core_binding_injective [of 0] by simp

end
