(* ===== verification/LcgPeriod.thy ===== *)
theory LcgPeriod
  imports Main
begin

text \<open>
  Linear congruential generators modulo a power of two: a multiplier that is 1 modulo 4 and an
  odd increment give a single cycle through all residues. The random generators of the
  benchmarks are of this kind, and the period is what makes their rejection loops stop.
\<close>

definition lcg :: "int \<Rightarrow> int \<Rightarrow> int \<Rightarrow> int" where
  "lcg a c x = a * x + c"

lemma lcg_iter_pow2:
  assumes "4 dvd a - 1" "odd c"
  shows "\<exists>A C. (\<forall>y. (lcg a c ^^ (2 ^ k)) y = A * y + C) \<and> 2 ^ (k + 2) dvd A - 1 \<and>
    (\<exists>m. C = 2 ^ k * (2 * m + 1))"
proof (induction k)
  case 0
  have "\<exists>m. c = 2 * m + 1" using assms(2) by (rule oddE) blast
  then show ?case
    using assms by (intro exI [of _ a] exI [of _ c]) (simp add: lcg_def)
next
  case (Suc k)
  then obtain A C m where g: "\<And>y. (lcg a c ^^ (2 ^ k)) y = A * y + C"
    and A: "2 ^ (k + 2) dvd A - 1" and C: "C = 2 ^ k * (2 * m + 1)" by blast
  have iter: "(lcg a c ^^ (2 ^ Suc k)) y = (A * A) * y + C * (A + 1)" for y
  proof -
    have "(lcg a c ^^ (2 ^ Suc k)) y = (lcg a c ^^ (2 ^ k)) ((lcg a c ^^ (2 ^ k)) y)"
      by (simp add: mult_2 funpow_add)
    then show ?thesis by (simp add: g algebra_simps)
  qed
  obtain t where t: "A = 2 ^ (k + 2) * t + 1"
    using A by (auto elim!: dvdE simp: algebra_simps)
  have "A * A - 1 = (A - 1) * (A + 1)" by (simp add: algebra_simps)
  also have "\<dots> = 2 ^ (Suc k + 2) * (t * (2 ^ (k + 1) * t + 1))"
    by (simp add: t algebra_simps)
  finally have sq: "2 ^ (Suc k + 2) dvd A * A - 1" by simp
  have "C * (A + 1) = 2 ^ Suc k * (2 * (m + (2 * m + 1) * (2 ^ k * t)) + 1)"
    by (simp add: C t algebra_simps)
  then have inc: "\<exists>m. C * (A + 1) = 2 ^ Suc k * (2 * m + 1)" by blast
  show ?case
    using iter sq inc by blast
qed

lemma lcg_pow2_shift:
  assumes "4 dvd a - 1" "odd c"
  shows "2 ^ Suc k dvd (lcg a c ^^ (2 ^ k)) y - y - 2 ^ k"
proof -
  obtain A C m where g: "(lcg a c ^^ (2 ^ k)) y = A * y + C"
    and A: "2 ^ (k + 2) dvd A - 1" and C: "C = 2 ^ k * (2 * m + 1)"
    using lcg_iter_pow2 [OF assms, of k] by blast
  have "A * y + C - y - 2 ^ k = (A - 1) * y + 2 ^ Suc k * m"
    by (simp add: C algebra_simps)
  moreover have "(2::int) ^ Suc k dvd A - 1"
    using A by (rule dvd_trans [rotated]) (simp add: le_imp_power_dvd)
  ultimately show ?thesis by (simp add: g del: power_Suc)
qed

lemma lcg_iter_shift:
  assumes "4 dvd a - 1" "odd c"
  shows "2 ^ Suc k dvd (lcg a c ^^ (q * 2 ^ k)) y - y - int q * 2 ^ k"
proof (induction q)
  case (Suc q)
  let ?z = "(lcg a c ^^ (q * 2 ^ k)) y"
  have "(lcg a c ^^ (Suc q * 2 ^ k)) y = (lcg a c ^^ (2 ^ k)) ?z"
    by (simp add: funpow_add)
  then have "(lcg a c ^^ (Suc q * 2 ^ k)) y - y - int (Suc q) * 2 ^ k
      = ((lcg a c ^^ (2 ^ k)) ?z - ?z - 2 ^ k) + (?z - y - int q * 2 ^ k)"
    by (simp add: algebra_simps)
  then show ?case
    using Suc lcg_pow2_shift [OF assms, of k ?z] by (simp only: dvd_add)
qed simp

lemma odd_part: "0 < (d::nat) \<Longrightarrow> \<exists>k q. d = q * 2 ^ k \<and> odd q"
proof (induction d rule: less_induct)
  case (less d)
  show ?case
  proof (cases "even d")
    case True
    then obtain e where e: "d = 2 * e" by blast
    with less.prems have "e < d" "0 < e" by auto
    with less.IH obtain k q where "e = q * 2 ^ k" "odd q" by blast
    then have "d = q * 2 ^ Suc k" by (simp add: e)
    with \<open>odd q\<close> show ?thesis by blast
  next
    case False
    then show ?thesis by (intro exI [of _ 0] exI [of _ d]) simp
  qed
qed

lemma lcg_no_return:
  assumes "4 dvd a - 1" "odd c" "0 < d" "d < 2 ^ n"
  shows "\<not> 2 ^ n dvd (lcg a c ^^ d) y - y"
proof
  assume n: "2 ^ n dvd (lcg a c ^^ d) y - y"
  obtain k q where d: "d = q * 2 ^ k" "odd q" using odd_part [OF assms(3)] by blast
  then have "0 < q" by (auto intro: ccontr)
  then have "2 ^ k \<le> d" using d(1) by simp
  with assms(4) have "(2::nat) ^ k < 2 ^ n" by (rule order_le_less_trans [rotated])
  then have "Suc k \<le> n" by (simp add: Suc_leI)
  then have "(2::int) ^ Suc k dvd (lcg a c ^^ d) y - y"
    using n by (rule dvd_trans [OF le_imp_power_dvd])
  moreover have "2 ^ Suc k dvd (lcg a c ^^ d) y - y - int q * 2 ^ k"
    using lcg_iter_shift [OF assms(1,2)] d by blast
  ultimately have "2 ^ Suc k dvd ((lcg a c ^^ d) y - y) - ((lcg a c ^^ d) y - y - int q * 2 ^ k)"
    by (rule dvd_diff)
  then have "2 ^ Suc k dvd int q * (2::int) ^ k" by simp
  then have "2 dvd int q" by simp
  with d(2) show False by simp
qed

text \<open>The reduced generator and its orbit.\<close>

definition lcg_mod :: "nat \<Rightarrow> nat \<Rightarrow> nat \<Rightarrow> nat \<Rightarrow> nat" where
  "lcg_mod n a c x = (a * x + c) mod 2 ^ n"

lemma lcg_mod_iter:
  "int ((lcg_mod n a c ^^ i) x) mod 2 ^ n = (lcg (int a) (int c) ^^ i) (int x) mod 2 ^ n"
proof (induction i)
  case (Suc i)
  let ?u = "(lcg_mod n a c ^^ i) x" and ?v = "(lcg (int a) (int c) ^^ i) (int x)"
  have "int (lcg_mod n a c ?u) mod 2 ^ n = (int a * int ?u + int c) mod 2 ^ n"
    by (simp add: lcg_mod_def zmod_int)
  also have "\<dots> = (int a * (int ?u mod 2 ^ n) + int c) mod 2 ^ n"
    by (metis mod_add_left_eq mod_mult_right_eq)
  also have "\<dots> = (int a * ?v + int c) mod 2 ^ n"
    by (metis Suc mod_add_left_eq mod_mult_right_eq)
  also have "int a * ?v + int c = (lcg (int a) (int c) ^^ Suc i) (int x)"
    by (simp add: lcg_def [of _ _ ?v])
  finally show ?case by simp
qed simp

lemma lcg_mod_iter_inj:
  assumes "4 dvd int a - 1" "odd c"
  shows "inj_on (\<lambda>i. (lcg_mod n a c ^^ i) x) {..<2 ^ n}"
proof (rule linorder_inj_onI)
  fix i j :: nat
  assume ij: "i < j" "j \<in> {..<2 ^ n}"
  let ?g = "\<lambda>i. (lcg (int a) (int c) ^^ i) (int x)"
  have "?g j = (lcg (int a) (int c) ^^ (j - i)) (?g i)"
    using ij by (metis comp_apply funpow_add le_add_diff_inverse2 less_imp_le)
  moreover have "\<not> 2 ^ n dvd (lcg (int a) (int c) ^^ (j - i)) (?g i) - ?g i"
    using assms ij by (intro lcg_no_return) auto
  ultimately have "?g j mod 2 ^ n \<noteq> ?g i mod 2 ^ n"
    by (simp add: mod_eq_dvd_iff)
  then show "(lcg_mod n a c ^^ i) x \<noteq> (lcg_mod n a c ^^ j) x"
    by (metis lcg_mod_iter)
qed (auto)

theorem lcg_mod_full_period:
  assumes "4 dvd int a - 1" "odd c" "y < 2 ^ n" "x < 2 ^ n"
  shows "\<exists>i < 2 ^ n. (lcg_mod n a c ^^ i) x = y"
proof -
  let ?f = "\<lambda>i. (lcg_mod n a c ^^ i) x"
  have "?f i < 2 ^ n" for i
    using assms(4) by (cases i) (simp_all add: lcg_mod_def)
  then have "?f ` {..<2 ^ n} \<subseteq> {..<2 ^ n}" by auto
  then have "?f ` {..<2 ^ n} = {..<2 ^ n}"
    by (rule endo_inj_surj [OF finite_lessThan _ lcg_mod_iter_inj [OF assms(1,2)]])
  with assms(3) have "y \<in> ?f ` {..<2 ^ n}" by simp
  then show ?thesis by blast
qed

end
