(* ===== verification/FastRandom.thy ===== *)
theory FastRandom
  imports Prelude LcgPeriod Complex_Main "HOL-Library.Monad_Syntax"
begin

unbundle bit_operations_syntax

text \<open>
  The 48-bit linear congruential generator of the benchmarks: class \<open>fast_random\<close> of
  \<open>benchmark/real_world/tpcc.h\<close>, of which class \<open>FastRandom\<close> of
  \<open>benchmark/synthetic/micro_base.h\<close> is a copy. The state is the field \<open>seed\<close>, an
  \<open>unsigned long\<close>; every method returns its result and the new seed.

  Where one C++ expression calls the generator twice (\<open>next(32) << 32) + next(32)\<close>) the
  order of the calls is unspecified; the model takes them from left to right.
\<close>

section \<open>The generator\<close>

definition set_seed0 :: "u64 \<Rightarrow> u64" where
  "set_seed0 seed = (seed XOR 0x5DEECE66D) AND (push_bit 48 1 - 1)"

definition fr_step :: "u64 \<Rightarrow> u64" where
  "fr_step seed = (seed * 0x5DEECE66D + 0xB) AND (push_bit 48 1 - 1)"

definition next_bits :: "nat \<Rightarrow> u64 \<Rightarrow> u64 \<times> u64" where
  "next_bits bits seed = (let seed = fr_step seed in (drop_bit (48 - bits) seed, seed))"

definition next_ul :: "u64 \<Rightarrow> u64 \<times> u64" where
  "next_ul seed =
     (let (hi, seed) = next_bits 32 seed; (lo, seed) = next_bits 32 seed
      in (push_bit 32 hi + lo, seed))"

definition next_u32 :: "u64 \<Rightarrow> u32 \<times> u64" where
  "next_u32 seed = (let (v, seed) = next_bits 32 seed in (ucast v, seed))"

definition next_u16 :: "u64 \<Rightarrow> u16 \<times> u64" where
  "next_u16 seed = (let (v, seed) = next_bits 16 seed in (ucast v, seed))"

text \<open>
  The result of \<open>next_uniform\<close> is \<open>n / 2 ^ 53\<close> with \<open>n < 2 ^ 53\<close>, which a \<open>double\<close> holds
  exactly; the model returns the rational number.
\<close>

definition next_uniform :: "u64 \<Rightarrow> rat \<times> u64" where
  "next_uniform seed =
     (let (hi, seed) = next_bits 26 seed; (lo, seed) = next_bits 27 seed
      in (of_nat (unat (push_bit 27 hi + lo)) / 2 ^ 53, seed))"

definition next_char :: "u64 \<Rightarrow> byte \<times> u64" where
  "next_char seed = (let (v, seed) = next_bits 8 seed in (ucast (v mod 256), seed))"

definition readables :: string where
  "readables = ''0123456789@ABCDEFGHIJKLMNOPQRSTUVWXYZ_abcdefghijklmnopqrstuvwxyz''"

definition next_readable_char :: "u64 \<Rightarrow> char \<times> u64" where
  "next_readable_char seed = (let (v, seed) = next_bits 6 seed in (readables ! unat v, seed))"

primrec next_string :: "nat \<Rightarrow> u64 \<Rightarrow> byte list \<times> u64" where
  "next_string 0 seed = ([], seed)"
| "next_string (Suc len) seed =
     (let (c, seed) = next_char seed; (cs, seed) = next_string len seed in (c # cs, seed))"

primrec next_readable_string :: "nat \<Rightarrow> u64 \<Rightarrow> string \<times> u64" where
  "next_readable_string 0 seed = ([], seed)"
| "next_readable_string (Suc len) seed =
     (let (c, seed) = next_readable_char seed; (cs, seed) = next_readable_string len seed
      in (c # cs, seed))"

section \<open>The step is the linear congruential map modulo \<open>2 ^ 48\<close>\<close>

lemma and_mask48: "(w :: u64) AND (push_bit 48 1 - 1) = take_bit 48 w"
proof -
  have "(push_bit 48 1 - 1 :: u64) = mask 48"
    by (simp add: mask_eq_exp_minus_1 push_bit_of_1)
  then show ?thesis by (simp only: take_bit_eq_mask)
qed

lemma unat_take48: "unat (take_bit 48 (w :: u64)) = unat w mod 2 ^ 48"
  unfolding unsigned_take_bit_eq by (rule take_bit_eq_mod)

lemma unat_fr_step: "unat (fr_step s) = lcg_mod 48 0x5DEECE66D 0xB (unat s)"
proof -
  have "unat (s * 0x5DEECE66D + 0xB) = (unat s * 0x5DEECE66D + 0xB) mod 2 ^ 64"
    by (simp add: unat_word_ariths mod_simps)
  moreover have "x mod 2 ^ 64 mod 2 ^ 48 = x mod (2::nat) ^ 48" for x
    by (rule mod_mod_cancel) (simp add: le_imp_power_dvd)
  ultimately show ?thesis
    unfolding fr_step_def and_mask48 unat_take48 lcg_mod_def by (simp only: mult.commute)
qed

lemma fr_step_bound: "unat (fr_step s) < 2 ^ 48"
  by (simp add: unat_fr_step lcg_mod_def)

lemma unat_fr_iter: "unat ((fr_step ^^ n) s) = (lcg_mod 48 0x5DEECE66D 0xB ^^ n) (unat s)"
  by (induction n) (simp_all add: unat_fr_step)

text \<open>Every seed reaches every 48-bit state.\<close>

lemma fr_full_period:
  assumes "unat t < 2 ^ 48"
  shows "\<exists>n < 2 ^ 48. (fr_step ^^ Suc n) s = t"
proof -
  have "\<exists>i < 2 ^ 48. (lcg_mod 48 0x5DEECE66D 0xB ^^ i) (unat (fr_step s)) = unat t"
    using assms fr_step_bound by (intro lcg_mod_full_period) simp_all
  then obtain i where "i < 2 ^ 48" "unat ((fr_step ^^ i) (fr_step s)) = unat t"
    by (auto simp: unat_fr_iter)
  then show ?thesis
    by (metis funpow_Suc_right comp_apply word_unat_eq_iff)
qed

section \<open>Bounds of the outputs\<close>

lemma unat_next_bits:
  "unat (fst (next_bits b s)) = unat (fr_step s) div 2 ^ (48 - b)"
  unfolding next_bits_def Let_def fst_conv unat_drop_bit_eq by (rule drop_bit_eq_div)

lemma snd_next_bits [simp]: "snd (next_bits b s) = fr_step s"
  by (simp add: next_bits_def Let_def)

lemma next_bits_bound:
  assumes "b \<le> 48"
  shows "unat (fst (next_bits b s)) < 2 ^ b"
proof -
  have "(2::nat) ^ 48 = 2 ^ b * 2 ^ (48 - b)"
    using assms by (simp flip: power_add)
  then show ?thesis
    using fr_step_bound [of s] by (simp add: unat_next_bits less_mult_imp_div_less)
qed

lemma snd_next_u32 [simp]: "snd (next_u32 s) = fr_step s"
  by (simp add: next_u32_def split_beta)

lemma unat_next_u32: "unat (fst (next_u32 s)) = unat (fr_step s) div 2 ^ 16"
proof -
  have "unat (fr_step s) div 2 ^ 16 < 2 ^ 32"
    using next_bits_bound [of 32 s] by (simp add: unat_next_bits)
  then show ?thesis
    using unat_next_bits [of 32 s]
    by (simp add: next_u32_def split_beta unsigned_ucast_eq take_bit_eq_mod)
qed

lemma snd_next_char [simp]: "snd (next_char s) = fr_step s"
  by (simp add: next_char_def split_beta)

lemma unat_next_char: "unat (fst (next_char s)) = unat (fr_step s) div 2 ^ 40"
proof -
  have "unat (fr_step s) div 2 ^ 40 < 256"
    using next_bits_bound [of 8 s] by (simp add: unat_next_bits)
  then show ?thesis
    using unat_next_bits [of 8 s]
    by (simp add: next_char_def split_beta unsigned_ucast_eq take_bit_eq_mod unat_mod)
qed

lemma next_uniform_range: "0 \<le> fst (next_uniform s) \<and> fst (next_uniform s) < 1"
proof -
  let ?h = "fst (next_bits 26 s)" and ?l = "fst (next_bits 27 (fr_step s))"
  have h: "unat ?h < 2 ^ 26" "unat ?l < 2 ^ 27"
    by (rule next_bits_bound, simp)+
  have "unat (push_bit 27 ?h) = unat ?h * 2 ^ 27"
    using h(1) by (simp add: push_bit_eq_mult unat_word_ariths)
  then have "unat (push_bit 27 ?h + ?l) = unat ?h * 2 ^ 27 + unat ?l"
    using h by (simp add: unat_word_ariths)
  moreover have "unat ?h * 2 ^ 27 + unat ?l < 2 ^ 53"
    using h by simp
  ultimately have n: "unat (push_bit 27 ?h + ?l) < 2 ^ 53" by simp
  then have "(of_nat (unat (push_bit 27 ?h + ?l)) :: rat) < of_nat (2 ^ 53)"
    by (simp only: of_nat_less_iff)
  then show ?thesis
    by (simp add: next_uniform_def split_beta divide_less_eq del: of_nat_unat)
qed

lemma length_readables: "length readables = 64"
  by (simp add: readables_def)

lemma length_next_string: "length (fst (next_string n s)) = n"
  by (induction n arbitrary: s) (simp_all add: split_beta)

section \<open>Properties\<close>

text \<open>The generator has full period: from any seed, every 48-bit state is reached within
  \<open>2 ^ 48\<close> calls of \<open>next\<close>, and two different numbers of calls below \<open>2 ^ 48\<close> never leave it in
  the same state.\<close>

lemma fast_random_full_period:
  "(\<forall>t. unat t < 2 ^ 48 \<longrightarrow> (\<exists>n < 2 ^ 48. (fr_step ^^ Suc n) s = t)) \<and>
   inj_on (\<lambda>n. (fr_step ^^ Suc n) s) {..< 2 ^ 48}"
proof
  show all: "\<forall>t. unat t < 2 ^ 48 \<longrightarrow> (\<exists>n < 2 ^ 48. (fr_step ^^ Suc n) s = t)"
    using fr_full_period by blast
  let ?f = "\<lambda>n. unat ((fr_step ^^ Suc n) s)"
  have "{..< (2::nat) ^ 48} \<subseteq> ?f ` {..< 2 ^ 48}"
  proof
    fix m :: nat assume "m \<in> {..< 2 ^ 48}"
    then have m: "m < 2 ^ 48" by simp
    then have "unat (word_of_nat m :: u64) = m" by (intro unat_of_nat_u64) simp
    with all m obtain n where "n < 2 ^ 48" "?f n = m" by metis
    then show "m \<in> ?f ` {..< 2 ^ 48}" by blast
  qed
  moreover have "?f ` {..< 2 ^ 48} \<subseteq> {..< 2 ^ 48}"
    using fr_step_bound by (auto simp del: One_nat_def)
  ultimately have "?f ` {..< 2 ^ 48} = {..< (2::nat) ^ 48}" by (rule subset_antisym [rotated])
  then have "inj_on ?f {..< 2 ^ 48}"
    by (intro eq_card_imp_inj_on) simp_all
  then show "inj_on (\<lambda>n. (fr_step ^^ Suc n) s) {..< 2 ^ 48}"
    by (auto simp: inj_on_def simp del: funpow.simps)
qed

lemma fast_random_full_period_witness: "\<exists>n. (fr_step ^^ Suc n) 42 = 7"
proof -
  have "unat (7 :: u64) < 2 ^ 48" by simp
  with fast_random_full_period [of 42] show ?thesis by blast
qed

end
