(* ===== verification/MicroRandom.thy ===== *)
theory MicroRandom
  imports MicroKeys FastRandom Floats "HOL-Library.Multiset"
begin

unbundle bit_operations_syntax

text \<open>
  The random numbers and the key sets of the micro-benchmarks: \<open>rand_int64\<close> of
  \<open>benchmark/synthetic/micro_base.h\<close>, the hash and the scrambled generator of \<open>generator.h\<close>, and
  the data loaders of \<open>micro_common.h\<close> for integer keys. An \<open>int64_t\<close> is an integer where the
  code compares it and a 64-bit word where it is hashed; a conversion or an addition that leaves
  \<open>int64_t\<close> is undefined and a fault here. \<open>ZipfianGenerator\<close> draws from \<open>std::random_device\<close> and
  uses \<open>pow\<close>: its values are arguments, as is the permutation that \<open>std::shuffle\<close> applies.
\<close>

section \<open>\<open>rand_int64\<close>\<close>

definition int64_ok :: "int \<Rightarrow> bool" where
  "int64_ok i \<longleftrightarrow> - (2 ^ 63) \<le> i \<and> i < 2 ^ 63"

definition trunc :: "rat \<Rightarrow> int" where
  "trunc x = (if x < 0 then \<lceil>x\<rceil> else \<lfloor>x\<rfloor>)"

definition scaled :: "rat \<Rightarrow> int \<Rightarrow> int \<Rightarrow> rat" where
  "scaled u mn mx = f64 (f64 (u * f64 (of_int (mx - mn + 1))) + f64 (of_int mn))"

definition rand_int64 :: "u64 \<Rightarrow> int \<Rightarrow> int \<Rightarrow> fault + int \<times> u64" where
  "rand_int64 r mn mx =
     bindE (guardE OutOfBounds (int64_ok (mx - mn) \<and> int64_ok (mx - mn + 1))) (\<lambda>_.
     let (u, r) = next_uniform r; res = trunc (scaled u mn mx) in
     bindE (guardE OutOfBounds (int64_ok res)) (\<lambda>_.
     bindE (guardE AssertFailed (mn \<le> res \<and> res \<le> mx)) (\<lambda>_. Inr (res, r))))"

definition rand_key :: "u64 \<Rightarrow> fault + Key \<times> u64" where
  "rand_key r = bindE (rand_int64 r 1 (2 ^ 63 - 1)) (\<lambda>(x, r). Inr (Key (word_of_int x), r))"

definition rand_seed :: "u64 \<Rightarrow> fault + u64 \<times> u64" where
  "rand_seed r = bindE (rand_int64 r 1 (2 ^ 63 - 1)) (\<lambda>(x, r). Inr (word_of_int x, r))"

lemma trunc_mono: "x \<le> y \<Longrightarrow> trunc x \<le> trunc y"
  by (auto simp: trunc_def floor_mono ceiling_mono) (meson ceiling_le_zero less_le_trans not_le order_trans zero_le_floor less_imp_le)+

lemma f64_mono: "0 \<le> x \<Longrightarrow> x \<le> y \<Longrightarrow> f64 x \<le> f64 y"
  unfolding f64_def by (rule rnd_mono) simp_all

lemma f64_nonneg: "0 \<le> x \<Longrightarrow> 0 \<le> f64 x"
  unfolding f64_def by (rule rnd_nonneg) simp_all

lemma f64_int: "0 \<le> i \<Longrightarrow> i < 2 ^ 53 \<Longrightarrow> f64 (of_int i) = of_int i"
  using rnd_exact_int [of i 53] by (simp add: f64_def)

lemma f64_f64: "f64 (f64 x) = f64 x" if "0 \<le> x"
proof (cases "x = 0")
  case False
  with that have x: "0 < x" by simp
  let ?k = "ilog2 x - 53 + 1"
  have r: "f64 x = of_int (round_even (x / 2 powi ?k)) * 2 powi ?k"
    using x by (simp add: f64_def rnd_def Let_def)
  have i0: "0 \<le> round_even (x / 2 powi ?k)" using x by (intro round_even_ge0) simp
  have "x / 2 powi ?k \<le> of_int (2 ^ 53)"
  proof -
    have "x \<le> 2 powi (ilog2 x + 1)" using ilog2_bounds [OF x] by simp
    also have "(2::rat) powi (ilog2 x + 1) = 2 powi (53 + ?k)" by (simp add: add.commute)
    also have "\<dots> = 2 powi 53 * 2 powi ?k" by (rule power_int_add) simp
    finally show ?thesis by (simp add: pos_divide_le_eq)
  qed
  then have i1: "round_even (x / 2 powi ?k) \<le> 2 ^ 53" by (rule round_even_le)
  show ?thesis
  proof (cases "round_even (x / 2 powi ?k) = 2 ^ 53")
    case True
    have "f64 x = of_int 1 * 2 powi (53 + ?k)" unfolding r True using power_int_add [of "2::rat" 53 ?k] by simp
    then show ?thesis using rnd_dyadic [of 1 53 "53 + ?k"] by (simp add: f64_def)
  next
    case False
    then show ?thesis using i0 i1 rnd_dyadic [of "round_even (x / 2 powi ?k)" 53 ?k] unfolding r
      by (simp add: f64_def)
  qed
qed (simp add: f64_def)

text \<open>The largest value of \<open>next_uniform\<close>.\<close>

definition u_top :: rat where
  "u_top = (2 ^ 53 - 1) / 2 ^ 53"

lemma next_uniform_top: "fst (next_uniform s) \<le> u_top"
proof -
  obtain n where n: "fst (next_uniform s) = of_nat n / 2 ^ 53"
    unfolding next_uniform_def split_beta Let_def fst_conv by blast
  with next_uniform_range [of s] have "(of_nat n :: rat) < of_nat (2 ^ 53)" by (simp add: divide_less_eq)
  then have "n < 2 ^ 53" by (simp only: of_nat_less_iff)
  then have "n \<le> 2 ^ 53 - 1" by simp
  then have "(of_nat n :: rat) \<le> of_nat (2 ^ 53 - 1)" by (simp only: of_nat_le_iff)
  then show ?thesis by (simp add: n u_top_def divide_right_mono)
qed

lemma snd_next_uniform: "snd (next_uniform s) = fr_step (fr_step s)"
  by (simp add: next_uniform_def split_beta)

lemma scaled_mono:
  assumes "0 \<le> u" "u \<le> v" "0 \<le> mn" "mn \<le> mx"
  shows "scaled u mn mx \<le> scaled v mn mx" and "f64 (of_int mn) \<le> scaled u mn mx"
proof -
  let ?n = "f64 (of_int (mx - mn + 1))"
  have n: "0 \<le> ?n" using assms by (intro f64_nonneg) simp
  have m: "0 \<le> f64 (of_int mn)" using assms by (intro f64_nonneg) simp
  have "f64 (u * ?n) \<le> f64 (v * ?n)" using assms n by (intro f64_mono mult_right_mono) simp_all
  moreover have p: "0 \<le> f64 (u * ?n)" using assms n by (intro f64_nonneg) simp
  ultimately show "scaled u mn mx \<le> scaled v mn mx"
    unfolding scaled_def using m by (intro f64_mono) simp_all
  have idem: "f64 (f64 (of_int mn)) \<le> scaled u mn mx"
    unfolding scaled_def using m p by (intro f64_mono) simp_all
  show "f64 (of_int mn) \<le> scaled u mn mx"
    using idem assms(3) by (simp add: f64_f64)
qed

text \<open>
  Scaling is monotone, so a range is safe when the largest draw does not leave it; that is a
  computation for each range the code uses.
\<close>

lemma rand_int64_ok:
  assumes "0 \<le> mn" "mn < 2 ^ 53" "mn \<le> mx" "mx - mn + 1 < 2 ^ 63" "mx < 2 ^ 63"
    and "trunc (scaled u_top mn mx) \<le> mx"
  shows "\<exists>x. rand_int64 r mn mx = Inr (x, fr_step (fr_step r)) \<and> mn \<le> x \<and> x \<le> mx"
proof -
  let ?u = "fst (next_uniform r)"
  have u: "0 \<le> ?u" "?u \<le> u_top" using next_uniform_range next_uniform_top by auto
  have hi: "trunc (scaled ?u mn mx) \<le> mx"
    using trunc_mono [OF scaled_mono(1) [OF u assms(1,3)]] assms(6) by simp
  have "of_int mn \<le> scaled ?u mn mx"
    using scaled_mono(2) [OF u assms(1,3)] f64_int [OF assms(1,2)] by simp
  then have lo: "mn \<le> trunc (scaled ?u mn mx)"
    using trunc_mono [of "of_int mn" "scaled ?u mn mx"] by (simp add: trunc_def split: if_splits)
  have "int64_ok (mx - mn)" "int64_ok (mx - mn + 1)" "int64_ok (trunc (scaled ?u mn mx))"
    using assms lo hi by (auto simp: int64_ok_def)
  with lo hi show ?thesis
    by (simp add: rand_int64_def split_beta Let_def snd_next_uniform)
qed

lemma rand_int64_ranges:
  "\<exists>x. rand_int64 r 0 255 = Inr (x, fr_step (fr_step r)) \<and> 0 \<le> x \<and> x \<le> 255"
  "\<exists>x. rand_int64 r 1 (2 ^ 63 - 1) = Inr (x, fr_step (fr_step r)) \<and> 1 \<le> x \<and> x \<le> 2 ^ 63 - 1"
  "\<exists>x. rand_int64 r 123 123456789 = Inr (x, fr_step (fr_step r)) \<and> 123 \<le> x \<and> x \<le> 123456789"
  "\<exists>x. rand_int64 r 123 1234567890 = Inr (x, fr_step (fr_step r)) \<and> 123 \<le> x \<and> x \<le> 1234567890"
  "\<exists>x. rand_int64 r 123 12345789 = Inr (x, fr_step (fr_step r)) \<and> 123 \<le> x \<and> x \<le> 12345789"
  by (rule rand_int64_ok; (simp; fail | code_simp))+

end
