(* ===== verification/MicroData.thy ===== *)
theory MicroData
  imports MicroRandom
begin

unbundle bit_operations_syntax

text \<open>
  The key sets of the micro-benchmarks: the scrambled Zipfian generator of \<open>generator.h\<close> and the
  data loaders of \<open>micro_common.h\<close> for integer keys.
\<close>

section \<open>The scrambled generator\<close>

definition FNV_OFFSET_BASIS_64 :: u64 where
  "FNV_OFFSET_BASIS_64 = 0xCBF29CE484222325"

definition FNV_PRIME_64 :: u64 where
  "FNV_PRIME_64 = 1099511628211"

fun fnv_loop :: "nat \<Rightarrow> u64 \<Rightarrow> u64 \<Rightarrow> u64" where
  "fnv_loop 0 v hashval = hashval"
| "fnv_loop (Suc i) v hashval =
     (let octet = v AND 0xff in fnv_loop i (signed_drop_bit 8 v) ((hashval XOR octet) * FNV_PRIME_64))"

text \<open>\<open>abs\<close> of the least \<open>int64_t\<close> is that number again.\<close>

definition fnvhash64 :: "u64 \<Rightarrow> u64" where
  "fnvhash64 v = (let hashval = fnv_loop 8 v FNV_OFFSET_BASIS_64
     in if hashval <s 0 then - hashval else hashval)"

text \<open>
  \<open>z\<close> is the value of the inner \<open>ZipfianGenerator\<close>. The remainder is taken of unsigned numbers; an
  item count of zero (an interval of all \<open>2 ^ 64\<close> numbers) divides by zero.
\<close>

definition scrambled_next :: "u64 \<Rightarrow> u64 \<Rightarrow> u64 \<Rightarrow> fault + u64" where
  "scrambled_next mn mx z =
     (let itemcount = mx - mn + 1
      in bindE (guardE Aborted (itemcount \<noteq> 0)) (\<lambda>_. Inr (mn + fnvhash64 z mod itemcount)))"

lemma unat_u64_lt: "unat (x :: u64) < 2 ^ 64"
  using unsigned_less [of x] by simp

lemma unat_u64_max: "unat (- 1 :: u64) = 2 ^ 64 - 1"
  by (simp add: unsigned_minus_1_eq_mask mask_eq_exp_minus_1)

lemma scrambled_ok:
  fixes mn mx :: u64
  assumes "mn \<le> mx" "mx - mn + 1 \<noteq> 0"
  shows "\<exists>x. scrambled_next mn mx z = Inr x \<and> mn \<le> x \<and> x \<le> mx"
proof -
  let ?c = "mx - mn + 1" let ?y = "fnvhash64 z mod ?c"
  have c: "unat ?c = unat mx - unat mn + 1"
    using unatSuc [of "mx - mn"] assms by (simp add: add.commute unat_sub word_le_nat_alt)
  have "unat ?y < unat ?c" using assms(2) by (simp add: unat_mod unat_gt_0)
  then have y: "unat ?y \<le> unat mx - unat mn" using c by simp
  have le: "unat mn \<le> unat mx" using assms(1) by (simp add: word_le_nat_alt)
  have "unat mn + unat ?y < 2 ^ 64" using y le unat_u64_lt [of mx] by simp
  then have "unat (mn + ?y) = unat mn + unat ?y" by (simp add: unat_word_ariths)
  then show ?thesis using assms(2) y le by (simp add: scrambled_next_def Let_def word_le_nat_alt)
qed

section \<open>Generated keys\<close>

primrec rand_keys :: "nat \<Rightarrow> u64 \<Rightarrow> fault + Key list \<times> u64" where
  "rand_keys 0 r = Inr ([], r)"
| "rand_keys (Suc n) r =
     bindE (rand_key r) (\<lambda>(k, r). bindE (rand_keys n r) (\<lambda>(ks, r). Inr (k # ks, r)))"

text \<open>\<open>prepare_data\<close> without a file: the keys to load and the keys that are not to be loaded.\<close>

definition prepare_generated :: "bool \<Rightarrow> nat \<Rightarrow> u64 \<Rightarrow> fault + Key list \<times> Key list \<times> u64" where
  "prepare_generated is_ordered table_size r =
     bindE (rand_seed r) (\<lambda>(seed, r).
     if is_ordered then
       Inr (map (\<lambda>i. Key (seed + of_nat i * 2)) [0..<table_size],
            map (\<lambda>i. Key (seed + of_nat i * 2 + 1)) [0..<table_size], r)
     else
       bindE (rand_keys table_size r) (\<lambda>(ks, r).
       bindE (rand_keys table_size r) (\<lambda>(ks', r). Inr (ks, ks', r))))"

text \<open>
  \<open>prepare_data\<close> with a file: its numbers are shuffled; the first half is loaded, the second is
  not.
\<close>

definition read_keys_from_file :: "(Key list \<Rightarrow> Key list) \<Rightarrow> int list \<Rightarrow> fault + Key list \<times> Key list" where
  "read_keys_from_file shuffle nums =
     bindE (guardE Aborted (list_all (\<lambda>num. 0 \<le> num) nums)) (\<lambda>_.
     let temp_keys = shuffle (map (\<lambda>num. Key (word_of_int num)) nums)
     in Inr (take (length temp_keys div 2) temp_keys, drop (length temp_keys div 2) temp_keys))"

section \<open>Keys of a trace\<close>

text \<open>
  \<open>prepare_data(fname)\<close>, except for the radix tree: \<open>trace_fill\<close> is the inner loop, whose result
  is the keys pushed and \<open>cur_key\<close>; with a step of zero it pushes for ever.
\<close>

partial_function (option) trace_fill ::
  "u64 \<Rightarrow> u64 \<Rightarrow> u64 \<Rightarrow> Key list \<Rightarrow> (Key list \<times> u64) option" where
  "trace_fill step key_from_trace cur_key all_keys =
     (if cur_key < key_from_trace \<and> step < - 1 - cur_key
      then trace_fill step key_from_trace (cur_key + step) (all_keys @ [Key cur_key])
      else Some (all_keys, cur_key))"

fun trace_lines :: "u64 \<Rightarrow> u64 list \<Rightarrow> u64 \<Rightarrow> Key list \<Rightarrow> Key list option" where
  "trace_lines step [] cur_key all_keys = Some all_keys"
| "trace_lines step (key_from_trace # ls) cur_key all_keys =
     (case trace_fill step key_from_trace cur_key all_keys of
        None \<Rightarrow> None
      | Some (all_keys, cur_key) \<Rightarrow> trace_lines step ls cur_key (all_keys @ [Key cur_key]))"

text \<open>The first line of the file is the step; for the radix tree the keys are evenly spaced.\<close>

definition prepare_trace_data ::
  "bool \<Rightarrow> nat \<Rightarrow> (Key list \<Rightarrow> Key list) \<Rightarrow> u64 \<Rightarrow> u64 list \<Rightarrow> Key list option" where
  "prepare_trace_data art test_data_set_size shuffle step ls =
     (if art then
        let step = word_of_int ((2 ^ 64 - 1) div int test_data_set_size)
        in if test_data_set_size = 0 then None
           else Some (shuffle (map (\<lambda>i. Key (of_nat i * step)) [0..<test_data_set_size]))
      else trace_lines step ls 0 [])"

section \<open>Lemmas\<close>

lemma double_step_inj:
  fixes seed :: u64
  assumes "i < 2 ^ 63" "j < 2 ^ 63" "seed + of_nat i * 2 = seed + of_nat j * 2"
  shows "i = j"
proof -
  from assms(3) have "(of_nat (i * 2) :: u64) = of_nat (j * 2)" by simp
  then have "unat (of_nat (i * 2) :: u64) = unat (of_nat (j * 2) :: u64)" by simp
  then show ?thesis using assms(1,2) by (simp add: unat_of_nat_u64 del: of_nat_mult)
qed

lemma double_step_neq:
  fixes seed :: u64
  shows "seed + of_nat i * 2 \<noteq> seed + of_nat j * 2 + 1"
proof
  assume eq: "seed + of_nat i * 2 = seed + of_nat j * 2 + 1"
  have "even (seed + of_nat i * 2) \<longleftrightarrow> even seed" "even (seed + of_nat j * 2 + 1) \<longleftrightarrow> odd seed"
    by simp_all
  with eq show False by simp
qed

lemma rand_seed_ok: "\<exists>x. rand_seed r = Inr (x, fr_step (fr_step r))"
  using rand_int64_ranges(2) [of r] by (auto simp: rand_seed_def)

lemma rand_key_ok: "\<exists>k. rand_key r = Inr (k, fr_step (fr_step r)) \<and> 0 < unat (key_val k) \<and> unat (key_val k) < 2 ^ 63"
proof -
  obtain x where x: "rand_int64 r 1 (2 ^ 63 - 1) = Inr (x, fr_step (fr_step r))" "1 \<le> x" "x \<le> 2 ^ 63 - 1"
    using rand_int64_ranges(2) by blast
  then have "unat (word_of_int x :: u64) = nat x"
    by (simp add: unsigned_of_int take_bit_eq_mod)
  with x show ?thesis by (simp add: rand_key_def)
qed

lemma rand_keys_ok:
  "\<exists>ks r'. rand_keys n r = Inr (ks, r') \<and> length ks = n \<and>
    (\<forall>k\<in>set ks. 0 < unat (key_val k) \<and> unat (key_val k) < 2 ^ 63)"
proof (induction n arbitrary: r)
  case (Suc n)
  obtain k where k: "rand_key r = Inr (k, fr_step (fr_step r))" "0 < unat (key_val k)" "unat (key_val k) < 2 ^ 63"
    using rand_key_ok by blast
  obtain ks r' where ks: "rand_keys n (fr_step (fr_step r)) = Inr (ks, r')" "length ks = n"
      "\<forall>k\<in>set ks. 0 < unat (key_val k) \<and> unat (key_val k) < 2 ^ 63" using Suc by blast
  have "rand_keys (Suc n) r = Inr (k # ks, r')" using k(1) ks(1) by simp
  with k ks show ?case by (intro exI [of _ "k # ks"] exI [of _ r']) simp
qed simp

text \<open>The ordered generator: two disjoint sets without repetitions, whatever the seed.\<close>

lemma ordered_keys_ok:
  assumes "n \<le> 2 ^ 63"
  shows "\<exists>ks ks' r'. prepare_generated True n r = Inr (ks, ks', r') \<and> length ks = n \<and> length ks' = n \<and>
    distinct (ks @ ks')"
proof -
  obtain seed r' where seed: "rand_seed r = Inr (seed, r')" using rand_seed_ok by blast
  let ?ks = "map (\<lambda>i. Key (seed + of_nat i * 2)) [0..<n]"
  let ?ks' = "map (\<lambda>i. Key (seed + of_nat i * 2 + 1)) [0..<n]"
  have inj: "i = j" if "i < n" "j < n" "seed + of_nat i * 2 = seed + of_nat j * 2" for i j
    using double_step_inj [OF _ _ that(3)] that(1,2) assms by simp
  have "distinct ?ks" "distinct ?ks'" using inj by (auto simp: distinct_map inj_on_def)
  moreover have "set ?ks \<inter> set ?ks' = {}" using double_step_neq by (auto simp: image_iff)
  ultimately show ?thesis using seed by (simp add: prepare_generated_def)
qed

lemma generated_keys_ok:
  "\<exists>ks ks' r'. prepare_generated False n r = Inr (ks, ks', r') \<and> length ks = n \<and> length ks' = n \<and>
    (\<forall>k\<in>set (ks @ ks'). 0 < unat (key_val k) \<and> unat (key_val k) < 2 ^ 63)"
proof -
  obtain seed r1 where seed: "rand_seed r = Inr (seed, r1)" using rand_seed_ok by blast
  obtain ks r2 where ks: "rand_keys n r1 = Inr (ks, r2)" "length ks = n"
      "\<forall>k\<in>set ks. 0 < unat (key_val k) \<and> unat (key_val k) < 2 ^ 63" using rand_keys_ok by blast
  obtain ks' r3 where ks': "rand_keys n r2 = Inr (ks', r3)" "length ks' = n"
      "\<forall>k\<in>set ks'. 0 < unat (key_val k) \<and> unat (key_val k) < 2 ^ 63" using rand_keys_ok by blast
  have "prepare_generated False n r = Inr (ks, ks', r3)"
    using seed ks(1) ks'(1) by (simp add: prepare_generated_def)
  with ks(2,3) ks'(2,3) show ?thesis
    by (intro exI [of _ ks] exI [of _ ks'] exI [of _ r3]) auto
qed

section \<open>The loader of a trace\<close>

text \<open>With a positive step the inner loop ends; every key it pushes is a multiple of the step.\<close>

definition on_grid :: "u64 \<Rightarrow> u64 \<Rightarrow> bool" where
  "on_grid step x \<longleftrightarrow> unat step dvd unat x"

lemma unat_room: "unat (- 1 - x :: u64) = 2 ^ 64 - 1 - unat x"
  using unat_sub [of x "- 1"] by (simp add: word_order.extremum unat_u64_max)

lemma unat_add_no_wrap: "step < - 1 - cur \<Longrightarrow> unat (cur + step) = unat cur + unat step" for cur :: u64
proof -
  assume "step < - 1 - cur"
  then have "unat step < 2 ^ 64 - 1 - unat cur"
    by (simp only: word_less_nat_alt unat_room)
  then show ?thesis by (simp add: unat_word_ariths)
qed

lemma trace_fill_ends:
  assumes "step \<noteq> 0" "on_grid step cur" "\<forall>k\<in>set acc. on_grid step (key_val k)"
  shows "\<exists>ks cur'. trace_fill step key cur acc = Some (ks, cur') \<and> on_grid step cur' \<and>
    (\<forall>k\<in>set ks. on_grid step (key_val k)) \<and> length acc \<le> length ks"
  using assms(2,3)
proof (induction "2 ^ 64 - unat cur" arbitrary: cur acc rule: less_induct)
  case less
  show ?case
  proof (cases "cur < key \<and> step < - 1 - cur")
    case True
    then have u: "unat (cur + step) = unat cur + unat step" by (simp add: unat_add_no_wrap)
    have "0 < unat step" using assms(1) by (simp add: unat_gt_0)
    moreover have "unat (cur + step) < 2 ^ 64" by (rule unat_u64_lt)
    ultimately have dec: "2 ^ 64 - unat (cur + step) < 2 ^ 64 - unat cur" using u by simp
    have "on_grid step (cur + step)" using less.prems(1) u by (simp add: on_grid_def)
    from less.hyps [OF dec this, of "acc @ [Key cur]"] less.prems
    show ?thesis by (subst trace_fill.simps) (auto simp: True)
  next
    case False
    then show ?thesis using less.prems by (subst trace_fill.simps) auto
  qed
qed

lemma trace_lines_ends:
  assumes "step \<noteq> 0" "on_grid step cur" "\<forall>k\<in>set acc. on_grid step (key_val k)"
  shows "\<exists>ks. trace_lines step ls cur acc = Some ks \<and> (\<forall>k\<in>set ks. on_grid step (key_val k)) \<and>
    length acc + length ls \<le> length ks"
  using assms(2,3)
proof (induction ls arbitrary: cur acc)
  case (Cons l ls)
  obtain ks cur' where f: "trace_fill step l cur acc = Some (ks, cur')" "on_grid step cur'"
    "\<forall>k\<in>set ks. on_grid step (key_val k)" "length acc \<le> length ks"
    using trace_fill_ends [OF assms(1) Cons.prems] by blast
  from Cons.IH [of cur' "ks @ [Key cur']"] f(2-) show ?case by (auto simp: f(1))
qed simp

text \<open>With a step of zero and a positive key it never does.\<close>

lemma trace_fill_diverges: "cur < key \<Longrightarrow> cur < - 1 \<Longrightarrow> trace_fill 0 key cur acc = None"
proof -
  have "\<not> (cur < key \<and> 0 < - 1 - cur)" if "trace_fill step key cur acc = Some r" "step = 0"
    for step key cur acc r
  proof -
    have "step = 0 \<longrightarrow> \<not> (cur < key \<and> 0 < - 1 - cur)"
      by (rule trace_fill.raw_induct [OF _ that(1)]) (auto split: if_splits)
    with that(2) show ?thesis by blast
  qed
  moreover assume "cur < key" "cur < - 1"
  moreover from this have "0 < - 1 - cur" by (simp add: word_less_nat_alt unat_room unat_u64_max)
  ultimately show ?thesis by fastforce
qed

section \<open>Skewed workloads\<close>

text \<open>
  \<open>generate_skew_workload\<close> computes the hot range in \<open>double\<close> from percentages, lays the keys out
  with the hot range first, and picks a key for every position. A \<open>std::copy\<close> from a range that
  ends behind the vector is undefined. The generators \<open>gen1\<close> and \<open>gen2\<close>, which start from the same
  seeds for every range, are given by the \<open>i\<close>-th number that a distribution with bounds \<open>(a, b)\<close>
  draws from them.
\<close>

record skew_draws =
  gen1 :: "nat \<Rightarrow> u64 \<times> u64 \<Rightarrow> u64"
  gen2 :: "nat \<Rightarrow> u64 \<times> u64 \<Rightarrow> u64"

text \<open>What the standard says of \<open>uniform_int_distribution\<close>: its numbers are within its bounds, which
  must not be empty (a precondition of the constructor, which libstdc++ can check).\<close>

definition draws_ok :: "skew_draws \<Rightarrow> bool" where
  "draws_ok dr \<longleftrightarrow> (\<forall>i a b. a \<le> b \<longrightarrow>
     a \<le> gen1 dr i (a, b) \<and> gen1 dr i (a, b) \<le> b \<and> a \<le> gen2 dr i (a, b) \<and> gen2 dr i (a, b) \<le> b)"

definition uniform_int_distribution :: "u64 \<Rightarrow> u64 \<Rightarrow> fault + u64 \<times> u64" where
  "uniform_int_distribution a b = bindE (guardE AssertFailed (a \<le> b)) (\<lambda>_. Inr (a, b))"

definition hot_range :: "nat \<Rightarrow> nat \<Rightarrow> nat" where
  "hot_range n hot_data_ratio =
     nat (trunc (f64 (f64 (f64 (of_nat n) / 100) * f64 (of_nat hot_data_ratio))))"

definition hot_start :: "nat \<Rightarrow> nat \<Rightarrow> nat \<Rightarrow> nat" where
  "hot_start n hot_data_start offset =
     nat (trunc (f64 (f64 (f64 (f64 (of_nat n) / 100) * f64 (of_nat hot_data_start)) + f64 (of_nat offset))))"

definition skew_layout :: "Key list \<Rightarrow> nat \<Rightarrow> nat \<Rightarrow> fault + Key list" where
  "skew_layout keys real_start real_range =
     bindE (guardE OutOfBounds (real_start + real_range \<le> length keys)) (\<lambda>_.
     bindE (blit keys real_start keys 0 real_range) (\<lambda>temp_keys.
     bindE (blit keys 0 temp_keys real_range real_start) (\<lambda>temp_keys.
     blit keys (real_start + real_range) temp_keys (real_start + real_range)
       (length keys - (real_start + real_range)))))"

fun skew_pick ::
  "nat \<Rightarrow> skew_draws \<Rightarrow> u64 \<times> u64 \<Rightarrow> u64 \<times> u64 \<Rightarrow> u64 \<times> u64 \<Rightarrow> Key list \<Rightarrow> nat list \<Rightarrow> fault + Key list" where
  "skew_pick hot_query_ratio dr uniform hot_index cold_index temp_keys [] = Inr []"
| "skew_pick hot_query_ratio dr uniform hot_index cold_index temp_keys (i # is) =
     (let index = (if unat (gen1 dr i uniform) < hot_query_ratio then gen2 dr i hot_index else gen2 dr i cold_index) in
      bindE (array_read temp_keys (unat index)) (\<lambda>k.
      bindE (skew_pick hot_query_ratio dr uniform hot_index cold_index temp_keys is) (\<lambda>ks. Inr (k # ks))))"

text \<open>The distributions: the bounds are unsigned, so 0 hot keys give hot indexes up to \<open>2 ^ 64 - 1\<close>.\<close>

definition skew_draw_keys :: "nat \<Rightarrow> skew_draws \<Rightarrow> nat \<Rightarrow> Key list \<Rightarrow> fault + Key list" where
  "skew_draw_keys hot_query_ratio dr num_hot temp_keys =
     bindE (uniform_int_distribution 0 99) (\<lambda>uniform.
     bindE (uniform_int_distribution 0 (of_nat num_hot - 1)) (\<lambda>hot_index.
     bindE (uniform_int_distribution (of_nat num_hot) (of_nat (length temp_keys) - 1)) (\<lambda>cold_index.
     skew_pick hot_query_ratio dr uniform hot_index cold_index temp_keys [0..<length temp_keys])))"

text \<open>The version for one range, and one range of the version for several, which clamps the start.\<close>

definition skew_one :: "nat \<Rightarrow> nat \<Rightarrow> nat \<Rightarrow> skew_draws \<Rightarrow> Key list \<Rightarrow> fault + Key list" where
  "skew_one hot_data_start hot_data_ratio hot_query_ratio dr keys =
     (let keys = sort keys; n = length keys;
          real_range = hot_range n hot_data_ratio; real_start = hot_start n hot_data_start 0 in
      bindE (skew_layout keys real_start real_range) (\<lambda>temp_keys.
      skew_draw_keys hot_query_ratio dr real_range temp_keys))"

definition skew_several :: "nat \<Rightarrow> nat \<Rightarrow> nat \<Rightarrow> skew_draws \<Rightarrow> Key list \<Rightarrow> nat \<Rightarrow> fault + Key list" where
  "skew_several hot_data_start hot_data_ratio hot_query_ratio dr keys k =
     (let keys = sort keys; n = length keys;
          real_range = hot_range n hot_data_ratio;
          real_start = hot_start n hot_data_start (real_range * k);
          real_start = (if real_range \<le> n \<and> n - real_range < real_start then n - real_range else real_start) in
      bindE (skew_layout keys real_start real_range) (\<lambda>temp_keys.
      skew_draw_keys hot_query_ratio dr real_range temp_keys))"

text \<open>
  The loop over the ranges: \<open>targets[k][i]\<close> gets the key of position \<open>i\<close>; a row that does not exist or
  is too short is written outside its bounds.
\<close>

definition write_target :: "Key list list \<Rightarrow> nat \<Rightarrow> Key list \<Rightarrow> fault + Key list list" where
  "write_target targets k ks =
     (if ks = [] then Inr targets
      else bindE (array_read targets k) (\<lambda>row.
           bindE (guardE OutOfBounds (length ks \<le> length row)) (\<lambda>_.
           array_write targets k (ks @ drop (length ks) row))))"

fun skew_ranges ::
  "nat \<Rightarrow> nat \<Rightarrow> nat \<Rightarrow> skew_draws \<Rightarrow> Key list \<Rightarrow> nat list \<Rightarrow> Key list list \<Rightarrow> fault + Key list list" where
  "skew_ranges hot_data_start hot_data_ratio hot_query_ratio dr keys [] targets = Inr targets"
| "skew_ranges hot_data_start hot_data_ratio hot_query_ratio dr keys (k # ks) targets =
     bindE (skew_several hot_data_start hot_data_ratio hot_query_ratio dr keys k) (\<lambda>picked.
     bindE (write_target targets k picked) (\<lambda>targets.
     skew_ranges hot_data_start hot_data_ratio hot_query_ratio dr keys ks targets))"

lemma skew_layout_ok:
  assumes "rs + rr \<le> length keys"
  shows "skew_layout keys rs rr =
    Inr (take rr (drop rs keys) @ take rs keys @ drop (rs + rr) keys)"
  using assms
  by (simp add: skew_layout_def blit_def drop_take add.commute)

lemma skew_layout_perm:
  assumes "rs + rr \<le> length keys"
  shows "mset (take rr (drop rs keys) @ take rs keys @ drop (rs + rr) keys) = mset keys"
proof -
  have "keys = take rs keys @ take rr (drop rs keys) @ drop (rs + rr) keys"
    by (metis append_take_drop_id drop_drop add.commute)
  then have "mset keys = mset (take rs keys @ take rr (drop rs keys) @ drop (rs + rr) keys)" by simp
  then show ?thesis by simp
qed

text \<open>Whether position \<open>i\<close> is to get a hot key.\<close>

definition hot_draw :: "nat \<Rightarrow> skew_draws \<Rightarrow> nat \<Rightarrow> bool" where
  "hot_draw q dr i \<longleftrightarrow> unat (gen1 dr i (0, 99)) < q"

lemma skew_pick_ok:
  assumes "\<forall>i\<in>set is. unat (if unat (gen1 dr i u) < q then gen2 dr i h else gen2 dr i c) < length tmp"
  shows "skew_pick q dr u h c tmp is =
    Inr (map (\<lambda>i. tmp ! unat (if unat (gen1 dr i u) < q then gen2 dr i h else gen2 dr i c)) is)"
  using assms by (induction "is") (simp_all add: Let_def)

lemma skew_pick_faults:
  assumes "i \<in> set is" "length tmp \<le> unat (if unat (gen1 dr i u) < q then gen2 dr i h else gen2 dr i c)"
  shows "skew_pick q dr u h c tmp is = Inl OutOfBounds"
  using assms
proof (induction "is")
  case (Cons j js)
  let ?x = "unat (if unat (gen1 dr j u) < q then gen2 dr j h else gen2 dr j c)"
  show ?case
  proof (cases "?x < length tmp")
    case True
    then have "i \<in> set js" using Cons.prems by auto
    with Cons True show ?thesis by (simp add: Let_def)
  qed (simp add: Let_def array_read_def)
qed simp

lemma u64_of_nat_minus_1: "0 < n \<Longrightarrow> n < 2 ^ 64 \<Longrightarrow> unat (of_nat n - 1 :: u64) = n - 1"
proof -
  assume "0 < n" "n < 2 ^ 64"
  then have u: "unat (of_nat n :: u64) = n" by (simp add: unat_of_nat_u64)
  with \<open>0 < n\<close> have "(of_nat n :: u64) \<noteq> 0" by (metis less_irrefl unat_0)
  then show ?thesis using u by (simp add: unat_minus_one)
qed

text \<open>The bounds of the two index distributions, and what can go wrong with them.\<close>

lemma skew_draw_keys_ok:
  fixes q :: nat
  assumes dr: "draws_ok dr" and n: "0 < h" "h < length tmp" "length tmp < 2 ^ 64"
  defines "ix \<equiv> \<lambda>i. unat (if hot_draw q dr i then gen2 dr i (0, of_nat h - 1) else gen2 dr i (of_nat h, of_nat (length tmp) - 1))"
  shows "skew_draw_keys q dr h tmp = Inr (map (\<lambda>i. tmp ! ix i) [0..<length tmp])"
    and "hot_draw q dr i \<Longrightarrow> ix i < h" and "\<not> hot_draw q dr i \<Longrightarrow> h \<le> ix i \<and> ix i < length tmp"
proof -
  have t: "0 < length tmp" "h < 2 ^ 64" using n by linarith+
  have u: "unat (of_nat h :: u64) = h" "unat (of_nat h - 1 :: u64) = h - 1"
    "unat (of_nat (length tmp) - 1 :: u64) = length tmp - 1"
    by (rule unat_of_nat_u64 [OF t(2)], rule u64_of_nat_minus_1 [OF n(1) t(2)], rule u64_of_nat_minus_1 [OF t(1) n(3)])
  then have le: "(of_nat h :: u64) \<le> of_nat (length tmp) - 1" using n by (simp add: word_le_nat_alt)
  have hot: "gen2 dr i (0, of_nat h - 1) \<le> of_nat h - 1" for i using dr by (simp add: draws_ok_def)
  have cold: "of_nat h \<le> gen2 dr i (of_nat h, of_nat (length tmp) - 1)"
    "gen2 dr i (of_nat h, of_nat (length tmp) - 1) \<le> of_nat (length tmp) - 1" for i
    using dr le by (simp_all add: draws_ok_def)
  show h: "hot_draw q dr i \<Longrightarrow> ix i < h" for i
    using hot [of i] u n unfolding ix_def word_le_nat_alt by simp
  show c: "\<not> hot_draw q dr i \<Longrightarrow> h \<le> ix i \<and> ix i < length tmp" for i
    using cold [of i] u n unfolding ix_def word_le_nat_alt by simp
  have "ix i < length tmp" for i using h [of i] c [of i] n(2) by (cases "hot_draw q dr i") auto
  then show "skew_draw_keys q dr h tmp = Inr (map (\<lambda>i. tmp ! ix i) [0..<length tmp])"
    using skew_pick_ok [of "[0..<length tmp]" dr "(0, 99)" q "(0, of_nat h - 1)" "(of_nat h, of_nat (length tmp) - 1)" tmp] le
    by (simp add: skew_draw_keys_def uniform_int_distribution_def ix_def hot_draw_def)
qed

lemma skew_draw_keys_all_hot:
  assumes "0 < length tmp" "length tmp < 2 ^ 64"
  shows "skew_draw_keys q dr (length tmp) tmp = Inl AssertFailed"
proof -
  have "unat (of_nat (length tmp) :: u64) = length tmp" "unat (of_nat (length tmp) - 1 :: u64) = length tmp - 1"
    using assms u64_of_nat_minus_1 [of "length tmp"] by (simp_all add: unat_of_nat_u64)
  moreover have "\<not> length tmp \<le> length tmp - 1" using assms(1) by (cases "length tmp") simp_all
  ultimately have "\<not> (of_nat (length tmp) :: u64) \<le> of_nat (length tmp) - 1"
    by (simp only: word_le_nat_alt not_False_eq_True)
  then show ?thesis by (simp add: skew_draw_keys_def uniform_int_distribution_def guardE_def)
qed

lemma skew_draw_keys_none_hot:
  assumes "i < length tmp" "hot_draw q dr i" "length tmp \<le> unat (gen2 dr i (0, - 1))"
  shows "skew_draw_keys q dr 0 tmp = Inl OutOfBounds"
  using skew_pick_faults [of i "[0..<length tmp]" tmp dr "(0, 99)" q "(0, - 1)" "(0, of_nat (length tmp) - 1)"] assms
  by (simp add: skew_draw_keys_def uniform_int_distribution_def hot_draw_def)

lemma rnd_upper:
  assumes "0 < x"
  shows "rnd p x \<le> x + x * 2 powi (- p)"
proof -
  let ?e = "ilog2 x" let ?u = "(2::rat) powi (?e - p + 1)"
  have u: "?u \<noteq> 0" "0 < ?u" by simp_all
  have "of_int (round_even (x / ?u)) \<le> x / ?u + 1 / 2" using round_even_error [of "x / ?u"] by linarith
  then have "of_int (round_even (x / ?u)) * ?u \<le> (x / ?u + 1 / 2) * ?u"
    using u(2) by (intro mult_right_mono) simp_all
  moreover have "(x / ?u + 1 / 2) * ?u = x + ?u / 2" using u(1) by (simp add: field_simps)
  moreover have "(2::rat) powi (?e - p) = 2 powi ?e * 2 powi (- p)"
    using power_int_add [of "2::rat" ?e "- p"] by simp
  then have "?u / 2 = 2 powi ?e * 2 powi (- p)" using power_int_add_1 [of "2::rat" "?e - p"] by simp
  moreover have "2 powi ?e * 2 powi (- p) \<le> x * 2 powi (- p)"
    using ilog2_bounds [OF assms] by (intro mult_right_mono) simp_all
  moreover have "rnd p x = of_int (round_even (x / ?u)) * ?u" using assms by (simp add: rnd_def Let_def)
  ultimately show ?thesis by linarith
qed

lemma f64_upper: "0 \<le> x \<Longrightarrow> f64 x \<le> x * (1 + 1 / 2 ^ 53)"
  using rnd_upper [of x 53] by (cases "x = 0") (simp_all add: f64_def distrib_left power_int_minus)

text \<open>The hot range never has more keys than the vector.\<close>

lemma hot_range_le:
  assumes "ratio \<le> 100" "n < 2 ^ 50"
  shows "hot_range n ratio \<le> n"
proof -
  let ?e = "1 + 1 / 2 ^ 53 :: rat"
  have nn: "f64 (of_nat n) = of_nat n" "f64 (of_nat ratio) = of_nat ratio"
    using f64_int [of "int n"] f64_int [of "int ratio"] assms by simp_all
  let ?y = "f64 (of_nat n / 100)"
  have y0: "0 \<le> ?y" by (intro f64_nonneg) simp
  have "?y * of_nat ratio \<le> ?y * 100" using y0 assms(1) by (intro mult_left_mono) simp_all
  also have "\<dots> \<le> of_nat n * ?e" using f64_upper [of "of_nat n / 100"] by simp
  finally have b: "?y * of_nat ratio \<le> of_nat n * ?e" .
  have "f64 (?y * of_nat ratio) \<le> ?y * of_nat ratio * ?e" using y0 by (intro f64_upper) simp
  also have "\<dots> \<le> of_nat n * ?e * ?e" using b by (intro mult_right_mono) simp_all
  also have "\<dots> = of_nat n + of_nat n * (?e * ?e - 1)" by (simp add: algebra_simps)
  also have "\<dots> < of_nat n + 1"
  proof -
    have "of_nat n * (?e * ?e - 1) \<le> 2 ^ 50 * (?e * ?e - 1)"
    proof (rule mult_right_mono)
      have "(of_nat n :: rat) \<le> of_nat (2 ^ 50)" using assms(2) by (simp only: of_nat_le_iff less_imp_le)
      then show "(of_nat n :: rat) \<le> 2 ^ 50" by simp
    qed simp
    also have "\<dots> < 1" by simp
    finally show ?thesis by simp
  qed
  finally have lt: "f64 (?y * of_nat ratio) < of_nat n + 1" .
  have "0 \<le> f64 (?y * of_nat ratio)" using y0 by (intro f64_nonneg) simp
  then have "trunc (f64 (?y * of_nat ratio)) = \<lfloor>f64 (?y * of_nat ratio)\<rfloor>" by (simp add: trunc_def)
  moreover have "\<lfloor>f64 (?y * of_nat ratio)\<rfloor> \<le> int n" using lt by (simp add: floor_le_iff)
  ultimately show ?thesis by (simp add: hot_range_def nn)
qed

lemma skew_pick_layout:
  assumes le: "rs + rr \<le> length keys" and tmp: "skew_layout keys rs rr = Inr tmp"
    and dr: "draws_ok dr" and rr: "0 < rr" "rr < length keys" "length keys < 2 ^ 50"
  shows "\<exists>ks. skew_draw_keys q dr rr tmp = Inr ks \<and> length ks = length keys \<and>
    (\<forall>i < length keys. ks ! i \<in> set (if hot_draw q dr i then take rr (drop rs keys) else take rs keys @ drop (rs + rr) keys))"
proof -
  have t: "tmp = take rr (drop rs keys) @ take rs keys @ drop (rs + rr) keys"
    using tmp skew_layout_ok [OF le] by simp
  have len: "length tmp = length keys" "length (take rr (drop rs keys)) = rr" using le by (simp_all add: t)
  have n: "0 < rr" "rr < length tmp" "length tmp < 2 ^ 64" using rr len(1) by simp_all
  note ok = skew_draw_keys_ok [OF dr n]
  let ?ix = "\<lambda>i. unat (if hot_draw q dr i then gen2 dr i (0, of_nat rr - 1) else gen2 dr i (of_nat rr, of_nat (length tmp) - 1))"
  have "tmp ! ?ix i \<in> set (take rr (drop rs keys))" if "hot_draw q dr i" for i
    using ok(2) [OF that] len(2) by (metis t nth_append nth_mem)
  moreover have "tmp ! ?ix i \<in> set (take rs keys @ drop (rs + rr) keys)" if "\<not> hot_draw q dr i" for i
  proof -
    have c: "rr \<le> ?ix i" "?ix i < length tmp" using ok(3) [OF that] by simp_all
    then have "tmp ! ?ix i = (take rs keys @ drop (rs + rr) keys) ! (?ix i - rr)"
      unfolding t using len(2) by (simp add: nth_append)
    moreover have "?ix i - rr < length (take rs keys @ drop (rs + rr) keys)"
      using c len(2) unfolding t by simp
    ultimately show ?thesis by (metis nth_mem)
  qed
  ultimately show ?thesis using ok(1) len(1)
    by (intro exI [of _ "map (\<lambda>i. tmp ! ?ix i) [0..<length tmp]"]) simp
qed

text \<open>The start of range \<open>k\<close>, clamped; the hot range fits behind it.\<close>

abbreviation clamped_start :: "nat \<Rightarrow> nat \<Rightarrow> nat \<Rightarrow> nat \<Rightarrow> nat" where
  "clamped_start n start rr k \<equiv> min (hot_start n start (rr * k)) (n - rr)"

lemma skew_several_layout:
  assumes "hot_range (length keys) ratio = rr" "ratio \<le> 100" "length keys < 2 ^ 50"
  obtains tmp where "clamped_start (length keys) start rr k + rr \<le> length (sort keys)"
    "skew_layout (sort keys) (clamped_start (length keys) start rr k) rr = Inr tmp" "length tmp = length keys"
    "skew_several start ratio q dr keys k = skew_draw_keys q dr rr tmp"
proof -
  let ?rs = "clamped_start (length keys) start rr k"
  have rr: "rr \<le> length keys" using hot_range_le [OF assms(2,3)] assms(1) by simp
  then have le: "?rs + rr \<le> length (sort keys)" by (simp add: min_def) linarith
  from skew_layout_ok [OF this] obtain tmp where tmp: "skew_layout (sort keys) ?rs rr = Inr tmp"
    "tmp = take rr (drop ?rs (sort keys)) @ take ?rs (sort keys) @ drop (?rs + rr) (sort keys)" by blast
  have m: "(if rr \<le> n \<and> n - rr < s then n - rr else s) = min s (n - rr)" if "rr \<le> n" for s n :: nat
    using that by (auto simp: min_def)
  show thesis
  proof (rule that [OF le tmp(1)])
    show "length tmp = length keys" using le by (simp add: tmp(2))
    show "skew_several start ratio q dr keys k = skew_draw_keys q dr rr tmp"
      using tmp(1) by (simp only: skew_several_def Let_def length_sort assms(1) m [OF rr] bindE_Inr)
  qed
qed

lemma skew_several_ok:
  fixes start k :: nat
  assumes rr_def: "hot_range (length keys) ratio = rr" and r: "ratio \<le> 100" "length keys < 2 ^ 50"
    and dr: "draws_ok dr" and n: "0 < rr" "rr < length keys"
  defines "rs \<equiv> clamped_start (length keys) start rr k"
  shows "\<exists>ks. rs + rr \<le> length keys \<and> skew_several start ratio q dr keys k = Inr ks \<and>
      length ks = length keys \<and>
      (\<forall>i < length keys. ks ! i \<in> set (if hot_draw q dr i then take rr (drop rs (sort keys))
         else take rs (sort keys) @ drop (rs + rr) (sort keys)))"
proof -
  obtain tmp where tmp: "rs + rr \<le> length (sort keys)" "skew_layout (sort keys) rs rr = Inr tmp"
    "skew_several start ratio q dr keys k = skew_draw_keys q dr rr tmp"
    unfolding rs_def by (rule skew_several_layout [OF rr_def r])
  have n': "rr < length (sort keys)" "length (sort keys) < 2 ^ 50" using n(2) r(2) by simp_all
  from skew_pick_layout [OF tmp(1,2) dr n(1) n', of q, unfolded length_sort] obtain ks where
    ks: "skew_draw_keys q dr rr tmp = Inr ks" "length ks = length keys"
      "\<forall>i < length keys. ks ! i \<in> set (if hot_draw q dr i then take rr (drop rs (sort keys))
         else take rs (sort keys) @ drop (rs + rr) (sort keys))" by blast
  show ?thesis
    by (rule exI [of _ ks]) (use ks tmp(1,3) in simp)
qed

lemma skew_several_in:
  assumes "ratio \<le> 100" and "length keys < 2 ^ 50" and "draws_ok dr"
    and "0 < hot_range (length keys) ratio" and "hot_range (length keys) ratio < length keys"
  shows "\<exists>ks. skew_several start ratio q dr keys k = Inr ks \<and> length ks = length keys \<and> set ks \<subseteq> set keys"
proof -
  let ?rr = "hot_range (length keys) ratio"
  let ?rs = "clamped_start (length keys) start ?rr k"
  obtain ks where r: "skew_several start ratio q dr keys k = Inr ks" "length ks = length keys"
    and ks: "\<forall>i < length keys. ks ! i \<in> set (if hot_draw q dr i then take ?rr (drop ?rs (sort keys))
         else take ?rs (sort keys) @ drop (?rs + ?rr) (sort keys))"
    using skew_several_ok [OF HOL.refl assms] by blast
  have sub: "set (take n (drop d (sort keys))) \<subseteq> set keys" "set (take n (sort keys) @ drop d (sort keys)) \<subseteq> set keys" for n d
    by (auto dest!: in_set_takeD in_set_dropD)
  have sub': "x \<in> set (if b then take ?rr (drop ?rs (sort keys)) else take ?rs (sort keys) @ drop (?rs + ?rr) (sort keys)) \<Longrightarrow>
      x \<in> set keys" for b x
    using subsetD [OF sub(1) [of ?rr ?rs], of x] subsetD [OF sub(2) [of ?rs "?rs + ?rr"], of x] by (cases b) simp_all
  have "ks ! i \<in> set keys" if "i < length ks" for i
    by (rule sub' [where b = "hot_draw q dr i"]) (rule ks [rule_format, OF that [unfolded r(2)]])
  then have "set ks \<subseteq> set keys" by (auto simp: in_set_conv_nth)
  with r show ?thesis by blast
qed

section \<open>Properties\<close>

text \<open>every range for which the benchmarks call \<open>rand_int64\<close> is safe for every state of the
  generator: the 64-bit subtraction does not overflow (although the source warns that it may),
  rounding never carries the scaled number out of the interval, so the assertion holds, and two
  numbers are drawn. And the scrambled Zipfian generator stays in its interval whatever the inner
  generator returns, also where the hash's absolute value overflows.\<close>

theorem micro_random_in_range:
  assumes "(mn, mx) \<in> {(0, 255), (1, 2 ^ 63 - 1), (123, 123456789), (123, 1234567890), (123, 12345789)}"
    and "lo \<le> hi" and "hi - lo + 1 \<noteq> 0"
  shows "(\<exists>x. rand_int64 r mn mx = Inr (x, fr_step (fr_step r)) \<and> mn \<le> x \<and> x \<le> mx) \<and>
    (\<exists>y. scrambled_next lo hi z = Inr y \<and> lo \<le> y \<and> y \<le> hi)"
proof
  show "\<exists>x. rand_int64 r mn mx = Inr (x, fr_step (fr_step r)) \<and> mn \<le> x \<and> x \<le> mx"
    using assms(1) rand_int64_ranges [of r] by auto
  show "\<exists>y. scrambled_next lo hi z = Inr y \<and> lo \<le> y \<and> y \<le> hi"
    using scrambled_ok [OF assms(2,3)] .
qed

lemma micro_random_in_range_witness:
  "\<exists>x y. rand_int64 42 123 123456789 = Inr (x, fr_step (fr_step 42)) \<and> x \<le> 123456789 \<and>
    scrambled_next 10 19 7 = Inr y \<and> y \<le> 19"
  using micro_random_in_range [of 123 123456789 10 19 42 7] by auto

text \<open>The loader of a trace ends for every file whose first line is a positive step, and then
  at least one key per line is loaded and every loaded key is a multiple of the step; the keys of
  the trace that are not multiples are not loaded. With a step of zero it pushes keys for ever as
  soon as the trace has a positive key.\<close>

lemma trace_loader_ends:
  assumes "step \<noteq> 0"
  shows "(\<exists>ks. prepare_trace_data False n shuffle step ls = Some ks \<and> length ls \<le> length ks \<and>
      (\<forall>k\<in>set ks. unat step dvd unat (key_val k))) \<and>
    prepare_trace_data False n shuffle 0 (step # ls) = None"
proof
  have g: "on_grid step 0" by (simp add: on_grid_def)
  from trace_lines_ends [OF assms g, of "[]" ls]
  show "\<exists>ks. prepare_trace_data False n shuffle step ls = Some ks \<and> length ls \<le> length ks \<and>
      (\<forall>k\<in>set ks. unat step dvd unat (key_val k))"
    by (auto simp: prepare_trace_data_def on_grid_def)
  have "trace_fill 0 step 0 [] = None" using assms by (intro trace_fill_diverges) (simp_all add: word_gt_0)
  then show "prepare_trace_data False n shuffle 0 (step # ls) = None" by (simp add: prepare_trace_data_def)
qed

lemma trace_loader_ends_witness:
  "(\<exists>ks. prepare_trace_data False 5 id 10 [25, 7] = Some ks \<and> Key 25 \<notin> set ks) \<and>
    prepare_trace_data False 5 id 0 [10, 25, 7] = None"
proof -
  obtain ks where "prepare_trace_data False 5 id 10 [25, 7] = Some ks" "\<forall>k\<in>set ks. unat (10 :: u64) dvd unat (key_val k)"
    using trace_loader_ends [of 10 5 id "[25, 7]"] by auto
  moreover from this have "Key 25 \<notin> set ks" by auto
  ultimately show ?thesis using trace_loader_ends [of 10 5 id "[25, 7]"] by auto
qed

text \<open>C36: a range of a skewed workload, drawn from the distributions that the code builds: for percentages
  up to 100 and up to \<open>2 ^ 50\<close> keys the computation of the range in \<open>double\<close> never leaves the vector,
  and when at least one key but not every key is in the hot range, every position gets a key of the
  hot range (a contiguous piece of the sorted keys) or of the rest, as the draw says. When every key
  is in it (a ratio of 100), the distribution of the cold indexes has empty bounds, which is a fault; when no key is
  in it, the hot indexes are drawn up to \<open>2 ^ 64 - 1\<close>, so a hot draw beyond the vector is a read outside it.
  The version for a single range has no clamp: it faults whenever the start and the size add up to
  more than the vector.\<close>

theorem skewed_workload_hot:
  fixes start k :: nat
  assumes rr_def: "hot_range (length keys) ratio = rr" and r: "ratio \<le> 100" "length keys < 2 ^ 50"
    and dr: "draws_ok dr"
  defines "rs \<equiv> min (hot_start (length keys) start (rr * k)) (length keys - rr)"
  shows "(0 < rr \<and> rr < length keys \<longrightarrow>
      (\<exists>ks. rs + rr \<le> length keys \<and> skew_several start ratio q dr keys k = Inr ks \<and>
        length ks = length keys \<and>
        (\<forall>i < length keys. ks ! i \<in> set (if hot_draw q dr i then take rr (drop rs (sort keys))
           else take rs (sort keys) @ drop (rs + rr) (sort keys))))) \<and>
    (0 < rr \<and> rr = length keys \<longrightarrow> skew_several start ratio q dr keys k = Inl AssertFailed) \<and>
    (rr = 0 \<and> (\<exists>i < length keys. hot_draw q dr i \<and> length keys \<le> unat (gen2 dr i (0, - 1))) \<longrightarrow>
      skew_several start ratio q dr keys k = Inl OutOfBounds) \<and>
    (hot_start (length keys) start 0 + rr > length keys \<longrightarrow> skew_one start ratio q dr keys = Inl OutOfBounds)"
proof -
  have one: "skew_one start ratio q dr keys = Inl OutOfBounds" if "hot_start (length keys) start 0 + rr > length keys"
    using that by (simp add: skew_one_def Let_def skew_layout_def guardE_def rr_def)
  obtain tmp where tmp: "length tmp = length keys" "skew_several start ratio q dr keys k = skew_draw_keys q dr rr tmp"
    by (rule skew_several_layout [OF rr_def r])
  have "skew_several start ratio q dr keys k = Inl AssertFailed" if "0 < rr" "rr = length keys"
    using skew_draw_keys_all_hot [of tmp q dr] tmp that r(2) by simp
  moreover have "skew_several start ratio q dr keys k = Inl OutOfBounds"
    if "rr = 0" "\<exists>i < length keys. hot_draw q dr i \<and> length keys \<le> unat (gen2 dr i (0, - 1))"
    using skew_draw_keys_none_hot [of _ tmp q dr] tmp that by auto
  ultimately show ?thesis using skew_several_ok [OF rr_def r dr, of start k q] one unfolding rs_def by blast
qed

text \<open>A generator that draws the lower bound at even positions and the upper one at odd ones.\<close>

definition sample_draws :: skew_draws where
  "sample_draws = \<lparr>gen1 = (\<lambda>i (a, b). if even i then a else b), gen2 = (\<lambda>i (a, b). if even i then b else a)\<rparr>"

lemma sample_draws_ok: "draws_ok sample_draws"
  by (simp add: draws_ok_def sample_draws_def)

lemma skewed_workload_hot_witness:
  "let keys = [Key 4, Key 1, Key 3, Key 2] in
    (\<exists>ks. skew_several 75 50 90 sample_draws keys 0 = Inr ks \<and> length ks = 4 \<and> ks ! 0 \<in> {Key 3, Key 4} \<and>
       ks ! 1 \<in> {Key 1, Key 2}) \<and>
    skew_several 75 100 90 sample_draws keys 0 = Inl AssertFailed \<and>
    skew_several 75 0 90 sample_draws keys 0 = Inl OutOfBounds \<and>
    skew_one 75 50 90 sample_draws keys = Inl OutOfBounds"
proof -
  let ?keys = "[Key 4, Key 1, Key 3, Key 2]"
  have r: "hot_range (length ?keys) 50 = 2" "hot_range (length ?keys) 100 = 4" "hot_range (length ?keys) 0 = 0" by code_simp+
  have s: "hot_start (length ?keys) 75 0 = 3" "sort ?keys = [Key 1, Key 2, Key 3, Key 4]" by code_simp+
  have h: "hot_draw 90 sample_draws 0" "\<not> hot_draw 90 sample_draws 1" "unat (gen2 sample_draws 0 (0, - 1)) = 2 ^ 64 - 1"
    by (simp_all add: hot_draw_def sample_draws_def unat_u64_max)
  have len: "length ?keys < 2 ^ 50" by simp
  note th = skewed_workload_hot [OF _ _ len sample_draws_ok]
  have m: "min 3 (length ?keys - 2) = 2" "(0 :: nat) < 2 \<and> 2 < length ?keys" "2 * 0 = (0 :: nat)" by simp_all
  have "\<exists>ks. 2 + 2 \<le> length ?keys \<and> skew_several 75 50 90 sample_draws ?keys 0 = Inr ks \<and> length ks = length ?keys \<and>
      (\<forall>i < length ?keys. ks ! i \<in> set (if hot_draw 90 sample_draws i then take 2 (drop 2 (sort ?keys))
         else take 2 (sort ?keys) @ drop (2 + 2) (sort ?keys)))"
    using m(2) by (intro mp [OF conjunct1 [OF th [OF r(1), of 75 0 90, unfolded m(3) s(1) m(1)]]]) simp_all
  then obtain ks where 1: "skew_several 75 50 90 sample_draws ?keys 0 = Inr ks" "length ks = length ?keys"
    "\<And>i. i < length ?keys \<Longrightarrow> ks ! i \<in> set (if hot_draw 90 sample_draws i then take 2 (drop 2 (sort ?keys))
         else take 2 (sort ?keys) @ drop (2 + 2) (sort ?keys))" by blast
  have "ks ! 0 \<in> {Key 3, Key 4}" "ks ! 1 \<in> {Key 1, Key 2}"
    using 1(3) [of 0] 1(3) [of 1] h unfolding s(2) by simp_all
  note 1 = 1(1,2) this
  have 2: "skew_several 75 100 90 sample_draws ?keys 0 = Inl AssertFailed" using th [OF r(2), of 75 0 90] by simp
  have "\<exists>i < length ?keys. hot_draw 90 sample_draws i \<and> length ?keys \<le> unat (gen2 sample_draws i (0, - 1))"
    by (rule exI [of _ 0]) (simp add: h)
  with th [OF r(3), of 75 0 90] have 3: "skew_several 75 0 90 sample_draws ?keys 0 = Inl OutOfBounds" by blast
  have 4: "skew_one 75 50 90 sample_draws ?keys = Inl OutOfBounds" using th [OF r(1), of 75 0 90] s(1) by simp
  show ?thesis using 1 2 3 4 by (simp add: Let_def)
qed

end
