(* ===== verification/Ycsb.thy ===== *)
theory Ycsb
  imports MicroTables BenchProtocol HelperModel MicroData
begin

unbundle bit_operations_syntax

text \<open>
  The driver \<open>benchmark/synthetic/rw_ycsb.cpp\<close> over any of the tables: the operations a worker
  generates, its two loops as bodies of the shared protocol, and the run as a whole. The draws of
  \<open>std::mt19937\<close> and of the Zipfian generator are arguments. \<open>ANALYZE_LATENCY\<close> is off, its default;
  the epoch calls every 50 operations belong to Masstree's memory reclamation and are left out.
\<close>

section \<open>A worker's operations\<close>

datatype Op_Type = Op_read | Op_insert | Op_remove | Op_read_modify_write | Op_scan

type_synonym operation_t = "Op_Type \<times> Key"

record micro_cfg =
  target :: string
  fg_n :: nat
  read_ratio :: rat
  all_keys :: "Key list"
  value_len :: nat

text \<open>One round of the generating loop, and the loop: a round adds one operation.\<close>

definition ycsb_op ::
  "micro_cfg \<Rightarrow> Key list \<Rightarrow> rat \<Rightarrow> u64 \<Rightarrow> fault + operation_t" where
  "ycsb_op cfg op_keys d z =
     bindE (scrambled_next 0 (of_nat (length op_keys) - 1) z) (\<lambda>k_i.
     bindE (guardE Aborted (unat k_i < length (all_keys cfg))) (\<lambda>_.
     bindE (array_read op_keys (unat k_i)) (\<lambda>k.
     Inr (if d \<le> read_ratio cfg then Op_read else Op_insert, k))))"

function ycsb_ops ::
  "micro_cfg \<Rightarrow> Key list \<Rightarrow> (nat \<Rightarrow> rat) \<Rightarrow> (nat \<Rightarrow> u64) \<Rightarrow> operation_t list \<Rightarrow> fault + operation_t list" where
  "ycsb_ops cfg op_keys ds zs operations =
     (if length operations < 5 * length op_keys
      then case ycsb_op cfg op_keys (ds (length operations)) (zs (length operations)) of
             Inl e \<Rightarrow> Inl e
           | Inr op \<Rightarrow> ycsb_ops cfg op_keys ds zs (operations @ [op])
      else Inr operations)"
  by pat_completeness auto
termination
  by (relation "measure (\<lambda>(cfg, op_keys, ds, zs, operations). 5 * length op_keys - length operations)") auto

declare ycsb_ops.simps [simp del]

section \<open>The bodies\<close>

record ycsb_worker =
  operations :: "operation_t list"
  w_r :: u64
  w_cnt :: u64
  w_b :: bool
  w_op_i :: nat
  throughput :: u64

type_synonym ycsb_env = "(nat \<Rightarrow> rat) \<times> (nat \<Rightarrow> u64)"

definition thread_keys :: "micro_cfg \<Rightarrow> nat \<Rightarrow> Key list" where
  "thread_keys cfg thread_id =
     (let exist_key_n_per_thread = length (all_keys cfg) div fg_n cfg
      in take exist_key_n_per_thread (drop (thread_id * exist_key_n_per_thread) (all_keys cfg)))"

definition ycsb_start ::
  "'s tab_api \<Rightarrow> micro_cfg \<Rightarrow> nat \<Rightarrow> ycsb_env \<Rightarrow> 's \<Rightarrow> fault + 's \<times> ycsb_worker" where
  "ycsb_start api cfg thread_id env table =
     bindE (bind_to_physical_cores (int thread_id)) (\<lambda>_.
     let table = (if target cfg = ''smart'' \<or> target cfg = ''pac'' then tab_register_thread api table else table);
         r = set_seed0 (of_nat thread_id)
     in bindE (ycsb_ops cfg (thread_keys cfg thread_id) (fst env) (snd env) []) (\<lambda>ops.
        bindE (fg_prologue api table thread_id) (\<lambda>table.
        Inr (table, \<lparr>operations = ops, w_r = r, w_cnt = 1, w_b = False, w_op_i = 0, throughput = 0\<rparr>))))"

text \<open>The \<open>switch\<close> of both loops; \<open>hi\<close> is the upper bound of the values written.\<close>

definition ycsb_switch ::
  "'s tab_api \<Rightarrow> micro_cfg \<Rightarrow> int \<Rightarrow> nat \<Rightarrow> 's \<Rightarrow> ycsb_worker \<Rightarrow> fault + 's \<times> ycsb_worker" where
  "ycsb_switch api cfg hi thread_id table w =
     bindE (array_read (operations w) (w_op_i w)) (\<lambda>(op, k).
     let v = Value_brace (value_len cfg) 3333 in
     case op of
       Op_read \<Rightarrow>
         bindE (tab_get api table thread_id k v) (\<lambda>(b, v).
         Inr (table, w\<lparr>w_b := b, w_cnt := w_cnt w + (if b \<and> 333 <s val_of v then 1 else 0)\<rparr>))
     | Op_insert \<Rightarrow>
         bindE (rand_int64 (w_r w) 123 hi) (\<lambda>(x, r).
         bindE (tab_insert api table thread_id k (Value (val_padding v) (word_of_int x))) (\<lambda>(table, b).
         Inr (table, w\<lparr>w_r := r, w_b := b\<rparr>)))
     | _ \<Rightarrow> Inl Aborted)"

definition next_op :: "ycsb_worker \<Rightarrow> ycsb_worker" where
  "next_op w = w\<lparr>w_op_i := (let op_i = Suc (w_op_i w) in if op_i = length (operations w) then 0 else op_i)\<rparr>"

definition ycsb_warm ::
  "'s tab_api \<Rightarrow> micro_cfg \<Rightarrow> nat \<Rightarrow> 's \<Rightarrow> ycsb_worker \<Rightarrow> fault + 's \<times> ycsb_worker" where
  "ycsb_warm api cfg thread_id table w =
     bindE (ycsb_switch api cfg 1234567890 thread_id table w) (\<lambda>(table, w). Inr (table, next_op w))"

definition ycsb_turn :: "ycsb_worker \<Rightarrow> ycsb_worker" where
  "ycsb_turn w = w\<lparr>w_cnt := 1, w_op_i := 0\<rparr>"

definition ycsb_run ::
  "'s tab_api \<Rightarrow> micro_cfg \<Rightarrow> nat \<Rightarrow> rat \<Rightarrow> 's \<Rightarrow> ycsb_worker \<Rightarrow> fault + 's \<times> ycsb_worker" where
  "ycsb_run api cfg thread_id d table w =
     (let w = w\<lparr>w_cnt := w_cnt w + (if f64 (9 / 10) < d then 1 else 0)\<rparr> in
      bindE (ycsb_switch api cfg 123456789 thread_id table w) (\<lambda>(table, w).
      let w = next_op w in Inr (table, w\<lparr>throughput := throughput w + 1\<rparr>)))"

definition ycsb_body :: "'s tab_api \<Rightarrow> micro_cfg \<Rightarrow> ('s, ycsb_worker, ycsb_env) fg_body" where
  "ycsb_body api cfg = \<lparr>fg_start = ycsb_start api cfg, fg_warm = ycsb_warm api cfg, fg_turn = ycsb_turn,
     fg_run = ycsb_run api cfg, fg_stop = (\<lambda>i t. fg_epilogue api t i)\<rparr>"

section \<open>The operations generated\<close>

definition op_ok :: "Key set \<Rightarrow> operation_t \<Rightarrow> bool" where
  "op_ok K op \<longleftrightarrow> (fst op = Op_read \<or> fst op = Op_insert) \<and> snd op \<in> K"

lemma ycsb_op_ok:
  assumes "op_keys \<noteq> []" "length op_keys \<le> length (all_keys cfg)" "length op_keys < 2 ^ 64"
  shows "\<exists>op. ycsb_op cfg op_keys d z = Inr op \<and> op_ok (set op_keys) op"
proof -
  let ?mx = "of_nat (length op_keys) - 1 :: u64"
  have len: "unat (of_nat (length op_keys) :: u64) = length op_keys" using assms(3) by (rule unat_of_nat_u64)
  have nz: "(of_nat (length op_keys) :: u64) \<noteq> 0"
  proof
    assume "(of_nat (length op_keys) :: u64) = 0"
    with len assms(1) show False by simp
  qed
  then have mx: "unat ?mx = length op_keys - 1" using len by (simp add: unat_minus_one)
  obtain x where x: "scrambled_next 0 ?mx z = Inr x" "x \<le> ?mx"
    using scrambled_ok [of 0 ?mx z] nz by (auto simp: word_order.extremum)
  have "0 < length op_keys" using assms(1) by simp
  moreover have "unat x \<le> length op_keys - 1" using x(2) unfolding word_le_nat_alt mx .
  ultimately have "unat x < length op_keys" by linarith
  with x(1) assms(2) show ?thesis by (simp add: ycsb_op_def op_ok_def)
qed

lemma ycsb_ops_ok:
  assumes "op_keys \<noteq> []" "length op_keys \<le> length (all_keys cfg)" "length op_keys < 2 ^ 64"
    and "list_all (op_ok (set op_keys)) ops" "length ops \<le> 5 * length op_keys"
  shows "\<exists>ops'. ycsb_ops cfg op_keys ds zs ops = Inr ops' \<and> length ops' = 5 * length op_keys \<and>
    list_all (op_ok (set op_keys)) ops'"
  using assms(4,5)
proof (induction "5 * length op_keys - length ops" arbitrary: ops)
  case 0
  then show ?case by (subst ycsb_ops.simps) simp
next
  case (Suc n)
  obtain op where op: "ycsb_op cfg op_keys (ds (length ops)) (zs (length ops)) = Inr op" "op_ok (set op_keys) op"
    using ycsb_op_ok [OF assms(1-3)] by blast
  from Suc.hyps(1) [of "ops @ [op]"] Suc.hyps(2) Suc.prems op(2)
  have "\<exists>ops'. ycsb_ops cfg op_keys ds zs (ops @ [op]) = Inr ops' \<and> length ops' = 5 * length op_keys \<and>
    list_all (op_ok (set op_keys)) ops'" by simp
  then obtain ops' where "ycsb_ops cfg op_keys ds zs (ops @ [op]) = Inr ops'" "length ops' = 5 * length op_keys"
    "list_all (op_ok (set op_keys)) ops'" by blast
  moreover have "ycsb_ops cfg op_keys ds zs ops = ycsb_ops cfg op_keys ds zs (ops @ [op])"
  proof -
    have "length ops < 5 * length op_keys" using Suc.hyps(2) by linarith
    then show ?thesis using op(1) by (subst ycsb_ops.simps) simp
  qed
  ultimately show ?case by simp
qed

section \<open>The invariant of a run\<close>

text \<open>
  The configuration of a run: at most 55 threads, since more cannot be bound to cores, and at
  least one key for each.
\<close>

definition micro_cfg_ok :: "micro_cfg \<Rightarrow> bool" where
  "micro_cfg_ok cfg \<longleftrightarrow> fg_n cfg \<le> 55 \<and> fg_n cfg \<le> length (all_keys cfg) \<and> length (all_keys cfg) < 2 ^ 64"

definition value_ok :: "nat \<Rightarrow> u64 \<Rightarrow> bool" where
  "value_ok val_len x \<longleftrightarrow> x = val_of (default_val val_len) \<or> (123 \<le> uint x \<and> uint x \<le> 1234567890)"

definition ycsb_inv ::
  "('s \<Rightarrow> bool list \<Rightarrow> (Key \<rightharpoonup> u64) \<Rightarrow> bool) \<Rightarrow> micro_cfg \<Rightarrow> 's \<Rightarrow> bool list \<Rightarrow> bool" where
  "ycsb_inv J cfg t ins \<longleftrightarrow> micro_cfg_ok cfg \<and> length ins = fg_n cfg \<and>
     (\<exists>m. J t ins m \<and> dom m = set (all_keys cfg) \<and> (\<forall>x\<in>ran m. value_ok (value_len cfg) x))"

definition ycsb_wok :: "micro_cfg \<Rightarrow> nat \<Rightarrow> ycsb_worker \<Rightarrow> bool" where
  "ycsb_wok cfg i w \<longleftrightarrow> w_op_i w < length (operations w) \<and>
     list_all (op_ok (set (all_keys cfg))) (operations w) \<and>
     (w_op_i w \<noteq> 0 \<or> throughput w \<noteq> 0 \<longrightarrow> w_b w)"

lemma thread_keys_ok:
  assumes "micro_cfg_ok cfg" "i < fg_n cfg"
  shows "thread_keys cfg i \<noteq> []" "length (thread_keys cfg i) \<le> length (all_keys cfg)"
    "set (thread_keys cfg i) \<subseteq> set (all_keys cfg)"
proof -
  let ?n = "length (all_keys cfg)" let ?q = "?n div fg_n cfg"
  have q: "0 < ?q" using assms by (simp add: micro_cfg_ok_def div_greater_zero_iff)
  have "Suc i * ?q \<le> fg_n cfg * ?q" using assms(2) by (intro mult_right_mono) simp_all
  also have "\<dots> \<le> ?n" by simp
  finally have "i * ?q + ?q \<le> ?n" by simp
  then have "length (thread_keys cfg i) = ?q" by (simp add: thread_keys_def Let_def)
  with q show "thread_keys cfg i \<noteq> []" by auto
  show "length (thread_keys cfg i) \<le> length (all_keys cfg)" by (simp add: thread_keys_def Let_def)
  show "set (thread_keys cfg i) \<subseteq> set (all_keys cfg)"
    by (auto simp: thread_keys_def Let_def dest: in_set_takeD in_set_dropD)
qed

lemma next_op_ok:
  "ycsb_wok cfg i w \<Longrightarrow> w_b w \<Longrightarrow> ycsb_wok cfg i (next_op w)"
  by (auto simp: ycsb_wok_def next_op_def Let_def)

context micro_table
begin

lemma switch_ok:
  assumes "ycsb_inv inv cfg t ins" "i < length ins" "ins ! i" "ycsb_wok cfg i w"
    and hi: "hi = 123456789 \<or> hi = 1234567890"
  shows "\<exists>t' w'. ycsb_switch api cfg hi i t w = Inr (t', w') \<and> ycsb_inv inv cfg t' ins \<and>
    ycsb_wok cfg i w' \<and> w_b w' \<and> throughput w' = throughput w"
proof -
  obtain m where m: "inv t ins m" "dom m = set (all_keys cfg)" "\<forall>x\<in>ran m. value_ok (value_len cfg) x"
    using assms(1) by (auto simp: ycsb_inv_def)
  obtain op k where opk: "operations w ! w_op_i w = (op, k)" by fastforce
  have ok: "op = Op_read \<or> op = Op_insert" "k \<in> set (all_keys cfg)"
    using assms(4) opk by (auto simp: ycsb_wok_def op_ok_def list_all_length)
  have rd: "array_read (operations w) (w_op_i w) = Inr (op, k)"
    using assms(4) opk by (simp add: ycsb_wok_def)
  let ?v = "Value_brace (value_len cfg) 3333"
  show ?thesis
  proof (cases "op = Op_read")
    case True
    obtain x where "m k = Some x" using m(2) ok(2) by blast
    then obtain v' where "tab_get api t i k ?v = Inr (True, v')"
      using get_law [OF m(1) assms(2,3), of k ?v] by auto
    then show ?thesis using assms rd True by (auto simp: ycsb_switch_def ycsb_wok_def Let_def)
  next
    case False
    obtain x where x: "rand_int64 (w_r w) 123 hi = Inr (x, fr_step (fr_step (w_r w)))" "123 \<le> x" "x \<le> hi"
      using hi rand_int64_ranges(3,4) [of "w_r w"] by blast
    let ?x = "Value (val_padding ?v) (word_of_int x)"
    obtain t' m' where t': "tab_insert api t i k ?x = Inr (t', True)" "inv t' ins m'" "dom m' = insert k (dom m)"
      "\<forall>l y. m' l = Some y \<longrightarrow> m l = Some y \<or> l = k \<and> y = word_of_int x"
      using insert_law [OF m(1) assms(2,3), of k ?x] by auto
    have "uint (word_of_int x :: u64) = x" using x hi by (auto simp: uint_word_of_int_eq take_bit_eq_mod)
    then have "value_ok (value_len cfg) (word_of_int x)" using x hi by (auto simp: value_ok_def)
    then have "\<forall>y\<in>ran m'. value_ok (value_len cfg) y" using t'(4) m(3) by (fastforce simp: ran_def)
    moreover have "dom m' = set (all_keys cfg)" using t'(3) m(2) ok(2) by auto
    ultimately have "ycsb_inv inv cfg t' ins" using assms(1) t'(2) by (auto simp: ycsb_inv_def)
    then show ?thesis using assms(4) rd False ok(1) x(1) t'(1)
      by (auto simp: ycsb_switch_def ycsb_wok_def Let_def)
  qed
qed

text \<open>Whatever a worker issues next finds its key or is written, and the invariant stays.\<close>

lemma run_ok:
  assumes "ycsb_inv inv cfg t ins" "i < length ins" "ins ! i" "ycsb_wok cfg i w"
  shows "\<exists>t' w'. ycsb_run api cfg i d t w = Inr (t', w') \<and> ycsb_inv inv cfg t' ins \<and>
    ycsb_wok cfg i w' \<and> w_b w' \<and> throughput w' = throughput w + 1"
proof -
  let ?w = "w\<lparr>w_cnt := w_cnt w + (if f64 (9 / 10) < d then 1 else 0)\<rparr>"
  have "ycsb_wok cfg i ?w" using assms(4) by (simp add: ycsb_wok_def)
  from switch_ok [OF assms(1-3) this, of 123456789] obtain t' w' where
    r: "ycsb_switch api cfg 123456789 i t ?w = Inr (t', w')" "ycsb_inv inv cfg t' ins" "ycsb_wok cfg i w'" "w_b w'"
      "throughput w' = throughput w" by auto
  have "ycsb_wok cfg i ((next_op w')\<lparr>throughput := throughput (next_op w') + 1\<rparr>)"
    using next_op_ok [OF r(3,4)] r(4) by (simp add: ycsb_wok_def next_op_def)
  with r show ?thesis by (simp add: ycsb_run_def Let_def next_op_def)
qed

lemma warm_ok:
  assumes "ycsb_inv inv cfg t ins" "i < length ins" "ins ! i" "ycsb_wok cfg i w"
  shows "\<exists>t' w'. ycsb_warm api cfg i t w = Inr (t', w') \<and> ycsb_inv inv cfg t' ins \<and>
    ycsb_wok cfg i w' \<and> w_b w'"
proof -
  from switch_ok [OF assms, of 1234567890] obtain t' w' where
    r: "ycsb_switch api cfg 1234567890 i t w = Inr (t', w')" "ycsb_inv inv cfg t' ins" "ycsb_wok cfg i w'" "w_b w'"
    by auto
  with next_op_ok [OF r(3,4)] show ?thesis by (simp add: ycsb_warm_def next_op_def)
qed

lemma start_ok:
  assumes "ycsb_inv inv cfg t ins" "i < length ins" "\<not> ins ! i"
  shows "\<exists>t' w. ycsb_start api cfg i env t = Inr (t', w) \<and> ycsb_inv inv cfg t' (ins[i := True]) \<and> ycsb_wok cfg i w"
proof -
  obtain m where m: "inv t ins m" "dom m = set (all_keys cfg)" "\<forall>x\<in>ran m. value_ok (value_len cfg) x"
    and cfg: "micro_cfg_ok cfg" "i < fg_n cfg" "length ins = fg_n cfg"
    using assms by (auto simp: ycsb_inv_def)
  have "int i < 55" using cfg by (simp add: micro_cfg_ok_def)
  then obtain c where c: "bind_to_physical_cores (int i) = Inr c"
    using core_binding_injective [of 0] by (metis of_nat_0_le_iff)
  let ?t = "if target cfg = ''smart'' \<or> target cfg = ''pac'' then tab_register_thread api t else t"
  have "inv ?t ins m" using m(1) register_law by simp
  from prologue_law [OF this assms(2,3)] obtain t' where
    t': "fg_prologue api ?t i = Inr t'" "inv t' (ins[i := True]) m" by blast
  note tk = thread_keys_ok [OF cfg(1,2)]
  have "length (thread_keys cfg i) < 2 ^ 64" using tk(2) cfg(1) by (simp add: micro_cfg_ok_def)
  from ycsb_ops_ok [OF tk(1,2) this, of "[]" "fst env" "snd env"] obtain ops where
    ops: "ycsb_ops cfg (thread_keys cfg i) (fst env) (snd env) [] = Inr ops"
      "length ops = 5 * length (thread_keys cfg i)" "list_all (op_ok (set (thread_keys cfg i))) ops" by auto
  have "list_all (op_ok (set (all_keys cfg))) ops"
    using ops(3) tk(3) by (auto simp: list_all_iff op_ok_def)
  moreover have "0 < length ops" using ops(2) tk(1) by simp
  ultimately show ?thesis using c t' ops(1) m cfg
    by (auto simp: ycsb_start_def Let_def ycsb_inv_def ycsb_wok_def)
qed

end

sublocale micro_table \<subseteq> ycsb: fg_safe "ycsb_body api cfg" "ycsb_inv inv cfg" "ycsb_wok cfg" for cfg
proof
  fix t ins i w d env assume t: "ycsb_inv inv cfg t ins" "i < length ins"
  show "\<not> ins ! i \<Longrightarrow> \<exists>t' w. fg_start (ycsb_body api cfg) i env t = Inr (t', w) \<and>
      ycsb_inv inv cfg t' (ins[i := True]) \<and> ycsb_wok cfg i w"
    using start_ok [OF t] by (simp add: ycsb_body_def)
  assume i: "ins ! i"
  show "ycsb_wok cfg i w \<Longrightarrow> \<exists>t' w'. fg_warm (ycsb_body api cfg) i t w = Inr (t', w') \<and>
      ycsb_inv inv cfg t' ins \<and> ycsb_wok cfg i w'"
    using warm_ok [OF t i] by (fastforce simp: ycsb_body_def)
  show "ycsb_wok cfg i w \<Longrightarrow> \<exists>t' w'. fg_run (ycsb_body api cfg) i d t w = Inr (t', w') \<and>
      ycsb_inv inv cfg t' ins \<and> ycsb_wok cfg i w'"
    using run_ok [OF t i] by (fastforce simp: ycsb_body_def)
  obtain m where m: "inv t ins m" "dom m = set (all_keys cfg)" "\<forall>x\<in>ran m. value_ok (value_len cfg) x"
    "micro_cfg_ok cfg" "length ins = fg_n cfg" using t(1) by (auto simp: ycsb_inv_def)
  with epilogue_law [OF m(1) t(2) i]
  show "\<exists>t'. fg_stop (ycsb_body api cfg) i t = Inr t' \<and> ycsb_inv inv cfg t' (ins[i := False])"
    by (auto simp: ycsb_body_def ycsb_inv_def)
next
  fix i w assume "ycsb_wok cfg i w"
  then show "ycsb_wok cfg i (fg_turn (ycsb_body api cfg) w)"
    by (auto simp: ycsb_body_def ycsb_turn_def ycsb_wok_def)
qed

text \<open>
  What every state of a run promises: the table holds exactly the keys loaded, with values that
  the driver wrote, and whatever a measuring worker issues next reports success and is counted
  once.
\<close>

definition never_misses ::
  "'s tab_api \<Rightarrow> ('s \<Rightarrow> bool list \<Rightarrow> (Key \<rightharpoonup> u64) \<Rightarrow> bool) \<Rightarrow> micro_cfg \<Rightarrow> ('s, ycsb_worker) bench \<Rightarrow> bool" where
  "never_misses api J cfg b \<longleftrightarrow>
     (\<exists>m. J (b_table b) (map busy (b_fg b)) m \<and> dom m = set (all_keys cfg) \<and>
       (\<forall>x\<in>ran m. value_ok (value_len cfg) x)) \<and>
     (\<forall>i w d. i < length (b_fg b) \<and> b_fg b ! i = Measured w \<longrightarrow>
       (\<exists>t' w'. ycsb_run api cfg i d (b_table b) w = Inr (t', w') \<and> w_b w' \<and> throughput w' = throughput w + 1))"

context micro_table
begin

lemma ycsb_inv_init:
  assumes "inv t (replicate (fg_n cfg) False) m" "dom m = set ks" "ran m \<subseteq> {val_of (default_val (value_len cfg))}"
    and "micro_cfg_ok cfg" "mset (all_keys cfg) = mset ks"
  shows "ycsb_inv inv cfg t (replicate (fg_n cfg) False)"
proof -
  have "\<forall>x\<in>ran m. value_ok (value_len cfg) x" using assms(3) by (auto simp: value_ok_def)
  with assms(1,2,4) mset_eq_setD [OF assms(5)] show ?thesis by (auto simp: ycsb_inv_def)
qed

lemma reach_never_misses:
  assumes "ycsb_inv inv cfg t (replicate (fg_n cfg) False)"
    and "bench_reach (ycsb_body api cfg) (bench_init (fg_n cfg) t) r"
  shows "\<exists>b. r = Inr b \<and> bench_ok b \<and> ycsb_inv inv cfg (b_table b) (map busy (b_fg b)) \<and>
    never_misses api inv cfg b"
proof -
  obtain b where b: "r = Inr b" "ycsb_inv inv cfg (b_table b) (map busy (b_fg b))" "bench_ok b"
    "\<forall>i < length (b_fg b). \<forall>w. fg_data (b_fg b ! i) = Some w \<longrightarrow> ycsb_wok cfg i w"
    using ycsb.run_safe [OF assms] by blast
  have "\<exists>t' w'. ycsb_run api cfg i d (b_table b) w = Inr (t', w') \<and> w_b w' \<and> throughput w' = throughput w + 1"
    if "i < length (b_fg b)" "b_fg b ! i = Measured w" for i w d
    using run_ok [OF b(2), of i w d] b(4) that by force
  with b(2) have "never_misses api inv cfg b" unfolding never_misses_def ycsb_inv_def by blast
  with b(1-3) show ?thesis by blast
qed

lemma loaded_never_misses:
  assumes "inv t (replicate (fg_n cfg) False) m" "dom m = set ks" "ran m \<subseteq> {val_of (default_val (value_len cfg))}"
    and "micro_cfg_ok cfg" "mset (all_keys cfg) = mset ks"
  shows "\<forall>r. bench_reach (ycsb_body api cfg) (bench_init (fg_n cfg) t) r \<longrightarrow>
    (\<exists>b. r = Inr b \<and> never_misses api inv cfg b)"
  using reach_never_misses [OF ycsb_inv_init [OF assms]] by blast

text \<open>The run can miss its window, and then never ends.\<close>

lemma ycsb_window:
  assumes "ycsb_inv inv cfg t (replicate (fg_n cfg) False)"
  shows "\<exists>b. bench_reach (ycsb_body api cfg) (bench_init (fg_n cfg) t) (Inr b) \<and> length (b_fg b) = fg_n cfg \<and>
    (\<forall>i < fg_n cfg. missed i b)"
    and "bench_reach (ycsb_body api cfg) (bench_init (fg_n cfg) t) (Inr b) \<Longrightarrow> b_main b = Joining \<Longrightarrow>
      (\<exists>b'. bench_reach (ycsb_body api cfg) b (Inr b') \<and> b_main b' = Joined) \<longleftrightarrow>
      (\<forall>i < length (b_fg b). \<not> is_Warmup (b_fg b ! i))"
proof -
  show "\<exists>b. bench_reach (ycsb_body api cfg) (bench_init (fg_n cfg) t) (Inr b) \<and> length (b_fg b) = fg_n cfg \<and>
      (\<forall>i < fg_n cfg. missed i b)" by (rule ycsb.window_missed [OF assms])
  assume b: "bench_reach (ycsb_body api cfg) (bench_init (fg_n cfg) t) (Inr b)" "b_main b = Joining"
  have ok: "bench_ok b" "ycsb.safe cfg b"
    using bench_reach_ok [OF b(1) bench_init_ok] ycsb.reach_safe [OF b(1) ycsb.safe_init [OF assms]] by auto
  have nr: "\<not> running b" "list_all begun (b_fg b)" using ok(1) b(2) by (simp_all add: bench_ok_def)
  show "(\<exists>b'. bench_reach (ycsb_body api cfg) b (Inr b') \<and> b_main b' = Joined) \<longleftrightarrow>
      (\<forall>i < length (b_fg b). \<not> is_Warmup (b_fg b ! i))"
  proof
    assume "\<exists>b'. bench_reach (ycsb_body api cfg) b (Inr b') \<and> b_main b' = Joined"
    then obtain b' where b': "bench_reach (ycsb_body api cfg) b (Inr b')" "b_main b' = Joined" by blast
    show "\<forall>i < length (b_fg b). \<not> is_Warmup (b_fg b ! i)"
    proof (intro allI impI notI)
      fix i assume "i < length (b_fg b)" "is_Warmup (b_fg b ! i)"
      then have "missed i b" using b(2) nr(1) by (simp add: missed_def)
      from missed_for_ever [OF b'(1) this] b'(2) show False by (simp add: missed_def)
    qed
  next
    assume "\<forall>i < length (b_fg b). \<not> is_Warmup (b_fg b ! i)"
    then have "list_all (\<lambda>p. is_Measured p \<or> is_Finished p) (b_fg b)"
      using nr(2) unfolding list_all_length by (metis fg_phase.exhaust_disc)
    then show "\<exists>b'. bench_reach (ycsb_body api cfg) b (Inr b') \<and> b_main b' = Joined"
      by (rule ycsb.can_join [OF ok(2) b(2) nr(1)])
  qed
qed

end

text \<open>SMART does not miss either.\<close>

lemma ycsb_smart_never_misses:
  assumes l: "micro_smart q ok cont" and "ok (getInstance (fg_n cfg))" and "cont (getInstance (fg_n cfg)) = Map.empty"
    and "micro_cfg_ok cfg" and "mset (all_keys cfg) = mset ks"
  shows "\<exists>t. prepare_smart q junk getInstance c (fg_n cfg) (value_len cfg) ks = Inr t \<and>
    (\<forall>r. bench_reach (ycsb_body (tab_sm q junk) cfg) (bench_init (fg_n cfg) t) r \<longrightarrow>
      (\<exists>b. r = Inr b \<and> never_misses (tab_sm q junk) (sm_inv ok cont) cfg b))"
proof -
  obtain t m where t: "prepare_smart q junk getInstance c (fg_n cfg) (value_len cfg) ks = Inr t"
    "\<And>ins. sm_inv ok cont t ins m" "dom m = set ks" "ran m \<subseteq> {val_of (default_val (value_len cfg))}"
    using micro_smart.prepare_ok [where getInstance = getInstance, OF l assms(2,3)] by blast
  from t(1) micro_table.loaded_never_misses [OF micro_smart.is_table [OF l] t(2-4) assms(4,5)]
  show ?thesis by blast
qed

section \<open>Properties\<close>

text \<open>C4: the YCSB benchmark over Masstree never misses: for any Masstree that is an ordered map, any
  keys (loaded in any order, up to 55 threads and at least one key for each), any random draws and
  any interleaving of the threads, loading succeeds and no reachable state is a fault; the table
  always holds exactly the keys loaded, with values that the driver wrote; and whatever operation
  a measuring worker issues next, on whatever state, reports success and is counted once.\<close>

theorem ycsb_masstree_never_misses:
  assumes q: "masstree_contract q ok cont" and "ok (initialize c)" and "cont (initialize c) = os_empty"
    and "micro_cfg_ok cfg" and "mset (all_keys cfg) = mset ks"
  shows "\<exists>t. prepare_masstree q initialize c (value_len cfg) ks = Inr t \<and>
    (\<forall>r. bench_reach (ycsb_body (tab_mt q) cfg) (bench_init (fg_n cfg) t) r \<longrightarrow>
      (\<exists>b. r = Inr b \<and> never_misses (tab_mt q) (mt_inv ok cont) cfg b))"
proof -
  have l: "micro_masstree q ok cont" using q by (rule micro_masstree.intro)
  note mt = micro_masstree.is_table [OF l]
  obtain t m where t: "prepare_masstree q initialize c (value_len cfg) ks = Inr t" "\<And>ins. mt_inv ok cont t ins m"
    "dom m = set ks" "ran m \<subseteq> {val_of (default_val (value_len cfg))}"
    using micro_masstree.prepare_ok [where initialize = initialize, OF l assms(2,3), of "value_len cfg" ks] by blast
  from t(1) micro_table.loaded_never_misses [OF mt t(2-4) assms(4,5)] show ?thesis by blast
qed

definition sample_cfg :: micro_cfg where
  "sample_cfg = \<lparr>target = ''masstree'', fg_n = 2, read_ratio = 1 / 2,
     all_keys = [Key 3, Key 1, Key 2], value_len = 0\<rparr>"

lemma sample_cfg_ok: "micro_cfg_ok sample_cfg" "mset (all_keys sample_cfg) = mset [Key 1, Key 2, Key 3]"
  by (simp_all add: micro_cfg_ok_def sample_cfg_def)

lemma ycsb_masstree_never_misses_witness:
  "\<exists>t. prepare_masstree os_api (\<lambda>_. os_empty) 0 0 [Key 1, Key 2, Key 3] = Inr t \<and>
    \<not> bench_reach (ycsb_body (tab_mt os_api) sample_cfg) (bench_init 2 t) (Inl Aborted)"
  using ycsb_masstree_never_misses [where initialize = "\<lambda>_. os_empty" and c = 0, OF os_api_contract _ _ sample_cfg_ok]
  by (auto simp: sample_cfg_def)

text \<open>C13: the same over a wormhole, where every thread must hold a reference while it works: with any
  wormhole that keeps its contract the loader and the threads take and return their references in
  step, so that no operation runs without one, and when the main thread has joined all threads no
  reference is left.\<close>

theorem ycsb_wormhole_never_misses:
  assumes q: "wormhole_contract q ok cont refs"
    and "ok (create c)" and "refs (create c) = {#}" and "cont (create c) = os_empty"
    and "micro_cfg_ok cfg" and "mset (all_keys cfg) = mset ks" and "0 < fg_n cfg"
  shows "\<exists>t. prepare_wormhole q create (fg_n cfg) c (value_len cfg) ks = Inr t \<and>
    (\<forall>r. bench_reach (ycsb_body (tab_wh q) cfg) (bench_init (fg_n cfg) t) r \<longrightarrow>
      (\<exists>b. r = Inr b \<and> never_misses (tab_wh q) (wh_inv ok cont refs) cfg b \<and>
        (b_main b = Joined \<longrightarrow> refs (wh_ptr (b_table b)) = {#})))"
proof -
  have l: "micro_wormhole q ok cont refs" using q by (rule micro_wormhole.intro)
  note wh = micro_wormhole.is_table [OF l]
  obtain t m where t: "prepare_wormhole q create (fg_n cfg) c (value_len cfg) ks = Inr t"
    "wh_inv ok cont refs t (replicate (fg_n cfg) False) m"
    "dom m = set ks" "ran m \<subseteq> {val_of (default_val (value_len cfg))}"
    using micro_wormhole.prepare_ok [where create = create, OF l assms(2-4,7), of "value_len cfg" ks] by blast
  have i: "ycsb_inv (wh_inv ok cont refs) cfg t (replicate (fg_n cfg) False)"
    using micro_table.ycsb_inv_init [OF wh t(2-4) assms(5,6)] .
  have "\<exists>b. r = Inr b \<and> never_misses (tab_wh q) (wh_inv ok cont refs) cfg b \<and>
        (b_main b = Joined \<longrightarrow> refs (wh_ptr (b_table b)) = {#})"
    if r: "bench_reach (ycsb_body (tab_wh q) cfg) (bench_init (fg_n cfg) t) r" for r
  proof -
    obtain b where b: "r = Inr b" "bench_ok b" "ycsb_inv (wh_inv ok cont refs) cfg (b_table b) (map busy (b_fg b))"
      "never_misses (tab_wh q) (wh_inv ok cont refs) cfg b"
      using micro_table.reach_never_misses [OF wh i r] by blast
    have "refs (wh_ptr (b_table b)) = {#}" if "b_main b = Joined"
    proof -
      have "list_all is_Finished (b_fg b)" using b(2) that by (simp add: bench_ok_def)
      then have "map busy (b_fg b) = replicate (length (b_fg b)) False"
        by (intro replicate_eqI) (auto simp: list_all_iff is_Finished_def)
      with b(3) obtain m where "wh_inv ok cont refs (b_table b) (replicate (length (b_fg b)) False) m"
        by (auto simp: ycsb_inv_def)
      then show ?thesis by (rule micro_wormhole.no_refs_left [OF l])
    qed
    with b show ?thesis by blast
  qed
  with t(1) show ?thesis by blast
qed

lemma ycsb_wormhole_never_misses_witness:
  "\<exists>t. prepare_wormhole wh_model_api (\<lambda>_. (os_empty, {#})) 2 0 0 [Key 1, Key 2, Key 3] = Inr t \<and>
    \<not> bench_reach (ycsb_body (tab_wh wh_model_api) sample_cfg) (bench_init 2 t) (Inl OutOfBounds)"
  using ycsb_wormhole_never_misses [where create = "\<lambda>_. (os_empty, {#})" and c = 0,
      OF wh_model_contract _ _ _ sample_cfg_ok]
  by (auto simp: sample_cfg_def)

text \<open>C14: the run may never end: from every loaded table a state can be reached in which the main
  thread has opened and closed the measuring window and waits for its threads, while they are
  still in their warm-up loops; no step ever leads from there to the end. And that is the only
  way to hang: from any state in which the main thread is waiting, the end can be reached exactly
  if no thread is still warming up.\<close>

theorem ycsb_window_missed:
  assumes q: "masstree_contract q ok cont" and "ok (initialize c)" and "cont (initialize c) = os_empty"
    and "micro_cfg_ok cfg" and "mset (all_keys cfg) = mset ks" and "0 < fg_n cfg"
    and t: "prepare_masstree q initialize c (value_len cfg) ks = Inr t"
  shows "(\<exists>b. bench_reach (ycsb_body (tab_mt q) cfg) (bench_init (fg_n cfg) t) (Inr b) \<and> b_main b = Joining \<and>
      \<not> (\<exists>b'. bench_reach (ycsb_body (tab_mt q) cfg) b (Inr b') \<and> b_main b' = Joined)) \<and>
    (\<forall>b. bench_reach (ycsb_body (tab_mt q) cfg) (bench_init (fg_n cfg) t) (Inr b) \<and> b_main b = Joining \<longrightarrow>
      (\<exists>b'. bench_reach (ycsb_body (tab_mt q) cfg) b (Inr b') \<and> b_main b' = Joined) =
      (\<forall>i < length (b_fg b). \<not> is_Warmup (b_fg b ! i)))"
proof -
  have l: "micro_masstree q ok cont" using q by (rule micro_masstree.intro)
  note mt = micro_masstree.is_table [OF l]
  obtain m where "\<And>ins. mt_inv ok cont t ins m" "dom m = set ks" "ran m \<subseteq> {val_of (default_val (value_len cfg))}"
    using micro_masstree.prepare_ok [where initialize = initialize, OF l assms(2,3), of "value_len cfg" ks] t by auto
  then have i: "ycsb_inv (mt_inv ok cont) cfg t (replicate (fg_n cfg) False)"
    using micro_table.ycsb_inv_init [OF mt _ _ _ assms(4,5)] by blast
  note w = micro_table.ycsb_window [OF mt i]
  from w(1) obtain b where b: "bench_reach (ycsb_body (tab_mt q) cfg) (bench_init (fg_n cfg) t) (Inr b)"
    "length (b_fg b) = fg_n cfg" "\<forall>i < fg_n cfg. missed i b" by blast
  then have "b_main b = Joining" "is_Warmup (b_fg b ! 0)" using assms(6) by (auto simp: missed_def)
  moreover from this w(2) [OF b(1)] b(2) assms(6)
  have "\<not> (\<exists>b'. bench_reach (ycsb_body (tab_mt q) cfg) b (Inr b') \<and> b_main b' = Joined)" by auto
  ultimately show ?thesis using b(1) w(2) by blast
qed

lemma ycsb_window_missed_witness:
  "\<exists>t b. bench_reach (ycsb_body (tab_mt os_api) sample_cfg) (bench_init 2 t) (Inr b) \<and> b_main b = Joining \<and>
      \<not> (\<exists>b'. bench_reach (ycsb_body (tab_mt os_api) sample_cfg) b (Inr b') \<and> b_main b' = Joined)"
proof -
  obtain t where t: "prepare_masstree os_api (\<lambda>_. os_empty) 0 (value_len sample_cfg) [Key 1, Key 2, Key 3] = Inr t"
    using mt_model.prepare_ok [of "\<lambda>_. os_empty" 0 "value_len sample_cfg" "[Key 1, Key 2, Key 3]"]
    by (auto simp: id_def)
  from ycsb_window_missed [where initialize = "\<lambda>_. os_empty" and c = 0, OF os_api_contract _ _ sample_cfg_ok _ t]
  show ?thesis by (auto simp: sample_cfg_def)
qed

end
