(* ===== verification/TraceReplay.thy ===== *)
theory TraceReplay
  imports Ycsb
begin

unbundle bit_operations_syntax

text \<open>
  The driver \<open>benchmark/real_world/real_world_trace.cpp\<close>: the parser of a trace
  (\<open>generate_workload\<close> of \<open>micro_common.h\<close>), the replay of its operations as bodies of the shared
  protocol, and the reference of both drivers: the same driver over a partial map. Text is a list
  of bytes; an exception of the standard library ends the program.
\<close>

section \<open>Parsing a trace\<close>

definition is_space :: "byte \<Rightarrow> bool" where
  "is_space c \<longleftrightarrow> c = 32 \<or> (9 \<le> c \<and> c \<le> 13)"

definition is_digit :: "byte \<Rightarrow> bool" where
  "is_digit c \<longleftrightarrow> 48 \<le> c \<and> c \<le> 57"

definition dec_val :: "byte list \<Rightarrow> nat" where
  "dec_val ds = foldl (\<lambda>n c. 10 * n + (unat c - 48)) 0 ds"

text \<open>\<open>std::stoull\<close>: white space, a sign, digits; whatever follows is ignored.\<close>

definition stoull :: "byte list \<Rightarrow> fault + u64" where
  "stoull s =
     (let s = dropWhile is_space s;
          neg = (s \<noteq> [] \<and> hd s = 45);
          s = (if s \<noteq> [] \<and> (hd s = 45 \<or> hd s = 43) then tl s else s);
          ds = takeWhile is_digit s
      in bindE (guardE Aborted (ds \<noteq> [] \<and> dec_val ds < 2 ^ 64)) (\<lambda>_.
         Inr (if neg then - of_nat (dec_val ds) else of_nat (dec_val ds))))"

text \<open>One line: a type character, a separator, the key up to the next comma.\<close>

definition trace_op :: "byte list \<Rightarrow> fault + operation_t" where
  "trace_op line =
     bindE (guardE Aborted (2 \<le> length line)) (\<lambda>_.
     bindE (stoull (takeWhile (\<lambda>c. c \<noteq> 44) (drop 2 line))) (\<lambda>key.
     Inr (if line ! 0 = 49 then Op_insert else Op_read, Key key)))"

fun generate_workload :: "byte list list \<Rightarrow> fault + operation_t list" where
  "generate_workload [] = Inr []"
| "generate_workload (line # ls) =
     bindE (trace_op line) (\<lambda>op. bindE (generate_workload ls) (\<lambda>operations. Inr (op # operations)))"

section \<open>The replay\<close>

text \<open>The pieces of the trace: what the division leaves over is not replayed.\<close>

definition trace_ops :: "micro_cfg \<Rightarrow> operation_t list \<Rightarrow> nat \<Rightarrow> operation_t list" where
  "trace_ops cfg ops worker_i =
     (let n = length ops div fg_n cfg in take n (drop (worker_i * n) ops))"

definition trace_start ::
  "'s tab_api \<Rightarrow> micro_cfg \<Rightarrow> operation_t list \<Rightarrow> nat \<Rightarrow> unit \<Rightarrow> 's \<Rightarrow> fault + 's \<times> ycsb_worker" where
  "trace_start api cfg ops thread_id env table =
     bindE (bind_to_physical_cores (int thread_id)) (\<lambda>_.
     let table = (if target cfg = ''pac'' then tab_register_thread api table else table);
         r = set_seed0 (of_nat thread_id)
     in bindE (fg_prologue api table thread_id) (\<lambda>table.
        Inr (table, \<lparr>operations = trace_ops cfg ops thread_id, w_r = r, w_cnt = 1, w_b = False, w_op_i = 0,
                    throughput = 0\<rparr>)))"

definition trace_switch ::
  "'s tab_api \<Rightarrow> micro_cfg \<Rightarrow> nat \<Rightarrow> 's \<Rightarrow> ycsb_worker \<Rightarrow> fault + 's \<times> ycsb_worker" where
  "trace_switch api cfg thread_id table w =
     bindE (array_read (operations w) (w_op_i w)) (\<lambda>(op, k).
     let v = Value_brace (value_len cfg) 3333 in
     case op of
       Op_read \<Rightarrow>
         bindE (tab_get api table thread_id k v) (\<lambda>(b, v). Inr (table, w\<lparr>w_b := b\<rparr>))
     | Op_insert \<Rightarrow>
         bindE (rand_int64 (w_r w) 123 123456789) (\<lambda>(x, r).
         bindE (tab_insert api table thread_id k (Value (val_padding v) (word_of_int x))) (\<lambda>(table, b).
         Inr (table, w\<lparr>w_r := r, w_b := b\<rparr>)))
     | Op_remove \<Rightarrow>
         bindE (tab_remove api table thread_id k) (\<lambda>(table, b). Inr (table, w\<lparr>w_b := b\<rparr>))
     | _ \<Rightarrow> Inr (table, w))"

definition trace_warm ::
  "'s tab_api \<Rightarrow> micro_cfg \<Rightarrow> nat \<Rightarrow> 's \<Rightarrow> ycsb_worker \<Rightarrow> fault + 's \<times> ycsb_worker" where
  "trace_warm api cfg thread_id table w =
     bindE (trace_switch api cfg thread_id table w) (\<lambda>(table, w). Inr (table, next_op w))"

text \<open>The measured loop goes on in the trace where the warm-up stopped.\<close>

definition trace_turn :: "ycsb_worker \<Rightarrow> ycsb_worker" where
  "trace_turn w = w\<lparr>w_cnt := 1\<rparr>"

definition trace_run ::
  "'s tab_api \<Rightarrow> micro_cfg \<Rightarrow> nat \<Rightarrow> rat \<Rightarrow> 's \<Rightarrow> ycsb_worker \<Rightarrow> fault + 's \<times> ycsb_worker" where
  "trace_run api cfg thread_id d table w =
     (let w = w\<lparr>w_cnt := w_cnt w + (if f64 (9 / 10) < d then 1 else 0)\<rparr> in
      bindE (trace_switch api cfg thread_id table w) (\<lambda>(table, w).
      let w = next_op w in Inr (table, w\<lparr>throughput := throughput w + 1\<rparr>)))"

definition trace_body ::
  "'s tab_api \<Rightarrow> micro_cfg \<Rightarrow> operation_t list \<Rightarrow> ('s, ycsb_worker, unit) fg_body" where
  "trace_body api cfg ops = \<lparr>fg_start = trace_start api cfg ops, fg_warm = trace_warm api cfg,
     fg_turn = trace_turn, fg_run = trace_run api cfg, fg_stop = (\<lambda>i t. fg_epilogue api t i)\<rparr>"

section \<open>The reference table\<close>

definition map_tab :: "(Key \<rightharpoonup> u64) tab_api" where
  "map_tab = \<lparr>tab_register_thread = id,
     fg_prologue = (\<lambda>m i. Inr m), fg_epilogue = (\<lambda>m i. Inr m),
     tab_get = (\<lambda>m i k v. Inr (case m k of None \<Rightarrow> (False, v) | Some x \<Rightarrow> (True, Value (val_padding v) x))),
     tab_insert = (\<lambda>m i k v. Inr (m(k \<mapsto> val_of v), True)),
     tab_remove = (\<lambda>m i k. Inr (m(k := None), True))\<rparr>"

definition replay_op :: "operation_t \<Rightarrow> bool" where
  "replay_op op \<longleftrightarrow> fst op = Op_read \<or> fst op = Op_insert"

definition replay_wok :: "nat \<Rightarrow> ycsb_worker \<Rightarrow> bool" where
  "replay_wok i w \<longleftrightarrow> list_all replay_op (operations w)"

lemma trace_op_replay: "trace_op line = Inr op \<Longrightarrow> replay_op op"
  by (auto simp: trace_op_def bindE_eq_Inr replay_op_def)

lemma generate_workload_replay: "generate_workload ls = Inr ops \<Longrightarrow> list_all replay_op ops"
  by (induction ls arbitrary: ops) (auto simp: bindE_eq_Inr trace_op_replay)

lemma replay_next_op: "replay_wok i w \<Longrightarrow> replay_wok i (next_op w)"
  by (simp add: replay_wok_def next_op_def)

context last_write_table
begin

lemma get_sim:
  assumes "inv t ins m" "i < length ins" "ins ! i"
  shows "rel_sum (=) (\<lambda>(b, v') (b', v''). b = b' \<and> (b \<longrightarrow> val_of v' = val_of v''))
    (tab_get api t i k v) (tab_get map_tab m i k v)"
proof (cases "m k")
  case None
  with absent_law [OF assms, of k v] show ?thesis by (auto simp: map_tab_def)
next
  case (Some x)
  with get_law [OF assms, of k v] show ?thesis by (auto simp: map_tab_def)
qed

lemma insert_sim:
  assumes "inv t ins m" "i < length ins" "ins ! i"
  shows "rel_sum (=) (\<lambda>(t', b) (m', b'). b = b' \<and> inv t' ins m')
    (tab_insert api t i k v) (tab_insert map_tab m i k v)"
  using overwrite_law [OF assms, of k v] by (auto simp: map_tab_def)

lemma trace_switch_sim:
  assumes "inv t ins m" "i < length ins" "ins ! i" "replay_wok i w"
  shows "same_result inv (replay_wok i) ins (trace_switch api cfg i t w) (trace_switch map_tab cfg i m w)"
proof (cases "w_op_i w < length (operations w)")
  case False
  then show ?thesis by (simp add: trace_switch_def array_read_def same_result_def)
next
  case True
  obtain op k where opk: "operations w ! w_op_i w = (op, k)" by fastforce
  with True assms(4) have op: "op = Op_read \<or> op = Op_insert"
    by (force simp: replay_wok_def replay_op_def list_all_length)
  let ?v = "Value_brace (value_len cfg) 3333"
  show ?thesis
  proof (cases "op = Op_read")
    case read: True
    have "rel_sum (=) (\<lambda>(t, w) (m, w'). w = w' \<and> inv t ins m \<and> replay_wok i w)
      (bindE (tab_get api t i k ?v) (\<lambda>(b, v). Inr (t, w\<lparr>w_b := b\<rparr>)))
      (bindE (tab_get map_tab m i k ?v) (\<lambda>(b, v). Inr (m, w\<lparr>w_b := b\<rparr>)))"
      using assms(1,4) by (intro rel_bindE [OF get_sim [OF assms(1-3)]]) (auto simp: replay_wok_def)
    with read True opk show ?thesis by (simp add: trace_switch_def same_result_def Let_def)
  next
    case False
    obtain x r where x: "rand_int64 (w_r w) 123 123456789 = Inr (x, r)"
      using rand_int64_ranges(3) [of "w_r w"] by blast
    let ?x = "Value (val_padding ?v) (word_of_int x)"
    have "rel_sum (=) (\<lambda>(t, w) (m, w'). w = w' \<and> inv t ins m \<and> replay_wok i w)
      (bindE (tab_insert api t i k ?x) (\<lambda>(t, b). Inr (t, w\<lparr>w_r := r, w_b := b\<rparr>)))
      (bindE (tab_insert map_tab m i k ?x) (\<lambda>(m, b). Inr (m, w\<lparr>w_r := r, w_b := b\<rparr>)))"
      using assms(4) by (intro rel_bindE [OF insert_sim [OF assms(1-3)]]) (auto simp: replay_wok_def)
    with False op True opk x show ?thesis by (simp add: trace_switch_def same_result_def Let_def)
  qed
qed

lemma ycsb_switch_sim:
  assumes "inv t ins m" "i < length ins" "ins ! i" "hi = 123456789 \<or> hi = 1234567890"
  shows "same_result inv (\<lambda>_. True) ins (ycsb_switch api cfg hi i t w) (ycsb_switch map_tab cfg hi i m w)"
proof (cases "w_op_i w < length (operations w)")
  case False
  then show ?thesis by (simp add: ycsb_switch_def array_read_def same_result_def)
next
  case True
  obtain op k where opk: "operations w ! w_op_i w = (op, k)" by fastforce
  let ?v = "Value_brace (value_len cfg) 3333"
  have read: "rel_sum (=) (\<lambda>(t, w) (m, w'). w = w' \<and> inv t ins m \<and> True)
      (bindE (tab_get api t i k ?v) (\<lambda>(b, v). Inr (t, w\<lparr>w_b := b, w_cnt := w_cnt w + (if b \<and> 333 <s val_of v then 1 else 0)\<rparr>)))
      (bindE (tab_get map_tab m i k ?v) (\<lambda>(b, v). Inr (m, w\<lparr>w_b := b, w_cnt := w_cnt w + (if b \<and> 333 <s val_of v then 1 else 0)\<rparr>)))"
    using assms(1) by (intro rel_bindE [OF get_sim [OF assms(1-3)]]) auto
  obtain x r where x: "rand_int64 (w_r w) 123 hi = Inr (x, r)"
    using rand_int64_ranges(3,4) [of "w_r w"] assms(4) by blast
  let ?x = "Value (val_padding ?v) (word_of_int x)"
  have insert: "rel_sum (=) (\<lambda>(t, w) (m, w'). w = w' \<and> inv t ins m \<and> True)
      (bindE (tab_insert api t i k ?x) (\<lambda>(t, b). Inr (t, w\<lparr>w_r := r, w_b := b\<rparr>)))
      (bindE (tab_insert map_tab m i k ?x) (\<lambda>(m, b). Inr (m, w\<lparr>w_r := r, w_b := b\<rparr>)))"
    by (intro rel_bindE [OF insert_sim [OF assms(1-3)]]) auto
  show ?thesis
    using True opk read insert x by (cases op) (simp_all add: ycsb_switch_def same_result_def Let_def)
qed

lemma start_tail_sim:
  assumes "inv t ins m" "i < length ins" "\<not> ins ! i" "ok w"
  shows "same_result inv ok (ins[i := True])
    (bindE (fg_prologue api (if c then tab_register_thread api t else t) i) (\<lambda>t. Inr (t, w)))
    (bindE (fg_prologue map_tab (if c then tab_register_thread map_tab m else m) i) (\<lambda>m. Inr (m, w)))"
proof -
  have "inv (if c then tab_register_thread api t else t) ins m" using assms(1) register_law by simp
  from prologue_law [OF this assms(2,3)] assms(4) show ?thesis
    by (auto simp: same_result_def map_tab_def)
qed

lemma stop_tail_sim:
  assumes "inv t ins m" "i < length ins" "ins ! i"
  shows "rel_sum (=) (\<lambda>t m. inv t (ins[i := False]) m) (fg_epilogue api t i) (fg_epilogue map_tab m i)"
  using epilogue_law [OF assms] by (auto simp: map_tab_def)

lemma same_result_bind:
  assumes "same_result inv ok ins r r'" "\<And>t m w. inv t ins m \<Longrightarrow> ok w \<Longrightarrow> same_result inv ok' ins' (f (t, w)) (g (m, w))"
  shows "same_result inv ok' ins' (bindE r f) (bindE r' g)"
  unfolding same_result_def
  by (rule rel_bindE [OF assms(1) [unfolded same_result_def]]) (use assms(2) in \<open>auto simp: same_result_def\<close>)

end

sublocale last_write_table \<subseteq> ycsb_sim: fg_sim "ycsb_body api cfg" "ycsb_body map_tab cfg" inv "\<lambda>_ _. True" for cfg
proof
  fix t ins m i w d env assume t: "inv t ins m" "i < length ins"
  { assume i: "\<not> ins ! i"
    show "same_result inv (\<lambda>_. True) (ins[i := True]) (fg_start (ycsb_body api cfg) i env t)
        (fg_start (ycsb_body map_tab cfg) i env m)"
      using start_tail_sim [OF t i, of "\<lambda>_. True", where c = "target cfg = ''smart'' \<or> target cfg = ''pac''"]
      by (cases "bind_to_physical_cores (int i)"; cases "ycsb_ops cfg (thread_keys cfg i) (fst env) (snd env) []")
        (simp_all add: ycsb_body_def ycsb_start_def Let_def same_result_def split del: if_split) }
  assume i: "ins ! i"
  show "same_result inv (\<lambda>_. True) ins (fg_warm (ycsb_body api cfg) i t w) (fg_warm (ycsb_body map_tab cfg) i m w)"
    unfolding ycsb_body_def fg_body.simps ycsb_warm_def
    by (rule same_result_bind [OF ycsb_switch_sim [OF t i]]) (simp_all add: same_result_def)
  show "same_result inv (\<lambda>_. True) ins (fg_run (ycsb_body api cfg) i d t w) (fg_run (ycsb_body map_tab cfg) i d m w)"
    unfolding ycsb_body_def fg_body.simps ycsb_run_def Let_def
    by (rule same_result_bind [OF ycsb_switch_sim [OF t i]]) (simp_all add: same_result_def)
  show "rel_sum (=) (\<lambda>t m. inv t (ins[i := False]) m) (fg_stop (ycsb_body api cfg) i t) (fg_stop (ycsb_body map_tab cfg) i m)"
    using stop_tail_sim [OF t i] by (simp add: ycsb_body_def)
qed (simp_all add: ycsb_body_def)

text \<open>The operations of a trace that can be parsed.\<close>

definition workload :: "byte list list \<Rightarrow> operation_t list" where
  "workload ls = (case generate_workload ls of Inl e \<Rightarrow> [] | Inr ops \<Rightarrow> ops)"

lemma workload_replay: "list_all replay_op (workload ls)"
  by (cases "generate_workload ls") (auto simp: workload_def dest: generate_workload_replay)

lemma trace_ops_replay: "list_all replay_op ops \<Longrightarrow> list_all replay_op (trace_ops cfg ops i)"
  by (auto simp: trace_ops_def Let_def list_all_iff dest!: in_set_takeD in_set_dropD)

sublocale last_write_table \<subseteq> trace_sim:
  fg_sim "trace_body api cfg (workload ls)" "trace_body map_tab cfg (workload ls)" inv replay_wok for cfg ls
proof
  fix t ins m i w d env assume t: "inv t ins m" "i < length ins"
  { assume i: "\<not> ins ! i"
    have "replay_wok i \<lparr>operations = trace_ops cfg (workload ls) i, w_r = set_seed0 (of_nat i), w_cnt = 1,
        w_b = False, w_op_i = 0, throughput = 0\<rparr>"
      using trace_ops_replay [OF workload_replay] by (simp add: replay_wok_def)
    from start_tail_sim [where ok = "replay_wok i" and c = "target cfg = ''pac''", OF t i this]
    show "same_result inv (replay_wok i) (ins[i := True]) (fg_start (trace_body api cfg (workload ls)) i env t)
        (fg_start (trace_body map_tab cfg (workload ls)) i env m)"
      by (cases "bind_to_physical_cores (int i)")
        (simp_all add: trace_body_def trace_start_def Let_def same_result_def split del: if_split) }
  assume i: "ins ! i"
  show "same_result inv (replay_wok i) ins (fg_warm (trace_body api cfg (workload ls)) i t w)
      (fg_warm (trace_body map_tab cfg (workload ls)) i m w)" if w: "replay_wok i w"
    unfolding trace_body_def fg_body.simps trace_warm_def
    by (rule same_result_bind [OF trace_switch_sim [OF t i w]]) (simp_all add: same_result_def replay_next_op)
  show "same_result inv (replay_wok i) ins (fg_run (trace_body api cfg (workload ls)) i d t w)
      (fg_run (trace_body map_tab cfg (workload ls)) i d m w)" if w: "replay_wok i w"
  proof -
    have w': "replay_wok i (w\<lparr>w_cnt := c\<rparr>)" for c using w by (simp add: replay_wok_def)
    show ?thesis
      unfolding trace_body_def fg_body.simps trace_run_def Let_def
      by (rule same_result_bind [OF trace_switch_sim [OF t i w']])
        (simp_all add: same_result_def replay_next_op replay_wok_def next_op_def)
  qed
  show "rel_sum (=) (\<lambda>t m. inv t (ins[i := False]) m) (fg_stop (trace_body api cfg (workload ls)) i t)
      (fg_stop (trace_body map_tab cfg (workload ls)) i m)"
    using stop_tail_sim [OF t i] by (simp add: trace_body_def)
qed (simp add: trace_body_def trace_turn_def replay_wok_def)

section \<open>Printing and parsing\<close>

definition trace_line :: "operation_t \<Rightarrow> byte list \<Rightarrow> byte list" where
  "trace_line op rest =
     [if fst op = Op_insert then 49 else 48, 44] @ show_nat (unat (key_val (snd op))) @ [44] @ rest"

lemma dec_val_snoc: "dec_val (ds @ [c]) = 10 * dec_val ds + (unat c - 48)"
  by (simp add: dec_val_def)

lemma digit_byte:
  assumes "n < 10"
  shows "is_digit (word_of_nat (48 + n))" "unat (word_of_nat (48 + n) :: byte) - 48 = n"
proof -
  have u: "unat (word_of_nat (48 + n) :: byte) = 48 + n"
    using assms by (simp only: unat_of_nat) simp
  then show "unat (word_of_nat (48 + n) :: byte) - 48 = n" by simp
  show "is_digit (word_of_nat (48 + n))"
    unfolding is_digit_def word_le_nat_alt u using assms by simp
qed

lemma show_nat_digits: "(\<forall>c\<in>set (show_nat n). is_digit c) \<and> dec_val (show_nat n) = n \<and> show_nat n \<noteq> []"
proof (induction n rule: less_induct)
  case (less n)
  show ?case
  proof (cases "n < 10")
    case True
    then show ?thesis using digit_byte [OF True] by (subst (1 2 3) show_nat.simps) (simp add: dec_val_def)
  next
    case False
    have m: "n mod 10 < 10" by simp
    from False less.IH [of "n div 10"] digit_byte [OF m] show ?thesis
      by (subst (1 2 3) show_nat.simps) (simp add: dec_val_snoc ball_Un del: of_nat_add of_nat_numeral)
  qed
qed

lemma digit_not_special: "is_digit c \<Longrightarrow> \<not> is_space c \<and> c \<noteq> 45 \<and> c \<noteq> 43 \<and> c \<noteq> 44"
  by (auto simp: is_digit_def is_space_def word_le_nat_alt)

lemma stoull_show_nat: "n < 2 ^ 64 \<Longrightarrow> stoull (show_nat n) = Inr (of_nat n)"
proof -
  assume n: "n < 2 ^ 64"
  note d = show_nat_digits [of n]
  obtain c cs where c: "show_nat n = c # cs" using d by (meson neq_Nil_conv)
  with d have "is_digit c" by simp
  note sp = digit_not_special [OF this]
  have tw: "takeWhile is_digit cs = cs" using d c by (simp add: takeWhile_eq_all_conv)
  show ?thesis using sp d n c by (simp add: stoull_def Let_def tw)
qed

lemma trace_op_line: "replay_op op \<Longrightarrow> trace_op (trace_line op rest) = Inr op"
proof -
  assume op: "replay_op op"
  let ?s = "show_nat (unat (key_val (snd op)))"
  have "\<forall>c\<in>set ?s. c \<noteq> 44" using show_nat_digits digit_not_special by blast
  then have "takeWhile (\<lambda>c. c \<noteq> 44) (?s @ 44 # rest) = ?s" by (simp add: takeWhile_tail)
  moreover have "stoull ?s = Inr (key_val (snd op))"
    using stoull_show_nat [OF unat_u64_lt, of "key_val (snd op)"] by simp
  ultimately show ?thesis using op by (cases op) (auto simp: trace_op_def trace_line_def replay_op_def)
qed

lemma generate_workload_lines:
  "list_all replay_op ops \<Longrightarrow> length rests = length ops \<Longrightarrow>
   generate_workload (map2 trace_line ops rests) = Inr ops"
proof (induction ops arbitrary: rests)
  case (Cons op ops)
  then show ?case by (cases rests) (auto simp: trace_op_line)
qed simp

text \<open>What a line needs after its separator: white space, at most one sign, and the digits of a
  number of 64 bits; the rest does not matter.\<close>

definition has_number :: "byte list \<Rightarrow> bool" where
  "has_number s \<longleftrightarrow> (\<exists>ws sg ds rest. s = ws @ sg @ ds @ rest \<and> list_all is_space ws \<and> sg \<in> {[], [43], [45]} \<and>
     ds \<noteq> [] \<and> list_all is_digit ds \<and> (rest = [] \<or> \<not> is_digit (hd rest)) \<and> dec_val ds < 2 ^ 64)"

lemma has_numberI:
  "s = ws @ sg @ ds @ rest \<Longrightarrow> list_all is_space ws \<Longrightarrow> sg \<in> {[], [43], [45]} \<Longrightarrow> ds \<noteq> [] \<Longrightarrow> list_all is_digit ds \<Longrightarrow>
    rest = [] \<or> \<not> is_digit (hd rest) \<Longrightarrow> dec_val ds < 2 ^ 64 \<Longrightarrow> has_number s"
  unfolding has_number_def by blast

lemma sign_split:
  obtains sg r where "u = sg @ r" "sg \<in> {[], [43], [45 :: byte]}"
    "(if u \<noteq> [] \<and> (hd u = 45 \<or> hd u = 43) then tl u else u) = r"
proof (cases "u \<noteq> [] \<and> (hd u = 45 \<or> hd u = 43)")
  case True
  then show thesis using that [of "[hd u]" "tl u"] by (cases u) auto
next
  case False
  then show thesis using that [of "[]" u] by (simp only: if_False) simp
qed

lemma stoull_accepts: "stoull s \<noteq> Inl Aborted \<longleftrightarrow> has_number s"
proof
  obtain sg r where r: "dropWhile is_space s = sg @ r" "sg \<in> {[], [43], [45]}"
    "(if dropWhile is_space s \<noteq> [] \<and> (hd (dropWhile is_space s) = 45 \<or> hd (dropWhile is_space s) = 43)
      then tl (dropWhile is_space s) else dropWhile is_space s) = r" by (rule sign_split)
  assume "stoull s \<noteq> Inl Aborted"
  then have d: "takeWhile is_digit r \<noteq> []" "dec_val (takeWhile is_digit r) < 2 ^ 64"
    unfolding stoull_def Let_def r(3) guardE_def by (simp_all split: if_splits)
  show "has_number s"
  proof (rule has_numberI [OF _ _ r(2) d(1) _ _ d(2)])
    show "s = takeWhile is_space s @ sg @ takeWhile is_digit r @ dropWhile is_digit r"
      using r(1) takeWhile_dropWhile_id [of is_space s] by simp
    show "dropWhile is_digit r = [] \<or> \<not> is_digit (hd (dropWhile is_digit r))" using hd_dropWhile by blast
  qed (auto simp: list_all_iff dest: set_takeWhileD)
next
  assume "has_number s"
  then obtain ws sg ds rest where s: "s = ws @ sg @ ds @ rest" and ws: "list_all is_space ws"
    and sg: "sg \<in> {[], [43], [45]}" and ds: "ds \<noteq> []" "list_all is_digit ds" "dec_val ds < 2 ^ 64"
    and rest: "rest = [] \<or> \<not> is_digit (hd rest)"
    unfolding has_number_def by blast
  obtain c cs where c: "ds = c # cs" using ds(1) by (meson neq_Nil_conv)
  then have "is_digit c" using ds(2) by simp
  note sp = digit_not_special [OF this]
  have "dropWhile is_space (sg @ ds @ rest) = sg @ ds @ rest" using sg sp c by (auto simp: is_space_def)
  then have 1: "dropWhile is_space s = sg @ ds @ rest" using ws by (simp add: s list_all_iff)
  have "takeWhile is_digit rest = []" using rest by (cases rest) simp_all
  then have 2: "takeWhile is_digit (ds @ rest) = ds" using ds(2) by (simp add: list_all_iff)
  have 3: "(if sg @ ds @ rest \<noteq> [] \<and> (hd (sg @ ds @ rest) = 45 \<or> hd (sg @ ds @ rest) = 43) then tl (sg @ ds @ rest)
      else sg @ ds @ rest) = ds @ rest"
    using sg sp c by auto
  show "stoull s \<noteq> Inl Aborted" unfolding stoull_def Let_def 1 3 2 using ds(1,3) by simp
qed

lemma has_number_field: "has_number (takeWhile (\<lambda>c. c \<noteq> 44) t) \<longleftrightarrow> has_number t"
proof
  let ?t = "takeWhile (\<lambda>c. c \<noteq> 44) t"
  assume "has_number ?t"
  then obtain ws sg ds rest where u: "?t = ws @ sg @ ds @ rest" and a: "list_all is_space ws"
    "sg \<in> {[], [43], [45]}" "ds \<noteq> []" "list_all is_digit ds" and rest: "rest = [] \<or> \<not> is_digit (hd rest)"
    and v: "dec_val ds < 2 ^ 64" unfolding has_number_def by blast
  let ?d = "dropWhile (\<lambda>c. c \<noteq> 44) t"
  have "?d = [] \<or> hd ?d = 44" using hd_dropWhile [of "\<lambda>c. c \<noteq> 44" t] by blast
  then have "?d = [] \<or> \<not> is_digit (hd ?d)" using digit_not_special by metis
  then have r: "rest @ ?d = [] \<or> \<not> is_digit (hd (rest @ ?d))" using rest by (cases rest) auto
  have "t = ws @ sg @ ds @ (rest @ ?d)" using takeWhile_dropWhile_id [of "\<lambda>c. c \<noteq> 44" t] u by simp
  from has_numberI [OF this a r v] show "has_number t" .
next
  assume "has_number t"
  then obtain ws sg ds rest where t: "t = ws @ sg @ ds @ rest" and a: "list_all is_space ws"
    "sg \<in> {[], [43], [45]}" "ds \<noteq> []" "list_all is_digit ds" and rest: "rest = [] \<or> \<not> is_digit (hd rest)"
    and v: "dec_val ds < 2 ^ 64" unfolding has_number_def by blast
  have "\<forall>c\<in>set ws. c \<noteq> 44" using a(1) by (auto simp: list_all_iff is_space_def)
  moreover have "\<forall>c\<in>set sg. c \<noteq> 44" using a(2) by auto
  moreover have "\<forall>c\<in>set ds. c \<noteq> 44" using a(4) digit_not_special by (auto simp: list_all_iff)
  ultimately have eq: "takeWhile (\<lambda>c. c \<noteq> 44) t = ws @ sg @ ds @ takeWhile (\<lambda>c. c \<noteq> 44) rest"
    unfolding t by (simp add: takeWhile_append)
  have "takeWhile (\<lambda>c. c \<noteq> 44) rest = [] \<or> \<not> is_digit (hd (takeWhile (\<lambda>c. c \<noteq> 44) rest))"
    using rest by (cases rest) auto
  from has_numberI [OF eq a this v] show "has_number (takeWhile (\<lambda>c. c \<noteq> 44) t)" .
qed

lemma stoull_cases: "stoull s = Inl Aborted \<or> (\<exists>k. stoull s = Inr k)"
  by (simp add: stoull_def Let_def guardE_def)

lemma trace_op_fails: "trace_op line = Inl Aborted \<longleftrightarrow> length line < 2 \<or> \<not> has_number (drop 2 line)"
proof -
  let ?f = "takeWhile (\<lambda>c. c \<noteq> 44) (drop 2 line)"
  show ?thesis using stoull_accepts [of ?f] stoull_cases [of ?f] unfolding has_number_field
    by (auto simp: trace_op_def guardE_def)
qed

lemma generate_workload_fails:
  "generate_workload ls = Inl Aborted \<longleftrightarrow> (\<exists>line\<in>set ls. length line < 2 \<or> \<not> has_number (drop 2 line))"
proof (induction ls)
  case (Cons line ls)
  have t: "trace_op line = Inl Aborted \<or> (\<exists>op. trace_op line = Inr op)" for line
    using stoull_cases [of "takeWhile (\<lambda>c. c \<noteq> 44) (drop 2 line)"] by (auto simp: trace_op_def guardE_def)
  have g: "generate_workload ls = Inl Aborted \<or> (\<exists>ops. generate_workload ls = Inr ops)" for ls
  proof (induction ls)
    case (Cons l ls)
    then show ?case using t [of l] by auto
  qed simp
  show ?case
  proof (cases "trace_op line = Inl Aborted")
    case True
    then show ?thesis using trace_op_fails [of line] by simp
  next
    case False
    then obtain op where op: "trace_op line = Inr op" using t by blast
    then show ?thesis using trace_op_fails [of line] Cons.IH g [of ls] by auto
  qed
qed simp

section \<open>A replay does not fault\<close>

definition trace_cfg_ok :: "micro_cfg \<Rightarrow> operation_t list \<Rightarrow> bool" where
  "trace_cfg_ok cfg ops \<longleftrightarrow> fg_n cfg \<le> 55 \<and> fg_n cfg \<le> length ops"

text \<open>The keys that the trace inserts.\<close>

definition inserted :: "operation_t list \<Rightarrow> Key set" where
  "inserted ops = snd ` {op \<in> set ops. fst op = Op_insert}"

definition trace_inv ::
  "('s \<Rightarrow> bool list \<Rightarrow> (Key \<rightharpoonup> u64) \<Rightarrow> bool) \<Rightarrow> micro_cfg \<Rightarrow> operation_t list \<Rightarrow> Key set \<Rightarrow> 's \<Rightarrow> bool list \<Rightarrow> bool" where
  "trace_inv J cfg ops K t ins \<longleftrightarrow> trace_cfg_ok cfg ops \<and> length ins = fg_n cfg \<and>
     (\<exists>m. J t ins m \<and> K \<subseteq> dom m \<and> dom m \<subseteq> K \<union> inserted ops)"

definition trace_wok :: "operation_t list \<Rightarrow> nat \<Rightarrow> ycsb_worker \<Rightarrow> bool" where
  "trace_wok ops i w \<longleftrightarrow> w_op_i w < length (operations w) \<and> set (operations w) \<subseteq> set ops \<and>
     list_all replay_op (operations w)"

lemma trace_next_op: "trace_wok ops i w \<Longrightarrow> trace_wok ops i (next_op w)"
  by (auto simp: trace_wok_def next_op_def Let_def)

lemma trace_ops_ok:
  assumes "trace_cfg_ok cfg ops" "i < fg_n cfg"
  shows "trace_ops cfg ops i \<noteq> []" "set (trace_ops cfg ops i) \<subseteq> set ops"
proof -
  let ?n = "length ops" let ?q = "?n div fg_n cfg"
  have q: "0 < ?q" using assms by (simp add: trace_cfg_ok_def div_greater_zero_iff)
  have "Suc i * ?q \<le> fg_n cfg * ?q" using assms(2) by (intro mult_right_mono) simp_all
  also have "\<dots> \<le> ?n" by simp
  finally have "i * ?q + ?q \<le> ?n" by simp
  then have "length (trace_ops cfg ops i) = ?q" by (simp add: trace_ops_def Let_def)
  with q show "trace_ops cfg ops i \<noteq> []" by auto
  show "set (trace_ops cfg ops i) \<subseteq> set ops"
    by (auto simp: trace_ops_def Let_def dest: in_set_takeD in_set_dropD)
qed

context micro_table
begin

lemma trace_switch_ok:
  assumes "trace_inv inv cfg ops K t ins" "i < length ins" "ins ! i" "trace_wok ops i w"
  shows "\<exists>t' w'. trace_switch api cfg i t w = Inr (t', w') \<and> trace_inv inv cfg ops K t' ins \<and>
    trace_wok ops i w' \<and> throughput w' = throughput w"
proof -
  obtain m where m: "inv t ins m" "K \<subseteq> dom m" "dom m \<subseteq> K \<union> inserted ops"
    using assms(1) by (auto simp: trace_inv_def)
  obtain op k where opk: "operations w ! w_op_i w = (op, k)" by fastforce
  have mem: "(op, k) \<in> set (operations w)" using assms(4) opk by (metis nth_mem trace_wok_def)
  then have ok: "op = Op_read \<or> op = Op_insert" "(op, k) \<in> set ops"
    using assms(4) by (auto simp: trace_wok_def replay_op_def list_all_iff)
  have rd: "array_read (operations w) (w_op_i w) = Inr (op, k)"
    using assms(4) opk by (simp add: trace_wok_def)
  let ?v = "Value_brace (value_len cfg) 3333"
  show ?thesis
  proof (cases "op = Op_read")
    case True
    obtain b v' where "tab_get api t i k ?v = Inr (b, v')"
      using get_law [OF m(1) assms(2,3), of k ?v] by auto
    then show ?thesis using assms rd True by (auto simp: trace_switch_def trace_wok_def Let_def)
  next
    case False
    obtain x r where x: "rand_int64 (w_r w) 123 123456789 = Inr (x, r)"
      using rand_int64_ranges(3) [of "w_r w"] by blast
    let ?x = "Value (val_padding ?v) (word_of_int x)"
    obtain t' m' where t': "tab_insert api t i k ?x = Inr (t', True)" "inv t' ins m'" "dom m' = insert k (dom m)"
      using insert_law [OF m(1) assms(2,3), of k ?x] by auto
    have "k \<in> inserted ops" using ok False by (force simp: inserted_def)
    then have "K \<subseteq> dom m'" "dom m' \<subseteq> K \<union> inserted ops" using t'(3) m by auto
    then have "trace_inv inv cfg ops K t' ins" using assms(1) t'(2) unfolding trace_inv_def by blast
    then show ?thesis using assms(4) rd False ok(1) x t'(1)
      by (auto simp: trace_switch_def trace_wok_def Let_def)
  qed
qed

lemma trace_run_ok:
  assumes "trace_inv inv cfg ops K t ins" "i < length ins" "ins ! i" "trace_wok ops i w"
  shows "\<exists>t' w'. trace_run api cfg i d t w = Inr (t', w') \<and> trace_inv inv cfg ops K t' ins \<and>
    trace_wok ops i w' \<and> throughput w' = throughput w + 1"
proof -
  let ?w = "w\<lparr>w_cnt := w_cnt w + (if f64 (9 / 10) < d then 1 else 0)\<rparr>"
  have "trace_wok ops i ?w" using assms(4) by (simp add: trace_wok_def)
  from trace_switch_ok [OF assms(1-3) this] obtain t' w' where
    r: "trace_switch api cfg i t ?w = Inr (t', w')" "trace_inv inv cfg ops K t' ins" "trace_wok ops i w'"
      "throughput w' = throughput w" by auto
  have "trace_wok ops i ((next_op w')\<lparr>throughput := throughput (next_op w') + 1\<rparr>)"
    using trace_next_op [OF r(3)] by (simp add: trace_wok_def)
  with r show ?thesis by (simp add: trace_run_def Let_def next_op_def)
qed

lemma trace_start_ok:
  assumes "trace_inv inv cfg ops K t ins" "i < length ins" "\<not> ins ! i" "list_all replay_op ops"
  shows "\<exists>t' w. trace_start api cfg ops i env t = Inr (t', w) \<and> trace_inv inv cfg ops K t' (ins[i := True]) \<and>
    trace_wok ops i w"
proof -
  obtain m where m: "inv t ins m" "K \<subseteq> dom m" "dom m \<subseteq> K \<union> inserted ops"
    and cfg: "trace_cfg_ok cfg ops" "i < fg_n cfg" "length ins = fg_n cfg"
    using assms(1,2) by (auto simp: trace_inv_def)
  have "int i < 55" using cfg by (simp add: trace_cfg_ok_def)
  then obtain c where c: "bind_to_physical_cores (int i) = Inr c"
    using core_binding_injective [of 0] by (metis of_nat_0_le_iff)
  let ?t = "if target cfg = ''pac'' then tab_register_thread api t else t"
  have "inv ?t ins m" using m(1) register_law by simp
  from prologue_law [OF this assms(2,3)] obtain t' where
    t': "fg_prologue api ?t i = Inr t'" "inv t' (ins[i := True]) m" by blast
  from trace_ops_ok [OF cfg(1,2)] trace_ops_replay [OF assms(4)] c t' m cfg show ?thesis
    by (auto simp: trace_start_def Let_def trace_inv_def trace_wok_def)
qed

end

sublocale micro_table \<subseteq> trace: fg_safe "trace_body api cfg (workload ls)" "trace_inv inv cfg (workload ls) K"
  "trace_wok (workload ls)" for cfg ls K
proof
  let ?ops = "workload ls" let ?b = "trace_body api cfg (workload ls)"
  fix t ins i w d env assume t: "trace_inv inv cfg ?ops K t ins" "i < length ins"
  show "\<not> ins ! i \<Longrightarrow> \<exists>t' w. fg_start ?b i env t = Inr (t', w) \<and>
      trace_inv inv cfg ?ops K t' (ins[i := True]) \<and> trace_wok ?ops i w"
    using trace_start_ok [OF t _ workload_replay] by (simp add: trace_body_def)
  assume i: "ins ! i"
  show "trace_wok ?ops i w \<Longrightarrow> \<exists>t' w'. fg_warm ?b i t w = Inr (t', w') \<and>
      trace_inv inv cfg ?ops K t' ins \<and> trace_wok ?ops i w'"
    using trace_switch_ok [OF t i] trace_next_op by (fastforce simp: trace_body_def trace_warm_def)
  show "trace_wok ?ops i w \<Longrightarrow> \<exists>t' w'. fg_run ?b i d t w = Inr (t', w') \<and>
      trace_inv inv cfg ?ops K t' ins \<and> trace_wok ?ops i w'"
    using trace_run_ok [OF t i] by (fastforce simp: trace_body_def)
  obtain m where m: "inv t ins m" "K \<subseteq> dom m" "dom m \<subseteq> K \<union> inserted ?ops"
    "trace_cfg_ok cfg ?ops" "length ins = fg_n cfg" using t(1) by (auto simp: trace_inv_def)
  with epilogue_law [OF m(1) t(2) i]
  show "\<exists>t'. fg_stop ?b i t = Inr t' \<and> trace_inv inv cfg ?ops K t' (ins[i := False])"
    by (auto simp: trace_body_def trace_inv_def)
next
  fix i w assume "trace_wok (workload ls) i w"
  then show "trace_wok (workload ls) i (fg_turn (trace_body api cfg (workload ls)) w)"
    by (auto simp: trace_body_def trace_turn_def trace_wok_def)
qed

context micro_table
begin

lemma trace_reach:
  assumes "trace_inv inv cfg (workload ls) K t (replicate n False)"
    and "bench_reach (trace_body api cfg (workload ls)) (bench_init n t) r"
  shows "\<exists>b. r = Inr b \<and> trace_inv inv cfg (workload ls) K (b_table b) (map busy (b_fg b))"
  using trace.run_safe [OF assms] by blast

end

context last_write_table
begin

lemma trace_refines:
  assumes "inv t (replicate n False) m"
    and "bench_reach (trace_body api cfg (workload ls)) (bench_init n t) r"
  shows "\<exists>r'. bench_reach (trace_body map_tab cfg (workload ls)) (bench_init n m) r' \<and>
    rel_sum (=) (\<lambda>b b'. inv (b_table b) (map busy (b_fg b)) (b_table b') \<and> b_fg b' = b_fg b \<and>
      b_main b' = b_main b) r r'"
proof -
  obtain r' where r': "bench_reach (trace_body map_tab cfg (workload ls)) (bench_init n m) r'"
    "rel_sum (=) trace_sim.bench_rel r r'" using trace_sim.bench_sim [OF assms] by blast
  from r'(2) have "rel_sum (=) (\<lambda>b b'. inv (b_table b) (map busy (b_fg b)) (b_table b') \<and> b_fg b' = b_fg b \<and>
      b_main b' = b_main b) r r'"
    by (rule sum.rel_mono_strong) (auto simp: trace_sim.bench_rel_def)
  with r'(1) show ?thesis by blast
qed

lemma ycsb_refines:
  assumes "inv t (replicate n False) m"
    and "bench_reach (ycsb_body api cfg) (bench_init n t) r"
  shows "\<exists>r'. bench_reach (ycsb_body map_tab cfg) (bench_init n m) r' \<and>
    rel_sum (=) (\<lambda>b b'. inv (b_table b) (map busy (b_fg b)) (b_table b') \<and> b_fg b' = b_fg b \<and>
      b_main b' = b_main b) r r'"
proof -
  obtain r' where r': "bench_reach (ycsb_body map_tab cfg) (bench_init n m) r'"
    "rel_sum (=) ycsb_sim.bench_rel r r'" using ycsb_sim.bench_sim [OF assms] by blast
  from r'(2) have "rel_sum (=) (\<lambda>b b'. inv (b_table b) (map busy (b_fg b)) (b_table b') \<and> b_fg b' = b_fg b \<and>
      b_main b' = b_main b) r r'"
    by (rule sum.rel_mono_strong) (auto simp: ycsb_sim.bench_rel_def)
  with r'(1) show ?thesis by blast
qed

end

interpretation map_table: last_write_table map_tab "\<lambda>m ins m'. m' = m"
  by (rule last_write_tableI) (auto simp: map_tab_def split: option.split)

section \<open>Properties\<close>

text \<open>C34: parsing a printed trace gives the operations back, whatever the rest of each line is; and
  \<open>generate_workload\<close> ends the program with an exception exactly for the files that have, at any
  position, a line of fewer than two characters or one whose text after the separator does not
  begin with a number (white space, a sign, digits) of 64 bits.\<close>

theorem trace_roundtrip:
  assumes "list_all replay_op ops" and "length rests = length ops"
  shows "generate_workload (map2 trace_line ops rests) = Inr ops \<and>
    (\<forall>ls. generate_workload ls = Inl Aborted \<longleftrightarrow>
       (\<exists>line\<in>set ls. length line < 2 \<or> \<not> has_number (drop 2 line)))"
  using generate_workload_lines [OF assms] generate_workload_fails by blast

lemma trace_roundtrip_witness:
  "generate_workload [trace_line (Op_insert, Key 12345) [49, 48], trace_line (Op_read, Key 7) []] =
     Inr [(Op_insert, Key 12345), (Op_read, Key 7)] \<and>
   generate_workload [trace_line (Op_read, Key 7) [], [49], trace_line (Op_read, Key 7) []] = Inl Aborted \<and>
   generate_workload [trace_line (Op_read, Key 7) [], [49, 44, 120, 49]] = Inl Aborted \<and>
   has_number [32, 45, 55, 44]"
proof -
  note th = trace_roundtrip [of "[(Op_insert, Key 12345), (Op_read, Key 7)]" "[[49, 48], []]"]
  have fails: "generate_workload ls = Inl Aborted \<longleftrightarrow> (\<exists>line\<in>set ls. length line < 2 \<or> \<not> has_number (drop 2 line))" for ls
    using th by (simp add: replay_op_def)
  have "\<not> has_number [120, 49]"
    by (auto simp: has_number_def Cons_eq_append_conv is_space_def is_digit_def)
  moreover have "has_number [32, 45, 55, 44]"
    by (rule has_numberI [of _ "[32]" "[45]" "[55]" "[44]"]) (simp_all add: is_space_def is_digit_def dec_val_def)
  ultimately show ?thesis using th by (simp add: replay_op_def fails del: generate_workload.simps)
qed

text \<open>C15: replaying a trace over Masstree: with at most 55 threads and at least one operation for
  each, no reachable state is a fault; no key that was loaded is ever lost, and a key is in the
  table only when it was loaded or the trace inserts it.\<close>

theorem trace_masstree_safe:
  assumes q: "masstree_contract q ok cont" and "ok (initialize c)" and "cont (initialize c) = os_empty"
    and "generate_workload ls = Inr ops" and "trace_cfg_ok cfg ops"
  shows "\<exists>t. prepare_masstree q initialize c (value_len cfg) ks = Inr t \<and>
    (\<forall>r. bench_reach (trace_body (tab_mt q) cfg ops) (bench_init (fg_n cfg) t) r \<longrightarrow>
      (\<exists>b m. r = Inr b \<and> mt_inv ok cont (b_table b) (map busy (b_fg b)) m \<and>
        set ks \<subseteq> dom m \<and> dom m \<subseteq> set ks \<union> inserted ops))"
proof -
  have l: "micro_masstree q ok cont" using q by (rule micro_masstree.intro)
  note mt = micro_masstree.is_table [OF l]
  have w: "workload ls = ops" using assms(4) by (simp add: workload_def)
  obtain t m where t: "prepare_masstree q initialize c (value_len cfg) ks = Inr t" "\<And>ins. mt_inv ok cont t ins m"
    "dom m = set ks"
    using micro_masstree.prepare_ok [where initialize = initialize, OF l assms(2,3), of "value_len cfg" ks] by blast
  then have i: "trace_inv (mt_inv ok cont) cfg (workload ls) (set ks) t (replicate (fg_n cfg) False)"
    using assms(5) unfolding trace_inv_def w by auto
  have "\<exists>b m. r = Inr b \<and> mt_inv ok cont (b_table b) (map busy (b_fg b)) m \<and>
        set ks \<subseteq> dom m \<and> dom m \<subseteq> set ks \<union> inserted ops"
    if r: "bench_reach (trace_body (tab_mt q) cfg ops) (bench_init (fg_n cfg) t) r" for r
    using micro_table.trace_reach [OF mt i r [folded w]] unfolding trace_inv_def w by blast
  with t(1) show ?thesis by blast
qed

lemma trace_masstree_safe_witness:
  "\<exists>t. prepare_masstree os_api (\<lambda>_. os_empty) 0 0 [Key 7] = Inr t \<and>
    \<not> bench_reach (trace_body (tab_mt os_api) sample_cfg [(Op_insert, Key 12345), (Op_read, Key 7)])
        (bench_init 2 t) (Inl OutOfBounds)"
proof -
  have g: "generate_workload (map2 trace_line [(Op_insert, Key 12345), (Op_read, Key 7)] [[], []]) =
      Inr [(Op_insert, Key 12345), (Op_read, Key 7)]"
    by (rule generate_workload_lines) (simp_all add: replay_op_def)
  from trace_masstree_safe [where initialize = "\<lambda>_. os_empty" and c = 0 and cfg = sample_cfg and ks = "[Key 7]",
      OF os_api_contract _ _ g]
  show ?thesis by (auto simp: sample_cfg_def trace_cfg_ok_def)
qed

text \<open>C9: over Masstree the drivers cannot tell the index from a partial map: every run of the trace
  replay and of the YCSB benchmark, under any interleaving, is matched step by step by a run over
  the map, with the same fault or the same data in every worker (what it read, its random state,
  its counters) and related tables.\<close>

theorem drivers_refine_map:
  assumes q: "masstree_contract q ok cont" and "mt_inv ok cont t (replicate n False) m"
  shows "(bench_reach (trace_body (tab_mt q) cfg (workload ls)) (bench_init n t) r \<longrightarrow>
      (\<exists>r'. bench_reach (trace_body map_tab cfg (workload ls)) (bench_init n m) r' \<and>
        rel_sum (=) (\<lambda>b b'. mt_inv ok cont (b_table b) (map busy (b_fg b)) (b_table b') \<and> b_fg b' = b_fg b \<and>
          b_main b' = b_main b) r r')) \<and>
    (bench_reach (ycsb_body (tab_mt q) cfg) (bench_init n t) r \<longrightarrow>
      (\<exists>r'. bench_reach (ycsb_body map_tab cfg) (bench_init n m) r' \<and>
        rel_sum (=) (\<lambda>b b'. mt_inv ok cont (b_table b) (map busy (b_fg b)) (b_table b') \<and> b_fg b' = b_fg b \<and>
          b_main b' = b_main b) r r'))"
proof -
  have l: "micro_masstree q ok cont" using q by (rule micro_masstree.intro)
  note mt = micro_masstree.is_last_write_table [OF l]
  from last_write_table.trace_refines [OF mt assms(2)] last_write_table.ycsb_refines [OF mt assms(2)]
  show ?thesis by blast
qed

lemma drivers_refine_map_witness:
  "\<exists>t. prepare_masstree os_api (\<lambda>_. os_empty) 0 0 [Key 7] = Inr t \<and>
    (\<exists>m r'. dom m = {Key 7} \<and> bench_reach (ycsb_body map_tab sample_cfg) (bench_init 2 m) r' \<and>
      (\<exists>b'. r' = Inr b' \<and> b_main b' = AwaitReady))"
proof -
  obtain t m where t: "prepare_masstree os_api (\<lambda>_. os_empty) 0 0 [Key 7] = Inr t" "\<And>ins. mt_inv os_ok id t ins m"
    "dom m = set [Key 7]"
    using mt_model.prepare_ok [of "\<lambda>_. os_empty" 0 0 "[Key 7]"] by (auto simp: id_def)
  obtain r' where "bench_reach (ycsb_body map_tab sample_cfg) (bench_init 2 m) r'"
    "rel_sum (=) (\<lambda>b b'. mt_inv os_ok id (b_table b) (map busy (b_fg b)) (b_table b') \<and> b_fg b' = b_fg b \<and>
          b_main b' = b_main b) (Inr (bench_init 2 t)) r'"
    using drivers_refine_map [OF os_api_contract t(2) [of "replicate 2 False"], of sample_cfg _ "Inr (bench_init 2 t)"]
      bench_reach.refl by blast
  with t show ?thesis by (auto simp: rel_sum.simps bench_init_def)
qed

end
