(* ===== verification/RwMix.thy ===== *)
theory RwMix
  imports Ycsb
begin

text \<open>
  The driver \<open>benchmark/synthetic/rw_mix.cpp\<close>: every worker has a circular list of keys, half of
  which is a window of present keys that moves on by one key with every insert and removal. Its
  bodies tie the worker's position to the contents of the table, so the protocol is shown safe
  under an invariant of the table and all workers together. The latencies of \<open>stat_latency\<close> and
  \<open>RO_LATENCY\<close> are left out. The draws of \<open>ratio_dis\<close> are the worker's stream \<open>rw_gen\<close>; a number
  outside \<open>[0, 1)\<close> stands for 0, so that the streams are all sequences of draws.
\<close>

section \<open>Configuration and workers\<close>

record mix_cfg = micro_cfg +
  non_exist_keys :: "Key list"
  insert_ratio :: rat
  delete_ratio :: rat
  inplace_ratio :: rat

record rw_worker =
  rw_gen :: "nat \<Rightarrow> rat"
  query_keys :: "Key list"
  query_i :: nat
  insert_i :: nat
  delete_i :: nat
  update_i :: nat
  rw_cnt :: u64
  rw_throughput :: u64

definition ratio_dis :: "rw_worker \<Rightarrow> rat \<times> rw_worker" where
  "ratio_dis w = (let d = rw_gen w 0
     in (if 0 \<le> d \<and> d < 1 then d else 0, w\<lparr>rw_gen := (\<lambda>n. rw_gen w (Suc n))\<rparr>))"

text \<open>\<open>[begin + thread_id * n, begin + (thread_id + 1) * n)\<close> with \<open>n = size / fg_n\<close>\<close>

definition thread_slice :: "nat \<Rightarrow> 'a list \<Rightarrow> nat \<Rightarrow> 'a list" where
  "thread_slice fg xs thread_id = (let n = length xs div fg in take n (drop (thread_id * n) xs))"

definition rw_keys :: "mix_cfg \<Rightarrow> nat \<Rightarrow> Key list" where
  "rw_keys cfg thread_id =
     thread_slice (fg_n cfg) (all_keys cfg) thread_id @ thread_slice (fg_n cfg) (non_exist_keys cfg) thread_id"

definition rw_start ::
  "'s tab_api \<Rightarrow> mix_cfg \<Rightarrow> nat \<Rightarrow> (nat \<Rightarrow> rat) \<Rightarrow> 's \<Rightarrow> fault + 's \<times> rw_worker" where
  "rw_start api cfg thread_id gen table =
     bindE (bind_to_physical_cores (int thread_id)) (\<lambda>_.
     bindE (guardE Aborted (read_ratio cfg = 1 \<or> non_exist_keys cfg \<noteq> [])) (\<lambda>_.
     let keys = rw_keys cfg thread_id
     in bindE (fg_prologue api table thread_id) (\<lambda>table.
        Inr (table, \<lparr>rw_gen = gen, query_keys = keys, query_i = 0, insert_i = length keys div 2,
                     delete_i = 0, update_i = 0, rw_cnt = 0, rw_throughput = 0\<rparr>))))"

section \<open>The operations\<close>

text \<open>The indexes wrap at half the list (reads and updates) or at its end.\<close>

definition wrap_half :: "rw_worker \<Rightarrow> nat \<Rightarrow> nat" where
  "wrap_half w i = (if i = length (query_keys w) div 2 then 0 else i)"

definition wrap_all :: "rw_worker \<Rightarrow> nat \<Rightarrow> nat" where
  "wrap_all w i = (if i = length (query_keys w) then 0 else i)"

text \<open>An empty key list is a fault in any case (the source computes \<open>% 0\<close>).\<close>

definition rw_get ::
  "'s tab_api \<Rightarrow> mix_cfg \<Rightarrow> nat \<Rightarrow> 's \<Rightarrow> rw_worker \<Rightarrow> fault + bool \<times> Value" where
  "rw_get api cfg thread_id table w =
     bindE (array_read (query_keys w) ((query_i w + delete_i w) mod length (query_keys w))) (\<lambda>k.
     tab_get api table thread_id k (Value_brace (value_len cfg) 3333))"

definition rw_update ::
  "'s tab_api \<Rightarrow> mix_cfg \<Rightarrow> nat \<Rightarrow> 's \<Rightarrow> rw_worker \<Rightarrow> fault + 's \<times> rw_worker" where
  "rw_update api cfg thread_id table w =
     bindE (array_read (query_keys w) ((update_i w + delete_i w) mod length (query_keys w))) (\<lambda>k.
     bindE (tab_insert api table thread_id k (Value_brace (value_len cfg) 12345)) (\<lambda>(table, res).
     Inr (table, w\<lparr>update_i := wrap_half w (Suc (update_i w))\<rparr>)))"

definition rw_move ::
  "'s tab_api \<Rightarrow> mix_cfg \<Rightarrow> nat \<Rightarrow> 's \<Rightarrow> rw_worker \<Rightarrow> fault + 's \<times> rw_worker" where
  "rw_move api cfg thread_id table w =
     bindE (array_read (query_keys w) (insert_i w)) (\<lambda>k.
     bindE (tab_insert api table thread_id k (Value_brace (value_len cfg) 12345)) (\<lambda>(table, res).
     bindE (array_read (query_keys w) (delete_i w)) (\<lambda>k.
     bindE (tab_remove api table thread_id k) (\<lambda>(table, res).
     Inr (table, w\<lparr>insert_i := wrap_all w (Suc (insert_i w)), delete_i := wrap_all w (Suc (delete_i w))\<rparr>)))))"

text \<open>
  One round of the warm-up loop and of the measured loop. The measured loop takes the share of the
  updates from \<open>insert_ratio\<close>, and scans with worker number 0.
\<close>

definition moves_upto :: "mix_cfg \<Rightarrow> rat" where
  "moves_upto cfg =
     f64 (f64 (f64 (read_ratio cfg + inplace_ratio cfg) + insert_ratio cfg) + delete_ratio cfg)"

definition rw_warm ::
  "'s tab_api \<Rightarrow> mix_cfg \<Rightarrow> nat \<Rightarrow> 's \<Rightarrow> rw_worker \<Rightarrow> fault + 's \<times> rw_worker" where
  "rw_warm api cfg thread_id table w =
     (let (d, w) = ratio_dis w in
      if d \<le> read_ratio cfg then
        bindE (rw_get api cfg thread_id table w) (\<lambda>(b, v).
        bindE (guardE Aborted (read_ratio cfg = 1 \<and> b \<or> read_ratio cfg < 1)) (\<lambda>_.
        Inr (table, w\<lparr>query_i := wrap_half w (Suc (query_i w))\<rparr>)))
      else if d \<le> f64 (read_ratio cfg + inplace_ratio cfg) then rw_update api cfg thread_id table w
      else if d \<le> moves_upto cfg then rw_move api cfg thread_id table w
      else Inr (table, w))"

definition rw_run ::
  "'s tab_api \<Rightarrow> ('s \<Rightarrow> nat \<Rightarrow> Key \<Rightarrow> nat \<Rightarrow> fault + (Key \<times> Value) list) \<Rightarrow> mix_cfg \<Rightarrow>
   nat \<Rightarrow> 's \<Rightarrow> rw_worker \<Rightarrow> fault + 's \<times> rw_worker" where
  "rw_run api scan cfg thread_id table w =
     (let (d, w) = ratio_dis w in
      if d \<le> read_ratio cfg then
        bindE (rw_get api cfg thread_id table w) (\<lambda>(b, v).
        Inr (table, w\<lparr>rw_cnt := rw_cnt w + (if b \<and> 5000000 <s val_of v then 1 else 0),
                      query_i := wrap_half w (Suc (query_i w)), rw_throughput := rw_throughput w + 1\<rparr>))
      else if d \<le> f64 (read_ratio cfg + insert_ratio cfg) then
        bindE (rw_update api cfg thread_id table w) (\<lambda>(table, w).
        Inr (table, w\<lparr>rw_throughput := rw_throughput w + 1\<rparr>))
      else if d \<le> moves_upto cfg then
        bindE (rw_move api cfg thread_id table w) (\<lambda>(table, w).
        Inr (table, w\<lparr>rw_throughput := rw_throughput w + 2\<rparr>))
      else
        bindE (array_read (query_keys w) (query_i w)) (\<lambda>k.
        bindE (scan table 0 k 100) (\<lambda>res.
        Inr (table, w\<lparr>query_i := wrap_all w (Suc (query_i w)), rw_throughput := rw_throughput w + 1\<rparr>))))"

definition rw_body ::
  "'s tab_api \<Rightarrow> ('s \<Rightarrow> nat \<Rightarrow> Key \<Rightarrow> nat \<Rightarrow> fault + (Key \<times> Value) list) \<Rightarrow> mix_cfg \<Rightarrow>
   ('s, rw_worker, nat \<Rightarrow> rat) fg_body" where
  "rw_body api scan cfg = \<lparr>fg_start = rw_start api cfg, fg_warm = rw_warm api cfg,
     fg_turn = (\<lambda>w. w\<lparr>rw_cnt := 1\<rparr>), fg_run = (\<lambda>i d. rw_run api scan cfg i),
     fg_stop = (\<lambda>i t. fg_epilogue api t i)\<rparr>"

section \<open>Slices of the workers\<close>

lemma thread_slice_length:
  assumes "i < fg"
  shows "length (thread_slice fg xs i) = length xs div fg"
proof -
  have "Suc i * (length xs div fg) \<le> fg * (length xs div fg)" using assms by (intro mult_right_mono) simp_all
  also have "\<dots> \<le> length xs" by simp
  finally show ?thesis by (simp add: thread_slice_def Let_def)
qed

lemma thread_slice_nth:
  assumes "i < fg" "j < length xs div fg"
  shows "i * (length xs div fg) + j < length xs" "thread_slice fg xs i ! j = xs ! (i * (length xs div fg) + j)"
proof -
  have "j < length (thread_slice fg xs i)" using assms thread_slice_length by metis
  then show "i * (length xs div fg) + j < length xs" "thread_slice fg xs i ! j = xs ! (i * (length xs div fg) + j)"
    by (auto simp: thread_slice_def Let_def)
qed

lemma thread_slice_subset: "set (thread_slice fg xs i) \<subseteq> set xs"
  by (auto simp: thread_slice_def Let_def dest: in_set_takeD in_set_dropD)

lemma thread_slice_disjoint:
  assumes "distinct xs" "i < fg" "k < fg" "i \<noteq> k"
  shows "set (thread_slice fg xs i) \<inter> set (thread_slice fg xs k) = {}"
proof -
  let ?n = "length xs div fg"
  have False if x: "x \<in> set (thread_slice fg xs i)" "x \<in> set (thread_slice fg xs k)" for x
  proof -
    obtain a b where a: "a < ?n" "x = xs ! (i * ?n + a)" and b: "b < ?n" "x = xs ! (k * ?n + b)"
      using x thread_slice_nth(2) [OF assms(2)] thread_slice_nth(2) [OF assms(3)]
        thread_slice_length [OF assms(2)] thread_slice_length [OF assms(3)] by (metis in_set_conv_nth)
    then have eq: "i * ?n + a = k * ?n + b"
      using assms(1) thread_slice_nth(1) [OF assms(2) a(1)] thread_slice_nth(1) [OF assms(3) b(1)]
      by (metis nth_eq_iff_index_eq)
    have "i = (i * ?n + a) div ?n" "k = (k * ?n + b) div ?n" using a(1) b(1) by auto
    with eq assms(4) show False by metis
  qed
  then show ?thesis by blast
qed

lemma distinct_thread_slice: "distinct xs \<Longrightarrow> distinct (thread_slice fg xs i)"
  by (simp add: thread_slice_def Let_def)

text \<open>
  The configurations considered: all keys differ, every worker has at least as many loaded keys as
  new ones, and the ratios leave no room for scans.
\<close>

definition mix_cfg_ok :: "mix_cfg \<Rightarrow> bool" where
  "mix_cfg_ok cfg \<longleftrightarrow> 0 < fg_n cfg \<and> fg_n cfg \<le> 55 \<and> distinct (all_keys cfg @ non_exist_keys cfg) \<and>
     length (non_exist_keys cfg) div fg_n cfg \<le> length (all_keys cfg) div fg_n cfg \<and>
     2 \<le> length (all_keys cfg) div fg_n cfg + length (non_exist_keys cfg) div fg_n cfg \<and>
     read_ratio cfg \<le> 1 \<and> (read_ratio cfg = 1 \<or> non_exist_keys cfg \<noteq> []) \<and> 1 \<le> moves_upto cfg"

lemma rw_keys_ok:
  assumes "mix_cfg_ok cfg" "i < fg_n cfg"
  shows "distinct (rw_keys cfg i)" "2 \<le> length (rw_keys cfg i)"
    and "j < length (rw_keys cfg i) div 2 \<Longrightarrow> rw_keys cfg i ! j \<in> set (all_keys cfg)"
    and "k < fg_n cfg \<Longrightarrow> i \<noteq> k \<Longrightarrow> set (rw_keys cfg i) \<inter> set (rw_keys cfg k) = {}"
proof -
  note sub = thread_slice_subset [of "fg_n cfg"]
  have d: "distinct (all_keys cfg)" "distinct (non_exist_keys cfg)" "set (all_keys cfg) \<inter> set (non_exist_keys cfg) = {}"
    using assms(1) by (simp_all add: mix_cfg_ok_def)
  show "distinct (rw_keys cfg i)"
    using d sub [of "all_keys cfg" i] sub [of "non_exist_keys cfg" i]
    by (auto simp: rw_keys_def distinct_thread_slice)
  show "2 \<le> length (rw_keys cfg i)"
    using assms by (simp add: rw_keys_def thread_slice_length mix_cfg_ok_def)
  show "rw_keys cfg i ! j \<in> set (all_keys cfg)" if j: "j < length (rw_keys cfg i) div 2"
  proof -
    have "j < length (thread_slice (fg_n cfg) (all_keys cfg) i)"
      using j assms by (auto simp: rw_keys_def thread_slice_length mix_cfg_ok_def)
    then show ?thesis using sub [of "all_keys cfg" i] by (simp add: rw_keys_def nth_append subset_iff)
  qed
  show "set (rw_keys cfg i) \<inter> set (rw_keys cfg k) = {}" if k: "k < fg_n cfg" "i \<noteq> k"
    using thread_slice_disjoint [OF d(1) assms(2) k] thread_slice_disjoint [OF d(2) assms(2) k] d(3)
      sub [of "all_keys cfg" i] sub [of "non_exist_keys cfg" i] sub [of "all_keys cfg" k] sub [of "non_exist_keys cfg" k]
    unfolding rw_keys_def set_append by blast
qed

section \<open>The window of a worker\<close>

definition in_window :: "rw_worker \<Rightarrow> nat \<Rightarrow> Key" where
  "in_window w j = query_keys w ! ((j + delete_i w) mod length (query_keys w))"

text \<open>The window starts at \<open>delete_i\<close> and goes round: its positions are all keys of the worker.\<close>

lemma in_window_eq:
  assumes "distinct (query_keys w)" "delete_i w < length (query_keys w)" "j < length (query_keys w)" "k < length (query_keys w)"
  shows "in_window w j = in_window w k \<longleftrightarrow> j = k"
proof -
  let ?n = "length (query_keys w)"
  have round: "(x + delete_i w) mod ?n = (if x + delete_i w < ?n then x + delete_i w else x + delete_i w - ?n)"
    if "x < ?n" for x using that assms(2) by (simp add: mod_if)
  have "(j + delete_i w) mod ?n = (k + delete_i w) mod ?n \<longleftrightarrow> j = k"
    unfolding round [OF assms(3)] round [OF assms(4)] using assms(2-4) by (auto split: if_splits)
  moreover have "(x + delete_i w) mod ?n < ?n" for x using assms(3) by (intro mod_less_divisor) linarith
  ultimately show ?thesis unfolding in_window_def using assms(1) by (simp add: nth_eq_iff_index_eq)
qed

lemma in_window_keys: "query_keys w \<noteq> [] \<Longrightarrow> in_window w j \<in> set (query_keys w)"
  by (simp add: in_window_def)

lemma in_window_all:
  assumes "distinct (query_keys w)" "delete_i w < length (query_keys w)"
  shows "set (query_keys w) = in_window w ` {..<length (query_keys w)}"
proof -
  let ?n = "length (query_keys w)"
  have "inj_on (in_window w) {..<?n}" using in_window_eq [OF assms] by (auto intro: inj_onI)
  then have "card (in_window w ` {..<?n}) = card (set (query_keys w))"
    using assms(1) by (simp add: card_image distinct_card)
  moreover have "in_window w ` {..<?n} \<subseteq> set (query_keys w)" using in_window_keys [of w] assms(2) by (cases "query_keys w = []") auto
  ultimately show ?thesis by (metis card_subset_eq List.finite_set)
qed

text \<open>
  The window of half the keys is in the table, and inserts go right behind it. When every worker has
  as many new keys as loaded ones, the rest is not in the table.
\<close>

definition halves :: "mix_cfg \<Rightarrow> bool" where
  "halves cfg \<longleftrightarrow> length (non_exist_keys cfg) div fg_n cfg = length (all_keys cfg) div fg_n cfg"

definition window_in :: "mix_cfg \<Rightarrow> (Key \<rightharpoonup> u64) \<Rightarrow> rw_worker \<Rightarrow> bool" where
  "window_in cfg m w \<longleftrightarrow> (let n = length (query_keys w) in
     (\<forall>j < n div 2. m (in_window w j) \<noteq> None) \<and>
     (halves cfg \<longrightarrow> (\<forall>j < n. n div 2 \<le> j \<longrightarrow> m (in_window w j) = None)))"

definition rw_ok :: "mix_cfg \<Rightarrow> (Key \<rightharpoonup> u64) \<Rightarrow> nat \<Rightarrow> rw_worker \<Rightarrow> bool" where
  "rw_ok cfg m i w \<longleftrightarrow> (let n = length (query_keys w) in
     query_keys w = rw_keys cfg i \<and> delete_i w < n \<and> insert_i w = (delete_i w + n div 2) mod n \<and>
     query_i w < n div 2 \<and> update_i w < n div 2 \<and> window_in cfg m w)"

lemma wrap_half_less: "i < length (query_keys w) div 2 \<Longrightarrow> wrap_half w (Suc i) < length (query_keys w) div 2"
  by (simp add: wrap_half_def)

lemma wrap_all_mod: "i < length (query_keys w) \<Longrightarrow> wrap_all w (Suc i) = Suc i mod length (query_keys w)"
  by (auto simp: wrap_all_def)

text \<open>What counts is which of the worker's keys are in the table.\<close>

lemma window_in_cong:
  assumes "query_keys w \<noteq> []" "\<And>k. k \<in> set (query_keys w) \<Longrightarrow> m' k = None \<longleftrightarrow> m k = None"
  shows "window_in cfg m' w = window_in cfg m w"
  using assms(2) [OF in_window_keys [OF assms(1)]] by (simp add: window_in_def Let_def)

lemma rw_ok_frame:
  assumes "rw_ok cfg m i w" "2 \<le> length (rw_keys cfg i)" "\<And>k. k \<in> set (rw_keys cfg i) \<Longrightarrow> m' k = None \<longleftrightarrow> m k = None"
  shows "rw_ok cfg m' i w"
proof -
  have "query_keys w = rw_keys cfg i" "query_keys w \<noteq> []" using assms(1,2) by (auto simp: rw_ok_def Let_def)
  with window_in_cong [of w m' m cfg] assms(1,3) show ?thesis by (auto simp: rw_ok_def Let_def)
qed

text \<open>Moving the window by one key: what was behind it is in, its first key is out.\<close>

lemma in_window_move:
  assumes "delete_i w < length (query_keys w)"
  shows "in_window (w\<lparr>insert_i := a, delete_i := wrap_all w (Suc (delete_i w))\<rparr>) j = in_window w (Suc j)"
  using assms by (simp add: in_window_def wrap_all_mod mod_simps)

lemma window_in_move:
  assumes w: "window_in cfg m w" and q: "distinct (query_keys w)" "delete_i w < length (query_keys w)" "2 \<le> length (query_keys w)"
  shows "window_in cfg ((m(in_window w (length (query_keys w) div 2) \<mapsto> x))(in_window w 0 := None))
    (w\<lparr>insert_i := a, delete_i := wrap_all w (Suc (delete_i w))\<rparr>)" (is "window_in cfg ?m' ?w'")
proof -
  let ?n = "length (query_keys w)"
  note eq = in_window_eq [OF q(1,2)] and mv = in_window_move [OF q(2), of a]
  have last: "in_window w ?n = in_window w 0" using q(2) by (simp add: in_window_def)
  have "?m' (in_window ?w' j) \<noteq> None" if j: "j < ?n div 2" for j
  proof -
    have "Suc j < ?n" using j q(3) by linarith
    moreover from this have "in_window w (Suc j) \<noteq> in_window w 0" using eq [of "Suc j" 0] q(2) by (cases "query_keys w = []") auto
    moreover have "Suc j < ?n div 2 \<or> Suc j = ?n div 2" using j by linarith
    ultimately show ?thesis using w by (auto simp: mv window_in_def Let_def)
  qed
  moreover have "?m' (in_window ?w' j) = None" if "halves cfg" "j < ?n" "?n div 2 \<le> j" for j
  proof (cases "Suc j = ?n")
    case False
    then have "in_window w (Suc j) \<noteq> in_window w (?n div 2)" using eq [of "Suc j" "?n div 2"] that by simp
    moreover have "m (in_window w (Suc j)) = None" using w that False by (simp add: window_in_def Let_def)
    ultimately show ?thesis by (simp add: mv)
  qed (use last in \<open>simp add: mv\<close>)
  ultimately show ?thesis by (simp add: window_in_def Let_def)
qed

lemma rw_ok_move:
  assumes ok: "rw_ok cfg m i w" and keys: "distinct (rw_keys cfg i)" "2 \<le> length (rw_keys cfg i)"
  shows "rw_ok cfg ((m(query_keys w ! insert_i w \<mapsto> x))(query_keys w ! delete_i w := None)) i
    (w\<lparr>insert_i := wrap_all w (Suc (insert_i w)), delete_i := wrap_all w (Suc (delete_i w))\<rparr>)"
    (is "rw_ok _ _ _ ?w'")
proof -
  let ?n = "length (query_keys w)" and ?q = "query_keys w"
  note o = ok [unfolded rw_ok_def Let_def]
  have n: "distinct ?q" "delete_i w < ?n" "2 \<le> ?n" using o keys by auto
  have "insert_i w < ?n" using o n(3) by (metis mod_less_divisor not_numeral_le_zero bot_nat_0.not_eq_extremum)
  then have ins: "insert_i w = (delete_i w + ?n div 2) mod ?n" "insert_i ?w' = Suc (insert_i w) mod ?n"
    using o by (auto simp: wrap_all_mod)
  have d: "delete_i ?w' = Suc (delete_i w) mod ?n" using n(2) by (simp add: wrap_all_mod)
  have "insert_i ?w' = (delete_i ?w' + ?n div 2) mod ?n" unfolding ins(2) d unfolding ins(1) by (simp add: mod_simps)
  moreover have "delete_i ?w' < ?n" unfolding d using n(3) by (intro mod_less_divisor) linarith
  moreover have "query_keys w ! insert_i w = in_window w (?n div 2)" "query_keys w ! delete_i w = in_window w 0"
    using ins(1) n(2) by (simp_all add: in_window_def add.commute)
  moreover have "window_in cfg ((m(in_window w (?n div 2) \<mapsto> x))(in_window w 0 := None)) ?w'"
    using o by (intro window_in_move n) simp_all
  moreover have same: "query_keys ?w' = ?q" "query_i ?w' = query_i w" "update_i ?w' = update_i w" by simp_all
  ultimately show ?thesis using o unfolding rw_ok_def Let_def same by metis
qed

lemma rw_ok_data [simp]:
  "rw_ok cfg m i (w\<lparr>rw_gen := x\<rparr>) = rw_ok cfg m i w" "rw_ok cfg m i (w\<lparr>rw_cnt := y\<rparr>) = rw_ok cfg m i w"
  "rw_ok cfg m i (w\<lparr>rw_throughput := z\<rparr>) = rw_ok cfg m i w"
  by (simp_all add: rw_ok_def in_window_def window_in_def Let_def)

lemma rw_ok_query: "rw_ok cfg m i w \<Longrightarrow> rw_ok cfg m i (w\<lparr>query_i := wrap_half w (Suc (query_i w))\<rparr>)"
  "rw_ok cfg m i w \<Longrightarrow> rw_ok cfg m i (w\<lparr>update_i := wrap_half w (Suc (update_i w))\<rparr>)"
  by (auto simp: rw_ok_def in_window_def window_in_def wrap_half_def Let_def)

lemma ratio_dis_range: "fst (ratio_dis w) < 1" "\<exists>g. snd (ratio_dis w) = w\<lparr>rw_gen := g\<rparr>"
  by (auto simp: ratio_dis_def Let_def)

section \<open>Rounds\<close>

text \<open>A round of worker \<open>i\<close> that succeeds, keeps its window and leaves the keys of others alone.\<close>

definition round_ok ::
  "('s \<Rightarrow> bool list \<Rightarrow> (Key \<rightharpoonup> u64) \<Rightarrow> bool) \<Rightarrow> mix_cfg \<Rightarrow> bool list \<Rightarrow> (Key \<rightharpoonup> u64) \<Rightarrow> nat \<Rightarrow>
   fault + 's \<times> rw_worker \<Rightarrow> bool" where
  "round_ok J cfg ins m i r \<longleftrightarrow> (\<exists>t' w' m'. r = Inr (t', w') \<and> J t' ins m' \<and> rw_ok cfg m' i w' \<and>
     (\<forall>k. k \<notin> set (rw_keys cfg i) \<longrightarrow> m' k = m k))"

lemma round_okI:
  "J t' ins m' \<Longrightarrow> rw_ok cfg m' i w' \<Longrightarrow> (\<And>k. k \<notin> set (rw_keys cfg i) \<Longrightarrow> m' k = m k) \<Longrightarrow>
   round_ok J cfg ins m i (Inr (t', w'))"
  by (auto simp: round_ok_def)

lemma round_ok_count:
  assumes "round_ok J cfg ins m i r"
  shows "round_ok J cfg ins m i (bindE r (\<lambda>(table, w). Inr (table, w\<lparr>rw_throughput := f w\<rparr>)))"
proof -
  obtain t' w' m' where "r = Inr (t', w')" "J t' ins m'" "rw_ok cfg m' i w'"
    "\<forall>k. k \<notin> set (rw_keys cfg i) \<longrightarrow> m' k = m k" using assms by (auto simp: round_ok_def)
  then show ?thesis by (auto intro: round_okI)
qed

context removable_table
begin

lemma get_hits:
  assumes t: "inv t ins m" "i < length ins" "ins ! i" and w: "rw_ok cfg m i w" and n: "2 \<le> length (rw_keys cfg i)"
  shows "\<exists>v. rw_get api cfg i t w = Inr (True, v)"
proof -
  have q: "query_keys w \<noteq> []" "query_i w < length (query_keys w) div 2" "m (in_window w (query_i w)) \<noteq> None"
    using w n by (auto simp: rw_ok_def window_in_def Let_def)
  then obtain x where x: "m (in_window w (query_i w)) = Some x" by blast
  have "array_read (query_keys w) ((query_i w + delete_i w) mod length (query_keys w)) = Inr (in_window w (query_i w))"
    using q(1) by (simp add: in_window_def)
  with get_law [OF t, of "in_window w (query_i w)" "Value_brace (value_len cfg) 3333"] x show ?thesis
    by (auto simp: rw_get_def)
qed

lemma update_round:
  assumes t: "inv t ins m" "i < length ins" "ins ! i" and w: "rw_ok cfg m i w" and n: "2 \<le> length (rw_keys cfg i)"
  shows "round_ok inv cfg ins m i (rw_update api cfg i t w)"
proof -
  let ?k = "in_window w (update_i w)" and ?v = "Value_brace (value_len cfg) 12345"
  have q: "query_keys w \<noteq> []" "query_keys w = rw_keys cfg i" using w n by (auto simp: rw_ok_def Let_def)
  have k: "?k \<in> set (rw_keys cfg i)" using in_window_keys [OF q(1)] q(2) by simp
  obtain t' where t': "tab_insert api t i ?k ?v = Inr (t', True)" "inv t' ins (m(?k \<mapsto> val_of ?v))"
    using overwrite_law [OF t] by blast
  have "array_read (query_keys w) ((update_i w + delete_i w) mod length (query_keys w)) = Inr ?k"
    using q(1) by (simp add: in_window_def)
  with t'(1) have "rw_update api cfg i t w = Inr (t', w\<lparr>update_i := wrap_half w (Suc (update_i w))\<rparr>)"
    by (simp add: rw_update_def)
  moreover have "rw_ok cfg (m(?k \<mapsto> val_of ?v)) i (w\<lparr>update_i := wrap_half w (Suc (update_i w))\<rparr>)"
  proof (rule rw_ok_frame [OF rw_ok_query(2) [OF w] n])
    fix k assume "k \<in> set (rw_keys cfg i)"
    have "update_i w < length (query_keys w) div 2" "window_in cfg m w" using w unfolding rw_ok_def Let_def by blast+
    then show "(m(?k \<mapsto> val_of ?v)) k = None \<longleftrightarrow> m k = None" by (auto simp: window_in_def Let_def)
  qed
  ultimately show ?thesis using t'(2) k by (auto intro: round_okI)
qed

lemma move_round:
  assumes t: "inv t ins m" "i < length ins" "ins ! i" and w: "rw_ok cfg m i w"
    and n: "distinct (rw_keys cfg i)" "2 \<le> length (rw_keys cfg i)"
  shows "round_ok inv cfg ins m i (rw_move api cfg i t w)"
proof -
  let ?a = "query_keys w ! insert_i w" and ?b = "query_keys w ! delete_i w"
  let ?v = "Value_brace (value_len cfg) 12345"
  let ?w' = "w\<lparr>insert_i := wrap_all w (Suc (insert_i w)), delete_i := wrap_all w (Suc (delete_i w))\<rparr>"
  have q: "query_keys w = rw_keys cfg i" "delete_i w < length (query_keys w)" "query_keys w \<noteq> []"
    using w n by (auto simp: rw_ok_def Let_def)
  have "insert_i w < length (query_keys w)" using w q(3) by (simp add: rw_ok_def Let_def)
  then have ab: "?a \<in> set (rw_keys cfg i)" "?b \<in> set (rw_keys cfg i)"
    "array_read (query_keys w) (insert_i w) = Inr ?a" "array_read (query_keys w) (delete_i w) = Inr ?b"
    using q by auto
  obtain t1 where t1: "tab_insert api t i ?a ?v = Inr (t1, True)" "inv t1 ins (m(?a \<mapsto> val_of ?v))"
    using overwrite_law [OF t] by blast
  obtain t2 b where t2: "tab_remove api t1 i ?b = Inr (t2, b)" "inv t2 ins ((m(?a \<mapsto> val_of ?v))(?b := None))"
    using remove_law [OF t1(2) t(2,3)] by blast
  have "rw_move api cfg i t w = Inr (t2, ?w')" using t1(1) t2(1) ab(3,4) by (simp add: rw_move_def)
  moreover have "rw_ok cfg ((m(?a \<mapsto> val_of ?v))(?b := None)) i ?w'" by (rule rw_ok_move [OF w n])
  ultimately show ?thesis using t2(2) ab(1,2) by (auto intro!: round_okI [where J = inv])
qed

text \<open>No draw reaches the scans.\<close>

lemma run_round:
  assumes t: "inv t ins m" "i < length ins" "ins ! i" and w: "rw_ok cfg m i w"
    and cfg: "mix_cfg_ok cfg" "i < fg_n cfg"
  shows "round_ok inv cfg ins m i (rw_run api scan cfg i t w)"
    and "round_ok inv cfg ins m i (rw_warm api cfg i t w)"
proof -
  note n = rw_keys_ok(1,2) [OF cfg]
  obtain d g where d: "ratio_dis w = (d, w\<lparr>rw_gen := g\<rparr>)" "d < 1"
    using ratio_dis_range [of w] by (metis prod.collapse)
  let ?w = "w\<lparr>rw_gen := g\<rparr>"
  have w': "rw_ok cfg m i ?w" using w by simp
  have no_scan: "d \<le> moves_upto cfg" using cfg(1) d(2) by (simp add: mix_cfg_ok_def)
  obtain v where v: "rw_get api cfg i t ?w = Inr (True, v)" using get_hits [OF t w' n(2)] by blast
  have r: "read_ratio cfg = 1 \<or> read_ratio cfg < 1" using cfg(1) by (auto simp: mix_cfg_ok_def)
  note up = update_round [OF t w' n(2)] and mv = move_round [OF t w' n]
  have q: "wrap_half ?w (Suc (query_i w)) < length (query_keys w) div 2"
  proof -
    have "query_i w < length (query_keys w) div 2" using w unfolding rw_ok_def Let_def by blast
    then show ?thesis using wrap_half_less [of "query_i w" ?w] by simp
  qed
  have rd: "round_ok inv cfg ins m i (Inr (t, w'))"
    if "query_keys w' = query_keys w" "delete_i w' = delete_i w" "insert_i w' = insert_i w" "update_i w' = update_i w"
      "query_i w' = wrap_half ?w (Suc (query_i w))" for w'
    by (rule round_okI [where J = inv, OF t(1)]) (use w q that in \<open>auto simp: rw_ok_def in_window_def window_in_def Let_def\<close>)
  show "round_ok inv cfg ins m i (rw_warm api cfg i t w)"
    using up mv no_scan v r by (auto simp: rw_warm_def d(1) intro!: rd)
  show "round_ok inv cfg ins m i (rw_run api scan cfg i t w)"
    using round_ok_count [OF up] round_ok_count [OF mv] no_scan v by (auto simp: rw_run_def d(1) intro!: rd)
qed

end

section \<open>All workers and the table\<close>

fun phase_ok :: "mix_cfg \<Rightarrow> (Key \<rightharpoonup> u64) \<Rightarrow> nat \<Rightarrow> rw_worker fg_phase \<Rightarrow> bool" where
  "phase_ok cfg m i NotStarted = (let n = length (rw_keys cfg i) in
     (\<forall>j < n div 2. m (rw_keys cfg i ! j) \<noteq> None) \<and>
     (halves cfg \<longrightarrow> (\<forall>j < n. n div 2 \<le> j \<longrightarrow> m (rw_keys cfg i ! j) = None)))"
| "phase_ok cfg m i (Warmup w) = rw_ok cfg m i w"
| "phase_ok cfg m i (Measured w) = rw_ok cfg m i w"
| "phase_ok cfg m i (Finished w) = rw_ok cfg m i w"

definition rw_joint ::
  "('s \<Rightarrow> bool list \<Rightarrow> (Key \<rightharpoonup> u64) \<Rightarrow> bool) \<Rightarrow> mix_cfg \<Rightarrow> 's \<Rightarrow> rw_worker fg_phase list \<Rightarrow> bool" where
  "rw_joint J cfg t ps \<longleftrightarrow> mix_cfg_ok cfg \<and> length ps = fg_n cfg \<and>
     (\<exists>m. J t (map busy ps) m \<and> (\<forall>i < length ps. phase_ok cfg m i (ps ! i)))"

lemma phase_ok_frame:
  assumes "phase_ok cfg m k p" "2 \<le> length (rw_keys cfg k)" "\<And>x. x \<in> set (rw_keys cfg k) \<Longrightarrow> m' x = m x"
  shows "phase_ok cfg m' k p"
proof (cases p)
  case NotStarted
  have "rw_keys cfg k ! j \<in> set (rw_keys cfg k)" if "j < length (rw_keys cfg k)" for j
    using that by simp
  with assms NotStarted show ?thesis by (simp add: Let_def)
qed (use assms rw_ok_frame [of cfg m k _ m'] in auto)

text \<open>A round of one worker, seen by all.\<close>

lemma rw_joint_update:
  assumes "mix_cfg_ok cfg" "length ps = fg_n cfg" "i < length ps" "\<forall>k < length ps. phase_ok cfg m k (ps ! k)"
    and "J t' ((map busy ps)[i := busy p]) m'" "phase_ok cfg m' i p" "\<And>x. x \<notin> set (rw_keys cfg i) \<Longrightarrow> m' x = m x"
  shows "rw_joint J cfg t' (ps[i := p])"
proof -
  have "phase_ok cfg m' k (ps[i := p] ! k)" if k: "k < length ps" for k
  proof (cases "k = i")
    case False
    have "set (rw_keys cfg k) \<inter> set (rw_keys cfg i) = {}"
      using rw_keys_ok(4) [OF assms(1)] assms(2,3) k False by simp
    then have "m' x = m x" if "x \<in> set (rw_keys cfg k)" for x using assms(7) that by blast
    from phase_ok_frame [OF _ _ this] rw_keys_ok(2) [OF assms(1)] assms(2,4) k False show ?thesis by simp
  qed (use assms(3,6) in simp)
  with assms(1,2,5) show ?thesis unfolding rw_joint_def by (auto simp: map_update)
qed

lemma rw_joint_round:
  assumes "mix_cfg_ok cfg" "length ps = fg_n cfg" "i < length ps" "\<forall>k < length ps. phase_ok cfg m k (ps ! k)"
    and "round_ok J cfg (map busy ps) m i r" "busy (ps ! i)" "ph = Warmup \<or> ph = Measured"
  shows "\<exists>t' w'. r = Inr (t', w') \<and> rw_joint J cfg t' (ps[i := ph w'])"
proof -
  obtain t' w' m' where r: "r = Inr (t', w')" "J t' (map busy ps) m'" "rw_ok cfg m' i w'"
    "\<forall>k. k \<notin> set (rw_keys cfg i) \<longrightarrow> m' k = m k" using assms(5) by (auto simp: round_ok_def)
  have "J t' ((map busy ps)[i := busy (ph w')]) m'" "phase_ok cfg m' i (ph w')"
    using r(2,3) assms(3,6,7) by (auto simp: busy_same)
  from rw_joint_update [where J = J, OF assms(1-4) this] r(1,4) show ?thesis by blast
qed

context removable_table
begin

lemma rw_start_ok:
  assumes cfg: "mix_cfg_ok cfg" "i < fg_n cfg" and t: "inv t ins m" "i < length ins" "\<not> ins ! i"
    and m: "phase_ok cfg m i NotStarted"
  shows "\<exists>t' w. rw_start api cfg i gen t = Inr (t', w) \<and> inv t' (ins[i := True]) m \<and> rw_ok cfg m i w"
proof -
  note n = rw_keys_ok(2) [OF cfg]
  have "int i < 55" using cfg by (simp add: mix_cfg_ok_def)
  then obtain c where c: "bind_to_physical_cores (int i) = Inr c"
    using core_binding_injective [of 0] by (metis of_nat_0_le_iff)
  obtain t' where t': "fg_prologue api t i = Inr t'" "inv t' (ins[i := True]) m" using prologue_law [OF t] by blast
  let ?q = "rw_keys cfg i"
  have "read_ratio cfg = 1 \<or> non_exist_keys cfg \<noteq> []" using cfg(1) by (simp add: mix_cfg_ok_def)
  then have "rw_start api cfg i gen t = Inr (t', \<lparr>rw_gen = gen, query_keys = ?q, query_i = 0,
      insert_i = length ?q div 2, delete_i = 0, update_i = 0, rw_cnt = 0, rw_throughput = 0\<rparr>)"
    using c t'(1) by (auto simp: rw_start_def Let_def)
  moreover have "rw_ok cfg m i \<lparr>rw_gen = gen, query_keys = ?q, query_i = 0,
      insert_i = length ?q div 2, delete_i = 0, update_i = 0, rw_cnt = 0, rw_throughput = 0\<rparr>"
    using n m by (auto simp: rw_ok_def in_window_def window_in_def Let_def)
  ultimately show ?thesis using t'(2) by blast
qed

end

sublocale removable_table \<subseteq> mix: fg_joint "rw_body api scan cfg" "rw_joint inv cfg" for scan cfg
proof
  fix t ps i w d env assume J: "rw_joint inv cfg t ps" and i: "i < length ps"
  then obtain m where m: "inv t (map busy ps) m" "\<forall>k < length ps. phase_ok cfg m k (ps ! k)"
    and cfg: "mix_cfg_ok cfg" "length ps = fg_n cfg" by (auto simp: rw_joint_def)
  have ib: "i < length (map busy ps)" "i < fg_n cfg" using i cfg(2) by simp_all
  note upd = rw_joint_update [where J = inv and m = m and ps = ps and i = i, OF cfg i m(2)]
  show "\<exists>t' w. fg_start (rw_body api scan cfg) i env t = Inr (t', w) \<and> rw_joint inv cfg t' (ps[i := Warmup w])"
    if p: "ps ! i = NotStarted"
  proof -
    have "phase_ok cfg m i NotStarted" using m(2) i p by metis
    from rw_start_ok [OF cfg(1) ib(2) m(1) ib(1) _ this, of env] i p obtain t' w where
      "rw_start api cfg i env t = Inr (t', w)" "inv t' ((map busy ps)[i := True]) m" "rw_ok cfg m i w" by auto
    then show ?thesis using upd [of t' "Warmup w" m] by (simp add: rw_body_def)
  qed
  show "\<exists>t' w'. fg_warm (rw_body api scan cfg) i t w = Inr (t', w') \<and> rw_joint inv cfg t' (ps[i := Warmup w'])"
    if p: "ps ! i = Warmup w"
  proof -
    have "round_ok inv cfg (map busy ps) m i (rw_warm api cfg i t w)"
      by (rule run_round(2) [OF m(1) ib(1) _ _ cfg(1) ib(2)]) (use m(2) i p in auto)
    from rw_joint_round [OF cfg i m(2) this] p show ?thesis by (simp add: rw_body_def)
  qed
  show "rw_joint inv cfg t (ps[i := Measured (fg_turn (rw_body api scan cfg) w)])" if p: "ps ! i = Warmup w"
  proof -
    have "rw_ok cfg m i (w\<lparr>rw_cnt := 1\<rparr>)" using m(2) i p by auto
    then show ?thesis using upd [of t "Measured (w\<lparr>rw_cnt := 1\<rparr>)" m] m(1) i p
      by (simp add: rw_body_def busy_same)
  qed
  show "\<exists>t' w'. fg_run (rw_body api scan cfg) i d t w = Inr (t', w') \<and> rw_joint inv cfg t' (ps[i := Measured w'])"
    if p: "ps ! i = Measured w"
  proof -
    have "round_ok inv cfg (map busy ps) m i (rw_run api scan cfg i t w)"
      by (rule run_round(1) [OF m(1) ib(1) _ _ cfg(1) ib(2)]) (use m(2) i p in auto)
    from rw_joint_round [OF cfg i m(2) this] p show ?thesis by (simp add: rw_body_def)
  qed
  show "\<exists>t'. fg_stop (rw_body api scan cfg) i t = Inr t' \<and> rw_joint inv cfg t' (ps[i := Finished w])"
    if p: "ps ! i = Measured w"
  proof -
    obtain t' where "fg_epilogue api t i = Inr t'" "inv t' ((map busy ps)[i := False]) m"
      using epilogue_law [OF m(1) ib(1)] i p by auto
    moreover have "rw_ok cfg m i w" using m(2) i p by auto
    ultimately show ?thesis using upd [of t' "Finished w" m] by (simp add: rw_body_def)
  qed
qed

section \<open>Runs\<close>

text \<open>
  What every state of a run promises: any worker that reads finds its key, and, when there are as
  many new keys as loaded ones, the table holds half of every worker's keys, at any time.
\<close>

definition window_kept ::
  "'s tab_api \<Rightarrow> ('s \<Rightarrow> bool list \<Rightarrow> (Key \<rightharpoonup> u64) \<Rightarrow> bool) \<Rightarrow> mix_cfg \<Rightarrow> ('s, rw_worker) bench \<Rightarrow> bool" where
  "window_kept api J cfg b \<longleftrightarrow>
     (\<exists>m. J (b_table b) (map busy (b_fg b)) m \<and> (halves cfg \<longrightarrow>
       (\<forall>i < fg_n cfg. card {k \<in> set (rw_keys cfg i). m k \<noteq> None} = length (rw_keys cfg i) div 2))) \<and>
     (\<forall>i w. i < length (b_fg b) \<and> (b_fg b ! i = Warmup w \<or> b_fg b ! i = Measured w) \<longrightarrow>
       (\<exists>v. rw_get api cfg i (b_table b) w = Inr (True, v)))"

lemma card_halves:
  assumes "inj_on f {..<n}" "\<forall>j < n div 2. m (f j) \<noteq> None" "\<forall>j < n. n div 2 \<le> j \<longrightarrow> m (f j) = None"
  shows "card {k \<in> f ` {..<n}. m k \<noteq> None} = n div 2"
proof -
  have "{k \<in> f ` {..<n}. m k \<noteq> None} = f ` {..<n div 2}"
  proof (intro equalityI subsetI)
    fix k assume "k \<in> {k \<in> f ` {..<n}. m k \<noteq> None}"
    then obtain j where "k = f j" "j < n" "m (f j) \<noteq> None" by auto
    moreover from this assms(3) have "j < n div 2" by (metis not_le)
    ultimately show "k \<in> f ` {..<n div 2}" by simp
  next
    fix k assume "k \<in> f ` {..<n div 2}"
    with assms(2) show "k \<in> {k \<in> f ` {..<n}. m k \<noteq> None}" by auto
  qed
  moreover have "inj_on f {..<n div 2}" by (rule inj_on_subset [OF assms(1)]) auto
  ultimately show ?thesis by (simp add: card_image)
qed

lemma phase_ok_card:
  assumes "phase_ok cfg m i p" "halves cfg" "distinct (rw_keys cfg i)"
  shows "card {k \<in> set (rw_keys cfg i). m k \<noteq> None} = length (rw_keys cfg i) div 2"
proof -
  let ?q = "rw_keys cfg i"
  have worker: ?thesis if w: "rw_ok cfg m i w" for w
  proof -
    have q: "query_keys w = ?q" "delete_i w < length (query_keys w)" "window_in cfg m w"
      using w unfolding rw_ok_def Let_def by blast+
    have "distinct (query_keys w)" using assms(3) q(1) by simp
    note this q(2)
    from in_window_all [OF this] in_window_eq [OF this] q(3) assms(2)
    show ?thesis using card_halves [of "in_window w" "length (query_keys w)" m]
      by (simp add: q(1) window_in_def Let_def inj_on_def)
  qed
  show ?thesis
  proof (cases p)
    case NotStarted
    have "set ?q = (!) ?q ` {..<length ?q}" by (simp add: nth_image lessThan_atLeast0)
    with NotStarted assms card_halves [of "(!) ?q" "length ?q" m] show ?thesis
      by (simp add: Let_def inj_on_nth)
  qed (use assms(1) worker in auto)
qed

context removable_table
begin

lemma joint_window_kept:
  assumes "rw_joint inv cfg (b_table b) (b_fg b)"
  shows "window_kept api inv cfg b"
proof -
  obtain m where m: "inv (b_table b) (map busy (b_fg b)) m" "\<forall>i < length (b_fg b). phase_ok cfg m i (b_fg b ! i)"
    and cfg: "mix_cfg_ok cfg" "length (b_fg b) = fg_n cfg" using assms by (auto simp: rw_joint_def)
  have "\<exists>v. rw_get api cfg i (b_table b) w = Inr (True, v)"
    if i: "i < length (b_fg b)" "b_fg b ! i = Warmup w \<or> b_fg b ! i = Measured w" for i w
    by (rule get_hits [OF m(1)]) (use i m(2) rw_keys_ok(2) [OF cfg(1)] cfg(2) in auto)
  moreover have "card {k \<in> set (rw_keys cfg i). m k \<noteq> None} = length (rw_keys cfg i) div 2"
    if "halves cfg" "i < fg_n cfg" for i
    by (rule phase_ok_card) (use that m(2) cfg rw_keys_ok(1) [OF cfg(1)] in auto)
  ultimately show ?thesis using m(1) unfolding window_kept_def by blast
qed

lemma loaded_window_kept:
  assumes t: "inv t (replicate (fg_n cfg) False) m" "dom m = set ks" "mset (all_keys cfg) = mset ks"
    and cfg: "mix_cfg_ok cfg"
  shows "\<forall>r. bench_reach (rw_body api scan cfg) (bench_init (fg_n cfg) t) r \<longrightarrow>
    (\<exists>b. r = Inr b \<and> bench_ok b \<and> rw_joint inv cfg (b_table b) (b_fg b) \<and> window_kept api inv cfg b)"
proof -
  have dom: "m k \<noteq> None \<longleftrightarrow> k \<in> set (all_keys cfg)" for k using t(2) mset_eq_setD [OF t(3)] by auto
  have "phase_ok cfg m i NotStarted" if i: "i < fg_n cfg" for i
  proof -
    let ?q = "rw_keys cfg i"
    have "m (?q ! j) = None" if h: "halves cfg" "j < length ?q" "length ?q div 2 \<le> j" for j
    proof -
      have "length ?q = 2 * length (thread_slice (fg_n cfg) (all_keys cfg) i)"
        using h(1) i by (simp add: rw_keys_def thread_slice_length halves_def)
      then have "?q ! j \<in> set (thread_slice (fg_n cfg) (non_exist_keys cfg) i)"
        using h by (auto simp: rw_keys_def nth_append)
      then have "?q ! j \<in> set (non_exist_keys cfg)" using thread_slice_subset [of "fg_n cfg" "non_exist_keys cfg" i] by blast
      with cfg dom [of "?q ! j"] show ?thesis by (auto simp: mix_cfg_ok_def)
    qed
    with rw_keys_ok(3) [OF cfg i] dom show ?thesis by (simp add: Let_def)
  qed
  with t(1) cfg have "rw_joint inv cfg t (replicate (fg_n cfg) NotStarted)"
    unfolding rw_joint_def by (auto intro!: exI [of _ m] simp del: phase_ok.simps)
  then have "rw_joint inv cfg (b_table (bench_init (fg_n cfg) t)) (b_fg (bench_init (fg_n cfg) t))"
    by (simp add: bench_init_def)
  note J = this
  show ?thesis
  proof (intro allI impI)
    fix r assume r: "bench_reach (rw_body api scan cfg) (bench_init (fg_n cfg) t) r"
    from mix.reach_joint [OF r J] obtain b where b: "r = Inr b" "rw_joint inv cfg (b_table b) (b_fg b)" by blast
    with bench_reach_ok [OF r bench_init_ok] joint_window_kept [OF b(2)]
    show "\<exists>b. r = Inr b \<and> bench_ok b \<and> rw_joint inv cfg (b_table b) (b_fg b) \<and> window_kept api inv cfg b" by blast
  qed
qed

end

text \<open>Over a wormhole, no reference is left when all threads are joined.\<close>

lemma rw_mix_wormhole_reads_hit:
  assumes q: "wormhole_contract q ok cont refs"
    and "ok (create c)" and "refs (create c) = {#}" and "cont (create c) = os_empty"
    and "mix_cfg_ok cfg" and "mset (all_keys cfg) = mset ks"
  shows "\<exists>t. prepare_wormhole q create (fg_n cfg) c (value_len cfg) ks = Inr t \<and>
    (\<forall>r. bench_reach (rw_body (tab_wh q) scan cfg) (bench_init (fg_n cfg) t) r \<longrightarrow>
      (\<exists>b. r = Inr b \<and> window_kept (tab_wh q) (wh_inv ok cont refs) cfg b \<and>
        (b_main b = Joined \<longrightarrow> refs (wh_ptr (b_table b)) = {#})))"
proof -
  have l: "micro_wormhole q ok cont refs" using q by (rule micro_wormhole.intro)
  have "0 < fg_n cfg" using assms(5) by (simp add: mix_cfg_ok_def)
  then obtain t m where t: "prepare_wormhole q create (fg_n cfg) c (value_len cfg) ks = Inr t"
    "wh_inv ok cont refs t (replicate (fg_n cfg) False) m" "dom m = set ks"
    using micro_wormhole.prepare_ok [where create = create, OF l assms(2-4), of "fg_n cfg" "value_len cfg" ks] by blast
  have "\<exists>b. r = Inr b \<and> window_kept (tab_wh q) (wh_inv ok cont refs) cfg b \<and>
      (b_main b = Joined \<longrightarrow> refs (wh_ptr (b_table b)) = {#})"
    if "bench_reach (rw_body (tab_wh q) scan cfg) (bench_init (fg_n cfg) t) r" for r
  proof -
    obtain b where b: "r = Inr b" "bench_ok b" "rw_joint (wh_inv ok cont refs) cfg (b_table b) (b_fg b)"
      "window_kept (tab_wh q) (wh_inv ok cont refs) cfg b"
      using removable_table.loaded_window_kept [OF micro_wormhole.is_removable [OF l] t(2,3) assms(6,5)] \<open>bench_reach _ _ r\<close>
      by blast
    have "refs (wh_ptr (b_table b)) = {#}" if "b_main b = Joined"
    proof -
      have "list_all is_Finished (b_fg b)" using b(2) that by (simp add: bench_ok_def)
      then have "map busy (b_fg b) = replicate (length (b_fg b)) False"
        by (intro replicate_eqI) (auto simp: list_all_iff is_Finished_def)
      with b(3) micro_wormhole.no_refs_left [OF l] show ?thesis by (auto simp: rw_joint_def)
    qed
    with b show ?thesis by blast
  qed
  with t(1) show ?thesis by blast
qed

section \<open>Properties\<close>

text \<open>C5: the mixed workload over Masstree always reads present keys: although the workers insert and
  remove all the time, in every reachable state of every run (any draws and any interleaving of up
  to 55 threads, with ratios that leave no room for scans) the next read of every worker finds its
  key, and when there are as many new keys as loaded ones the table keeps its size: it holds half
  of each worker's keys. No state is a fault.\<close>

theorem rw_mix_reads_hit:
  assumes q: "masstree_contract q ok cont" and "ok (initialize c)" and "cont (initialize c) = os_empty"
    and "mix_cfg_ok cfg" and "mset (all_keys cfg) = mset ks"
  shows "\<exists>t. prepare_masstree q initialize c (value_len cfg) ks = Inr t \<and>
    (\<forall>r. bench_reach (rw_body (tab_mt q) scan cfg) (bench_init (fg_n cfg) t) r \<longrightarrow>
      (\<exists>b. r = Inr b \<and> window_kept (tab_mt q) (mt_inv ok cont) cfg b))"
proof -
  have l: "micro_masstree q ok cont" using q by (rule micro_masstree.intro)
  obtain t m where t: "prepare_masstree q initialize c (value_len cfg) ks = Inr t" "\<And>ins. mt_inv ok cont t ins m"
    "dom m = set ks"
    using micro_masstree.prepare_ok [where initialize = initialize, OF l assms(2,3), of "value_len cfg" ks] by blast
  from t(1) removable_table.loaded_window_kept [OF micro_masstree.is_removable [OF l] t(2,3) assms(5,4)]
  show ?thesis by blast
qed

definition mix_sample :: mix_cfg where
  "mix_sample = \<lparr>target = ''masstree'', fg_n = 2, read_ratio = 1 / 2,
     all_keys = [Key 3, Key 1], value_len = 0, non_exist_keys = [Key 2, Key 4],
     insert_ratio = 1 / 4, delete_ratio = 1 / 4, inplace_ratio = 0\<rparr>"

lemma rw_mix_reads_hit_witness:
  "\<exists>t. prepare_masstree os_api (\<lambda>_. os_empty) 0 0 [Key 1, Key 3] = Inr t \<and>
    \<not> bench_reach (rw_body (tab_mt os_api) (\<lambda>_ _ _ _. Inr []) mix_sample) (bench_init 2 t) (Inl Aborted)"
proof -
  have "moves_upto mix_sample = 1" by code_simp
  then have "mix_cfg_ok mix_sample" by (simp add: mix_cfg_ok_def mix_sample_def)
  moreover have "mset (all_keys mix_sample) = mset [Key 1, Key 3]" by (simp add: mix_sample_def)
  ultimately show ?thesis
    using rw_mix_reads_hit [where initialize = "\<lambda>_. os_empty" and c = 0, OF os_api_contract]
    by (fastforce simp: mix_sample_def)
qed

section \<open>Scans leave the window\<close>

text \<open>
  One worker that only scans, drawing \<open>d\<close> every time: after \<open>j\<close> rounds it stands at \<open>query_i = j\<close>,
  since a scan does not wrap at half the list.
\<close>

definition scanning :: "mix_cfg \<Rightarrow> rat \<Rightarrow> nat \<Rightarrow> rw_worker" where
  "scanning cfg d j = \<lparr>rw_gen = (\<lambda>_. d), query_keys = rw_keys cfg 0, query_i = j,
     insert_i = length (rw_keys cfg 0) div 2, delete_i = 0, update_i = 0, rw_cnt = 1, rw_throughput = of_nat j\<rparr>"

definition scan_draw :: "mix_cfg \<Rightarrow> rat \<Rightarrow> bool" where
  "scan_draw cfg d \<longleftrightarrow> 0 \<le> d \<and> d < 1 \<and> read_ratio cfg < d \<and> f64 (read_ratio cfg + insert_ratio cfg) < d \<and>
     moves_upto cfg < d"

lemma scanning_round:
  assumes "scan_draw cfg d" "Suc j < length (rw_keys cfg 0)" "scan t 0 (rw_keys cfg 0 ! j) 100 = Inr res"
  shows "rw_run api scan cfg 0 t (scanning cfg d j) = Inr (t, scanning cfg d (Suc j))"
  using assms by (simp add: rw_run_def scanning_def ratio_dis_def scan_draw_def wrap_all_def Let_def)

lemma scanning_reach:
  assumes d: "scan_draw cfg d" and scan: "\<And>k. \<exists>res. scan t 0 k 100 = Inr res"
    and start: "rw_start api cfg 0 (\<lambda>_. d) t0 = Inr (t, (scanning cfg d 0)\<lparr>rw_cnt := 0\<rparr>)"
  shows "j < length (rw_keys cfg 0) \<Longrightarrow> bench_reach (rw_body api scan cfg) (bench_init 1 t0)
    (Inr \<lparr>b_table = t, b_fg = [Measured (scanning cfg d j)], ready_threads = 1, running = True, b_main = Sleeping\<rparr>)"
proof (induction j)
  case 0
  let ?B = "\<lambda>ps run ph. \<lparr>b_table = t, b_fg = [ps], ready_threads = 1, running = run, b_main = ph\<rparr>"
  let ?w = "(scanning cfg d 0)\<lparr>rw_cnt := 0\<rparr>" and ?body = "rw_body api scan cfg"
  have "bench_step ?body (bench_init 1 t0) (Inr (?B (Warmup ?w) False AwaitReady))"
    using bench_step.start [of 0 "bench_init 1 t0" ?body "\<lambda>_. d"] start
    by (simp add: bench_init_def rw_body_def fg_result_Inr)
  moreover have "bench_step ?body (?B (Warmup ?w) False AwaitReady) (Inr (?B (Warmup ?w) True Sleeping))"
    using bench_step.all_ready [of "?B (Warmup ?w) False AwaitReady" ?body] by simp
  moreover have "bench_step ?body (?B (Warmup ?w) True Sleeping) (Inr (?B (Measured (scanning cfg d 0)) True Sleeping))"
    using bench_step.turn [of 0 "?B (Warmup ?w) True Sleeping" ?w ?body]
    by (simp add: rw_body_def) (simp add: scanning_def)
  ultimately show ?case by (meson bench_reach.intros)
next
  case (Suc j)
  let ?b = "\<lparr>b_table = t, b_fg = [Measured (scanning cfg d j)], ready_threads = 1, running = True, b_main = Sleeping\<rparr>"
  obtain res where "scan t 0 (rw_keys cfg 0 ! j) 100 = Inr res" using scan by blast
  from scanning_round [where scan = scan and api = api, OF d Suc.prems this]
  have "bench_step (rw_body api scan cfg) ?b (Inr (?b\<lparr>b_fg := [Measured (scanning cfg d (Suc j))]\<rparr>))"
    using bench_step.run [of 0 ?b "scanning cfg d j" "rw_body api scan cfg" 0] by (simp add: rw_body_def fg_result_Inr)
  moreover have "bench_reach (rw_body api scan cfg) (bench_init 1 t0) (Inr ?b)" using Suc by simp
  ultimately have "bench_reach (rw_body api scan cfg) (bench_init 1 t0) (Inr (?b\<lparr>b_fg := [Measured (scanning cfg d (Suc j))]\<rparr>))"
    by (rule bench_reach.step [rotated])
  then show ?case by simp
qed

text \<open>\<open>table->scan\<close> on Masstree with the keys of the micro-benchmarks\<close>

definition scan_mt :: "('s, Value) mt_api \<Rightarrow> 's \<Rightarrow> nat \<Rightarrow> Key \<Rightarrow> nat \<Rightarrow> fault + (Key \<times> Value) list" where
  "scan_mt q t worker_id k n = Inr (fst (MasstreeKV_scan q key_enc key_dec t k n []))"

text \<open>C16: with scans in the mix the window is lost: the scan branch lets \<open>query_i\<close> run to the end of
  the whole key list, while reads add \<open>delete_i\<close> to it and wrap at half the list. With one thread,
  as many new keys as loaded ones and a ratio for scans, a run over Masstree reaches a state in
  which the next read of the measured loop looks for a key that is not in the table.\<close>

theorem rw_mix_scans_miss:
  assumes q: "masstree_contract q ok cont" and "ok (initialize c)" and "cont (initialize c) = os_empty"
    and cfg: "fg_n cfg = 1" "all_keys cfg \<noteq> []" "length (non_exist_keys cfg) = length (all_keys cfg)"
      "distinct (all_keys cfg @ non_exist_keys cfg)" "mset (all_keys cfg) = mset ks"
    and d: "scan_draw cfg d"
  shows "\<exists>t b w v. prepare_masstree q initialize c (value_len cfg) ks = Inr t \<and>
    bench_reach (rw_body (tab_mt q) (scan_mt q) cfg) (bench_init (fg_n cfg) t) (Inr b) \<and>
    running b \<and> b_fg b = [Measured w] \<and> rw_get (tab_mt q) cfg 0 (b_table b) w = Inr (False, v)"
proof -
  have l: "micro_masstree q ok cont" using q by (rule micro_masstree.intro)
  obtain t m where t: "prepare_masstree q initialize c (value_len cfg) ks = Inr t" "\<And>ins. mt_inv ok cont t ins m"
    "dom m = set ks"
    using micro_masstree.prepare_ok [where initialize = initialize, OF l assms(2,3), of "value_len cfg" ks] by blast
  have keys: "rw_keys cfg 0 = all_keys cfg @ non_exist_keys cfg"
    using cfg(1) by (simp add: rw_keys_def thread_slice_def)
  let ?n = "length (all_keys cfg)" and ?w = "scanning cfg d (length (all_keys cfg))"
  have n: "?n < length (rw_keys cfg 0)" using cfg(2,3) by (simp add: keys)
  obtain c where "bind_to_physical_cores 0 = Inr c" using core_binding_injective [of 0] by force
  moreover have "non_exist_keys cfg \<noteq> []" using cfg(2,3) by auto
  ultimately have "rw_start (tab_mt q) cfg 0 (\<lambda>_. d) t = Inr (t, (scanning cfg d 0)\<lparr>rw_cnt := 0\<rparr>)"
    by (simp add: rw_start_def scanning_def tab_mt_def Let_def)
  from scanning_reach [OF d _ this n, of "scan_mt q"] cfg(1)
  have r: "bench_reach (rw_body (tab_mt q) (scan_mt q) cfg) (bench_init (fg_n cfg) t)
    (Inr \<lparr>b_table = t, b_fg = [Measured ?w], ready_threads = 1, running = True, b_main = Sleeping\<rparr>)"
    by (simp add: scan_mt_def)
  let ?k = "non_exist_keys cfg ! 0"
  have "?k \<in> set (non_exist_keys cfg)" using \<open>non_exist_keys cfg \<noteq> []\<close> by simp
  then have "m ?k = None" using cfg(4) t(3) mset_eq_setD [OF cfg(5)] by auto
  from last_write_table.absent_law [OF micro_masstree.is_last_write_table [OF l] t(2) _ _ this, of 0 "[True]"]
  obtain v where "tab_get (tab_mt q) t 0 ?k (Value_brace (value_len cfg) 3333) = Inr (False, v)" by auto
  moreover have "array_read (query_keys ?w) ((query_i ?w + delete_i ?w) mod length (query_keys ?w)) = Inr ?k"
    using n by (simp add: scanning_def keys nth_append)
  ultimately have "rw_get (tab_mt q) cfg 0 t ?w = Inr (False, v)" by (simp add: rw_get_def)
  with t(1) r show ?thesis by fastforce
qed

lemma rw_mix_scans_miss_witness:
  "\<exists>t b. prepare_masstree os_api (\<lambda>_. os_empty) 0 0 [Key 1, Key 3] = Inr t \<and>
    bench_reach (rw_body (tab_mt os_api) (scan_mt os_api) (mix_sample\<lparr>fg_n := 1, insert_ratio := 0\<rparr>)) (bench_init 1 t) (Inr b)"
proof -
  let ?cfg = "mix_sample\<lparr>fg_n := 1, insert_ratio := 0\<rparr>"
  have "scan_draw ?cfg (7 / 8)" by code_simp
  moreover have "mset (all_keys ?cfg) = mset [Key 1, Key 3]" "fg_n ?cfg = 1" "all_keys ?cfg \<noteq> []"
    "length (non_exist_keys ?cfg) = length (all_keys ?cfg)" "distinct (all_keys ?cfg @ non_exist_keys ?cfg)"
    "value_len ?cfg = 0" by (simp_all add: mix_sample_def)
  ultimately show ?thesis
    using rw_mix_scans_miss [where initialize = "\<lambda>_. os_empty" and c = 0 and cfg = ?cfg and ks = "[Key 1, Key 3]", OF os_api_contract]
    by fastforce
qed

end
