(* ===== verification/ReadLatest.thy ===== *)
theory ReadLatest
  imports RwMix
begin

text \<open>
  The driver \<open>benchmark/synthetic/read_latest.cpp\<close> (YCSB D): a worker generates reads of recently
  inserted keys, inserts of new keys and removals, as many as it needs to insert all its new keys,
  and replays them round and round. The generating loop may not end; a thread that stays in it is
  \<open>Inl Diverges\<close>. The draws of \<open>ratio_dis\<close> and of the Zipfian generator are arguments, one stream
  of each for every thread, indexed by the round. \<open>ANALYZE_LATENCY\<close> and \<open>ORIGIN_YCSB\<close> are off, the
  default; the epoch calls of Masstree's memory reclamation are left out.
\<close>

section \<open>Generating the operations\<close>

text \<open>One round; \<open>z\<close> is \<open>zipf_gen.nextValue(exist_key_n_per_thread)\<close>, drawn for a read only.\<close>

definition rl_op ::
  "mix_cfg \<Rightarrow> Key list \<Rightarrow> rat \<Rightarrow> nat \<Rightarrow> nat \<Rightarrow> nat \<Rightarrow> fault + operation_t \<times> nat \<times> nat" where
  "rl_op cfg op_keys d z ins_i del_i =
     (if d \<le> read_ratio cfg then
        bindE (guardE AssertFailed (z \<le> ins_i)) (\<lambda>_.
        bindE (array_read op_keys (ins_i - z)) (\<lambda>k.
        Inr ((Op_read, k), ins_i, del_i)))
      else if d \<le> f64 (read_ratio cfg + insert_ratio cfg) then
        bindE (array_read op_keys ins_i) (\<lambda>k.
        Inr ((Op_insert, k), Suc ins_i, del_i))
      else
        bindE (array_read op_keys del_i) (\<lambda>k.
        bindE (guardE AssertFailed (Suc del_i < ins_i)) (\<lambda>_.
        Inr ((Op_remove, k), ins_i, Suc del_i))))"

partial_function (option) rl_gen ::
  "mix_cfg \<Rightarrow> Key list \<Rightarrow> (nat \<Rightarrow> rat) \<Rightarrow> (nat \<Rightarrow> nat) \<Rightarrow> operation_t list \<Rightarrow> nat \<Rightarrow> nat \<Rightarrow>
   (fault + operation_t list) option" where
  "rl_gen cfg op_keys ds zs ops ins_i del_i =
     (if ins_i < length op_keys
      then case rl_op cfg op_keys (ds (length ops)) (zs (length ops)) ins_i del_i of
             Inl e \<Rightarrow> Some (Inl e)
           | Inr (op, ins_i, del_i) \<Rightarrow> rl_gen cfg op_keys ds zs (ops @ [op]) ins_i del_i
      else Some (Inr ops))"

definition rl_operations ::
  "mix_cfg \<Rightarrow> nat \<Rightarrow> (nat \<Rightarrow> rat) \<times> (nat \<Rightarrow> nat) \<Rightarrow> fault + operation_t list" where
  "rl_operations cfg thread_id draws =
     returnsE (rl_gen cfg (rw_keys cfg thread_id) (fst draws) (snd draws) []
       (length (all_keys cfg) div fg_n cfg) 0)"

section \<open>The bodies\<close>

record rl_worker =
  rl_ops :: "operation_t list"
  rl_keys :: "Key list"
  rl_r :: u64
  rl_cnt :: u64
  rl_b :: bool
  rl_query_i :: nat
  rl_op_i :: nat
  rl_throughput :: u64

definition rl_start ::
  "'s tab_api \<Rightarrow> mix_cfg \<Rightarrow> (nat \<Rightarrow> (nat \<Rightarrow> rat) \<times> (nat \<Rightarrow> nat)) \<Rightarrow> nat \<Rightarrow> 's \<Rightarrow> fault + 's \<times> rl_worker" where
  "rl_start api cfg draws thread_id table =
     bindE (bind_to_physical_cores (int thread_id)) (\<lambda>_.
     let table = (if target cfg = ''smart'' \<or> target cfg = ''pac'' then tab_register_thread api table else table);
         r = set_seed0 (of_nat thread_id)
     in bindE (rl_operations cfg thread_id (draws thread_id)) (\<lambda>ops.
        bindE (fg_prologue api table thread_id) (\<lambda>table.
        Inr (table, \<lparr>rl_ops = ops, rl_keys = rw_keys cfg thread_id, rl_r = r, rl_cnt = 0, rl_b = False,
                     rl_query_i = 0, rl_op_i = 0, rl_throughput = 0\<rparr>))))"

definition rl_warm ::
  "'s tab_api \<Rightarrow> mix_cfg \<Rightarrow> nat \<Rightarrow> 's \<Rightarrow> rl_worker \<Rightarrow> fault + 's \<times> rl_worker" where
  "rl_warm api cfg thread_id table w =
     bindE (array_read (rl_keys w) (rl_query_i w)) (\<lambda>k.
     bindE (tab_get api table thread_id k (Value_brace (value_len cfg) 3333)) (\<lambda>(b, v).
     let q_i = Suc (rl_query_i w)
     in Inr (table, w\<lparr>rl_query_i := (if q_i = length (rl_keys w) then 0 else q_i)\<rparr>)))"

definition rl_turn :: "rl_worker \<Rightarrow> rl_worker" where
  "rl_turn w = w\<lparr>rl_cnt := 0, rl_op_i := 0, rl_b := False\<rparr>"

definition rl_switch ::
  "'s tab_api \<Rightarrow> mix_cfg \<Rightarrow> nat \<Rightarrow> 's \<Rightarrow> rl_worker \<Rightarrow> fault + 's \<times> rl_worker" where
  "rl_switch api cfg thread_id table w =
     bindE (array_read (rl_ops w) (rl_op_i w)) (\<lambda>(op, k).
     let v = Value_brace (value_len cfg) 3333 in
     case op of
       Op_read \<Rightarrow>
         bindE (tab_get api table thread_id k v) (\<lambda>(b, v).
         Inr (table, w\<lparr>rl_b := b, rl_cnt := rl_cnt w + (if 333 <s val_of v then 1 else 0)\<rparr>))
     | Op_insert \<Rightarrow>
         bindE (rand_int64 (rl_r w) 123 1234567890) (\<lambda>(x, r).
         bindE (tab_insert api table thread_id k (Value (val_padding v) (word_of_int x))) (\<lambda>(table, b).
         Inr (table, w\<lparr>rl_r := r, rl_b := b\<rparr>)))
     | Op_remove \<Rightarrow>
         bindE (tab_remove api table thread_id k) (\<lambda>(table, b). Inr (table, w\<lparr>rl_b := b\<rparr>))
     | _ \<Rightarrow> Inl Aborted)"

definition rl_next :: "rl_worker \<Rightarrow> rl_worker" where
  "rl_next w = (let op_i = Suc (rl_op_i w)
     in w\<lparr>rl_op_i := (if op_i = length (rl_ops w) then 0 else op_i), rl_throughput := rl_throughput w + 1\<rparr>)"

definition rl_run ::
  "'s tab_api \<Rightarrow> mix_cfg \<Rightarrow> nat \<Rightarrow> rat \<Rightarrow> 's \<Rightarrow> rl_worker \<Rightarrow> fault + 's \<times> rl_worker" where
  "rl_run api cfg thread_id d table w =
     bindE (rl_switch api cfg thread_id table (w\<lparr>rl_cnt := rl_cnt w + (if f64 (9 / 10) < d then 1 else 0)\<rparr>))
       (\<lambda>(table, w). Inr (table, rl_next w))"

definition rl_body ::
  "'s tab_api \<Rightarrow> mix_cfg \<Rightarrow> (nat \<Rightarrow> (nat \<Rightarrow> rat) \<times> (nat \<Rightarrow> nat)) \<Rightarrow> ('s, rl_worker, unit) fg_body" where
  "rl_body api cfg draws = \<lparr>fg_start = (\<lambda>i env. rl_start api cfg draws i), fg_warm = rl_warm api cfg,
     fg_turn = rl_turn, fg_run = rl_run api cfg, fg_stop = (\<lambda>i t. fg_epilogue api t i)\<rparr>"

section \<open>When the generator ends\<close>

text \<open>
  Draws without removals, with offsets between 1 and the number of loaded keys, as the Zipfian
  generator gives them. \<open>is_new\<close> tells that a draw gives an insert.
\<close>

definition is_new :: "mix_cfg \<Rightarrow> rat \<Rightarrow> bool" where
  "is_new cfg d \<longleftrightarrow> read_ratio cfg < d \<and> d \<le> f64 (read_ratio cfg + insert_ratio cfg)"

definition draws_ok :: "mix_cfg \<Rightarrow> nat \<Rightarrow> (nat \<Rightarrow> rat) \<times> (nat \<Rightarrow> nat) \<Rightarrow> bool" where
  "draws_ok cfg ex draws \<longleftrightarrow> (\<forall>n. fst draws n \<le> f64 (read_ratio cfg + insert_ratio cfg) \<and>
     1 \<le> snd draws n \<and> snd draws n \<le> ex)"

definition news :: "mix_cfg \<Rightarrow> (nat \<Rightarrow> rat) \<Rightarrow> nat \<Rightarrow> nat" where
  "news cfg ds n = length (filter (\<lambda>j. is_new cfg (ds j)) [0..<n])"

lemma news_simps [simp]: "news cfg ds 0 = 0" "news cfg ds (Suc n) = news cfg ds n + of_bool (is_new cfg (ds n))"
  by (simp_all add: news_def)

text \<open>With an insert ratio of 0, the default of the option, no draw gives an insert.\<close>

lemma news_ratio_0:
  "insert_ratio cfg = 0 \<Longrightarrow> f64 (read_ratio cfg) = read_ratio cfg \<Longrightarrow> news cfg ds n = 0"
  by (induction n) (simp_all add: is_new_def)

text \<open>The operation of round \<open>j\<close>.\<close>

definition op_at :: "mix_cfg \<Rightarrow> Key list \<Rightarrow> nat \<Rightarrow> (nat \<Rightarrow> rat) \<times> (nat \<Rightarrow> nat) \<Rightarrow> nat \<Rightarrow> operation_t" where
  "op_at cfg op_keys ex draws j = (let i = ex + news cfg (fst draws) j
     in if is_new cfg (fst draws j) then (Op_insert, op_keys ! i) else (Op_read, op_keys ! (i - snd draws j)))"

lemma rl_op_at:
  assumes "draws_ok cfg ex draws" "ex + news cfg (fst draws) n < length op_keys"
  shows "rl_op cfg op_keys (fst draws n) (snd draws n) (ex + news cfg (fst draws) n) 0 =
    Inr (op_at cfg op_keys ex draws n, ex + news cfg (fst draws) (Suc n), 0)"
proof -
  let ?z = "snd draws n" and ?d = "fst draws n"
  have z: "1 \<le> ?z" "?z \<le> ex" "?d \<le> f64 (read_ratio cfg + insert_ratio cfg)"
    using assms(1) by (simp_all add: draws_ok_def)
  with assms(2) show ?thesis by (simp add: rl_op_def op_at_def is_new_def Let_def)
qed

lemma rl_gen_rounds:
  assumes "draws_ok cfg ex draws"
  shows "(\<forall>k<n. ex + news cfg (fst draws) k < length op_keys) \<Longrightarrow>
    rl_gen cfg op_keys (fst draws) (snd draws) [] ex 0 =
    rl_gen cfg op_keys (fst draws) (snd draws) (map (op_at cfg op_keys ex draws) [0..<n]) (ex + news cfg (fst draws) n) 0"
proof (induction n)
  case (Suc n)
  then have IH: "rl_gen cfg op_keys (fst draws) (snd draws) [] ex 0 =
      rl_gen cfg op_keys (fst draws) (snd draws) (map (op_at cfg op_keys ex draws) [0..<n]) (ex + news cfg (fst draws) n) 0"
    by simp
  have lt: "ex + news cfg (fst draws) n < length op_keys" using Suc.prems by simp
  have "rl_gen cfg op_keys (fst draws) (snd draws) (map (op_at cfg op_keys ex draws) [0..<n]) (ex + news cfg (fst draws) n) 0 =
      rl_gen cfg op_keys (fst draws) (snd draws) (map (op_at cfg op_keys ex draws) [0..<Suc n]) (ex + news cfg (fst draws) (Suc n)) 0"
    using rl_op_at [OF assms lt] lt by (subst rl_gen.simps) simp
  with IH show ?case by (rule trans)
qed simp

lemma rl_gen_returns:
  assumes d: "draws_ok cfg ex draws" and N: "length op_keys \<le> ex + news cfg (fst draws) N"
    and first: "\<forall>k<N. ex + news cfg (fst draws) k < length op_keys"
  shows "rl_gen cfg op_keys (fst draws) (snd draws) [] ex 0 = Some (Inr (map (op_at cfg op_keys ex draws) [0..<N]))"
  unfolding rl_gen_rounds [OF d first] using N by (subst rl_gen.simps) simp

lemma rl_gen_enough:
  assumes "draws_ok cfg ex draws" "rl_gen cfg op_keys (fst draws) (snd draws) [] ex 0 = Some r"
  shows "\<exists>n. length op_keys \<le> ex + news cfg (fst draws) n"
proof -
  have "cfg' = cfg \<longrightarrow> keys' = op_keys \<longrightarrow> ds = fst draws \<longrightarrow> zs = snd draws \<longrightarrow>
      ins = ex + news cfg (fst draws) (length ops) \<longrightarrow> del = 0 \<longrightarrow> (\<exists>n. length op_keys \<le> ex + news cfg (fst draws) n)"
    if "rl_gen cfg' keys' ds zs ops ins del = Some r" for cfg' keys' ds zs ops ins del r
  proof (rule rl_gen.raw_induct [OF _ that], intro impI)
    fix f cfg' keys' ds zs ops ins del r
    assume IH: "\<And>cfg' keys' ds zs ops ins del r. f cfg' keys' ds zs ops ins del = Some r \<Longrightarrow>
        cfg' = cfg \<longrightarrow> keys' = op_keys \<longrightarrow> ds = fst draws \<longrightarrow> zs = snd draws \<longrightarrow>
        ins = ex + news cfg (fst draws) (length ops) \<longrightarrow> del = 0 \<longrightarrow> (\<exists>n. length op_keys \<le> ex + news cfg (fst draws) n)"
      and body: "(if ins < length keys' then case rl_op cfg' keys' (ds (length ops)) (zs (length ops)) ins del of
          Inl e \<Rightarrow> Some (Inl e) | Inr (op, ins, del) \<Rightarrow> f cfg' keys' ds zs (ops @ [op]) ins del
        else Some (Inr ops)) = Some r"
      and eqs: "cfg' = cfg" "keys' = op_keys" "ds = fst draws" "zs = snd draws"
        "ins = ex + news cfg (fst draws) (length ops)" "del = 0"
    show "\<exists>n. length op_keys \<le> ex + news cfg (fst draws) n"
    proof (cases "ins < length op_keys")
      case True
      with rl_op_at [OF assms(1), of "length ops" op_keys] body eqs IH show ?thesis by auto
    next
      case False
      with eqs show ?thesis by (auto intro!: exI [of _ "length ops"])
    qed
  qed
  with assms(2) show ?thesis by fastforce
qed


text \<open>
  What a list of operations promises: no removal, and a read is of a key of \<open>E\<close> or of one that an
  earlier operation inserts.
\<close>

definition inserted :: "operation_t list \<Rightarrow> Key set" where
  "inserted ops = {k. (Op_insert, k) \<in> set ops}"

definition replay_ok :: "Key set \<Rightarrow> operation_t list \<Rightarrow> bool" where
  "replay_ok E ops \<longleftrightarrow> (\<forall>p < length ops. fst (ops ! p) = Op_insert \<or>
     fst (ops ! p) = Op_read \<and> snd (ops ! p) \<in> E \<union> inserted (take p ops))"

lemma generated_inserts:
  "map snd (filter (\<lambda>op. fst op = Op_insert) (map (op_at cfg op_keys ex draws) [0..<n])) =
   map ((!) op_keys) [ex..<ex + news cfg (fst draws) n]"
  by (induction n) (simp_all add: op_at_def Let_def)

lemma inserted_eq: "inserted ops = set (map snd (filter (\<lambda>op. fst op = Op_insert) ops))"
  by (force simp: inserted_def)

lemma generated_replay_ok:
  assumes "draws_ok cfg ex draws" "\<forall>k<n. ex + news cfg (fst draws) k < length op_keys"
  shows "replay_ok (set (take ex op_keys)) (map (op_at cfg op_keys ex draws) [0..<n])"
  unfolding replay_ok_def
proof (intro allI impI)
  fix p assume "p < length (map (op_at cfg op_keys ex draws) [0..<n])"
  then have p: "p < n" by simp
  let ?i = "ex + news cfg (fst draws) p" and ?z = "snd draws p"
  have z: "1 \<le> ?z" "?z \<le> ex" and i: "?i < length op_keys" using assms p by (simp_all add: draws_ok_def)
  have "op_keys ! (?i - ?z) \<in> set (take ex op_keys) \<union> inserted (map (op_at cfg op_keys ex draws) [0..<p])"
  proof (cases "?i - ?z < ex")
    case True
    then have "op_keys ! (?i - ?z) = take ex op_keys ! (?i - ?z)" "?i - ?z < length (take ex op_keys)"
      using i by simp_all
    then show ?thesis by (metis UnI1 nth_mem)
  next
    case False
    then have "?i - ?z \<in> set [ex..<?i]" using z by simp
    then show ?thesis unfolding inserted_eq generated_inserts by (intro UnI2) simp
  qed
  moreover have "take p (map (op_at cfg op_keys ex draws) [0..<n]) = map (op_at cfg op_keys ex draws) [0..<p]"
    using p by (simp add: take_map take_upt)
  ultimately show "fst (map (op_at cfg op_keys ex draws) [0..<n] ! p) = Op_insert \<or>
      fst (map (op_at cfg op_keys ex draws) [0..<n] ! p) = Op_read \<and>
      snd (map (op_at cfg op_keys ex draws) [0..<n] ! p) \<in> set (take ex op_keys) \<union>
        inserted (take p (map (op_at cfg op_keys ex draws) [0..<n]))"
    using p by (simp add: op_at_def Let_def)
qed

lemma news_first:
  assumes "k \<le> ex + news cfg ds n"
  obtains N where "k \<le> ex + news cfg ds N" "\<forall>j<N. ex + news cfg ds j < k"
  using that [of "LEAST n. k \<le> ex + news cfg ds n"] LeastI [of "\<lambda>n. k \<le> ex + news cfg ds n" n]
    not_less_Least [of _ "\<lambda>n. k \<le> ex + news cfg ds n"] assms by (meson not_le)

lemma rl_gen_result:
  assumes d: "draws_ok cfg ex draws" and "length op_keys \<le> ex + news cfg (fst draws) n" "ex \<le> length op_keys"
  shows "\<exists>ops. rl_gen cfg op_keys (fst draws) (snd draws) [] ex 0 = Some (Inr ops) \<and>
    replay_ok (set (take ex op_keys)) ops \<and>
    map snd (filter (\<lambda>op. fst op = Op_insert) ops) = drop ex op_keys \<and> (ex < length op_keys \<longrightarrow> ops \<noteq> [])"
proof -
  obtain N where N: "length op_keys \<le> ex + news cfg (fst draws) N" "\<forall>j<N. ex + news cfg (fst draws) j < length op_keys"
    using news_first [OF assms(2)] .
  let ?ops = "map (op_at cfg op_keys ex draws) [0..<N]"
  have last: "ex + news cfg (fst draws) N = length op_keys"
    using N assms(3) by (cases N) (force split: if_splits)+
  have "map ((!) op_keys) [ex..<length op_keys] = drop ex op_keys"
    by (rule nth_equalityI) simp_all
  then have "map snd (filter (\<lambda>op. fst op = Op_insert) ?ops) = drop ex op_keys"
    using generated_inserts [of cfg op_keys ex draws N] unfolding last by simp
  moreover have "ex < length op_keys \<longrightarrow> ?ops \<noteq> []" using last by (cases N) auto
  moreover have "rl_gen cfg op_keys (fst draws) (snd draws) [] ex 0 = Some (Inr ?ops)"
    by (rule rl_gen_returns [OF d N])
  ultimately show ?thesis using generated_replay_ok [OF d N(2)] by blast
qed

section \<open>The invariant of a run\<close>

definition rl_cfg_ok :: "mix_cfg \<Rightarrow> bool" where
  "rl_cfg_ok cfg \<longleftrightarrow> 0 < fg_n cfg \<and> fg_n cfg \<le> 55 \<and> 0 < length (all_keys cfg) div fg_n cfg \<and>
     0 < length (non_exist_keys cfg) div fg_n cfg"

text \<open>Every thread draws enough inserts for its share of the new keys, and no removals.\<close>

definition rl_draws_ok :: "mix_cfg \<Rightarrow> (nat \<Rightarrow> (nat \<Rightarrow> rat) \<times> (nat \<Rightarrow> nat)) \<Rightarrow> bool" where
  "rl_draws_ok cfg draws \<longleftrightarrow> (\<forall>i < fg_n cfg. draws_ok cfg (length (all_keys cfg) div fg_n cfg) (draws i) \<and>
     (\<exists>n. length (non_exist_keys cfg) div fg_n cfg \<le> news cfg (fst (draws i)) n))"

definition rl_wok :: "mix_cfg \<Rightarrow> Key set \<Rightarrow> rl_worker \<Rightarrow> bool" where
  "rl_wok cfg D w \<longleftrightarrow> rl_query_i w < length (rl_keys w) \<and> rl_op_i w < length (rl_ops w) \<and>
     replay_ok (set (all_keys cfg)) (rl_ops w) \<and> inserted (take (rl_op_i w) (rl_ops w)) \<subseteq> D"

text \<open>The loaded keys stay, and so does whatever a worker has inserted: a predicate that is stable
  under the steps of all others, since the table only grows.\<close>

definition rl_joint ::
  "('s \<Rightarrow> bool list \<Rightarrow> (Key \<rightharpoonup> u64) \<Rightarrow> bool) \<Rightarrow> mix_cfg \<Rightarrow> 's \<Rightarrow> rl_worker fg_phase list \<Rightarrow> bool" where
  "rl_joint J cfg t ps \<longleftrightarrow> length ps = fg_n cfg \<and>
     (\<exists>m. J t (map busy ps) m \<and> set (all_keys cfg) \<subseteq> dom m \<and>
       (\<forall>p\<in>set ps. \<forall>w. fg_data p = Some w \<longrightarrow> rl_wok cfg (dom m) w))"

lemma rl_wok_mono: "rl_wok cfg D w \<Longrightarrow> D \<subseteq> D' \<Longrightarrow> rl_wok cfg D' w"
  by (auto simp: rl_wok_def)

lemma rl_joint_update:
  assumes "length ps = fg_n cfg" "set (all_keys cfg) \<subseteq> dom m" "\<forall>p\<in>set ps. \<forall>w. fg_data p = Some w \<longrightarrow> rl_wok cfg (dom m) w"
    and "J t' ((map busy ps)[i := busy p]) m'" "dom m \<subseteq> dom m'" "\<And>w. fg_data p = Some w \<Longrightarrow> rl_wok cfg (dom m') w"
  shows "rl_joint J cfg t' (ps[i := p])"
proof -
  have "\<forall>q\<in>set (ps[i := p]). \<forall>w. fg_data q = Some w \<longrightarrow> rl_wok cfg (dom m') w"
    using assms(3,6) rl_wok_mono [OF _ assms(5)] set_update_subset_insert [of ps i p] by blast
  with assms(1,2,4,5) show ?thesis unfolding rl_joint_def
    by (intro conjI exI [of _ m']) (auto simp: map_update)
qed

lemma inserted_take_Suc:
  "p < length ops \<Longrightarrow> inserted (take (Suc p) ops) =
   (if fst (ops ! p) = Op_insert then insert (snd (ops ! p)) (inserted (take p ops)) else inserted (take p ops))"
  by (cases "ops ! p") (auto simp: inserted_def take_Suc_conv_app_nth)

lemma rl_next_ok:
  assumes "rl_wok cfg D w" "fst (rl_ops w ! rl_op_i w) = Op_insert \<Longrightarrow> snd (rl_ops w ! rl_op_i w) \<in> D"
  shows "rl_wok cfg D (rl_next w)"
proof -
  let ?p = "rl_op_i w" and ?ops = "rl_ops w"
  have p: "?p < length ?ops" "inserted (take ?p ?ops) \<subseteq> D" using assms(1) by (simp_all add: rl_wok_def)
  then have "inserted (take (Suc ?p) ?ops) \<subseteq> D" using assms(2) by (simp add: inserted_take_Suc)
  moreover have "inserted (take 0 ?ops) \<subseteq> D" by (simp add: inserted_def)
  moreover have "0 < length ?ops" using p(1) by linarith
  ultimately show ?thesis using assms(1) p(1) by (auto simp: rl_wok_def rl_next_def Let_def)
qed

lemma rl_next_data [simp]: "rl_b (rl_next w) = rl_b w" "rl_throughput (rl_next w) = rl_throughput w + 1"
  by (simp_all add: rl_next_def Let_def)

lemma rl_wok_data [simp]:
  "rl_wok cfg D (w\<lparr>rl_b := b\<rparr>) = rl_wok cfg D w" "rl_wok cfg D (w\<lparr>rl_cnt := c\<rparr>) = rl_wok cfg D w"
  "rl_wok cfg D (w\<lparr>rl_r := r\<rparr>) = rl_wok cfg D w"
  by (simp_all add: rl_wok_def)

context micro_table
begin

lemma rl_run_ok:
  assumes t: "inv t ins m" "i < length ins" "ins ! i" and m: "set (all_keys cfg) \<subseteq> dom m" and w: "rl_wok cfg (dom m) w"
  shows "\<exists>t' w' m'. rl_run api cfg i d t w = Inr (t', w') \<and> inv t' ins m' \<and> dom m \<subseteq> dom m' \<and>
    rl_wok cfg (dom m') w' \<and> rl_b w' \<and> rl_throughput w' = rl_throughput w + 1"
proof -
  let ?w = "w\<lparr>rl_cnt := rl_cnt w + (if f64 (9 / 10) < d then 1 else 0)\<rparr>" and ?v = "Value_brace (value_len cfg) 3333"
  obtain op k where opk: "rl_ops w ! rl_op_i w = (op, k)" by fastforce
  have rd: "array_read (rl_ops w) (rl_op_i w) = Inr (op, k)" using w opk by (simp add: rl_wok_def)
  have "op = Op_insert \<or> op = Op_read \<and> k \<in> dom m"
    using w m opk unfolding rl_wok_def replay_ok_def by fastforce
  then show ?thesis
  proof
    assume op: "op = Op_insert"
    obtain x where x: "rand_int64 (rl_r w) 123 1234567890 = Inr (x, fr_step (fr_step (rl_r w)))"
      using rand_int64_ranges(3,4) [of "rl_r w"] by blast
    let ?x = "Value (val_padding ?v) (word_of_int x)"
    obtain t' m' where t': "tab_insert api t i k ?x = Inr (t', True)" "inv t' ins m'" "dom m' = insert k (dom m)"
      using insert_law [OF t, of k ?x] by blast
    let ?w' = "?w\<lparr>rl_r := fr_step (fr_step (rl_r w)), rl_b := True\<rparr>"
    have "rl_wok cfg (dom m') ?w'" using rl_wok_mono [OF w, of "dom m'"] t'(3) by (simp add: rl_wok_def) blast
    then have "rl_wok cfg (dom m') (rl_next ?w')" by (rule rl_next_ok) (simp add: opk t'(3))
    moreover have "rl_run api cfg i d t w = Inr (t', rl_next ?w')"
      using rd op x t'(1) by (simp add: rl_run_def rl_switch_def Let_def)
    ultimately show ?thesis using t'(2,3) by (intro exI [of _ t'] exI [of _ "rl_next ?w'"] exI [of _ m']) auto
  next
    assume op: "op = Op_read \<and> k \<in> dom m"
    then obtain y where "m k = Some y" by blast
    then obtain v where v: "tab_get api t i k ?v = Inr (True, v)" using get_law [OF t, of k ?v] by auto
    let ?w' = "?w\<lparr>rl_b := True, rl_cnt := rl_cnt ?w + (if 333 <s val_of v then 1 else 0)\<rparr>"
    have "rl_wok cfg (dom m) (rl_next ?w')"
    proof (rule rl_next_ok)
      show "rl_wok cfg (dom m) ?w'" using w by (simp add: rl_wok_def)
    qed (use op in \<open>simp add: opk\<close>)
    moreover have "rl_run api cfg i d t w = Inr (t, rl_next ?w')"
      using rd op v by (simp add: rl_run_def rl_switch_def Let_def)
    ultimately show ?thesis using t(1) by (intro exI [of _ t] exI [of _ "rl_next ?w'"] exI [of _ m]) auto
  qed
qed

lemma rl_warm_ok:
  assumes t: "inv t ins m" "i < length ins" "ins ! i" and w: "rl_wok cfg D w"
  shows "\<exists>w'. rl_warm api cfg i t w = Inr (t, w') \<and> rl_wok cfg D w'"
proof -
  let ?k = "rl_keys w ! rl_query_i w" and ?v = "Value_brace (value_len cfg) 3333"
  have "array_read (rl_keys w) (rl_query_i w) = Inr ?k" using w by (simp add: rl_wok_def)
  moreover obtain b v' where "tab_get api t i ?k ?v = Inr (b, v')" using get_law [OF t, of ?k ?v] by blast
  ultimately show ?thesis using w by (auto simp: rl_warm_def rl_wok_def Let_def)
qed

lemma rl_start_ok:
  assumes cfg: "rl_cfg_ok cfg" "rl_draws_ok cfg draws" "i < fg_n cfg"
    and t: "inv t ins m" "i < length ins" "\<not> ins ! i"
  shows "\<exists>t' w. rl_start api cfg draws i t = Inr (t', w) \<and> inv t' (ins[i := True]) m \<and> rl_wok cfg D w"
proof -
  have "int i < 55" using cfg by (simp add: rl_cfg_ok_def)
  then obtain c where c: "bind_to_physical_cores (int i) = Inr c"
    using core_binding_injective [of 0] by (metis of_nat_0_le_iff)
  let ?t = "if target cfg = ''smart'' \<or> target cfg = ''pac'' then tab_register_thread api t else t"
  have "inv ?t ins m" using t(1) register_law by simp
  from prologue_law [OF this t(2,3)] obtain t' where
    t': "fg_prologue api ?t i = Inr t'" "inv t' (ins[i := True]) m" by blast
  let ?ex = "length (all_keys cfg) div fg_n cfg" and ?q = "rw_keys cfg i"
  have len: "length ?q = ?ex + length (non_exist_keys cfg) div fg_n cfg"
    using cfg(3) by (simp add: rw_keys_def thread_slice_length)
  have d: "draws_ok cfg ?ex (draws i)" using cfg(2,3) by (simp add: rl_draws_ok_def)
  obtain n where n: "length ?q \<le> ?ex + news cfg (fst (draws i)) n"
    using cfg(2,3) len by (auto simp: rl_draws_ok_def)
  have lt: "?ex < length ?q" using cfg(1) len by (simp add: rl_cfg_ok_def)
  then obtain ops where ops: "rl_gen cfg ?q (fst (draws i)) (snd (draws i)) [] ?ex 0 = Some (Inr ops)"
    "replay_ok (set (take ?ex ?q)) ops" "ops \<noteq> []" using rl_gen_result [OF d n] by auto
  have "set (take ?ex ?q) \<subseteq> set (all_keys cfg)"
    using thread_slice_subset [of "fg_n cfg" "all_keys cfg" i] cfg(3)
    by (auto simp: rw_keys_def thread_slice_length)
  with ops(2) have r: "replay_ok (set (all_keys cfg)) ops" unfolding replay_ok_def by blast
  let ?w = "\<lparr>rl_ops = ops, rl_keys = ?q, rl_r = set_seed0 (of_nat i), rl_cnt = 0, rl_b = False,
    rl_query_i = 0, rl_op_i = 0, rl_throughput = 0\<rparr>"
  have "rl_start api cfg draws i t = Inr (t', ?w)"
    using c t'(1) ops(1) by (simp add: rl_start_def rl_operations_def returnsE_def Let_def)
  moreover have "rl_wok cfg D ?w" using r ops(3) lt by (auto simp: rl_wok_def inserted_def)
  ultimately show ?thesis using t'(2) by blast
qed

end

text \<open>The configuration is fixed: \<open>C\<close> below is what a run starts with.\<close>

definition rl_ready ::
  "('s \<Rightarrow> bool list \<Rightarrow> (Key \<rightharpoonup> u64) \<Rightarrow> bool) \<Rightarrow> mix_cfg \<Rightarrow> (nat \<Rightarrow> (nat \<Rightarrow> rat) \<times> (nat \<Rightarrow> nat)) \<Rightarrow>
   's \<Rightarrow> rl_worker fg_phase list \<Rightarrow> bool" where
  "rl_ready J cfg draws t ps \<longleftrightarrow> rl_cfg_ok cfg \<and> rl_draws_ok cfg draws \<and> rl_joint J cfg t ps"

sublocale micro_table \<subseteq> latest: fg_joint "rl_body api cfg draws" "rl_ready inv cfg draws" for cfg draws
proof
  fix t ps i w d env assume J: "rl_ready inv cfg draws t ps" and i: "i < length ps"
  then obtain m where m: "inv t (map busy ps) m" "set (all_keys cfg) \<subseteq> dom m"
      "\<forall>p\<in>set ps. \<forall>w. fg_data p = Some w \<longrightarrow> rl_wok cfg (dom m) w"
    and cfg: "rl_cfg_ok cfg" "rl_draws_ok cfg draws" "length ps = fg_n cfg"
    by (auto simp: rl_ready_def rl_joint_def)
  have ib: "i < length (map busy ps)" "i < fg_n cfg" using i cfg(3) by simp_all
  have wok: "rl_wok cfg (dom m) w" if "fg_data (ps ! i) = Some w" using m(3) nth_mem [OF i] that by blast
  note upd = rl_joint_update [where J = inv and m = m and ps = ps and i = i, OF cfg(3) m(2,3)]
  show "\<exists>t' w. fg_start (rl_body api cfg draws) i env t = Inr (t', w) \<and> rl_ready inv cfg draws t' (ps[i := Warmup w])"
    if p: "ps ! i = NotStarted"
  proof -
    obtain t' w where "rl_start api cfg draws i t = Inr (t', w)" "inv t' ((map busy ps)[i := True]) m" "rl_wok cfg (dom m) w"
      using rl_start_ok [OF cfg(1,2) ib(2) m(1) ib(1), of "dom m"] i p by auto
    then show ?thesis using upd [of t' "Warmup w" m] cfg by (simp add: rl_body_def rl_ready_def)
  qed
  show "\<exists>t' w'. fg_warm (rl_body api cfg draws) i t w = Inr (t', w') \<and> rl_ready inv cfg draws t' (ps[i := Warmup w'])"
    if p: "ps ! i = Warmup w"
  proof -
    obtain w' where "rl_warm api cfg i t w = Inr (t, w')" "rl_wok cfg (dom m) w'"
      using rl_warm_ok [OF m(1) ib(1), of cfg "dom m" w] wok i p by auto
    then show ?thesis using upd [of t "Warmup w'" m] m(1) i p cfg
      by (simp add: rl_body_def rl_ready_def busy_same)
  qed
  show "rl_ready inv cfg draws t (ps[i := Measured (fg_turn (rl_body api cfg draws) w)])" if p: "ps ! i = Warmup w"
  proof -
    have "rl_ops w \<noteq> []" "rl_wok cfg (dom m) w" using wok p by (auto simp: rl_wok_def)
    then have "rl_wok cfg (dom m) (rl_turn w)" by (simp add: rl_wok_def rl_turn_def inserted_def)
    then show ?thesis using upd [of t "Measured (rl_turn w)" m] m(1) i p cfg
      by (simp add: rl_body_def rl_ready_def busy_same)
  qed
  show "\<exists>t' w'. fg_run (rl_body api cfg draws) i d t w = Inr (t', w') \<and> rl_ready inv cfg draws t' (ps[i := Measured w'])"
    if p: "ps ! i = Measured w"
  proof -
    obtain t' w' m' where "rl_run api cfg i d t w = Inr (t', w')" "inv t' (map busy ps) m'" "dom m \<subseteq> dom m'"
      "rl_wok cfg (dom m') w'"
      using rl_run_ok [OF m(1) ib(1) _ m(2), of w d] wok i p by auto
    then show ?thesis using upd [of t' "Measured w'" m'] i p cfg
      by (simp add: rl_body_def rl_ready_def busy_same)
  qed
  show "\<exists>t'. fg_stop (rl_body api cfg draws) i t = Inr t' \<and> rl_ready inv cfg draws t' (ps[i := Finished w])"
    if p: "ps ! i = Measured w"
  proof -
    obtain t' where "fg_epilogue api t i = Inr t'" "inv t' ((map busy ps)[i := False]) m"
      using epilogue_law [OF m(1) ib(1)] i p by auto
    moreover have "rl_wok cfg (dom m) w" using wok p by simp
    ultimately show ?thesis using upd [of t' "Finished w" m] cfg by (simp add: rl_body_def rl_ready_def)
  qed
qed

section \<open>Properties\<close>

text \<open>C17: the generator of \<open>read_latest\<close>, for draws that give no removal: it returns if and only if the
  draws contain an insert for every new key (with an insert ratio of 0 there is none,
  \<open>news_ratio_0\<close>). Then its list inserts exactly the worker's new keys, each once and in order, and
  every read is of a loaded key or of one that an earlier operation of the list inserts.\<close>

theorem read_latest_generator:
  assumes "draws_ok cfg ex draws" and "ex \<le> length op_keys"
  shows "case rl_gen cfg op_keys (fst draws) (snd draws) [] ex 0 of
      None \<Rightarrow> \<forall>n. news cfg (fst draws) n < length op_keys - ex
    | Some r \<Rightarrow> (\<exists>n. length op_keys - ex \<le> news cfg (fst draws) n) \<and>
        (\<exists>ops. r = Inr ops \<and> map snd (filter (\<lambda>op. fst op = Op_insert) ops) = drop ex op_keys \<and>
          replay_ok (set (take ex op_keys)) ops)"
proof -
  have le: "length op_keys - ex \<le> a \<longleftrightarrow> length op_keys \<le> ex + a" for a by linarith
  note res = rl_gen_result [OF assms(1) _ assms(2)]
  show ?thesis
  proof (cases "rl_gen cfg op_keys (fst draws) (snd draws) [] ex 0")
    case None
    with res show ?thesis by (force simp flip: not_le simp: le)
  next
    case (Some r)
    then obtain n where n: "length op_keys \<le> ex + news cfg (fst draws) n" using rl_gen_enough [OF assms(1)] by blast
    from res [OF n] Some n show ?thesis unfolding le by auto
  qed
qed

text \<open>The draws of the witnesses: a read of the last key, then an insert, and so on.\<close>

definition rl_sample :: "nat \<Rightarrow> (nat \<Rightarrow> rat) \<times> (nat \<Rightarrow> nat)" where
  "rl_sample i = ((\<lambda>n. if even n then 1 / 4 else 3 / 4), (\<lambda>_. 1))"

lemma rl_sample_ok: "rl_cfg_ok (mix_sample\<lparr>insert_ratio := 1 / 2\<rparr>)" "draws_ok (mix_sample\<lparr>insert_ratio := 1 / 2\<rparr>) 1 (rl_sample i)"
  "news (mix_sample\<lparr>insert_ratio := 1 / 2\<rparr>) (fst (rl_sample i)) 2 = 1"
  "rl_draws_ok (mix_sample\<lparr>insert_ratio := 1 / 2\<rparr>) rl_sample"
proof -
  have 1: "f64 (1 / 2 + 1 / 2) = 1" by code_simp
  then show "rl_cfg_ok (mix_sample\<lparr>insert_ratio := 1 / 2\<rparr>)"
    and d: "draws_ok (mix_sample\<lparr>insert_ratio := 1 / 2\<rparr>) 1 (rl_sample i)" for i
    by (simp_all add: rl_cfg_ok_def draws_ok_def rl_sample_def mix_sample_def)
  show n: "news (mix_sample\<lparr>insert_ratio := 1 / 2\<rparr>) (fst (rl_sample i)) 2 = 1" for i
    using 1 by (simp add: numeral_2_eq_2 is_new_def mix_sample_def rl_sample_def)
  with d show "rl_draws_ok (mix_sample\<lparr>insert_ratio := 1 / 2\<rparr>) rl_sample"
    by (auto simp: rl_draws_ok_def mix_sample_def intro!: exI [of _ 2])
qed

lemma read_latest_generator_witness:
  "\<exists>ops. rl_gen (mix_sample\<lparr>insert_ratio := 1 / 2\<rparr>) [Key 3, Key 2] (fst (rl_sample 0)) (snd (rl_sample 0)) [] 1 0 = Some (Inr ops) \<and>
    map snd (filter (\<lambda>op. fst op = Op_insert) ops) = [Key 2]"
proof -
  have "\<not> news (mix_sample\<lparr>insert_ratio := 1 / 2\<rparr>) (fst (rl_sample 0)) 2 < 1" unfolding rl_sample_ok(3) by simp
  with read_latest_generator [OF rl_sample_ok(2) [of 0], of "[Key 3, Key 2]"]
  show ?thesis by (fastforce split: option.splits)
qed

text \<open>Whatever a measuring worker does next succeeds.\<close>

definition always_succeeds :: "'s tab_api \<Rightarrow> mix_cfg \<Rightarrow> ('s, rl_worker) bench \<Rightarrow> bool" where
  "always_succeeds api cfg b \<longleftrightarrow> (\<forall>i w d. i < length (b_fg b) \<and> b_fg b ! i = Measured w \<longrightarrow>
     (\<exists>t' w'. rl_run api cfg i d (b_table b) w = Inr (t', w') \<and> rl_b w' \<and> rl_throughput w' = rl_throughput w + 1))"

context micro_table
begin

lemma loaded_always_succeeds:
  assumes "inv t (replicate (fg_n cfg) False) m" "dom m = set ks" "mset (all_keys cfg) = mset ks"
    and "rl_cfg_ok cfg" "rl_draws_ok cfg draws" and r: "bench_reach (rl_body api cfg draws) (bench_init (fg_n cfg) t) r"
  shows "\<exists>b. r = Inr b \<and> always_succeeds api cfg b"
proof -
  have "rl_joint inv cfg t (replicate (fg_n cfg) NotStarted)"
    unfolding rl_joint_def using assms(1,2) mset_eq_setD [OF assms(3)] by (intro conjI exI [of _ m]) auto
  then have "rl_ready inv cfg draws (b_table (bench_init (fg_n cfg) t)) (b_fg (bench_init (fg_n cfg) t))"
    using assms(4,5) by (simp add: rl_ready_def bench_init_def)
  from latest.reach_joint [OF r this] obtain b where b: "r = Inr b" "rl_ready inv cfg draws (b_table b) (b_fg b)" by blast
  then obtain m where m: "inv (b_table b) (map busy (b_fg b)) m" "set (all_keys cfg) \<subseteq> dom m"
      "\<forall>p\<in>set (b_fg b). \<forall>w. fg_data p = Some w \<longrightarrow> rl_wok cfg (dom m) w" by (auto simp: rl_ready_def rl_joint_def)
  have "\<exists>t' w'. rl_run api cfg i d (b_table b) w = Inr (t', w') \<and> rl_b w' \<and> rl_throughput w' = rl_throughput w + 1"
    if i: "i < length (b_fg b)" "b_fg b ! i = Measured w" for i w d
  proof -
    have "rl_wok cfg (dom m) w" using m(3) nth_mem [OF i(1)] i(2) by force
    from rl_run_ok [OF m(1) _ _ m(2) this, of i d] i show ?thesis by auto
  qed
  with b(1) show ?thesis unfolding always_succeeds_def by blast
qed

end

text \<open>C6: YCSB D over Masstree: when the draws give no removals and every thread draws enough inserts,
  then in any run, with any interleaving of up to 55 threads, no state is a fault, and whatever a
  measuring worker does next succeeds: reads of the latest keys find keys that the worker itself has
  inserted before, in every round of the replay, while the others insert theirs.\<close>

theorem read_latest_never_misses:
  assumes q: "masstree_contract q ok cont" and "ok (initialize c)" and "cont (initialize c) = os_empty"
    and "rl_cfg_ok cfg" and "rl_draws_ok cfg draws" and "mset (all_keys cfg) = mset ks"
  shows "\<exists>t. prepare_masstree q initialize c (value_len cfg) ks = Inr t \<and>
    (\<forall>r. bench_reach (rl_body (tab_mt q) cfg draws) (bench_init (fg_n cfg) t) r \<longrightarrow>
      (\<exists>b. r = Inr b \<and> always_succeeds (tab_mt q) cfg b))"
proof -
  have l: "micro_masstree q ok cont" using q by (rule micro_masstree.intro)
  obtain t m where t: "prepare_masstree q initialize c (value_len cfg) ks = Inr t" "\<And>ins. mt_inv ok cont t ins m"
    "dom m = set ks"
    using micro_masstree.prepare_ok [where initialize = initialize, OF l assms(2,3), of "value_len cfg" ks] by blast
  from t(1) micro_table.loaded_always_succeeds [OF micro_masstree.is_table [OF l] t(2,3) assms(6,4,5)]
  show ?thesis by blast
qed

lemma read_latest_never_misses_witness:
  "\<exists>t. prepare_masstree os_api (\<lambda>_. os_empty) 0 0 [Key 1, Key 3] = Inr t \<and>
    \<not> bench_reach (rl_body (tab_mt os_api) (mix_sample\<lparr>insert_ratio := 1 / 2\<rparr>) rl_sample) (bench_init 2 t) (Inl Diverges)"
proof -
  let ?cfg = "mix_sample\<lparr>insert_ratio := 1 / 2\<rparr>"
  have "mset (all_keys ?cfg) = mset [Key 1, Key 3]" "fg_n ?cfg = 2" "value_len ?cfg = 0" by (simp_all add: mix_sample_def)
  with read_latest_never_misses [where initialize = "\<lambda>_. os_empty" and c = 0, OF os_api_contract _ _ rl_sample_ok(1,4)]
  show ?thesis by (fastforce)
qed

end
