(* ===== verification/ReadModifyWrite.thy ===== *)
theory ReadModifyWrite
  imports Ycsb
begin

text \<open>
  The driver \<open>benchmark/synthetic/read_modify_write.cpp\<close> (YCSB F): reads, and reads followed by a
  write of the same key, whose results the driver checks with \<open>INVARIANT\<close> unless the target is ART or
  Smart. A worker has the variables of \<open>rw_ycsb.cpp\<close>'s. The thread counts itself ready right before
  \<open>fg_prologue\<close>; both are its start. \<open>ANALYZE_LATENCY\<close> is off, the default.
\<close>

section \<open>A worker's operations\<close>

definition rmw_op ::
  "micro_cfg \<Rightarrow> nat \<Rightarrow> nat \<Rightarrow> rat \<Rightarrow> u64 \<Rightarrow> fault + operation_t" where
  "rmw_op cfg key_n_per_thread offset d z =
     bindE (scrambled_next 0 (of_nat key_n_per_thread - 1) z) (\<lambda>k_i.
     bindE (guardE Aborted (unat k_i < length (all_keys cfg))) (\<lambda>_.
     bindE (array_read (all_keys cfg) (offset + unat k_i)) (\<lambda>k.
     Inr (if d \<le> read_ratio cfg then Op_read else Op_read_modify_write, k))))"

function rmw_ops ::
  "micro_cfg \<Rightarrow> nat \<Rightarrow> nat \<Rightarrow> ycsb_env \<Rightarrow> operation_t list \<Rightarrow> fault + operation_t list" where
  "rmw_ops cfg key_n_per_thread offset env ops =
     (if length ops < 5 * key_n_per_thread
      then case rmw_op cfg key_n_per_thread offset (fst env (length ops)) (snd env (length ops)) of
             Inl e \<Rightarrow> Inl e
           | Inr op \<Rightarrow> rmw_ops cfg key_n_per_thread offset env (ops @ [op])
      else Inr ops)"
  by pat_completeness auto
termination
  by (relation "measure (\<lambda>(cfg, key_n_per_thread, offset, env, ops). 5 * key_n_per_thread - length ops)") auto

declare rmw_ops.simps [simp del]

section \<open>The bodies\<close>

definition rmw_start ::
  "'s tab_api \<Rightarrow> micro_cfg \<Rightarrow> nat \<Rightarrow> ycsb_env \<Rightarrow> 's \<Rightarrow> fault + 's \<times> ycsb_worker" where
  "rmw_start api cfg thread_id env table =
     bindE (bind_to_physical_cores (int thread_id)) (\<lambda>_.
     let r = set_seed0 (of_nat thread_id);
         table = (if target cfg = ''smart'' \<or> target cfg = ''pac'' then tab_register_thread api table else table);
         key_n_per_thread = length (all_keys cfg) div fg_n cfg;
         offset = thread_id * key_n_per_thread
     in bindE (rmw_ops cfg key_n_per_thread offset env []) (\<lambda>ops.
        bindE (fg_prologue api table thread_id) (\<lambda>table.
        Inr (table, \<lparr>operations = ops, w_r = r, w_cnt = 0, w_b = False, w_op_i = 0, throughput = 0\<rparr>))))"

text \<open>\<open>INVARIANT(b)\<close>, unless the target is ART or Smart.\<close>

definition check_found :: "micro_cfg \<Rightarrow> bool \<Rightarrow> fault + unit" where
  "check_found cfg b =
     (if target cfg \<noteq> ''art'' \<and> target cfg \<noteq> ''smart'' then guardE Aborted b else Inr ())"

text \<open>The \<open>switch\<close> of both loops; \<open>again\<close> tells that the write is checked too, in the measured loop only.\<close>

definition rmw_switch ::
  "'s tab_api \<Rightarrow> micro_cfg \<Rightarrow> bool \<Rightarrow> nat \<Rightarrow> 's \<Rightarrow> ycsb_worker \<Rightarrow> fault + 's \<times> ycsb_worker" where
  "rmw_switch api cfg again thread_id table w =
     bindE (array_read (operations w) (w_op_i w)) (\<lambda>(op, k).
     case op of
       Op_read \<Rightarrow>
         bindE (tab_get api table thread_id k (Value_brace (value_len cfg) 3333)) (\<lambda>(b, v).
         Inr (table, w\<lparr>w_b := b, w_cnt := w_cnt w + (if b \<and> 333 <s val_of v then 1 else 0)\<rparr>))
     | Op_read_modify_write \<Rightarrow>
         bindE (tab_get api table thread_id k (Value_brace (value_len cfg) 3333)) (\<lambda>(b, v).
         bindE (check_found cfg b) (\<lambda>_.
         let cnt = w_cnt w + (if b \<and> 333 <s val_of v then 1 else 0) in
         bindE (rand_int64 (w_r w) 123 12345789) (\<lambda>(x, r).
         bindE (tab_insert api table thread_id k (Value (val_padding v) (word_of_int x))) (\<lambda>(table, b).
         bindE (if again then check_found cfg b else Inr ()) (\<lambda>_.
         Inr (table, w\<lparr>w_r := r, w_b := b, w_cnt := cnt\<rparr>))))))
     | _ \<Rightarrow> Inl Aborted)"

definition rmw_warm ::
  "'s tab_api \<Rightarrow> micro_cfg \<Rightarrow> nat \<Rightarrow> 's \<Rightarrow> ycsb_worker \<Rightarrow> fault + 's \<times> ycsb_worker" where
  "rmw_warm api cfg thread_id table w =
     bindE (rmw_switch api cfg False thread_id table w) (\<lambda>(table, w). Inr (table, next_op w))"

definition rmw_turn :: "ycsb_worker \<Rightarrow> ycsb_worker" where
  "rmw_turn w = w\<lparr>w_cnt := 0, w_op_i := 0\<rparr>"

definition rmw_run ::
  "'s tab_api \<Rightarrow> micro_cfg \<Rightarrow> nat \<Rightarrow> rat \<Rightarrow> 's \<Rightarrow> ycsb_worker \<Rightarrow> fault + 's \<times> ycsb_worker" where
  "rmw_run api cfg thread_id d table w =
     (let w = w\<lparr>w_cnt := w_cnt w + (if f64 (9 / 10) < d then 1 else 0)\<rparr> in
      bindE (rmw_switch api cfg True thread_id table w) (\<lambda>(table, w).
      let w = next_op w in Inr (table, w\<lparr>throughput := throughput w + 1\<rparr>)))"

definition rmw_body :: "'s tab_api \<Rightarrow> micro_cfg \<Rightarrow> ('s, ycsb_worker, ycsb_env) fg_body" where
  "rmw_body api cfg = \<lparr>fg_start = rmw_start api cfg, fg_warm = rmw_warm api cfg, fg_turn = rmw_turn,
     fg_run = rmw_run api cfg, fg_stop = (\<lambda>i t. fg_epilogue api t i)\<rparr>"

section \<open>The operations generated\<close>

definition rmw_op_ok :: "Key set \<Rightarrow> operation_t \<Rightarrow> bool" where
  "rmw_op_ok K op \<longleftrightarrow> (fst op = Op_read \<or> fst op = Op_read_modify_write) \<and> snd op \<in> K"

lemma rmw_op_generated:
  assumes "0 < kn" "offset + kn \<le> length (all_keys cfg)" "length (all_keys cfg) < 2 ^ 64"
  shows "\<exists>op. rmw_op cfg kn offset d z = Inr op \<and> rmw_op_ok (set (all_keys cfg)) op"
proof -
  let ?mx = "of_nat kn - 1 :: u64"
  have "kn < 2 ^ 64" using assms by linarith
  then have len: "unat (of_nat kn :: u64) = kn" by (rule unat_of_nat_u64)
  have nz: "(of_nat kn :: u64) \<noteq> 0"
  proof
    assume "(of_nat kn :: u64) = 0"
    with len assms(1) show False by simp
  qed
  then have mx: "unat ?mx = kn - 1" using len by (simp add: unat_minus_one)
  obtain x where x: "scrambled_next 0 ?mx z = Inr x" "x \<le> ?mx"
    using scrambled_ok [of 0 ?mx z] nz by (auto simp: word_order.extremum)
  have "unat x \<le> kn - 1" using x(2) unfolding word_le_nat_alt mx .
  then have "unat x < length (all_keys cfg)" "offset + unat x < length (all_keys cfg)" using assms by linarith+
  with x(1) show ?thesis by (simp add: rmw_op_def rmw_op_ok_def)
qed

lemma rmw_ops_ok:
  assumes "0 < kn" "offset + kn \<le> length (all_keys cfg)" "length (all_keys cfg) < 2 ^ 64"
    and "list_all (rmw_op_ok (set (all_keys cfg))) ops" "length ops \<le> 5 * kn"
  shows "\<exists>ops'. rmw_ops cfg kn offset env ops = Inr ops' \<and> length ops' = 5 * kn \<and>
    list_all (rmw_op_ok (set (all_keys cfg))) ops'"
  using assms(4,5)
proof (induction "5 * kn - length ops" arbitrary: ops)
  case 0
  then show ?case by (subst rmw_ops.simps) simp
next
  case (Suc n)
  obtain op where op: "rmw_op cfg kn offset (fst env (length ops)) (snd env (length ops)) = Inr op"
      "rmw_op_ok (set (all_keys cfg)) op"
    using rmw_op_generated [OF assms(1-3)] by blast
  from Suc.hyps(1) [of "ops @ [op]"] Suc.hyps(2) Suc.prems op(2)
  have "\<exists>ops'. rmw_ops cfg kn offset env (ops @ [op]) = Inr ops' \<and> length ops' = 5 * kn \<and>
    list_all (rmw_op_ok (set (all_keys cfg))) ops'" by simp
  moreover have "rmw_ops cfg kn offset env ops = rmw_ops cfg kn offset env (ops @ [op])"
  proof -
    have "length ops < 5 * kn" using Suc.hyps(2) by linarith
    then show ?thesis using op(1) by (subst rmw_ops.simps) simp
  qed
  ultimately show ?case by simp
qed

section \<open>The invariant of a run\<close>

text \<open>That of the table is \<open>ycsb_inv\<close>: the keys loaded, with values that the driver wrote.\<close>

definition rmw_wok :: "micro_cfg \<Rightarrow> nat \<Rightarrow> ycsb_worker \<Rightarrow> bool" where
  "rmw_wok cfg i w \<longleftrightarrow> w_op_i w < length (operations w) \<and>
     list_all (rmw_op_ok (set (all_keys cfg))) (operations w)"

lemma rmw_wok_next: "rmw_wok cfg i w \<Longrightarrow> rmw_wok cfg i (next_op w)"
  by (auto simp: rmw_wok_def next_op_def Let_def)

lemma rmw_wok_data [simp]:
  "rmw_wok cfg i (w\<lparr>w_cnt := c\<rparr>) = rmw_wok cfg i w" "rmw_wok cfg i (w\<lparr>w_b := b\<rparr>) = rmw_wok cfg i w"
  "rmw_wok cfg i (w\<lparr>w_r := r\<rparr>) = rmw_wok cfg i w" "rmw_wok cfg i (w\<lparr>throughput := n\<rparr>) = rmw_wok cfg i w"
  by (simp_all add: rmw_wok_def)

lemma thread_slice_in:
  assumes "micro_cfg_ok cfg" "i < fg_n cfg"
  shows "0 < length (all_keys cfg) div fg_n cfg"
    "i * (length (all_keys cfg) div fg_n cfg) + length (all_keys cfg) div fg_n cfg \<le> length (all_keys cfg)"
proof -
  let ?n = "length (all_keys cfg)" let ?q = "?n div fg_n cfg"
  show "0 < ?q" using assms by (simp add: micro_cfg_ok_def div_greater_zero_iff)
  have "Suc i * ?q \<le> fg_n cfg * ?q" using assms(2) by (intro mult_right_mono) simp_all
  also have "\<dots> \<le> ?n" by simp
  finally show "i * ?q + ?q \<le> ?n" by simp
qed

context micro_table
begin

lemma rmw_switch_ok:
  assumes t: "ycsb_inv inv cfg t ins" "i < length ins" "ins ! i" and w: "rmw_wok cfg i w"
  shows "\<exists>t' w'. rmw_switch api cfg again i t w = Inr (t', w') \<and> ycsb_inv inv cfg t' ins \<and>
    rmw_wok cfg i w' \<and> w_b w' \<and> throughput w' = throughput w"
proof -
  obtain m where m: "inv t ins m" "dom m = set (all_keys cfg)" "\<forall>x\<in>ran m. value_ok (value_len cfg) x"
    using t(1) by (auto simp: ycsb_inv_def)
  obtain op k where opk: "operations w ! w_op_i w = (op, k)" by fastforce
  have ok: "op = Op_read \<or> op = Op_read_modify_write" "k \<in> set (all_keys cfg)"
    using w opk by (auto simp: rmw_wok_def rmw_op_ok_def list_all_length)
  have rd: "array_read (operations w) (w_op_i w) = Inr (op, k)" using w opk by (simp add: rmw_wok_def)
  obtain x where "m k = Some x" using m(2) ok(2) by blast
  then obtain v where v: "tab_get api t i k (Value_brace (value_len cfg) 3333) = Inr (True, v)"
    using get_law [OF m(1) t(2,3), of k] by metis
  obtain x where x: "rand_int64 (w_r w) 123 12345789 = Inr (x, fr_step (fr_step (w_r w)))" "123 \<le> x" "x \<le> 12345789"
    using rand_int64_ranges(5) [of "w_r w"] by blast
  let ?x = "Value (val_padding v) (word_of_int x)"
  obtain t' m' where t': "tab_insert api t i k ?x = Inr (t', True)" "inv t' ins m'" "dom m' = insert k (dom m)"
    "\<forall>l y. m' l = Some y \<longrightarrow> m l = Some y \<or> l = k \<and> y = word_of_int x"
    using insert_law [OF m(1) t(2,3), of k ?x] by auto
  have "uint (word_of_int x :: u64) = x" using x by (auto simp: uint_word_of_int_eq take_bit_eq_mod)
  then have "value_ok (value_len cfg) (word_of_int x)" using x by (auto simp: value_ok_def)
  then have "\<forall>y\<in>ran m'. value_ok (value_len cfg) y" using t'(4) m(3) by (fastforce simp: ran_def)
  moreover have "dom m' = set (all_keys cfg)" using t'(3) m(2) ok(2) by auto
  ultimately have "ycsb_inv inv cfg t' ins" using t(1) t'(2) by (auto simp: ycsb_inv_def)
  with t(1) w show ?thesis using ok(1) rd v x(1) t'(1)
    by (auto simp: rmw_switch_def check_found_def Let_def)
qed

lemma rmw_run_ok:
  assumes "ycsb_inv inv cfg t ins" "i < length ins" "ins ! i" "rmw_wok cfg i w"
  shows "\<exists>t' w'. rmw_run api cfg i d t w = Inr (t', w') \<and> ycsb_inv inv cfg t' ins \<and>
    rmw_wok cfg i w' \<and> w_b w' \<and> throughput w' = throughput w + 1"
proof -
  let ?w = "w\<lparr>w_cnt := w_cnt w + (if f64 (9 / 10) < d then 1 else 0)\<rparr>"
  have "rmw_wok cfg i ?w" using assms(4) by simp
  from rmw_switch_ok [OF assms(1-3) this, of True] obtain t' w' where
    r: "rmw_switch api cfg True i t ?w = Inr (t', w')" "ycsb_inv inv cfg t' ins" "rmw_wok cfg i w'" "w_b w'"
      "throughput w' = throughput w" by auto
  from rmw_wok_next [OF r(3)] r show ?thesis by (simp add: rmw_run_def Let_def) (simp add: next_op_def)
qed

lemma rmw_warm_ok:
  assumes "ycsb_inv inv cfg t ins" "i < length ins" "ins ! i" "rmw_wok cfg i w"
  shows "\<exists>t' w'. rmw_warm api cfg i t w = Inr (t', w') \<and> ycsb_inv inv cfg t' ins \<and> rmw_wok cfg i w'"
  using rmw_switch_ok [OF assms, of False] rmw_wok_next by (fastforce simp: rmw_warm_def)

lemma rmw_start_ok:
  assumes "ycsb_inv inv cfg t ins" "i < length ins" "\<not> ins ! i"
  shows "\<exists>t' w. rmw_start api cfg i env t = Inr (t', w) \<and> ycsb_inv inv cfg t' (ins[i := True]) \<and> rmw_wok cfg i w"
proof -
  obtain m where m: "inv t ins m" "dom m = set (all_keys cfg)" "\<forall>x\<in>ran m. value_ok (value_len cfg) x"
    and cfg: "micro_cfg_ok cfg" "i < fg_n cfg" "length ins = fg_n cfg"
    using assms by (auto simp: ycsb_inv_def)
  have "int i < 55" using cfg by (simp add: micro_cfg_ok_def)
  then obtain c where c: "bind_to_physical_cores (int i) = Inr c"
    using core_binding_injective [of 0] by (metis of_nat_0_le_iff)
  let ?t = "if target cfg = ''smart'' \<or> target cfg = ''pac'' then tab_register_thread api t else t"
  have "inv ?t ins m" using m(1) register_law by simp
  from prologue_law [OF this assms(2,3)] obtain t' where
    t': "fg_prologue api ?t i = Inr t'" "inv t' (ins[i := True]) m" by blast
  let ?q = "length (all_keys cfg) div fg_n cfg"
  note q = thread_slice_in [OF cfg(1,2)]
  have "length (all_keys cfg) < 2 ^ 64" using cfg(1) by (simp add: micro_cfg_ok_def)
  from rmw_ops_ok [OF q this, of "[]" env] obtain ops where
    ops: "rmw_ops cfg ?q (i * ?q) env [] = Inr ops" "length ops = 5 * ?q" "list_all (rmw_op_ok (set (all_keys cfg))) ops"
    by auto
  have "0 < length ops" using ops(2) q(1) by linarith
  then show ?thesis using c t' ops m cfg
    by (auto simp: rmw_start_def Let_def ycsb_inv_def rmw_wok_def)
qed

end

sublocale micro_table \<subseteq> rmw: fg_safe "rmw_body api cfg" "ycsb_inv inv cfg" "rmw_wok cfg" for cfg
proof
  fix t ins i w d env assume t: "ycsb_inv inv cfg t ins" "i < length ins"
  show "\<not> ins ! i \<Longrightarrow> \<exists>t' w. fg_start (rmw_body api cfg) i env t = Inr (t', w) \<and>
      ycsb_inv inv cfg t' (ins[i := True]) \<and> rmw_wok cfg i w"
    using rmw_start_ok [OF t] by (simp add: rmw_body_def)
  assume i: "ins ! i"
  show "rmw_wok cfg i w \<Longrightarrow> \<exists>t' w'. fg_warm (rmw_body api cfg) i t w = Inr (t', w') \<and>
      ycsb_inv inv cfg t' ins \<and> rmw_wok cfg i w'"
    using rmw_warm_ok [OF t i] by (simp add: rmw_body_def)
  show "rmw_wok cfg i w \<Longrightarrow> \<exists>t' w'. fg_run (rmw_body api cfg) i d t w = Inr (t', w') \<and>
      ycsb_inv inv cfg t' ins \<and> rmw_wok cfg i w'"
    using rmw_run_ok [OF t i] by (fastforce simp: rmw_body_def)
  obtain m where m: "inv t ins m" "dom m = set (all_keys cfg)" "\<forall>x\<in>ran m. value_ok (value_len cfg) x"
    "micro_cfg_ok cfg" "length ins = fg_n cfg" using t(1) by (auto simp: ycsb_inv_def)
  with epilogue_law [OF m(1) t(2) i]
  show "\<exists>t'. fg_stop (rmw_body api cfg) i t = Inr t' \<and> ycsb_inv inv cfg t' (ins[i := False])"
    by (auto simp: rmw_body_def ycsb_inv_def)
next
  fix i w assume "rmw_wok cfg i w"
  then show "rmw_wok cfg i (fg_turn (rmw_body api cfg) w)"
    by (auto simp: rmw_body_def rmw_turn_def rmw_wok_def)
qed

text \<open>Every operation that a measuring worker issues next passes its checks.\<close>

definition checks_pass :: "'s tab_api \<Rightarrow> micro_cfg \<Rightarrow> ('s, ycsb_worker) bench \<Rightarrow> bool" where
  "checks_pass api cfg b \<longleftrightarrow> (\<forall>i w d. i < length (b_fg b) \<and> b_fg b ! i = Measured w \<longrightarrow>
     (\<exists>t' w'. rmw_run api cfg i d (b_table b) w = Inr (t', w') \<and> w_b w' \<and> throughput w' = throughput w + 1))"

context micro_table
begin

lemma rmw_loaded_safe:
  assumes "inv t (replicate (fg_n cfg) False) m" "dom m = set ks" "ran m \<subseteq> {val_of (default_val (value_len cfg))}"
    and "micro_cfg_ok cfg" "mset (all_keys cfg) = mset ks"
    and r: "bench_reach (rmw_body api cfg) (bench_init (fg_n cfg) t) r"
  shows "\<exists>b. r = Inr b \<and> checks_pass api cfg b"
proof -
  obtain b where b: "r = Inr b" "ycsb_inv inv cfg (b_table b) (map busy (b_fg b))"
    "\<forall>i < length (b_fg b). \<forall>w. fg_data (b_fg b ! i) = Some w \<longrightarrow> rmw_wok cfg i w"
    using rmw.run_safe [OF ycsb_inv_init [OF assms(1-5)] r] by blast
  have "\<exists>t' w'. rmw_run api cfg i d (b_table b) w = Inr (t', w') \<and> w_b w' \<and> throughput w' = throughput w + 1"
    if "i < length (b_fg b)" "b_fg b ! i = Measured w" for i w d
    using rmw_run_ok [OF b(2), of i w d] b(3) that by force
  with b(1) show ?thesis unfolding checks_pass_def by blast
qed

end

context last_write_table
begin

lemma rmw_missing:
  assumes "inv t ins m" "i < length ins" "ins ! i" "m k = None"
    and "w_op_i w < length (operations w)" "operations w ! w_op_i w = (Op_read_modify_write, k)"
    and "target cfg \<noteq> ''art''" "target cfg \<noteq> ''smart''"
  shows "rmw_switch api cfg again i t w = Inl Aborted"
  using absent_law [OF assms(1-4), of "Value_brace (value_len cfg) 3333"] assms(5-8)
  by (auto simp: rmw_switch_def check_found_def)

end

section \<open>Properties\<close>

text \<open>C7: YCSB F over Masstree never stops at one of its checks: loading succeeds, no state of a run is
  a fault, with any interleaving of up to 55 threads, and whatever a measuring worker issues next
  finds its key, writes and is counted once. The checks are not idle: on any Masstree without the
  key that a worker modifies next, the operation aborts, in both loops.\<close>

theorem read_modify_write_checks_pass:
  assumes q: "masstree_contract q ok cont" and "ok (initialize c)" and "cont (initialize c) = os_empty"
    and "micro_cfg_ok cfg" and "mset (all_keys cfg) = mset ks"
  shows "(\<exists>t. prepare_masstree q initialize c (value_len cfg) ks = Inr t \<and>
      (\<forall>r. bench_reach (rmw_body (tab_mt q) cfg) (bench_init (fg_n cfg) t) r \<longrightarrow>
        (\<exists>b. r = Inr b \<and> checks_pass (tab_mt q) cfg b))) \<and>
    (\<forall>t ins m i w k d. mt_inv ok cont t ins m \<and> i < length ins \<and> ins ! i \<and> m k = None \<and>
        w_op_i w < length (operations w) \<and> operations w ! w_op_i w = (Op_read_modify_write, k) \<and>
        target cfg = ''masstree'' \<longrightarrow>
      rmw_warm (tab_mt q) cfg i t w = Inl Aborted \<and> rmw_run (tab_mt q) cfg i d t w = Inl Aborted)"
proof (intro conjI allI impI)
  have l: "micro_masstree q ok cont" using q by (rule micro_masstree.intro)
  obtain t m where t: "prepare_masstree q initialize c (value_len cfg) ks = Inr t" "\<And>ins. mt_inv ok cont t ins m"
    "dom m = set ks" "ran m \<subseteq> {val_of (default_val (value_len cfg))}"
    using micro_masstree.prepare_ok [where initialize = initialize, OF l assms(2,3), of "value_len cfg" ks] by blast
  from t(1) micro_table.rmw_loaded_safe [OF micro_masstree.is_table [OF l] t(2-4) assms(4,5)]
  show "\<exists>t. prepare_masstree q initialize c (value_len cfg) ks = Inr t \<and>
      (\<forall>r. bench_reach (rmw_body (tab_mt q) cfg) (bench_init (fg_n cfg) t) r \<longrightarrow>
        (\<exists>b. r = Inr b \<and> checks_pass (tab_mt q) cfg b))" by blast
  fix t ins m i k d and w :: ycsb_worker
  assume a: "mt_inv ok cont t ins m \<and> i < length ins \<and> ins ! i \<and> m k = None \<and>
        w_op_i w < length (operations w) \<and> operations w ! w_op_i w = (Op_read_modify_write, k) \<and>
        target cfg = ''masstree''"
  note miss = last_write_table.rmw_missing [OF micro_masstree.is_last_write_table [OF l], of t ins m i k]
  show "rmw_warm (tab_mt q) cfg i t w = Inl Aborted" using miss [of w] a by (simp add: rmw_warm_def)
  show "rmw_run (tab_mt q) cfg i d t w = Inl Aborted" using miss a by (simp add: rmw_run_def Let_def)
qed

lemma read_modify_write_checks_pass_witness:
  "(\<exists>t. prepare_masstree os_api (\<lambda>_. os_empty) 0 0 [Key 1, Key 2, Key 3] = Inr t \<and>
      \<not> bench_reach (rmw_body (tab_mt os_api) sample_cfg) (bench_init 2 t) (Inl Aborted)) \<and>
    rmw_run (tab_mt os_api) sample_cfg 0 (1 / 2) os_empty
      \<lparr>operations = [(Op_read_modify_write, Key 3)], w_r = 0, w_cnt = 0, w_b = False, w_op_i = 0, throughput = 0\<rparr> =
    Inl Aborted" (is "_ \<and> rmw_run _ _ _ _ _ ?w = _")
proof -
  have "mt_inv os_ok id os_empty [True] Map.empty"
    unfolding mt_inv_def by (intro exI [of _ "[]"]) (simp add: os_empty_def)
  moreover have "target sample_cfg = ''masstree''" "fg_n sample_cfg = 2" "value_len sample_cfg = 0"
    by (simp_all add: sample_cfg_def)
  moreover note th = read_modify_write_checks_pass [where initialize = "\<lambda>_. os_empty" and c = 0, OF os_api_contract _ _ sample_cfg_ok]
  ultimately have "rmw_run (tab_mt os_api) sample_cfg 0 (1 / 2) os_empty ?w = Inl Aborted"
    using th [THEN conjunct2, rule_format, of os_empty "[True]" Map.empty 0 "Key 3" ?w "1 / 2"] by simp
  moreover have "\<exists>t. prepare_masstree os_api (\<lambda>_. os_empty) 0 0 [Key 1, Key 2, Key 3] = Inr t \<and>
      \<not> bench_reach (rmw_body (tab_mt os_api) sample_cfg) (bench_init 2 t) (Inl Aborted)"
    using th [THEN conjunct1] by (auto simp: sample_cfg_def)
  ultimately show ?thesis by blast
qed

end
