(* ===== verification/SkewedPartition.thy ===== *)
theory SkewedPartition
  imports RwMix
begin

text \<open>
  The drivers \<open>benchmark/synthetic/skewed_partition.cpp\<close> and \<open>skewed_partition_dynamic.cpp\<close>: the keys
  that the threads go through are not the keys loaded but a workload drawn from them, with a hot
  range, by \<open>generate_skew_workload\<close>. The first driver reads and overwrites the keys in turn, the
  second reads them and inserts keys drawn from the new ones. The draws of \<open>ratio_dis\<close> are the
  worker's stream; \<open>ANALYZE_LATENCY\<close> and \<open>TEST_DEBUG\<close> are off, the default.
\<close>

section \<open>The workload\<close>

text \<open>\<open>main\<close> draws the workloads, \<open>run_benchmark\<close> shuffles them (\<open>sh\<close> is what \<open>std::shuffle\<close> does) and
  puts them in the place of the keys. The target vectors \<open>skewed_keys\<close> and
  \<open>skewed_non_exist_keys\<close> get their rows before \<open>main\<close> runs, from the initial value 1 of
  \<open>hot_range_count\<close>, so a larger count given on the command line writes outside them. Each row is
  resized to the number of loaded keys before the workload is written to its front; only the first
  is used. The loader has put the keys themselves into the table.\<close>

definition skewed_rows :: nat where
  "skewed_rows = 1"

definition skewed_list ::
  "nat \<Rightarrow> nat \<Rightarrow> nat \<Rightarrow> nat \<Rightarrow> skew_draws \<Rightarrow> (Key list \<Rightarrow> Key list) \<Rightarrow> nat \<Rightarrow> Key list \<Rightarrow> fault + Key list" where
  "skewed_list hot_range_count hot_data_start hot_data_ratio hot_query_ratio dr sh n keys =
     bindE (skew_ranges hot_data_start hot_data_ratio hot_query_ratio dr keys [0..<hot_range_count]
       (replicate skewed_rows (replicate n Key_new))) (\<lambda>targets.
     bindE (array_read targets 0) (\<lambda>row. Inr (sh row)))"

definition skewed_setup ::
  "nat \<Rightarrow> nat \<Rightarrow> nat \<Rightarrow> nat \<Rightarrow> skew_draws \<Rightarrow> skew_draws \<Rightarrow> (Key list \<Rightarrow> Key list) \<Rightarrow> mix_cfg \<Rightarrow> fault + mix_cfg" where
  "skewed_setup hot_range_count hot_data_start hot_data_ratio hot_query_ratio dr dr' sh cfg =
     (let n = length (all_keys cfg) in
      bindE (guardE AssertFailed (hot_data_ratio \<noteq> 0)) (\<lambda>_.
      bindE (skewed_list hot_range_count hot_data_start hot_data_ratio hot_query_ratio dr sh n (all_keys cfg)) (\<lambda>ks.
      bindE (if read_ratio cfg < 1
             then skewed_list hot_range_count hot_data_start hot_data_ratio hot_query_ratio dr' sh n (non_exist_keys cfg)
             else Inr []) (\<lambda>ns.
      Inr (cfg\<lparr>all_keys := ks, non_exist_keys := ns\<rparr>)))))"

section \<open>The bodies of \<open>skewed_partition.cpp\<close>\<close>

record skp_worker =
  skp_gen :: "nat \<Rightarrow> rat"
  skp_keys :: "Key list"
  skp_r :: u64
  skp_cnt :: u64
  skp_op_i :: nat
  skp_b :: bool
  skp_throughput :: u64

definition skp_start ::
  "'s tab_api \<Rightarrow> mix_cfg \<Rightarrow> nat \<Rightarrow> (nat \<Rightarrow> rat) \<Rightarrow> 's \<Rightarrow> fault + 's \<times> skp_worker" where
  "skp_start api cfg thread_id gen table =
     bindE (bind_to_physical_cores (int thread_id)) (\<lambda>_.
     bindE (fg_prologue api table thread_id) (\<lambda>table.
     Inr (table, \<lparr>skp_gen = gen, skp_keys = thread_slice (fg_n cfg) (all_keys cfg) thread_id,
                  skp_r = set_seed0 (of_nat thread_id), skp_cnt = 1, skp_op_i = 0, skp_b = False,
                  skp_throughput = 0\<rparr>)))"

text \<open>One round of either loop; \<open>meas\<close> tells that it is the measured one, which counts.\<close>

definition skp_round ::
  "'s tab_api \<Rightarrow> mix_cfg \<Rightarrow> bool \<Rightarrow> nat \<Rightarrow> 's \<Rightarrow> skp_worker \<Rightarrow> fault + 's \<times> skp_worker" where
  "skp_round api cfg meas thread_id table w =
     (let d = skp_gen w 0;
          w = w\<lparr>skp_gen := (\<lambda>n. skp_gen w (Suc n)),
                skp_cnt := skp_cnt w + (if meas \<and> f64 (9 / 10) < d then 1 else 0)\<rparr>;
          v = Value_brace (value_len cfg) 3333
      in bindE (array_read (skp_keys w) (skp_op_i w)) (\<lambda>k.
         bindE (if d \<le> read_ratio cfg then
                  bindE (tab_get api table thread_id k v) (\<lambda>(b, v).
                  Inr (table, w\<lparr>skp_b := b,
                    skp_cnt := skp_cnt w + (if meas \<and> b \<and> 333 <s val_of v then 1 else 0)\<rparr>))
                else
                  bindE (rand_int64 (skp_r w) 123 123456789) (\<lambda>(x, r).
                  bindE (tab_insert api table thread_id k (Value (val_padding v) (word_of_int x))) (\<lambda>(table, b).
                  Inr (table, w\<lparr>skp_r := r, skp_b := b\<rparr>)))) (\<lambda>(table, w).
         let op_i = Suc (skp_op_i w) in
         Inr (table, w\<lparr>skp_op_i := (if op_i = length (skp_keys w) then 0 else op_i),
                       skp_throughput := skp_throughput w + (if meas then 1 else 0)\<rparr>))))"

definition skp_turn :: "skp_worker \<Rightarrow> skp_worker" where
  "skp_turn w = w\<lparr>skp_cnt := 1\<rparr>"

definition skp_body :: "'s tab_api \<Rightarrow> mix_cfg \<Rightarrow> ('s, skp_worker, nat \<Rightarrow> rat) fg_body" where
  "skp_body api cfg = \<lparr>fg_start = skp_start api cfg, fg_warm = skp_round api cfg False, fg_turn = skp_turn,
     fg_run = (\<lambda>i d. skp_round api cfg True i), fg_stop = (\<lambda>i t. fg_epilogue api t i)\<rparr>"

section \<open>The bodies of \<open>skewed_partition_dynamic.cpp\<close>\<close>

record skd_worker =
  skd_gen :: "nat \<Rightarrow> rat"
  skd_keys :: "Key list"
  candidate_keys :: "Key list"
  skd_r :: u64
  skd_cnt :: u64
  skd_op_i :: nat
  skd_query_i :: nat
  skd_insert_i :: nat
  skd_b :: bool
  skd_throughput :: u64

definition skd_start ::
  "'s tab_api \<Rightarrow> mix_cfg \<Rightarrow> nat \<Rightarrow> (nat \<Rightarrow> rat) \<Rightarrow> 's \<Rightarrow> fault + 's \<times> skd_worker" where
  "skd_start api cfg thread_id gen table =
     bindE (bind_to_physical_cores (int thread_id)) (\<lambda>_.
     bindE (fg_prologue api table thread_id) (\<lambda>table.
     Inr (table, \<lparr>skd_gen = gen, skd_keys = thread_slice (fg_n cfg) (all_keys cfg) thread_id,
                  candidate_keys = thread_slice (fg_n cfg) (non_exist_keys cfg) thread_id,
                  skd_r = set_seed0 (of_nat thread_id), skd_cnt = 1, skd_op_i = 0, skd_query_i = 0,
                  skd_insert_i = 0, skd_b = False, skd_throughput = 0\<rparr>)))"

text \<open>The wrap of the two indexes, at the end of a round.\<close>

definition skd_wrap :: "skd_worker \<Rightarrow> skd_worker" where
  "skd_wrap w =
     w\<lparr>skd_query_i := (if skd_query_i w = length (skd_keys w) then 0 else skd_query_i w),
       skd_insert_i := (if skd_insert_i w = length (candidate_keys w) then 0 else skd_insert_i w)\<rparr>"

definition skd_round ::
  "'s tab_api \<Rightarrow> mix_cfg \<Rightarrow> bool \<Rightarrow> nat \<Rightarrow> 's \<Rightarrow> skd_worker \<Rightarrow> fault + 's \<times> skd_worker" where
  "skd_round api cfg meas thread_id table w =
     (let d = skd_gen w 0;
          w = w\<lparr>skd_gen := (\<lambda>n. skd_gen w (Suc n)),
                skd_cnt := skd_cnt w + (if meas \<and> f64 (9 / 10) < d then 1 else 0)\<rparr>;
          v = Value_brace (value_len cfg) 3333
      in bindE (if d \<le> read_ratio cfg then
                  bindE (array_read (skd_keys w) (skd_query_i w)) (\<lambda>k.
                  bindE (tab_get api table thread_id k v) (\<lambda>(b, v).
                  Inr (table, w\<lparr>skd_b := b, skd_query_i := Suc (skd_query_i w),
                    skd_cnt := skd_cnt w + (if meas \<and> b \<and> 333 <s val_of v then 1 else 0)\<rparr>)))
                else
                  bindE (rand_int64 (skd_r w) 123 123456789) (\<lambda>(x, r).
                  bindE (array_read (candidate_keys w) (skd_insert_i w)) (\<lambda>k.
                  bindE (tab_insert api table thread_id k (Value (val_padding v) (word_of_int x))) (\<lambda>(table, b).
                  Inr (table, w\<lparr>skd_r := r, skd_b := b, skd_insert_i := Suc (skd_insert_i w)\<rparr>))))) (\<lambda>(table, w).
         if meas then
           let op_i = Suc (skd_op_i w) in
           Inr (table, skd_wrap (w\<lparr>skd_op_i := (if op_i = length (skd_keys w) then 0 else op_i),
                                   skd_throughput := skd_throughput w + 1\<rparr>))
         else Inr (table, skd_wrap w)))"

definition skd_turn :: "skd_worker \<Rightarrow> skd_worker" where
  "skd_turn w = w\<lparr>skd_cnt := 1\<rparr>"

definition skd_body :: "'s tab_api \<Rightarrow> mix_cfg \<Rightarrow> ('s, skd_worker, nat \<Rightarrow> rat) fg_body" where
  "skd_body api cfg = \<lparr>fg_start = skd_start api cfg, fg_warm = skd_round api cfg False, fg_turn = skd_turn,
     fg_run = (\<lambda>i d. skd_round api cfg True i), fg_stop = (\<lambda>i t. fg_epilogue api t i)\<rparr>"

section \<open>The invariants\<close>

text \<open>The table holds \<open>K\<close>, the keys loaded; the keys a worker reads are among them.\<close>

definition holds_keys ::
  "('s \<Rightarrow> bool list \<Rightarrow> (Key \<rightharpoonup> u64) \<Rightarrow> bool) \<Rightarrow> Key set \<Rightarrow> mix_cfg \<Rightarrow> 's \<Rightarrow> bool list \<Rightarrow> bool" where
  "holds_keys J K cfg t ins \<longleftrightarrow> length ins = fg_n cfg \<and> fg_n cfg \<le> 55 \<and> fg_n cfg \<le> length (all_keys cfg) \<and>
     set (all_keys cfg) \<subseteq> K \<and> (\<exists>m. J t ins m \<and> K \<subseteq> dom m)"

definition skp_wok :: "Key set \<Rightarrow> nat \<Rightarrow> skp_worker \<Rightarrow> bool" where
  "skp_wok K i w \<longleftrightarrow> skp_op_i w < length (skp_keys w) \<and> set (skp_keys w) \<subseteq> K"

definition skd_wok :: "Key set \<Rightarrow> nat \<Rightarrow> skd_worker \<Rightarrow> bool" where
  "skd_wok K i w \<longleftrightarrow> skd_query_i w < length (skd_keys w) \<and> set (skd_keys w) \<subseteq> K \<and>
     skd_insert_i w < length (candidate_keys w)"

lemma thread_slice_nonempty: "fg \<le> length xs \<Longrightarrow> i < fg \<Longrightarrow> 0 < length (thread_slice fg xs i)"
  by (simp add: thread_slice_length div_greater_zero_iff)

lemma skd_wrap_ok:
  "skd_query_i w \<le> length (skd_keys w) \<Longrightarrow> 0 < length (skd_keys w) \<Longrightarrow> set (skd_keys w) \<subseteq> K \<Longrightarrow>
   skd_insert_i w \<le> length (candidate_keys w) \<Longrightarrow> 0 < length (candidate_keys w) \<Longrightarrow> skd_wok K i (skd_wrap w)"
  by (simp add: skd_wok_def skd_wrap_def)

lemma skd_wrap_data [simp]:
  "skd_b (skd_wrap w) = skd_b w" "skd_throughput (skd_wrap w) = skd_throughput w"
  by (simp_all add: skd_wrap_def)

context micro_table
begin

text \<open>What both rounds do with the table.\<close>

lemma holds_get:
  assumes "holds_keys inv K cfg t ins" "i < length ins" "ins ! i" "k \<in> K"
  shows "\<exists>v'. tab_get api t i k v = Inr (True, v')"
proof -
  obtain m where m: "inv t ins m" "K \<subseteq> dom m" using assms(1) by (auto simp: holds_keys_def)
  then obtain x where "m k = Some x" using assms(4) by blast
  with get_law [OF m(1) assms(2,3), of k v] show ?thesis by auto
qed

lemma holds_insert:
  assumes "holds_keys inv K cfg t ins" "i < length ins" "ins ! i"
  shows "\<exists>t'. tab_insert api t i k v = Inr (t', True) \<and> holds_keys inv K cfg t' ins"
proof -
  obtain m where m: "inv t ins m" "K \<subseteq> dom m" using assms(1) by (auto simp: holds_keys_def)
  then obtain t' m' where "tab_insert api t i k v = Inr (t', True)" "inv t' ins m'" "dom m' = insert k (dom m)"
    using insert_law [OF m(1) assms(2,3), of k v] by blast
  moreover from this m(2) have "K \<subseteq> dom m'" by blast
  ultimately show ?thesis using assms(1) unfolding holds_keys_def by blast
qed

lemma holds_enter:
  assumes "holds_keys inv K cfg t ins" "i < length ins" "\<not> ins ! i"
  shows "(\<exists>c. bind_to_physical_cores (int i) = Inr c) \<and>
    (\<exists>t'. fg_prologue api t i = Inr t' \<and> holds_keys inv K cfg t' (ins[i := True]))"
proof -
  obtain m where m: "inv t ins m" "K \<subseteq> dom m" using assms(1) by (auto simp: holds_keys_def)
  have "int i < 55" using assms(1,2) by (auto simp: holds_keys_def)
  then have "\<exists>c. bind_to_physical_cores (int i) = Inr c"
    using core_binding_injective [of 0] by (metis of_nat_0_le_iff)
  with prologue_law [OF m(1) assms(2,3)] m(2) assms(1) show ?thesis by (auto simp: holds_keys_def)
qed

lemma holds_leave:
  assumes "holds_keys inv K cfg t ins" "i < length ins" "ins ! i"
  shows "\<exists>t'. fg_epilogue api t i = Inr t' \<and> holds_keys inv K cfg t' (ins[i := False])"
proof -
  obtain m where m: "inv t ins m" "K \<subseteq> dom m" using assms(1) by (auto simp: holds_keys_def)
  with epilogue_law [OF m(1) assms(2,3)] assms(1) show ?thesis by (auto simp: holds_keys_def)
qed

lemma skp_round_ok:
  assumes t: "holds_keys inv K cfg t ins" "i < length ins" "ins ! i" and w: "skp_wok K i w"
  shows "\<exists>t' w'. skp_round api cfg meas i t w = Inr (t', w') \<and> holds_keys inv K cfg t' ins \<and>
    skp_wok K i w' \<and> skp_b w' \<and> skp_throughput w' = skp_throughput w + (if meas then 1 else 0)"
proof -
  let ?k = "skp_keys w ! skp_op_i w" and ?v = "Value_brace (value_len cfg) 3333"
  have rd: "skp_op_i w < length (skp_keys w)" "?k \<in> K" using w by (auto simp: skp_wok_def)
  then have ne: "0 < length (skp_keys w)" "set (skp_keys w) \<subseteq> K" using w by (auto simp: skp_wok_def)
  show ?thesis
  proof (cases "skp_gen w 0 \<le> read_ratio cfg")
    case True
    obtain v' where "tab_get api t i ?k ?v = Inr (True, v')" using holds_get [OF t rd(2)] by blast
    with True t(1) rd(1) ne show ?thesis by (auto simp: skp_round_def skp_wok_def Let_def)
  next
    case False
    obtain x where x: "rand_int64 (skp_r w) 123 123456789 = Inr (x, fr_step (fr_step (skp_r w)))"
      using rand_int64_ranges(3) [of "skp_r w"] by blast
    obtain t' where "tab_insert api t i ?k (Value (val_padding ?v) (word_of_int x)) = Inr (t', True)"
      "holds_keys inv K cfg t' ins" using holds_insert [OF t] by blast
    with False rd(1) ne x show ?thesis by (auto simp: skp_round_def skp_wok_def Let_def)
  qed
qed

lemma skd_round_ok:
  assumes t: "holds_keys inv K cfg t ins" "i < length ins" "ins ! i" and w: "skd_wok K i w"
  shows "\<exists>t' w'. skd_round api cfg meas i t w = Inr (t', w') \<and> holds_keys inv K cfg t' ins \<and>
    skd_wok K i w' \<and> skd_b w' \<and> skd_throughput w' = skd_throughput w + (if meas then 1 else 0)"
proof -
  let ?v = "Value_brace (value_len cfg) 3333"
  have i: "skd_query_i w < length (skd_keys w)" "skd_insert_i w < length (candidate_keys w)"
    "set (skd_keys w) \<subseteq> K" using w by (auto simp: skd_wok_def)
  then have ne: "0 < length (skd_keys w)" "0 < length (candidate_keys w)" by linarith+
  show ?thesis
  proof (cases "skd_gen w 0 \<le> read_ratio cfg")
    case True
    have "skd_keys w ! skd_query_i w \<in> K" using i nth_mem by blast
    then obtain v' where "tab_get api t i (skd_keys w ! skd_query_i w) ?v = Inr (True, v')"
      using holds_get [OF t] by blast
    with True t(1) i ne show ?thesis by (auto simp: skd_round_def Let_def intro!: skd_wrap_ok)
  next
    case False
    obtain x where x: "rand_int64 (skd_r w) 123 123456789 = Inr (x, fr_step (fr_step (skd_r w)))"
      using rand_int64_ranges(3) [of "skd_r w"] by blast
    obtain t' where "tab_insert api t i (candidate_keys w ! skd_insert_i w) (Value (val_padding ?v) (word_of_int x)) = Inr (t', True)"
      "holds_keys inv K cfg t' ins" using holds_insert [OF t] by blast
    with False i ne x show ?thesis by (auto simp: skd_round_def Let_def intro!: skd_wrap_ok)
  qed
qed

end

context micro_table
begin

lemma skp_start_ok:
  assumes "holds_keys inv K cfg t ins" "i < length ins" "\<not> ins ! i"
  shows "\<exists>t' w. skp_start api cfg i gen t = Inr (t', w) \<and> holds_keys inv K cfg t' (ins[i := True]) \<and> skp_wok K i w"
proof -
  have i: "i < fg_n cfg" "fg_n cfg \<le> length (all_keys cfg)" "set (all_keys cfg) \<subseteq> K"
    using assms(1,2) by (auto simp: holds_keys_def)
  have "set (thread_slice (fg_n cfg) (all_keys cfg) i) \<subseteq> K" using thread_slice_subset i(3) by (rule subset_trans)
  with thread_slice_nonempty [OF i(2,1)] holds_enter [OF assms]
  show ?thesis by (auto simp: skp_start_def skp_wok_def)
qed

lemma skd_start_ok:
  assumes "holds_keys inv K cfg t ins" "i < length ins" "\<not> ins ! i"
    and "fg_n cfg \<le> length (non_exist_keys cfg)"
  shows "\<exists>t' w. skd_start api cfg i gen t = Inr (t', w) \<and> holds_keys inv K cfg t' (ins[i := True]) \<and> skd_wok K i w"
proof -
  have i: "i < fg_n cfg" "fg_n cfg \<le> length (all_keys cfg)" "set (all_keys cfg) \<subseteq> K"
    using assms(1,2) by (auto simp: holds_keys_def)
  have "set (thread_slice (fg_n cfg) (all_keys cfg) i) \<subseteq> K" using thread_slice_subset i(3) by (rule subset_trans)
  with thread_slice_nonempty [OF i(2,1)] thread_slice_nonempty [OF assms(4) i(1)] holds_enter [OF assms(1-3)]
  show ?thesis by (auto simp: skd_start_def skd_wok_def)
qed

end

sublocale micro_table \<subseteq> skp: fg_safe "skp_body api cfg" "holds_keys inv K cfg" "skp_wok K" for K cfg
proof
  fix t ins i w d env assume t: "holds_keys inv K cfg t ins" "i < length ins"
  show "\<not> ins ! i \<Longrightarrow> \<exists>t' w. fg_start (skp_body api cfg) i env t = Inr (t', w) \<and>
      holds_keys inv K cfg t' (ins[i := True]) \<and> skp_wok K i w"
    using skp_start_ok [OF t] by (simp add: skp_body_def)
  assume i: "ins ! i"
  show "skp_wok K i w \<Longrightarrow> \<exists>t' w'. fg_warm (skp_body api cfg) i t w = Inr (t', w') \<and>
      holds_keys inv K cfg t' ins \<and> skp_wok K i w'"
    using skp_round_ok [OF t i, of w False] by (auto simp: skp_body_def)
  show "skp_wok K i w \<Longrightarrow> \<exists>t' w'. fg_run (skp_body api cfg) i d t w = Inr (t', w') \<and>
      holds_keys inv K cfg t' ins \<and> skp_wok K i w'"
    using skp_round_ok [OF t i, of w True] by (auto simp: skp_body_def)
  show "\<exists>t'. fg_stop (skp_body api cfg) i t = Inr t' \<and> holds_keys inv K cfg t' (ins[i := False])"
    using holds_leave [OF t i] by (simp add: skp_body_def)
next
  fix i w assume "skp_wok K i w"
  then show "skp_wok K i (fg_turn (skp_body api cfg) w)" by (simp add: skp_body_def skp_turn_def skp_wok_def)
qed

text \<open>The second driver needs a new key for each thread: its invariant is that of the first, for
  configurations that have one.\<close>

definition holds_more ::
  "('s \<Rightarrow> bool list \<Rightarrow> (Key \<rightharpoonup> u64) \<Rightarrow> bool) \<Rightarrow> Key set \<Rightarrow> mix_cfg \<Rightarrow> 's \<Rightarrow> bool list \<Rightarrow> bool" where
  "holds_more J K cfg t ins \<longleftrightarrow> fg_n cfg \<le> length (non_exist_keys cfg) \<and> holds_keys J K cfg t ins"

sublocale micro_table \<subseteq> skd: fg_safe "skd_body api cfg" "holds_more inv K cfg" "skd_wok K" for K cfg
proof
  fix t ins i w d env assume "holds_more inv K cfg t ins" and i: "i < length ins"
  then have n: "fg_n cfg \<le> length (non_exist_keys cfg)" and t: "holds_keys inv K cfg t ins"
    by (simp_all add: holds_more_def)
  show "\<not> ins ! i \<Longrightarrow> \<exists>t' w. fg_start (skd_body api cfg) i env t = Inr (t', w) \<and>
      holds_more inv K cfg t' (ins[i := True]) \<and> skd_wok K i w"
    using skd_start_ok [OF t i _ n] n by (simp add: skd_body_def holds_more_def)
  assume ii: "ins ! i"
  show "skd_wok K i w \<Longrightarrow> \<exists>t' w'. fg_warm (skd_body api cfg) i t w = Inr (t', w') \<and>
      holds_more inv K cfg t' ins \<and> skd_wok K i w'"
    using skd_round_ok [OF t i ii, of w False] n by (auto simp: skd_body_def holds_more_def)
  show "skd_wok K i w \<Longrightarrow> \<exists>t' w'. fg_run (skd_body api cfg) i d t w = Inr (t', w') \<and>
      holds_more inv K cfg t' ins \<and> skd_wok K i w'"
    using skd_round_ok [OF t i ii, of w True] n by (auto simp: skd_body_def holds_more_def)
  show "\<exists>t'. fg_stop (skd_body api cfg) i t = Inr t' \<and> holds_more inv K cfg t' (ins[i := False])"
    using holds_leave [OF t i ii] n by (simp add: skd_body_def holds_more_def)
next
  fix i w assume "skd_wok K i w"
  then show "skd_wok K i (fg_turn (skd_body api cfg) w)" by (simp add: skd_body_def skd_turn_def skd_wok_def)
qed

text \<open>Whatever a measuring worker does next finds its key or inserts, and is counted once.\<close>

definition skp_hits :: "'s tab_api \<Rightarrow> mix_cfg \<Rightarrow> ('s, skp_worker) bench \<Rightarrow> bool" where
  "skp_hits api cfg b \<longleftrightarrow> (\<forall>i w. i < length (b_fg b) \<and> b_fg b ! i = Measured w \<longrightarrow>
     (\<exists>t' w'. skp_round api cfg True i (b_table b) w = Inr (t', w') \<and> skp_b w' \<and>
       skp_throughput w' = skp_throughput w + 1))"

definition skd_hits :: "'s tab_api \<Rightarrow> mix_cfg \<Rightarrow> ('s, skd_worker) bench \<Rightarrow> bool" where
  "skd_hits api cfg b \<longleftrightarrow> (\<forall>i w. i < length (b_fg b) \<and> b_fg b ! i = Measured w \<longrightarrow>
     (\<exists>t' w'. skd_round api cfg True i (b_table b) w = Inr (t', w') \<and> skd_b w' \<and>
       skd_throughput w' = skd_throughput w + 1))"

context micro_table
begin

lemma skp_loaded_hits:
  assumes "holds_keys inv K cfg t (replicate (fg_n cfg) False)"
    and "bench_reach (skp_body api cfg) (bench_init (fg_n cfg) t) r"
  shows "\<exists>b. r = Inr b \<and> skp_hits api cfg b"
proof -
  obtain b where b: "r = Inr b" "holds_keys inv K cfg (b_table b) (map busy (b_fg b))"
    "\<forall>i < length (b_fg b). \<forall>w. fg_data (b_fg b ! i) = Some w \<longrightarrow> skp_wok K i w"
    using skp.run_safe [OF assms] by blast
  have "\<exists>t' w'. skp_round api cfg True i (b_table b) w = Inr (t', w') \<and> skp_b w' \<and> skp_throughput w' = skp_throughput w + 1"
    if "i < length (b_fg b)" "b_fg b ! i = Measured w" for i w
    using skp_round_ok [OF b(2), of i w True] b(3) that by force
  with b(1) show ?thesis unfolding skp_hits_def by blast
qed

lemma skd_loaded_hits:
  assumes "holds_more inv K cfg t (replicate (fg_n cfg) False)"
    and "bench_reach (skd_body api cfg) (bench_init (fg_n cfg) t) r"
  shows "\<exists>b. r = Inr b \<and> skd_hits api cfg b"
proof -
  obtain b where b: "r = Inr b" "holds_more inv K cfg (b_table b) (map busy (b_fg b))"
    "\<forall>i < length (b_fg b). \<forall>w. fg_data (b_fg b ! i) = Some w \<longrightarrow> skd_wok K i w"
    using skd.run_safe [OF assms] by blast
  have "holds_keys inv K cfg (b_table b) (map busy (b_fg b))" using b(2) by (simp add: holds_more_def)
  note run = skd_round_ok [OF this]
  have "\<exists>t' w'. skd_round api cfg True i (b_table b) w = Inr (t', w') \<and> skd_b w' \<and> skd_throughput w' = skd_throughput w + 1"
    if "i < length (b_fg b)" "b_fg b ! i = Measured w" for i w
    using run [of i w True] b(3) that by force
  with b(1) show ?thesis unfolding skd_hits_def by blast
qed

end

section \<open>Properties\<close>

text \<open>The hot range has a key, and not all of them.\<close>

definition hot_range_proper :: "nat \<Rightarrow> Key list \<Rightarrow> bool" where
  "hot_range_proper hot_data_ratio keys \<longleftrightarrow>
     0 < hot_range (length keys) hot_data_ratio \<and> hot_range (length keys) hot_data_ratio < length keys"

lemma skewed_list_ok:
  assumes "draws_ok dr" "ratio \<le> 100" "length keys < 2 ^ 50" "length keys \<le> n" "hot_range_proper ratio keys"
    and "\<And>xs. mset (sh xs) = mset xs"
  shows "\<exists>ks. skewed_list 1 start ratio q dr sh n keys = Inr ks \<and> length ks = n \<and> (length keys = n \<longrightarrow> set ks \<subseteq> set keys)"
proof -
  obtain ks where ks: "skew_several start ratio q dr keys 0 = Inr ks"
    "length ks = length keys" "set ks \<subseteq> set keys"
    using skew_several_in [OF assms(2,3,1), of start q 0] assms(5) by (auto simp: hot_range_proper_def)
  have "length (sh xs) = length xs" "set (sh xs) = set xs" for xs
    using assms(6) mset_eq_length mset_eq_setD by blast+
  moreover have "skewed_list 1 start ratio q dr sh n keys = Inr (sh (ks @ replicate (n - length ks) Key_new))"
    using ks(1,2) assms(4) by (auto simp: skewed_list_def skewed_rows_def write_target_def)
  ultimately show ?thesis using ks assms(4) by simp
qed

lemma skewed_list_rows:
  assumes "draws_ok dr" "ratio \<le> 100" "length keys < 2 ^ 50" "length keys \<le> n" "hot_range_proper ratio keys" "1 < rows"
  shows "skewed_list rows start ratio q dr sh n keys = Inl OutOfBounds"
proof -
  have "\<exists>ks. skew_several start ratio q dr keys k = Inr ks \<and> length ks = length keys" for k
    using skew_several_in [OF assms(2,3,1), of start q k] assms(5) by (auto simp: hot_range_proper_def)
  then obtain ks ks' where ks: "skew_several start ratio q dr keys 0 = Inr ks" "length ks = length keys"
    "skew_several start ratio q dr keys 1 = Inr ks'" "length ks' = length keys" by meson
  have "ks \<noteq> []" "ks' \<noteq> []" using ks(2,4) assms(5) by (auto simp: hot_range_proper_def)
  moreover have "[0..<rows] = 0 # 1 # [2..<rows]" using assms(6) by (simp add: upt_conv_Cons numeral_2_eq_2)
  ultimately show ?thesis using ks assms(4)
    by (simp add: skewed_list_def skewed_rows_def write_target_def array_read_def)
qed

lemma skewed_setup_ok:
  assumes "0 < ratio" "ratio \<le> 100" "length (all_keys cfg) < 2 ^ 50" "length (non_exist_keys cfg) \<le> length (all_keys cfg)"
    and "draws_ok dr" "draws_ok dr'" "hot_range_proper ratio (all_keys cfg)" "hot_range_proper ratio (non_exist_keys cfg)"
    and "\<And>xs. mset (sh xs) = mset xs"
  shows "\<exists>cfg'. skewed_setup 1 start ratio q dr dr' sh cfg = Inr cfg' \<and> fg_n cfg' = fg_n cfg \<and>
    length (all_keys cfg') = length (all_keys cfg) \<and> set (all_keys cfg') \<subseteq> set (all_keys cfg) \<and>
    (read_ratio cfg < 1 \<longrightarrow> length (non_exist_keys cfg') = length (all_keys cfg))"
proof -
  let ?n = "length (all_keys cfg)"
  from skewed_list_ok [OF assms(5,2,3) order_refl assms(7,9)] obtain ks where
    "skewed_list 1 start ratio q dr sh ?n (all_keys cfg) = Inr ks" "length ks = ?n" "set ks \<subseteq> set (all_keys cfg)" by blast
  moreover have "length (non_exist_keys cfg) < 2 ^ 50" using assms(3,4) by linarith
  from skewed_list_ok [OF assms(6,2) this assms(4,8,9)] obtain ns where
    "skewed_list 1 start ratio q dr' sh ?n (non_exist_keys cfg) = Inr ns" "length ns = ?n" by blast
  ultimately show ?thesis using assms(1) by (simp add: skewed_setup_def Let_def)
qed

lemma hot_range_none: "hot_range n 0 = 0"
  using f64_int [of 0] by (simp add: hot_range_def trunc_def)

text \<open>C8: the two drivers with skewed workloads over Masstree, for some writes, up to \<open>2 ^ 50\<close> keys, at
  least one for each of up to 55 threads, and no more new keys than loaded ones, when the hot range
  computed from the ratio has at least one but not all of the keys, in both key sets: with the
  default of one hot range, whatever numbers the distributions draw and whatever the shuffle, the
  workloads can be drawn, and with the table loaded with the keys themselves, no state of a run of either driver is a
  fault and whatever a measuring worker does next finds its key or inserts. With more than one hot
  range the programs write outside the vector of workloads, whose single row was created before the
  command line is read.\<close>

theorem skewed_partition_hits:
  assumes q: "masstree_contract q ok cont" and "ok (initialize c)" and "cont (initialize c) = os_empty"
    and ratio: "hot_data_ratio \<le> 100" "read_ratio cfg < 1"
    and size: "length (all_keys cfg) < 2 ^ 50" "length (non_exist_keys cfg) \<le> length (all_keys cfg)"
    and n: "fg_n cfg \<le> 55" "fg_n cfg \<le> length (all_keys cfg)"
    and hot: "hot_range_proper hot_data_ratio (all_keys cfg)" "hot_range_proper hot_data_ratio (non_exist_keys cfg)"
    and dr: "draws_ok dr" "draws_ok dr'"
    and sh: "\<And>xs. mset (sh xs) = mset xs"
  shows "(\<exists>t cfg'. prepare_masstree q initialize c (value_len cfg) (all_keys cfg) = Inr t \<and>
      skewed_setup 1 hot_data_start hot_data_ratio hot_query_ratio dr dr' sh cfg = Inr cfg' \<and>
      (\<forall>r. bench_reach (skp_body (tab_mt q) cfg') (bench_init (fg_n cfg) t) r \<longrightarrow>
        (\<exists>b. r = Inr b \<and> skp_hits (tab_mt q) cfg' b)) \<and>
      (\<forall>r. bench_reach (skd_body (tab_mt q) cfg') (bench_init (fg_n cfg) t) r \<longrightarrow>
        (\<exists>b. r = Inr b \<and> skd_hits (tab_mt q) cfg' b))) \<and>
    (\<forall>hot_range_count>1.
      skewed_setup hot_range_count hot_data_start hot_data_ratio hot_query_ratio dr dr' sh cfg = Inl OutOfBounds)"
proof -
  have l: "micro_masstree q ok cont" using q by (rule micro_masstree.intro)
  note mt = micro_masstree.is_table [OF l]
  obtain t m where t: "prepare_masstree q initialize c (value_len cfg) (all_keys cfg) = Inr t"
    "\<And>ins. mt_inv ok cont t ins m" "dom m = set (all_keys cfg)"
    using micro_masstree.prepare_ok [where initialize = initialize, OF l assms(2,3)] by metis
  have pos: "0 < hot_data_ratio"
    using hot(1) hot_range_none by (cases hot_data_ratio) (simp_all add: hot_range_proper_def)
  obtain cfg' where c: "skewed_setup 1 hot_data_start hot_data_ratio hot_query_ratio dr dr' sh cfg = Inr cfg'"
    "fg_n cfg' = fg_n cfg" "length (all_keys cfg') = length (all_keys cfg)" "set (all_keys cfg') \<subseteq> set (all_keys cfg)"
    "length (non_exist_keys cfg') = length (all_keys cfg)"
    using skewed_setup_ok [OF pos ratio(1) size dr hot sh] ratio(2) by blast
  have h: "holds_keys (mt_inv ok cont) (set (all_keys cfg)) cfg' t (replicate (fg_n cfg') False)"
    unfolding holds_keys_def using c n t(3) by (auto intro!: exI [of _ m] t(2))
  then have h': "holds_more (mt_inv ok cont) (set (all_keys cfg)) cfg' t (replicate (fg_n cfg') False)"
    using c n by (simp add: holds_more_def)
  have "skewed_setup hot_range_count hot_data_start hot_data_ratio hot_query_ratio dr dr' sh cfg = Inl OutOfBounds"
    if "1 < hot_range_count" for hot_range_count
    using skewed_list_rows [OF dr(1) ratio(1) size(1) order_refl hot(1) that] pos by (simp add: skewed_setup_def Let_def)
  then show ?thesis
    using t(1) c(1) micro_table.skp_loaded_hits [OF mt h] micro_table.skd_loaded_hits [OF mt h'] unfolding c(2) by blast
qed

lemma skewed_partition_hits_witness:
  "(\<exists>t cfg'. prepare_masstree os_api (\<lambda>_. os_empty) 0 0 [Key 3, Key 1, Key 4, Key 2] = Inr t \<and>
    skewed_setup 1 75 50 90 sample_draws sample_draws rev
      (mix_sample\<lparr>all_keys := [Key 3, Key 1, Key 4, Key 2], non_exist_keys := [Key 6, Key 8, Key 5, Key 7]\<rparr>) = Inr cfg' \<and>
    \<not> bench_reach (skp_body (tab_mt os_api) cfg') (bench_init 2 t) (Inl OutOfBounds) \<and>
    \<not> bench_reach (skd_body (tab_mt os_api) cfg') (bench_init 2 t) (Inl OutOfBounds)) \<and>
    skewed_setup 2 75 50 90 sample_draws sample_draws rev
      (mix_sample\<lparr>all_keys := [Key 3, Key 1, Key 4, Key 2], non_exist_keys := [Key 6, Key 8, Key 5, Key 7]\<rparr>) = Inl OutOfBounds"
proof -
  have r: "hot_range (length [Key 3, Key 1, Key 4, Key 2]) 50 = 2"
    "hot_range (length [Key 6, Key 8, Key 5, Key 7]) 50 = 2" by code_simp+
  let ?cfg = "mix_sample\<lparr>all_keys := [Key 3, Key 1, Key 4, Key 2], non_exist_keys := [Key 6, Key 8, Key 5, Key 7]\<rparr>"
  have cfg: "all_keys ?cfg = [Key 3, Key 1, Key 4, Key 2]" "non_exist_keys ?cfg = [Key 6, Key 8, Key 5, Key 7]"
    "fg_n ?cfg = 2" "value_len ?cfg = 0" "read_ratio ?cfg < 1" by (simp_all add: mix_sample_def)
  have h: "hot_range_proper 50 (all_keys ?cfg)" "hot_range_proper 50 (non_exist_keys ?cfg)"
    unfolding cfg hot_range_proper_def r by simp_all
  note th = skewed_partition_hits [where initialize = "\<lambda>_. os_empty" and c = 0 and sh = rev and hot_data_start = 75
      and hot_query_ratio = 90 and cfg = ?cfg, OF os_api_contract _ _ _ cfg(5) _ _ _ _ h sample_draws_ok sample_draws_ok,
      unfolded cfg]
  show ?thesis using th by (simp, metis Inl_Inr_False)
qed

end
