(* ===== verification/SeqInsert.thy ===== *)
theory SeqInsert
  imports RwMix
begin

text \<open>
  The driver \<open>benchmark/synthetic/seq_insert.cpp\<close>: every worker inserts and removes its keys in
  sorted order, each with its own index, and reads from a shuffled copy of them. The draws of
  \<open>ratio_dis\<close> are the worker's stream, what \<open>std::shuffle\<close> does is an argument. \<open>WEAK_RACE\<close> is off,
  the default; the latency counters of \<open>stat_latency\<close> are left out.
\<close>

section \<open>The bodies\<close>

record sq_worker =
  sq_gen :: "nat \<Rightarrow> rat"
  sq_query_keys :: "Key list"
  sq_op_keys :: "Key list"
  sq_query_i :: nat
  sq_insert_i :: nat
  sq_delete_i :: nat
  sq_cnt :: u64
  sq_throughput :: u64

definition sq_start ::
  "'s tab_api \<Rightarrow> mix_cfg \<Rightarrow> (Key list \<Rightarrow> Key list) \<Rightarrow> nat \<Rightarrow> (nat \<Rightarrow> rat) \<Rightarrow> 's \<Rightarrow> fault + 's \<times> sq_worker" where
  "sq_start api cfg sh thread_id gen table =
     bindE (bind_to_physical_cores (int thread_id)) (\<lambda>_.
     let exist_key_n_per_thread = length (all_keys cfg) div fg_n cfg;
         keys = rw_keys cfg thread_id;
         op_keys = sort keys
     in bindE (guardE Aborted (fg_n cfg = 1 \<and> length op_keys = 2 * exist_key_n_per_thread \<or> 1 < fg_n cfg)) (\<lambda>_.
        bindE (fg_prologue api table thread_id) (\<lambda>table.
        Inr (table, \<lparr>sq_gen = gen, sq_query_keys = sh keys, sq_op_keys = op_keys, sq_query_i = 0, sq_insert_i = 0,
                     sq_delete_i = exist_key_n_per_thread, sq_cnt = 1, sq_throughput = 0\<rparr>))))"

text \<open>\<open>if (unlikely(i == keys.size())) i = 0\<close>\<close>

definition sq_wrap :: "Key list \<Rightarrow> nat \<Rightarrow> nat" where
  "sq_wrap keys i = (if i = length keys then 0 else i)"

text \<open>One round of either loop: the measured one also counts operations.\<close>

definition sq_round ::
  "'s tab_api \<Rightarrow> mix_cfg \<Rightarrow> bool \<Rightarrow> nat \<Rightarrow> 's \<Rightarrow> sq_worker \<Rightarrow> fault + 's \<times> sq_worker" where
  "sq_round api cfg meas thread_id table w =
     (let d = sq_gen w 0;
          w = w\<lparr>sq_gen := (\<lambda>n. sq_gen w (Suc n)), sq_throughput := sq_throughput w + (if meas then 1 else 0)\<rparr>
      in if d \<le> read_ratio cfg then
           bindE (array_read (sq_query_keys w) (sq_query_i w)) (\<lambda>k.
           bindE (tab_get api table thread_id k (Value_brace (value_len cfg) 3333)) (\<lambda>(b, v).
           Inr (table, w\<lparr>sq_cnt := sq_cnt w + (if b \<and> 5000000 <s val_of v then 1 else 0),
                         sq_query_i := sq_wrap (sq_query_keys w) (sq_query_i w)\<rparr>)))
         else if d \<le> f64 (read_ratio cfg + insert_ratio cfg) then
           bindE (array_read (sq_op_keys w) (sq_insert_i w)) (\<lambda>k.
           bindE (tab_insert api table thread_id k (Value_brace (value_len cfg) 12345)) (\<lambda>(table, res).
           Inr (table, w\<lparr>sq_insert_i := sq_wrap (sq_op_keys w) (Suc (sq_insert_i w))\<rparr>)))
         else
           bindE (array_read (sq_op_keys w) (sq_delete_i w)) (\<lambda>k.
           bindE (tab_remove api table thread_id k) (\<lambda>(table, res).
           Inr (table, w\<lparr>sq_delete_i := sq_wrap (sq_op_keys w) (Suc (sq_delete_i w))\<rparr>))))"

definition sq_turn :: "sq_worker \<Rightarrow> sq_worker" where
  "sq_turn w = w\<lparr>sq_cnt := 1\<rparr>"

definition sq_body :: "'s tab_api \<Rightarrow> mix_cfg \<Rightarrow> (nat \<Rightarrow> Key list \<Rightarrow> Key list) \<Rightarrow> ('s, sq_worker, nat \<Rightarrow> rat) fg_body" where
  "sq_body api cfg sh = \<lparr>fg_start = (\<lambda>i. sq_start api cfg (sh i) i), fg_warm = sq_round api cfg False,
     fg_turn = sq_turn, fg_run = (\<lambda>i d. sq_round api cfg True i), fg_stop = (\<lambda>i t. fg_epilogue api t i)\<rparr>"

section \<open>The invariant of a run\<close>

text \<open>At least one new key for each thread, and as many as loaded ones if there is one thread only.\<close>

definition sq_cfg_ok :: "mix_cfg \<Rightarrow> bool" where
  "sq_cfg_ok cfg \<longleftrightarrow> 0 < fg_n cfg \<and> fg_n cfg \<le> 55 \<and> fg_n cfg \<le> length (non_exist_keys cfg) \<and>
     (fg_n cfg = 1 \<longrightarrow> length (non_exist_keys cfg) = length (all_keys cfg))"

definition sq_inv ::
  "('s \<Rightarrow> bool list \<Rightarrow> (Key \<rightharpoonup> u64) \<Rightarrow> bool) \<Rightarrow> mix_cfg \<Rightarrow> (nat \<Rightarrow> Key list \<Rightarrow> Key list) \<Rightarrow> 's \<Rightarrow> bool list \<Rightarrow> bool" where
  "sq_inv J cfg sh t ins \<longleftrightarrow> sq_cfg_ok cfg \<and> (\<forall>i xs. mset (sh i xs) = mset xs) \<and>
     length ins = fg_n cfg \<and> (\<exists>m. J t ins m)"

text \<open>Nothing ever moves the index of the reads.\<close>

definition sq_wok :: "mix_cfg \<Rightarrow> (nat \<Rightarrow> Key list \<Rightarrow> Key list) \<Rightarrow> nat \<Rightarrow> sq_worker \<Rightarrow> bool" where
  "sq_wok cfg sh i w \<longleftrightarrow> sq_query_keys w = sh i (rw_keys cfg i) \<and> sh i (rw_keys cfg i) \<noteq> [] \<and> sq_query_i w = 0 \<and>
     sq_insert_i w < length (sq_op_keys w) \<and> sq_delete_i w < length (sq_op_keys w)"

lemma sq_wrap_less: "i < length keys \<Longrightarrow> sq_wrap keys (Suc i) < length keys"
  by (auto simp: sq_wrap_def)

lemma sq_wrap_0: "keys \<noteq> [] \<Longrightarrow> sq_wrap keys 0 = 0"
  by (simp add: sq_wrap_def)

context removable_table
begin

lemma sq_round_ok:
  assumes t: "sq_inv inv cfg sh t ins" "i < length ins" "ins ! i" and w: "sq_wok cfg sh i w"
  shows "\<exists>t' w'. sq_round api cfg meas i t w = Inr (t', w') \<and> sq_inv inv cfg sh t' ins \<and> sq_wok cfg sh i w' \<and>
    sq_throughput w' = sq_throughput w + (if meas then 1 else 0)"
proof -
  obtain m where m: "inv t ins m" using t(1) by (auto simp: sq_inv_def)
  have I: "sq_inv inv cfg sh t' ins" if "inv t' ins m'" for t' m' using t(1) that by (auto simp: sq_inv_def)
  have q: "sq_query_keys w \<noteq> []" "sq_query_i w = 0" "sq_insert_i w < length (sq_op_keys w)"
    "sq_delete_i w < length (sq_op_keys w)" using w by (simp_all add: sq_wok_def)
  note wrap = sq_wrap_less [OF q(3)] sq_wrap_less [OF q(4)] sq_wrap_0 [OF q(1)]
  consider "sq_gen w 0 \<le> read_ratio cfg"
    | "\<not> sq_gen w 0 \<le> read_ratio cfg" "sq_gen w 0 \<le> f64 (read_ratio cfg + insert_ratio cfg)"
    | "\<not> sq_gen w 0 \<le> read_ratio cfg" "\<not> sq_gen w 0 \<le> f64 (read_ratio cfg + insert_ratio cfg)" by blast
  then show ?thesis
  proof cases
    case 1
    obtain b v where "tab_get api t i (sq_query_keys w ! 0) (Value_brace (value_len cfg) 3333) = Inr (b, v)"
      using get_law [OF m t(2,3)] by blast
    with 1 q wrap t(1) w show ?thesis by (simp add: sq_round_def sq_wok_def Let_def)
  next
    case 2
    obtain t' m' where "tab_insert api t i (sq_op_keys w ! sq_insert_i w) (Value_brace (value_len cfg) 12345) = Inr (t', True)"
      "inv t' ins m'" using insert_law [OF m t(2,3)] by blast
    with 2 q wrap I w show ?thesis by (simp add: sq_round_def sq_wok_def Let_def)
  next
    case 3
    obtain t' b where "tab_remove api t i (sq_op_keys w ! sq_delete_i w) = Inr (t', b)"
      "inv t' ins (m(sq_op_keys w ! sq_delete_i w := None))" using remove_law [OF m t(2,3)] by blast
    with 3 q wrap I w show ?thesis by (simp add: sq_round_def sq_wok_def Let_def)
  qed
qed

lemma sq_start_ok:
  assumes t: "sq_inv inv cfg sh t ins" "i < length ins" "\<not> ins ! i"
  shows "\<exists>t' w. sq_start api cfg (sh i) i gen t = Inr (t', w) \<and> sq_inv inv cfg sh t' (ins[i := True]) \<and> sq_wok cfg sh i w"
proof -
  obtain m where m: "inv t ins m" and cfg: "sq_cfg_ok cfg" "i < fg_n cfg"
    using t by (auto simp: sq_inv_def)
  have "int i < 55" using cfg by (simp add: sq_cfg_ok_def)
  then obtain c where c: "bind_to_physical_cores (int i) = Inr c"
    using core_binding_injective [of 0] by (metis of_nat_0_le_iff)
  obtain t' where t': "fg_prologue api t i = Inr t'" "inv t' (ins[i := True]) m" using prologue_law [OF m t(2,3)] by blast
  let ?ex = "length (all_keys cfg) div fg_n cfg" and ?new = "length (non_exist_keys cfg) div fg_n cfg"
  have new: "0 < ?new" using cfg(1) by (simp add: sq_cfg_ok_def div_greater_zero_iff)
  have len: "length (rw_keys cfg i) = ?ex + ?new" using cfg(2) by (simp add: rw_keys_def thread_slice_length)
  let ?w = "\<lparr>sq_gen = gen, sq_query_keys = sh i (rw_keys cfg i), sq_op_keys = sort (rw_keys cfg i), sq_query_i = 0,
    sq_insert_i = 0, sq_delete_i = ?ex, sq_cnt = 1, sq_throughput = 0\<rparr>"
  have g: "guardE Aborted (fg_n cfg = 1 \<and> length (sort (rw_keys cfg i)) = 2 * ?ex \<or> 1 < fg_n cfg) = Inr ()"
    using cfg(1) len by (cases "fg_n cfg = 1") (simp_all add: sq_cfg_ok_def)
  have start: "sq_start api cfg (sh i) i gen t = Inr (t', ?w)"
    unfolding sq_start_def Let_def c t'(1) g bindE_Inr ..
  have "mset (sh i (rw_keys cfg i)) = mset (rw_keys cfg i)" using t(1) by (simp add: sq_inv_def)
  then have "length (sh i (rw_keys cfg i)) = ?ex + ?new" using len mset_eq_length by metis
  then have "sh i (rw_keys cfg i) \<noteq> []" using new by auto
  then have "sq_wok cfg sh i ?w" using new len by (simp add: sq_wok_def)
  moreover have "sq_inv inv cfg sh t' (ins[i := True])" using t(1) t'(2) by (auto simp: sq_inv_def)
  ultimately show ?thesis using start by blast
qed

end

sublocale removable_table \<subseteq> sq: fg_safe "sq_body api cfg sh" "sq_inv inv cfg sh" "sq_wok cfg sh" for cfg sh
proof
  fix t ins i w d env assume t: "sq_inv inv cfg sh t ins" "i < length ins"
  show "\<not> ins ! i \<Longrightarrow> \<exists>t' w. fg_start (sq_body api cfg sh) i env t = Inr (t', w) \<and>
      sq_inv inv cfg sh t' (ins[i := True]) \<and> sq_wok cfg sh i w"
    using sq_start_ok [OF t] by (simp add: sq_body_def)
  assume i: "ins ! i"
  show "sq_wok cfg sh i w \<Longrightarrow> \<exists>t' w'. fg_warm (sq_body api cfg sh) i t w = Inr (t', w') \<and>
      sq_inv inv cfg sh t' ins \<and> sq_wok cfg sh i w'"
    using sq_round_ok [OF t i, of w False] by (auto simp: sq_body_def)
  show "sq_wok cfg sh i w \<Longrightarrow> \<exists>t' w'. fg_run (sq_body api cfg sh) i d t w = Inr (t', w') \<and>
      sq_inv inv cfg sh t' ins \<and> sq_wok cfg sh i w'"
    using sq_round_ok [OF t i, of w True] by (auto simp: sq_body_def)
  obtain m where m: "inv t ins m" using t(1) by (auto simp: sq_inv_def)
  from epilogue_law [OF m t(2) i] t(1)
  show "\<exists>t'. fg_stop (sq_body api cfg sh) i t = Inr t' \<and> sq_inv inv cfg sh t' (ins[i := False])"
    by (auto simp: sq_body_def sq_inv_def)
next
  fix i w assume "sq_wok cfg sh i w"
  then show "sq_wok cfg sh i (fg_turn (sq_body api cfg sh) w)" by (simp add: sq_body_def sq_turn_def sq_wok_def)
qed

context removable_table
begin

lemma sq_run_safe:
  assumes "sq_inv inv cfg sh t (replicate (fg_n cfg) False)"
    and "bench_reach (sq_body api cfg sh) (bench_init (fg_n cfg) t) r"
  shows "\<exists>b. r = Inr b \<and> sq_inv inv cfg sh (b_table b) (map busy (b_fg b)) \<and>
    (\<forall>i < length (b_fg b). \<forall>w. fg_data (b_fg b ! i) = Some w \<longrightarrow> sq_wok cfg sh i w)"
  using sq.run_safe [OF assms] by blast

end

section \<open>Over Masstree\<close>

text \<open>\<open>seq_insert\<close> over Masstree: no state of a run is a fault, and \<open>query_i\<close>, which no branch of the
  loops increases, stays 0: in every state of every run, the next read of every worker that has
  started is of the first of its shuffled keys, the only key it ever reads.\<close>

lemma seq_insert_reads_one_key:
  assumes q: "masstree_contract q ok cont" and "ok (initialize c)" and "cont (initialize c) = os_empty"
    and "sq_cfg_ok cfg" and "\<And>i xs. mset (sh i xs) = mset xs"
  shows "\<exists>t. prepare_masstree q initialize c (value_len cfg) (all_keys cfg) = Inr t \<and>
    (\<forall>r. bench_reach (sq_body (tab_mt q) cfg sh) (bench_init (fg_n cfg) t) r \<longrightarrow>
      (\<exists>b. r = Inr b \<and> (\<forall>i < fg_n cfg. \<forall>w. fg_data (b_fg b ! i) = Some w \<longrightarrow>
        array_read (sq_query_keys w) (sq_query_i w) = Inr (hd (sh i (rw_keys cfg i))))))"
proof -
  have l: "micro_masstree q ok cont" using q by (rule micro_masstree.intro)
  note mt = micro_masstree.is_removable [OF l]
  obtain t m where t: "prepare_masstree q initialize c (value_len cfg) (all_keys cfg) = Inr t" "\<And>ins. mt_inv ok cont t ins m"
    using micro_masstree.prepare_ok [where initialize = initialize, OF l assms(2,3)] by metis
  have I: "sq_inv (mt_inv ok cont) cfg sh t (replicate (fg_n cfg) False)"
    using assms(4,5) t(2) by (auto simp: sq_inv_def)
  have "\<exists>b. r = Inr b \<and> (\<forall>i < fg_n cfg. \<forall>w. fg_data (b_fg b ! i) = Some w \<longrightarrow>
        array_read (sq_query_keys w) (sq_query_i w) = Inr (hd (sh i (rw_keys cfg i))))"
    if r: "bench_reach (sq_body (tab_mt q) cfg sh) (bench_init (fg_n cfg) t) r" for r
  proof -
    obtain b where b: "r = Inr b" "sq_inv (mt_inv ok cont) cfg sh (b_table b) (map busy (b_fg b))"
      "\<forall>i < length (b_fg b). \<forall>w. fg_data (b_fg b ! i) = Some w \<longrightarrow> sq_wok cfg sh i w"
      using removable_table.sq_run_safe [OF mt I r] by blast
    have "length (b_fg b) = fg_n cfg" using b(2) by (simp add: sq_inv_def)
    with b(3) have "\<forall>i < fg_n cfg. \<forall>w. fg_data (b_fg b ! i) = Some w \<longrightarrow>
        array_read (sq_query_keys w) (sq_query_i w) = Inr (hd (sh i (rw_keys cfg i)))"
      by (simp add: sq_wok_def hd_conv_nth)
    with b(1) show ?thesis by blast
  qed
  with t(1) show ?thesis by blast
qed

lemma seq_insert_reads_one_key_witness:
  "\<exists>t. prepare_masstree os_api (\<lambda>_. os_empty) 0 (value_len mix_sample) (all_keys mix_sample) = Inr t \<and>
    \<not> bench_reach (sq_body (tab_mt os_api) mix_sample (\<lambda>_. rev)) (bench_init 2 t) (Inl OutOfBounds)"
proof -
  have "sq_cfg_ok mix_sample" "fg_n mix_sample = 2" by (simp_all add: sq_cfg_ok_def mix_sample_def)
  with seq_insert_reads_one_key [where initialize = "\<lambda>_. os_empty" and c = 0 and sh = "\<lambda>_. rev", OF os_api_contract]
  show ?thesis by fastforce
qed

end
