(* ===== verification/TpccValues.thy ===== *)
theory TpccValues
  imports TpccKeys
begin

text \<open>
  The value structs of \<open>benchmark/real_world/tpcc.h\<close> and the tables of \<open>tpcc_loader.h\<close>. A
  \<open>float\<close> field is the rational it holds, a \<open>varibale_str<N>\<close> is its \<open>N\<close> bytes, and a table is the
  ordered store that \<open>KvWrappers\<close> shows a \<open>MasstreeKV\<close> to be. The two vectors are the
  bookkeeping (\<open>hack info\<close>) of \<open>tpcc.cpp\<close>.
\<close>

record W_val =
  w_ytd :: rat
  w_tax :: rat
  w_name :: "byte list"
  w_street_1 :: "byte list"
  w_street_2 :: "byte list"
  w_city :: "byte list"
  w_state :: "byte list"
  w_zip :: "byte list"

record D_val =
  d_ytd :: rat
  d_tax :: rat
  d_next_o_id :: u32
  d_name :: "byte list"
  d_street1 :: "byte list"
  d_street2 :: "byte list"
  d_city :: "byte list"
  d_state :: "byte list"
  d_zip :: "byte list"

record CustomerNameIndexVal =
  ci_c_id :: u32

record OrderCidIndexVal =
  oc_dummy :: byte

record C_val =
  c_discount :: rat
  c_credit_lim :: rat
  c_balance :: rat
  c_ytd_payment :: rat
  c_payment_cnt :: u32
  c_delivery_cnt :: u32
  c_since :: u32
  c_credit :: "byte list"
  c_last :: "byte list"
  c_first :: "byte list"
  c_street_1 :: "byte list"
  c_street_2 :: "byte list"
  c_city :: "byte list"
  c_state :: "byte list"
  c_zip :: "byte list"
  c_phone :: "byte list"
  c_middle :: "byte list"
  c_data :: "byte list"

record H_val =
  h_amount :: rat
  h_data :: "byte list"

record NO_val =
  no_dummy :: "byte list"

record O_val =
  o_c_id :: u32
  o_carrier_id :: u32
  o_ol_cnt :: byte
  o_all_local :: bool
  o_entry_d :: u32

record OL_val =
  ol_i_id :: u32
  ol_delivery_d :: u32
  ol_amount :: rat
  ol_supply_w_id :: u32
  ol_quantity :: byte

record I_val =
  i_price :: rat
  i_name :: "byte list"
  i_data :: "byte list"
  i_im_id :: u32

record S_val =
  s_quantity :: u32
  s_ytd :: rat
  s_order_cnt :: u32
  s_remote_cnt :: u32

record S_Data_val =
  s_data :: "byte list"
  s_dist :: "byte list list"

section \<open>The database\<close>

record tpcc_db =
  table_warehouse :: "(W_key, W_val) ostore"
  table_district :: "(D_key, D_val) ostore"
  table_customer :: "(C_key, C_val) ostore"
  table_history :: "(H_key, H_val) ostore"
  table_item :: "(I_key, I_val) ostore"
  table_stock :: "(S_key, S_val) ostore"
  table_order :: "(O_key, O_val) ostore"
  table_new_order :: "(NO_key, NO_val) ostore"
  table_order_line :: "(OL_key, OL_val) ostore"
  pending_new_order_per_dis :: "u64 list list"
  latest_order_id_per_customer :: "u64 list list list"

text \<open>The configuration variables at the top of \<open>tpcc.h\<close> that the transactions read.\<close>

record tpcc_cfg =
  warehouse_num :: nat
  num_district_per_warehouse :: nat
  g_new_order_remote_item_pct :: int
  g_uniform_item_dist :: bool

definition tpcc_default_cfg :: tpcc_cfg where
  "tpcc_default_cfg = \<lparr>warehouse_num = 1, num_district_per_warehouse = 10,
     g_new_order_remote_item_pct = 1, g_uniform_item_dist = False\<rparr>"

text \<open>
  A \<open>get\<close> that finds nothing leaves the caller's variable as it was; the transactions declare
  their variables without a value and mostly ignore the result, so a failed read leaves an
  indeterminate value. Those values are the argument \<open>junk\<close> of the transactions.
\<close>

record junk =
  junk_w :: W_val
  junk_d :: D_val
  junk_c :: C_val
  junk_s :: S_val
  junk_buf :: "byte list"

definition kv_get :: "('k, 'v) ostore \<Rightarrow> 'k \<Rightarrow> 'v \<Rightarrow> 'v" where
  "kv_get t k v = (case os_get t k of Some x \<Rightarrow> x | None \<Rightarrow> v)"

lemma kv_get_Some [simp]: "os_get t k = Some x \<Longrightarrow> kv_get t k v = x"
  by (simp add: kv_get_def)

text \<open>Reading and writing a \<open>std::vector\<close>: outside its size there is no defined result.\<close>

definition vec_get :: "'a list \<Rightarrow> nat \<Rightarrow> 'a option" where
  "vec_get xs i = (if i < length xs then Some (xs ! i) else None)"

definition vec_set :: "'a list \<Rightarrow> nat \<Rightarrow> 'a \<Rightarrow> 'a list option" where
  "vec_set xs i x = (if i < length xs then Some (xs[i := x]) else None)"

lemma vec_get_Some [simp]: "i < length xs \<Longrightarrow> vec_get xs i = Some (xs ! i)"
  by (simp add: vec_get_def)

lemma vec_set_Some [simp]: "i < length xs \<Longrightarrow> vec_set xs i x = Some (xs[i := x])"
  by (simp add: vec_set_def)

section \<open>Well-formed databases\<close>

definition tables_ok :: "tpcc_db \<Rightarrow> bool" where
  "tables_ok db \<longleftrightarrow> os_ok (table_warehouse db) \<and> os_ok (table_district db) \<and>
     os_ok (table_customer db) \<and> os_ok (table_history db) \<and> os_ok (table_item db) \<and>
     os_ok (table_stock db) \<and> os_ok (table_order db) \<and> os_ok (table_new_order db) \<and>
     os_ok (table_order_line db)"

definition hack_ok :: "tpcc_cfg \<Rightarrow> tpcc_db \<Rightarrow> bool" where
  "hack_ok cfg db \<longleftrightarrow>
     length (pending_new_order_per_dis db) = warehouse_num cfg \<and>
     (\<forall>w<warehouse_num cfg. length (pending_new_order_per_dis db ! w) = num_district_per_warehouse cfg) \<and>
     length (latest_order_id_per_customer db) = warehouse_num cfg \<and>
     (\<forall>w<warehouse_num cfg.
        length (latest_order_id_per_customer db ! w) = num_district_per_warehouse cfg \<and>
        (\<forall>d<num_district_per_warehouse cfg.
           length (latest_order_id_per_customer db ! w ! d) = 3000))"

definition cfg_ok :: "tpcc_cfg \<Rightarrow> bool" where
  "cfg_ok cfg \<longleftrightarrow> 0 < warehouse_num cfg \<and> warehouse_num cfg < 65536 \<and>
     0 < num_district_per_warehouse cfg \<and> num_district_per_warehouse cfg < 256"

end
