(* ===== verification/TpccRandom.thy ===== *)
theory TpccRandom
  imports FastRandom "HOL-Library.Signed_Division"
begin

text \<open>
  The random helpers of \<open>benchmark/real_world/tpcc.h\<close>. An \<open>int\<close> or \<open>uint32_t\<close> is a 32-bit
  word, read with \<open>sint\<close> where the source computes with signed values. \<open>None\<close> stands for a call
  that produces no value: an integer division by zero, a read outside a table, or a loop that
  does not return.
\<close>

section \<open>Random strings\<close>

text \<open>\<open>isalnum\<close> in the C locale, on the bytes \<open>next_char\<close> yields.\<close>

definition is_alnum :: "byte \<Rightarrow> bool" where
  "is_alnum c \<longleftrightarrow> 48 \<le> c \<and> c \<le> 57 \<or> 65 \<le> c \<and> c \<le> 90 \<or> 97 \<le> c \<and> c \<le> 122"

text \<open>The rejection loop of \<open>RandomStr\<close>: \<open>buf\<close> holds the \<open>i\<close> characters accepted so far.\<close>

partial_function (option) random_str_loop ::
  "nat \<Rightarrow> byte list \<Rightarrow> u64 \<Rightarrow> (byte list \<times> u64) option" where
  "random_str_loop n buf s =
     (if length buf < n
      then (case next_char s of (c, s') \<Rightarrow>
              random_str_loop n (if is_alnum c then buf @ [c] else buf) s')
      else Some (buf, s))"

definition RandomStr :: "u64 \<Rightarrow> nat \<Rightarrow> (byte list \<times> u64) option" where
  "RandomStr s len = (if len = 0 then Some ([], s) else random_str_loop (len - 1) [] s)"

primrec RandomNStr :: "u64 \<Rightarrow> nat \<Rightarrow> byte list \<times> u64" where
  "RandomNStr s 0 = ([], s)"
| "RandomNStr s (Suc len) =
     (let (v, s) = next_ul s; (cs, s) = RandomNStr s len in ((48 + ucast (v mod 10)) # cs, s))"

text \<open>The thread-local counter \<open>tl_hack\<close> behind \<open>GetCurrentTimeMillis\<close>.\<close>

definition tl_hack_init :: u32 where
  "tl_hack_init = 3001"

definition GetCurrentTimeMillis :: "u32 \<Rightarrow> u32 \<times> u32" where
  "GetCurrentTimeMillis tl_hack = (tl_hack, tl_hack + 1)"

section \<open>Random numbers\<close>

definition RandomNumber :: "u64 \<Rightarrow> u32 \<Rightarrow> u32 \<Rightarrow> (u32 \<times> u64) option" where
  "RandomNumber s mn mx =
     (let range = mx - mn + 1; (v, s) = next_u32 s
      in if range = 0 then None else Some (mn + v mod range, s))"

text \<open>The assertion at the end of \<open>RandomNumber\<close>, on the values as signed integers.\<close>

definition RandomNumber_assert :: "u32 \<Rightarrow> u32 \<Rightarrow> u32 \<Rightarrow> bool" where
  "RandomNumber_assert res mn mx \<longleftrightarrow> sint mn \<le> sint res \<and> sint res \<le> sint mx"

definition NonUniformRandom ::
  "u64 \<Rightarrow> u32 \<Rightarrow> u32 \<Rightarrow> u32 \<Rightarrow> u32 \<Rightarrow> (u32 \<times> u64) option" where
  "NonUniformRandom s A C mn mx = do {
     (x, s) \<leftarrow> RandomNumber s 0 A;
     (y, s) \<leftarrow> RandomNumber s mn mx;
     Some (word_of_int ((sint (x OR y) + sint C) smod (sint mx - sint mn + 1) + sint mn), s)
   }"

definition num_customer_per_district :: u32 where
  "num_customer_per_district = 3000"

definition num_item :: u32 where
  "num_item = 100000"

definition GetCustomerId :: "u64 \<Rightarrow> (u32 \<times> u64) option" where
  "GetCustomerId s = NonUniformRandom s 1023 259 1 num_customer_per_district"

definition GetItemId :: "bool \<Rightarrow> u64 \<Rightarrow> (u32 \<times> u64) option" where
  "GetItemId g_uniform_item_dist s =
     (if g_uniform_item_dist then RandomNumber s 1 num_item
      else NonUniformRandom s 8191 7911 1 num_item)"

definition PickWarehouseId :: "u64 \<Rightarrow> u32 \<Rightarrow> u32 \<Rightarrow> (u32 \<times> u64) option" where
  "PickWarehouseId s start stop =
     (let diff = stop - start
      in if diff = 1 then Some (start, s)
         else if diff = 0 then None
         else (let (v, s) = next_ul s in Some (ucast (v mod ucast diff) + start, s)))"

section \<open>Customer names\<close>

definition bytes_of :: "string \<Rightarrow> byte list" where
  "bytes_of cs = map of_char cs"

definition NameTokens :: "string list" where
  "NameTokens = [''BAR'', ''OUGHT'', ''ABLE'', ''PRI'', ''PRES'', ''ESE'', ''ANTI'', ''CALLY'',
     ''ATION'', ''EING'']"

definition CustomerLastNameMaxSize :: nat where
  "CustomerLastNameMaxSize = 5 * 3"

text \<open>
  \<open>GetCustomerLastName(buf, r, num)\<close>: the bytes it writes at the start of \<open>buf\<close>. A number
  outside \<open>0..999\<close> indexes outside \<open>NameTokens\<close>.
\<close>

definition last_name_into :: "int \<Rightarrow> byte list option" where
  "last_name_into num =
     (if 0 \<le> num \<and> num < 1000
      then Some (bytes_of (NameTokens ! nat (num div 100)) @
                 bytes_of (NameTokens ! nat ((num div 10) mod 10)) @
                 bytes_of (NameTokens ! nat (num mod 10)))
      else None)"

definition str_resize :: "nat \<Rightarrow> byte list \<Rightarrow> byte list" where
  "str_resize n s = take n s @ replicate (n - length s) 0"

definition GetCustomerLastName :: "int \<Rightarrow> byte list option" where
  "GetCustomerLastName num = do {
     let ret = str_resize CustomerLastNameMaxSize [];
     w \<leftarrow> last_name_into num;
     Some (str_resize (length w) (w @ drop (length w) ret))
   }"

definition GetNonUniformCustomerLastNameLoad :: "u64 \<Rightarrow> (byte list \<times> u64) option" where
  "GetNonUniformCustomerLastNameLoad s = do {
     (num, s) \<leftarrow> NonUniformRandom s 255 157 0 999;
     name \<leftarrow> GetCustomerLastName (sint num);
     Some (name, s)
   }"

definition GetNonUniformCustomerLastNameRun :: "u64 \<Rightarrow> (byte list \<times> u64) option" where
  "GetNonUniformCustomerLastNameRun s = do {
     (num, s) \<leftarrow> NonUniformRandom s 255 223 0 999;
     name \<leftarrow> last_name_into (sint num);
     Some (name, s)
   }"

section \<open>Rejection loops terminate\<close>

text \<open>
  Some state of the generator yields a given top byte (or a given 32-bit output), and the
  generator visits every state, so a loop that waits for one of them stops.
\<close>

lemma reach_char: "\<exists>n. fst (next_char ((fr_step ^^ n) s)) = c"
proof -
  have c: "unat c < 256" by (rule unat_byte_bound)
  then have "unat (word_of_nat (unat c * 2 ^ 40) :: u64) = unat c * 2 ^ 40"
    by (intro unat_of_nat_u64) simp
  then obtain t :: u64 where t: "unat t = unat c * 2 ^ 40" by blast
  then have "unat t < 2 ^ 48" using c by simp
  then obtain n where "(fr_step ^^ Suc n) s = t"
    using fr_full_period [of t s] by blast
  then have "unat (fst (next_char ((fr_step ^^ n) s))) = unat c"
    by (simp add: unat_next_char t)
  then show ?thesis by (auto simp: word_unat_eq_iff)
qed

lemma reach_u32: "\<exists>n. fst (next_u32 ((fr_step ^^ n) s)) = v"
proof -
  have v: "unat v < 2 ^ 32" using unsigned_less [of v, where 'a = nat] by simp
  then have "unat (word_of_nat (unat v * 2 ^ 16) :: u64) = unat v * 2 ^ 16"
    by (intro unat_of_nat_u64) simp
  then obtain t :: u64 where t: "unat t = unat v * 2 ^ 16" by blast
  then have "unat t < 2 ^ 48" using v by simp
  then obtain n where "(fr_step ^^ Suc n) s = t"
    using fr_full_period [of t s] by blast
  then have "unat (fst (next_u32 ((fr_step ^^ n) s))) = unat v"
    by (simp add: unat_next_u32 t)
  then show ?thesis by (auto simp: word_unat_eq_iff)
qed

lemma random_str_loop_step:
  assumes "length buf < n" "is_alnum (fst (next_char ((fr_step ^^ m) s)))"
  shows "\<exists>c s'. is_alnum c \<and> random_str_loop n buf s = random_str_loop n (buf @ [c]) s'"
  using assms(2)
proof (induction m arbitrary: s)
  case 0
  with assms(1) show ?case
    by (subst random_str_loop.simps) (auto split: prod.splits)
next
  case (Suc m)
  obtain c s' where cs: "next_char s = (c, s')" by fastforce
  then have s': "s' = fr_step s" by (metis snd_conv snd_next_char)
  show ?case
  proof (cases "is_alnum c")
    case True
    with assms(1) cs show ?thesis by (subst random_str_loop.simps) auto
  next
    case False
    have "is_alnum (fst (next_char ((fr_step ^^ m) s')))"
      using Suc.prems by (simp add: s' funpow_swap1)
    from Suc.IH [OF this] False assms(1) cs show ?thesis
      by (subst random_str_loop.simps) simp
  qed
qed

lemma random_str_loop_total:
  "length buf \<le> n \<Longrightarrow> \<forall>c\<in>set buf. is_alnum c \<Longrightarrow>
   \<exists>out s'. random_str_loop n buf s = Some (out, s') \<and> length out = n \<and> (\<forall>c\<in>set out. is_alnum c)"
proof (induction "n - length buf" arbitrary: buf s)
  case 0
  then show ?case by (subst random_str_loop.simps) simp
next
  case (Suc d)
  have "is_alnum 48" by (simp add: is_alnum_def)
  then obtain m where "is_alnum (fst (next_char ((fr_step ^^ m) s)))"
    using reach_char [of s 48] by metis
  then obtain c s' where c: "is_alnum c"
    "random_str_loop n buf s = random_str_loop n (buf @ [c]) s'"
    using random_str_loop_step [of buf n m s] Suc.hyps(2) by (metis zero_less_Suc zero_less_diff)
  with Suc.hyps(1) [of "buf @ [c]" s'] Suc.hyps(2) Suc.prems show ?case by auto
qed

lemma RandomStr_total:
  "\<exists>out s'. RandomStr s len = Some (out, s') \<and> length out = len - 1 \<and> (\<forall>c\<in>set out. is_alnum c)"
  using random_str_loop_total [of "[]" "len - 1" s] by (auto simp: RandomStr_def)

section \<open>Ranges\<close>

lemma RandomNumber_None: "RandomNumber s mn mx = None \<longleftrightarrow> mx = mn - 1"
  by (auto simp: RandomNumber_def Let_def split_beta algebra_simps)

lemma unat_lt_32: "unat (w :: u32) < 4294967296"
  using unsigned_less [of w, where 'a = nat] by simp

lemma RandomNumber_unat:
  assumes "mn \<le> mx" "unat mx < 4294967295"
  shows "\<exists>v. RandomNumber s mn mx = Some (v, fr_step s) \<and> mn \<le> v \<and> v \<le> mx \<and>
    unat v = unat mn + unat (fst (next_u32 s)) mod (unat mx - unat mn + 1)"
proof -
  have le: "unat mn \<le> unat mx" using assms(1) by (simp add: word_le_nat_alt)
  then have r: "unat (mx - mn + 1) = unat mx - unat mn + 1"
    using assms by (simp add: unat_word_ariths unat_sub)
  then have nz: "mx - mn + 1 \<noteq> 0" by (metis unat_0 add_is_0 one_neq_zero)
  let ?m = "unat (fst (next_u32 s)) mod (unat mx - unat mn + 1)"
  have m: "?m \<le> unat mx - unat mn" by (simp add: less_Suc_eq_le [symmetric])
  have "unat (fst (next_u32 s) mod (mx - mn + 1)) = ?m"
    by (simp only: unat_mod r)
  moreover have "unat mn + ?m < 4294967296" using m le unat_lt_32 [of mx] by linarith
  ultimately have "unat (mn + fst (next_u32 s) mod (mx - mn + 1)) = unat mn + ?m"
    using unat_word_ariths(1) [of mn "fst (next_u32 s) mod (mx - mn + 1)"] by simp
  moreover have "unat mn + ?m \<le> unat mx" using m le by linarith
  ultimately show ?thesis using nz
    by (intro exI [of _ "mn + fst (next_u32 s) mod (mx - mn + 1)"])
      (simp add: RandomNumber_def Let_def split_beta word_le_nat_alt)
qed

lemma RandomNumber_range:
  assumes "RandomNumber s mn mx = Some (v, s')" "mn \<le> mx" "unat mx < 4294967295"
  shows "mn \<le> v \<and> v \<le> mx \<and> s' = fr_step s"
  using RandomNumber_unat [OF assms(2,3), of s] assms(1) by auto

lemma uint_of_int_u32: "0 \<le> i \<Longrightarrow> i < 4294967296 \<Longrightarrow> uint (word_of_int i :: u32) = i"
  by (simp add: uint_word_of_int)

lemma smod_nonneg: "0 \<le> (a::int) \<Longrightarrow> 0 < b \<Longrightarrow> a smod b = a mod b"
  by (cases "a = 0") (simp_all add: signed_modulo_int_def sgn_if)

text \<open>Signed reading of small non-negative words.\<close>

lemma sint_small:
  assumes "unat (w :: u32) < 2147483648"
  shows "sint w = uint w"
proof -
  have "uint w < 2 ^ 31" using assms by (simp add: uint_nat del: of_nat_unat)
  moreover have "- (2 ^ 31) \<le> uint w" by (rule order_trans [OF _ uint_ge_0]) simp
  ultimately have "signed_take_bit 31 (uint w) = uint w"
    by (intro signed_take_bit_int_eq_self)
  then show ?thesis by (simp add: sint_uint)
qed

lemma unat_or_bound:
  assumes "unat (x :: u32) < 2 ^ n" "unat y < 2 ^ n"
  shows "unat (x OR y) < 2 ^ n"
proof -
  have "take_bit n (unat x OR unat y) = unat x OR unat y"
    using assms by (simp only: take_bit_or take_bit_nat_eq_self)
  then have "unat x OR unat y < 2 ^ n"
    by (simp only: take_bit_nat_eq_self_iff)
  then show ?thesis by (simp add: unsigned_or_eq)
qed

text \<open>
  \<open>NonUniformRandom\<close> stays inside \<open>[min, max]\<close> as long as the sum before the remainder
  does not leave the non-negative \<open>int\<close> range.
\<close>

lemma NonUniformRandom_range:
  assumes "unat A < 2 ^ n" "unat mx < 2 ^ n" "2 ^ n + unat C \<le> 2 ^ 31" "n \<le> 30" "mn \<le> mx"
  shows "\<exists>v. NonUniformRandom s A C mn mx = Some (v, fr_step (fr_step s)) \<and> mn \<le> v \<and> v \<le> mx"
proof -
  have n30: "(2::nat) ^ n \<le> 2 ^ 30" using assms(4) by (rule power_increasing) simp
  have lt: "unat A < 4294967295" "unat mx < 4294967295" using assms n30 by auto
  have le: "unat mn \<le> unat mx" using assms(5) by (simp add: word_le_nat_alt)
  obtain x where x: "RandomNumber s 0 A = Some (x, fr_step s)" "x \<le> A"
    using RandomNumber_unat [of 0 A s] lt by auto
  obtain y where y: "RandomNumber (fr_step s) mn mx = Some (y, fr_step (fr_step s))" "y \<le> mx"
    using RandomNumber_unat [OF assms(5) lt(2), of "fr_step s"] by auto
  have "unat x < 2 ^ n" "unat y < 2 ^ n"
    using x(2) y(2) assms(1,2) by (auto simp: word_le_nat_alt)
  then have o: "unat (x OR y) < 2 ^ n" by (rule unat_or_bound)
  let ?r = "(uint (x OR y) + uint C) mod (uint mx - uint mn + 1)"
  have "unat (x OR y) < 2147483648" "unat C < 2147483648" "unat mx < 2147483648" "unat mn < 2147483648"
    using o assms(2,3) n30 le by simp_all
  then have si: "sint (x OR y) = uint (x OR y)" "sint C = uint C" "sint mx = uint mx" "sint mn = uint mn"
    by (simp_all only: sint_small)
  have ule: "uint mn \<le> uint mx" using assms(5) by (simp add: word_le_def)
  have r: "0 \<le> ?r" "?r \<le> uint mx - uint mn"
    using ule pos_mod_bound [of "uint mx - uint mn + 1" "uint (x OR y) + uint C"] by auto
  have sm: "(sint (x OR y) + sint C) smod (sint mx - sint mn + 1) = ?r"
    unfolding si using ule smod_nonneg by simp
  let ?v = "word_of_int (?r + uint mn) :: u32"
  have sm': "word_of_int ((sint (x OR y) + sint C) smod (sint mx - sint mn + 1) + sint mn) = ?v"
    by (simp only: sm) (simp only: si)
  have v: "uint ?v = ?r + uint mn"
    using r uint_ge_0 [of mn] uint_lt2p [of mx] by (intro uint_of_int_u32) simp_all
  then have "mn \<le> ?v" "?v \<le> mx"
    using r by (simp_all add: word_le_def)
  moreover have "NonUniformRandom s A C mn mx = Some (?v, fr_step (fr_step s))"
    unfolding NonUniformRandom_def using x y by (simp only: bind.bind_lunit case_prod_conv sm')
  ultimately show ?thesis by blast
qed

lemma GetCustomerId_range:
  "\<exists>v. GetCustomerId s = Some (v, fr_step (fr_step s)) \<and> 1 \<le> v \<and> v \<le> 3000"
  unfolding GetCustomerId_def num_customer_per_district_def
  by (rule NonUniformRandom_range [where n = 12]) simp_all

lemma GetItemId_range:
  "\<exists>v s'. GetItemId u s = Some (v, s') \<and> 1 \<le> v \<and> v \<le> 100000"
proof (cases u)
  case True
  then show ?thesis
    using RandomNumber_unat [of 1 num_item s] by (auto simp: GetItemId_def num_item_def)
next
  case False
  then show ?thesis
    using NonUniformRandom_range [of 8191 17 num_item 7911 1 s]
    by (auto simp: GetItemId_def num_item_def)
qed

lemma length_bytes_of [simp]: "length (bytes_of cs) = length cs"
  by (simp add: bytes_of_def)

lemma NameTokens_length:
  assumes "i < 10"
  shows "length (NameTokens ! i) \<le> 5"
proof -
  have "\<forall>t\<in>set NameTokens. length t \<le> 5" "length NameTokens = 10"
    by (simp_all add: NameTokens_def)
  with assms show ?thesis by simp
qed

lemma last_name_into_ok:
  assumes "0 \<le> num" "num < 1000"
  shows "\<exists>w. last_name_into num = Some w \<and> length w \<le> CustomerLastNameMaxSize"
proof -
  have "nat (num div 100) < 10" "nat ((num div 10) mod 10) < 10" "nat (num mod 10) < 10"
    using assms by (simp_all add: nat_less_iff)
  from this [THEN NameTokens_length] have
    "length (NameTokens ! nat (num div 100)) \<le> 5"
    "length (NameTokens ! nat ((num div 10) mod 10)) \<le> 5"
    "length (NameTokens ! nat (num mod 10)) \<le> 5" .
  then have "length (bytes_of (NameTokens ! nat (num div 100)) @
      bytes_of (NameTokens ! nat ((num div 10) mod 10)) @
      bytes_of (NameTokens ! nat (num mod 10))) \<le> 5 * 3"
    by (simp only: length_append length_bytes_of)
  with assms show ?thesis
    unfolding last_name_into_def CustomerLastNameMaxSize_def by (simp only: if_True conj_absorb) blast
qed

lemma GetCustomerLastName_eq: "GetCustomerLastName num = last_name_into num"
  by (cases "last_name_into num") (simp_all add: GetCustomerLastName_def str_resize_def)

section \<open>Properties\<close>

text \<open>C39: \<open>RandomStr\<close> returns for every seed and every length: its rejection loop always meets
  enough alphanumeric characters, because the generator visits every state. The result has
  \<open>len - 1\<close> characters (none for length 0), all of them alphanumeric.\<close>

theorem RandomStr_returns:
  "\<exists>out s'. RandomStr s len = Some (out, s') \<and> length out = len - 1 \<and> list_all is_alnum out"
  using RandomStr_total [of s len] by (simp add: list_all_iff)

lemma RandomNumber_assert_holds:
  assumes "mn \<le> v" "v \<le> mx" "unat mx < 2147483648"
  shows "RandomNumber_assert v mn mx"
proof -
  have "unat v < 2147483648" "unat mn < 2147483648"
    using assms by (auto simp: word_le_nat_alt)
  with assms have "sint v = uint v" "sint mn = uint mn" "sint mx = uint mx"
    by (simp_all only: sint_small)
  then show ?thesis using assms by (simp add: RandomNumber_assert_def word_le_def)
qed

text \<open>\<open>RandomNumber(r, min, max)\<close> with \<open>0 <= min <= max <= INT_MAX\<close> returns a value of that
  closed interval, so its assertion holds, and advances the generator by exactly one step.\<close>

theorem RandomNumber_in_range:
  assumes "mn \<le> mx" and "unat mx < 2147483648"
  shows "\<exists>v. RandomNumber s mn mx = Some (v, fr_step s) \<and> mn \<le> v \<and> v \<le> mx \<and>
    RandomNumber_assert v mn mx"
  using RandomNumber_unat [of mn mx s] assms by (auto intro!: RandomNumber_assert_holds)

lemma RandomNumber_in_range_witness:
  "\<exists>v. RandomNumber 42 5 15 = Some (v, fr_step 42) \<and> 5 \<le> v \<and> v \<le> 15"
  using RandomNumber_in_range [of 5 15 42] by auto

text \<open>The TPC-C identifier generators stay in the ranges of the tables: \<open>GetCustomerId\<close>
  returns 1..3000, \<open>GetItemId\<close> returns 1..100000 under either setting of
  \<open>g_uniform_item_dist\<close>, and neither ever fails.\<close>

theorem id_generators_in_range:
  "(\<exists>v s'. GetCustomerId s = Some (v, s') \<and> 1 \<le> v \<and> v \<le> num_customer_per_district) \<and>
   (\<exists>v s'. GetItemId u s = Some (v, s') \<and> 1 \<le> v \<and> v \<le> num_item)"
  using GetCustomerId_range [of s] GetItemId_range [of u s]
  unfolding num_customer_per_district_def num_item_def by blast

lemma NonUniformRandom_999:
  assumes "unat C < 2147482624"
  shows "\<exists>v. NonUniformRandom s 255 C 0 999 = Some (v, fr_step (fr_step s)) \<and>
    0 \<le> sint v \<and> sint v < 1000"
proof -
  obtain v where v: "NonUniformRandom s 255 C 0 999 = Some (v, fr_step (fr_step s))" "v \<le> 999"
    using NonUniformRandom_range [of 255 10 999 C 0 s] assms by auto
  then have u: "unat v \<le> 999" by (simp add: word_le_nat_alt)
  then have "sint v = uint v" by (intro sint_small) simp
  moreover have "uint v \<le> 999" using v(2) by (simp add: word_le_def)
  ultimately show ?thesis using v(1) by auto
qed

text \<open>The two customer-name generators never index outside \<open>NameTokens\<close> and never write
  more than \<open>CustomerLastNameMaxSize\<close> bytes, which is what their callers' buffers hold.\<close>

theorem last_name_generators_fit:
  "(\<exists>name s'. GetNonUniformCustomerLastNameRun s = Some (name, s') \<and>
      length name \<le> CustomerLastNameMaxSize) \<and>
   (\<exists>name s'. GetNonUniformCustomerLastNameLoad s = Some (name, s') \<and>
      length name \<le> CustomerLastNameMaxSize)"
proof (intro conjI)
  obtain v where "NonUniformRandom s 255 223 0 999 = Some (v, fr_step (fr_step s))"
    "0 \<le> sint v" "sint v < 1000" using NonUniformRandom_999 [of 223 s] by auto
  with last_name_into_ok [of "sint v"]
  show "\<exists>name s'. GetNonUniformCustomerLastNameRun s = Some (name, s') \<and>
      length name \<le> CustomerLastNameMaxSize"
    by (auto simp: GetNonUniformCustomerLastNameRun_def)
next
  obtain v where "NonUniformRandom s 255 157 0 999 = Some (v, fr_step (fr_step s))"
    "0 \<le> sint v" "sint v < 1000" using NonUniformRandom_999 [of 157 s] by auto
  with last_name_into_ok [of "sint v"]
  show "\<exists>name s'. GetNonUniformCustomerLastNameLoad s = Some (name, s') \<and>
      length name \<le> CustomerLastNameMaxSize"
    by (auto simp: GetNonUniformCustomerLastNameLoad_def GetCustomerLastName_eq)
qed

end
