(* ===== verification/TpccTxn.thy ===== *)
theory TpccTxn
  imports TpccValues TpccRandom
begin

text \<open>
  The five transactions of \<open>benchmark/real_world/tpcc.cpp\<close> (built without \<open>ORIGIN_TPCC\<close>). A
  transaction gets the seed of the worker's generator, the thread's \<open>GetCurrentTimeMillis\<close>
  counter and the database, and returns them updated; \<open>None\<close> is an execution without a result
  (division by zero, a vector index out of range, a loop that does not end). One transaction is
  one step: the interleaving of the table operations of concurrent workers is not modelled. The
  branches under \<open>if (false)\<close> are left out.
\<close>

type_synonym txn_state = "u64 \<times> u32 \<times> tpcc_db"

section \<open>New order\<close>

text \<open>The loop that draws a supplier different from the home warehouse.\<close>

partial_function (option) pick_other_warehouse :: "u64 \<Rightarrow> u32 \<Rightarrow> u32 \<Rightarrow> (u32 \<times> u64) option" where
  "pick_other_warehouse s wn warehouse_id = do {
     (x, s) \<leftarrow> RandomNumber s 1 wn;
     if x = warehouse_id then pick_other_warehouse s wn warehouse_id else Some (x, s)
   }"

text \<open>
  The loop that fills \<open>item_ids\<close>, \<open>supplier_warehouse_ids\<close> and \<open>order_quantities\<close>, and
  \<open>all_local\<close>.
\<close>

fun new_order_items ::
  "tpcc_cfg \<Rightarrow> u32 \<Rightarrow> nat \<Rightarrow> u64 \<Rightarrow> ((u32 \<times> u32 \<times> u32) list \<times> bool \<times> u64) option" where
  "new_order_items cfg warehouse_id 0 s = Some ([], True, s)"
| "new_order_items cfg warehouse_id (Suc n) s = do {
     (item_id, s) \<leftarrow> GetItemId (g_uniform_item_dist cfg) s;
     (p, s) \<leftarrow> RandomNumber s 1 100;
     (supplier, local, s) \<leftarrow>
       (if sint p > g_new_order_remote_item_pct cfg \<or> warehouse_num cfg = 1
        then Some (warehouse_id, True, s)
        else do {
          (x, s) \<leftarrow> pick_other_warehouse s (word_of_nat (warehouse_num cfg)) warehouse_id;
          Some (x, False, s)
        });
     (quantity, s) \<leftarrow> RandomNumber s 1 10;
     (items, all_local, s) \<leftarrow> new_order_items cfg warehouse_id n s;
     Some ((item_id, supplier, quantity) # items, local \<and> all_local, s)
   }"

text \<open>The new quantity of a stock record; unsigned arithmetic as in the source.\<close>

definition stock_take :: "u32 \<Rightarrow> u32 \<Rightarrow> u32" where
  "stock_take old qty =
     (if old - qty \<ge> 10 then old - qty else old + (91 - qty))"

definition stock_update :: "S_val \<Rightarrow> u32 \<Rightarrow> bool \<Rightarrow> S_val" where
  "stock_update v_s qty home =
     v_s\<lparr>s_quantity := stock_take (s_quantity v_s) qty,
         s_ytd := f32 (s_ytd v_s + f32 (of_nat (unat qty))),
         s_order_cnt := s_order_cnt v_s + 1,
         s_remote_cnt := s_remote_cnt v_s + (if home then 0 else 1)\<rparr>"

text \<open>The loop over the order lines. It stops with \<open>False\<close> at an item that is not found.\<close>

fun new_order_lines ::
  "junk \<Rightarrow> u32 \<Rightarrow> u32 \<Rightarrow> u32 \<Rightarrow> u32 \<Rightarrow> (u32 \<times> u32 \<times> u32) list \<Rightarrow> rat \<Rightarrow> tpcc_db \<Rightarrow>
   bool \<times> rat \<times> tpcc_db" where
  "new_order_lines J warehouse_id district_id oid n_line [] all_amount db = (True, all_amount, db)"
| "new_order_lines J warehouse_id district_id oid n_line
     ((item, supplier, qty) # items) all_amount db =
     (case os_get (table_item db) (I_key (ucast item)) of
        None \<Rightarrow> (False, all_amount, db)
      | Some v_i \<Rightarrow>
          let k_s = S_key (ucast supplier) item;
              v_s = kv_get (table_stock db) k_s (junk_s J);
              v_s_new = stock_update v_s qty (supplier = warehouse_id);
              db = db\<lparr>table_stock := os_insert (table_stock db) k_s v_s_new\<rparr>;
              k_ol = OL_key (ucast warehouse_id) (ucast district_id) oid (ucast n_line);
              v_ol = \<lparr>ol_i_id = item, ol_delivery_d = 0,
                      ol_amount = f32 (f64 (of_nat (unat qty) * i_price v_i)),
                      ol_supply_w_id = supplier, ol_quantity = ucast qty\<rparr>;
              db = db\<lparr>table_order_line := os_insert (table_order_line db) k_ol v_ol\<rparr>
          in new_order_lines J warehouse_id district_id oid (n_line + 1) items
               (f32 (all_amount + ol_amount v_ol)) db)"

text \<open>
  The part up to the loop: the district's counter is advanced first and the advanced value is the
  new order's number.
\<close>

definition new_order_open ::
  "junk \<Rightarrow> u32 \<Rightarrow> u32 \<Rightarrow> u32 \<Rightarrow> u32 \<Rightarrow> bool \<Rightarrow> u32 \<Rightarrow> tpcc_db \<Rightarrow> (D_val \<times> u32 \<times> tpcc_db) option" where
  "new_order_open J warehouse_id district_id customer_id num_items all_local now db = do {
     let k_d = D_key (ucast warehouse_id) (ucast district_id);
     let v_d = kv_get (table_district db) k_d (junk_d J);
     let v_d = v_d\<lparr>d_next_o_id := d_next_o_id v_d + 1\<rparr>;
     let db = db\<lparr>table_district := os_insert (table_district db) k_d v_d\<rparr>;
     let my_next_o_id = d_next_o_id v_d;
     let k_no = NO_key (ucast warehouse_id) (ucast district_id) my_next_o_id;
     let v_no = \<lparr>no_dummy = var_assign 2 (bytes_of ''no'')\<rparr>;
     let db = db\<lparr>table_new_order := os_insert (table_new_order db) k_no v_no\<rparr>;
     let w = unat (warehouse_id - 1);
     let d = unat (district_id - 1);
     p \<leftarrow> vec_get (pending_new_order_per_dis db) w;
     p \<leftarrow> vec_set p d (ucast my_next_o_id);
     pend \<leftarrow> vec_set (pending_new_order_per_dis db) w p;
     l \<leftarrow> vec_get (latest_order_id_per_customer db) w;
     lc \<leftarrow> vec_get l d;
     lc \<leftarrow> vec_set lc (unat (customer_id - 1)) (ucast my_next_o_id);
     l \<leftarrow> vec_set l d lc;
     latest \<leftarrow> vec_set (latest_order_id_per_customer db) w l;
     let k_o = O_key (ucast warehouse_id) (ucast district_id) (no_o_id k_no);
     let v_o = \<lparr>o_c_id = customer_id, o_carrier_id = 0, o_ol_cnt = ucast num_items,
                o_all_local = all_local, o_entry_d = now\<rparr>;
     Some (v_d, my_next_o_id,
       db\<lparr>pending_new_order_per_dis := pend, latest_order_id_per_customer := latest,
          table_order := os_insert (table_order db) k_o v_o\<rparr>)
   }"

text \<open>What an abort does: the counter and the two records, nothing else.\<close>

definition new_order_abort :: "u32 \<Rightarrow> u32 \<Rightarrow> D_val \<Rightarrow> u32 \<Rightarrow> tpcc_db \<Rightarrow> tpcc_db" where
  "new_order_abort warehouse_id district_id v_d oid db =
     db\<lparr>table_district := os_insert (table_district db) (D_key (ucast warehouse_id) (ucast district_id))
           (v_d\<lparr>d_next_o_id := d_next_o_id v_d - 1\<rparr>),
        table_new_order := os_remove (table_new_order db)
           (NO_key (ucast warehouse_id) (ucast district_id) oid),
        table_order := os_remove (table_order db)
           (O_key (ucast warehouse_id) (ucast district_id) oid)\<rparr>"

text \<open>The result is the total amount of a committed order.\<close>

definition txn_new_order ::
  "tpcc_cfg \<Rightarrow> junk \<Rightarrow> u32 \<Rightarrow> txn_state \<Rightarrow> (rat option \<times> txn_state) option" where
  "txn_new_order cfg J warehouse_id st = do {
     let (s, tl_hack, db) = st;
     (district_id, s) \<leftarrow> RandomNumber s 1 (word_of_nat (num_district_per_warehouse cfg));
     (customer_id, s) \<leftarrow> GetCustomerId s;
     (num_items, s) \<leftarrow> RandomNumber s 5 15;
     (items, all_local, s) \<leftarrow> new_order_items cfg warehouse_id (unat num_items) s;
     let v_w = kv_get (table_warehouse db) (W_key (ucast warehouse_id)) (junk_w J);
     let v_c = kv_get (table_customer db)
       (C_key (ucast customer_id) (ucast district_id) (ucast warehouse_id)) (junk_c J);
     let (now, tl_hack) = GetCurrentTimeMillis tl_hack;
     (v_d, oid, db) \<leftarrow> new_order_open J warehouse_id district_id customer_id num_items all_local now db;
     let (committed, all_amount, db) = new_order_lines J warehouse_id district_id oid 1 items 0 db;
     Some (if committed
       then (Some (f32 (f32 (all_amount * f32 (1 - c_discount v_c)) *
                        f32 (f32 (1 + w_tax v_w) + d_tax v_d))), s, tl_hack, db)
       else (None, s, tl_hack, new_order_abort warehouse_id district_id v_d oid db))
   }"

section \<open>Payment\<close>

text \<open>\<open>%f\<close> of a non-negative number: six decimals, rounded to nearest even.\<close>

definition show_fixed :: "rat \<Rightarrow> byte list" where
  "show_fixed x =
     (let n = nat (round_even (x * 1000000)); frac = show_nat (n mod 1000000)
      in show_nat (n div 1000000) @ [46] @ replicate (6 - length frac) 48 @ frac)"

text \<open>
  The text of \<open>snprintf(buf, 501, "%d %d %d %d %d %f | %s", ...)\<close>, and the 500 bytes copied from
  \<open>buf\<close>: after the terminating NUL the buffer has its old contents.
\<close>

definition credit_text :: "C_key \<Rightarrow> u32 \<Rightarrow> u32 \<Rightarrow> rat \<Rightarrow> byte list \<Rightarrow> byte list" where
  "credit_text k_c districtID warehouse_id paymentAmount data =
     show_nat (unat (c_id k_c)) @ [32] @ show_nat (unat (c_d_id k_c)) @ [32] @
     show_nat (unat (c_w_id k_c)) @ [32] @ show_nat (unat districtID) @ [32] @
     show_nat (unat warehouse_id) @ [32] @ show_fixed paymentAmount @ [32, 124, 32] @ c_str data"

definition credit_data :: "byte list \<Rightarrow> byte list \<Rightarrow> byte list" where
  "credit_data txt buf = take 500 (take 500 txt @ [0] @ drop (length txt + 1) buf)"

definition payment_customer :: "junk \<Rightarrow> C_key \<Rightarrow> u32 \<Rightarrow> u32 \<Rightarrow> rat \<Rightarrow> C_val \<Rightarrow> C_val" where
  "payment_customer J k_c districtID warehouse_id paymentAmount v_c =
     (let v_c = v_c\<lparr>c_balance := f32 (c_balance v_c - paymentAmount),
                    c_ytd_payment := f32 (c_ytd_payment v_c + paymentAmount),
                    c_payment_cnt := c_payment_cnt v_c + 1\<rparr>
      in if memcmp (take 2 (c_credit v_c)) (bytes_of ''BC'') = 0
         then v_c\<lparr>c_data := credit_data
                (credit_text k_c districtID warehouse_id paymentAmount (c_data v_c)) (junk_buf J)\<rparr>
         else v_c)"

definition payment_apply ::
  "junk \<Rightarrow> u32 \<Rightarrow> u32 \<Rightarrow> u32 \<Rightarrow> u32 \<Rightarrow> u32 \<Rightarrow> u32 \<Rightarrow> rat \<Rightarrow> tpcc_db \<Rightarrow> tpcc_db" where
  "payment_apply J warehouse_id districtID customerWarehouseID customerDistrictID customerID ts
     paymentAmount db =
     (let k_w = W_key (ucast warehouse_id);
          v_w = kv_get (table_warehouse db) k_w (junk_w J);
          v_w = v_w\<lparr>w_ytd := f32 (w_ytd v_w + paymentAmount)\<rparr>;
          db = db\<lparr>table_warehouse := os_insert (table_warehouse db) k_w v_w\<rparr>;
          k_d = D_key (ucast warehouse_id) (ucast districtID);
          v_d = kv_get (table_district db) k_d (junk_d J);
          v_d = v_d\<lparr>d_ytd := f32 (d_ytd v_d + paymentAmount)\<rparr>;
          db = db\<lparr>table_district := os_insert (table_district db) k_d v_d\<rparr>;
          k_c = C_key (ucast customerID) (ucast customerDistrictID) (ucast customerWarehouseID);
          v_c = kv_get (table_customer db) k_c (junk_c J);
          v_c = payment_customer J k_c districtID warehouse_id paymentAmount v_c;
          db = db\<lparr>table_customer := os_insert (table_customer db) k_c v_c\<rparr>;
          k_h = H_key (ucast warehouse_id) (ucast districtID) (ucast customerWarehouseID)
                  (ucast customerDistrictID) (ucast customerID) ts;
          v_h = \<lparr>h_amount = paymentAmount,
                 h_data = w_name v_w @ replicate 4 32 @ d_name v_d\<rparr>
      in db\<lparr>table_history := os_insert (table_history db) k_h v_h\<rparr>)"

definition txn_payment :: "tpcc_cfg \<Rightarrow> junk \<Rightarrow> u32 \<Rightarrow> txn_state \<Rightarrow> txn_state option" where
  "txn_payment cfg J warehouse_id st = do {
     let (s, tl_hack, db) = st;
     (districtID, s) \<leftarrow> RandomNumber s 1 10;
     (home, s) \<leftarrow>
       (if warehouse_num cfg = 1 then Some (True, s)
        else do { (p, s) \<leftarrow> RandomNumber s 1 100; Some (sint p \<le> 85, s) });
     (customerDistrictID, customerWarehouseID, s) \<leftarrow>
       (if home then Some (districtID, warehouse_id, s)
        else do {
          (cd, s) \<leftarrow> RandomNumber s 1 10;
          (cw, s) \<leftarrow> pick_other_warehouse s (word_of_nat (warehouse_num cfg)) warehouse_id;
          Some (cd, cw, s)
        });
     (cents, s) \<leftarrow> RandomNumber s 100 500000;
     let paymentAmount = f32 (f64 (of_nat (unat cents) / 100));
     let (ts, tl_hack) = GetCurrentTimeMillis tl_hack;
     (customerID, s) \<leftarrow> GetCustomerId s;
     Some (s, tl_hack, payment_apply J warehouse_id districtID customerWarehouseID
       customerDistrictID customerID ts paymentAmount db)
   }"

section \<open>Delivery\<close>

text \<open>The loop over the scanned order lines: add up, stamp, write back.\<close>

fun deliver_lines ::
  "(OL_key \<times> OL_val) list \<Rightarrow> rat \<Rightarrow> u32 \<Rightarrow> (OL_key, OL_val) ostore \<Rightarrow>
   rat \<times> u32 \<times> (OL_key, OL_val) ostore" where
  "deliver_lines [] ol_total tl_hack t = (ol_total, tl_hack, t)"
| "deliver_lines ((k, v) # kvs_ol) ol_total tl_hack t =
     (let ol_total = f32 (ol_total + ol_amount v);
          (now, tl_hack) = GetCurrentTimeMillis tl_hack;
          v = v\<lparr>ol_delivery_d := now\<rparr>
      in deliver_lines kvs_ol ol_total tl_hack (os_insert t k v))"

definition delivery_scan_n :: nat where
  "delivery_scan_n = 10"

text \<open>
  One district; \<open>Some (True, \<dots>)\<close> continues the loop (also after \<open>continue\<close>), \<open>Some (False, \<dots>)\<close>
  is the early \<open>return\<close> when the order is missing.
\<close>

definition deliver_district ::
  "junk \<Rightarrow> u32 \<Rightarrow> u32 \<Rightarrow> u32 \<Rightarrow> u32 \<times> tpcc_db \<Rightarrow> (bool \<times> u32 \<times> tpcc_db) option" where
  "deliver_district J warehouse_id did carrier st = do {
     let (tl_hack, db) = st;
     p \<leftarrow> vec_get (pending_new_order_per_dis db) (unat (warehouse_id - 1));
     pending \<leftarrow> vec_get p (unat (did - 1));
     let latest_no_id = (ucast pending :: u32);
     let k_no_min = NO_key (ucast warehouse_id) (ucast did) latest_no_id;
     if os_get (table_new_order db) k_no_min = None then Some (True, tl_hack, db)
     else do {
       let min_no_o_id = no_o_id k_no_min;
       let k_o = O_key (ucast warehouse_id) (ucast did) min_no_o_id;
       case os_get (table_order db) k_o of
         None \<Rightarrow> Some (False, tl_hack, db)
       | Some v_o \<Rightarrow> do {
           let db = db\<lparr>table_new_order := os_remove (table_new_order db) k_no_min\<rparr>;
           let db = db\<lparr>table_order := os_insert (table_order db) k_o (v_o\<lparr>o_carrier_id := carrier\<rparr>)\<rparr>;
           let kvs_ol = os_scan (table_order_line db)
             (OL_key (ucast warehouse_id) (ucast did) min_no_o_id 0) delivery_scan_n;
           let (ol_total, tl_hack, lines) = deliver_lines kvs_ol 0 tl_hack (table_order_line db);
           let db = db\<lparr>table_order_line := lines\<rparr>;
           let k_c = C_key (ucast (o_c_id v_o)) (ucast did) (ucast warehouse_id);
           let v_c = kv_get (table_customer db) k_c (junk_c J);
           let v_c = v_c\<lparr>c_balance := f32 (c_balance v_c + ol_total),
                         c_delivery_cnt := c_delivery_cnt v_c + 1\<rparr>;
           Some (True, tl_hack, db\<lparr>table_customer := os_insert (table_customer db) k_c v_c\<rparr>)
         }
     }
   }"

fun delivery_loop ::
  "junk \<Rightarrow> u32 \<Rightarrow> u32 \<Rightarrow> nat \<Rightarrow> u32 \<Rightarrow> u32 \<times> tpcc_db \<Rightarrow> (u32 \<times> tpcc_db) option" where
  "delivery_loop J warehouse_id carrier 0 did st = Some st"
| "delivery_loop J warehouse_id carrier (Suc n) did st = do {
     (go, tl_hack, db) \<leftarrow> deliver_district J warehouse_id did carrier st;
     if go then delivery_loop J warehouse_id carrier n (did + 1) (tl_hack, db)
     else Some (tl_hack, db)
   }"

definition txn_delivery :: "tpcc_cfg \<Rightarrow> junk \<Rightarrow> u32 \<Rightarrow> txn_state \<Rightarrow> txn_state option" where
  "txn_delivery cfg J warehouse_id st = do {
     let (s, tl_hack, db) = st;
     (o_carrier_id, s) \<leftarrow> RandomNumber s 1 (word_of_nat (num_district_per_warehouse cfg));
     (tl_hack, db) \<leftarrow> delivery_loop J warehouse_id o_carrier_id (num_district_per_warehouse cfg) 1 (tl_hack, db);
     Some (s, tl_hack, db)
   }"

section \<open>Order status and stock level\<close>

text \<open>Both only read; the result is what the transaction has read when it ends.\<close>

definition txn_order_status ::
  "tpcc_cfg \<Rightarrow> u32 \<Rightarrow> txn_state \<Rightarrow> ((OL_key \<times> OL_val) list \<times> txn_state) option" where
  "txn_order_status cfg warehouse_id st = do {
     let (s, tl_hack, db) = st;
     (district_id, s) \<leftarrow> RandomNumber s 1 (word_of_nat (num_district_per_warehouse cfg));
     (customer_id, s) \<leftarrow> GetCustomerId s;
     l \<leftarrow> vec_get (latest_order_id_per_customer db) (unat (warehouse_id - 1));
     lc \<leftarrow> vec_get l (unat (district_id - 1));
     newest \<leftarrow> vec_get lc (unat (customer_id - 1));
     let newest_o_id = (ucast newest :: u32);
     let k_ol_lower = OL_key (ucast warehouse_id) (ucast district_id) newest_o_id 0;
     Some (os_scan (table_order_line db) k_ol_lower 10, s, tl_hack, db)
   }"

fun stock_level_count ::
  "junk \<Rightarrow> u32 \<Rightarrow> u32 \<Rightarrow> (S_key, S_val) ostore \<Rightarrow> (OL_key \<times> OL_val) list \<Rightarrow> nat" where
  "stock_level_count J warehouse_id threshold t [] = 0"
| "stock_level_count J warehouse_id threshold t ((k, v) # kvs_ol) =
     (let v_s = kv_get t (S_key (ucast warehouse_id) (ol_i_id v)) (junk_s J)
      in (if s_quantity v_s < threshold then 1 else 0) +
         stock_level_count J warehouse_id threshold t kvs_ol)"

definition txn_stock_level ::
  "tpcc_cfg \<Rightarrow> junk \<Rightarrow> u32 \<Rightarrow> txn_state \<Rightarrow> (nat \<times> txn_state) option" where
  "txn_stock_level cfg J warehouse_id st = do {
     let (s, tl_hack, db) = st;
     (district_id, s) \<leftarrow> RandomNumber s 1 (word_of_nat (num_district_per_warehouse cfg));
     (threshold, s) \<leftarrow> RandomNumber s 10 20;
     let k_d = D_key (ucast warehouse_id) (ucast district_id);
     let v_d = kv_get (table_district db) k_d (junk_d J);
     let cur_next_o_id = d_next_o_id v_d;
     let lower = (if cur_next_o_id \<ge> 20 then cur_next_o_id - 20 else 0);
     let kvs_ol = os_scan (table_order_line db)
       (OL_key (ucast warehouse_id) (ucast district_id) lower 0) (10 * 20);
     Some (stock_level_count J warehouse_id threshold (table_stock db) kvs_ol, s, tl_hack, db)
   }"

end
