(* ===== verification/TpccInvariant.thy ===== *)
theory TpccInvariant
  imports TpccTxn
begin

text \<open>
  The database invariant of the TPC-C implementation and its preservation by the five
  transactions: record orders in the stores, sizes of the bookkeeping vectors, stock quantities
  between 10 and 100, order numbers bounded by the district counters, and the order lines of
  every order.
\<close>

section \<open>Ranges\<close>

definition wh_ok :: "tpcc_cfg \<Rightarrow> u16 \<Rightarrow> bool" where
  "wh_ok cfg W \<longleftrightarrow> 1 \<le> unat W \<and> unat W \<le> warehouse_num cfg"

definition di_ok :: "tpcc_cfg \<Rightarrow> byte \<Rightarrow> bool" where
  "di_ok cfg D \<longleftrightarrow> 1 \<le> unat D \<and> unat D \<le> num_district_per_warehouse cfg"

definition warehouse_in :: "tpcc_cfg \<Rightarrow> u32 \<Rightarrow> bool" where
  "warehouse_in cfg w \<longleftrightarrow> 1 \<le> unat w \<and> unat w \<le> warehouse_num cfg"

definition district_in :: "tpcc_cfg \<Rightarrow> u32 \<Rightarrow> bool" where
  "district_in cfg d \<longleftrightarrow> 1 \<le> unat d \<and> unat d \<le> num_district_per_warehouse cfg"

lemma unat_ucast16: "unat (w :: u32) < 65536 \<Longrightarrow> unat (ucast w :: u16) = unat w"
  by (simp add: unsigned_ucast_eq take_bit_eq_mod)

lemma unat_ucast8: "unat (w :: u32) < 256 \<Longrightarrow> unat (ucast w :: byte) = unat w"
  by (simp add: unsigned_ucast_eq take_bit_eq_mod)

lemma wh_ok_ucast: "cfg_ok cfg \<Longrightarrow> warehouse_in cfg w \<Longrightarrow> wh_ok cfg (ucast w)"
  by (simp add: wh_ok_def warehouse_in_def cfg_ok_def unat_ucast16)

lemma di_ok_ucast: "cfg_ok cfg \<Longrightarrow> district_in cfg d \<Longrightarrow> di_ok cfg (ucast d)"
  by (simp add: di_ok_def district_in_def cfg_ok_def unat_ucast8)

lemma RandomNumber_1_n:
  assumes "0 < n" "n < 65536"
  shows "\<exists>v. RandomNumber s 1 (word_of_nat n) = Some (v, fr_step s) \<and> 1 \<le> unat v \<and> unat v \<le> n"
proof -
  have n: "unat (word_of_nat n :: u32) = n" using assms by (intro unat_of_nat_u32) simp
  then have "(1 :: u32) \<le> word_of_nat n" using assms by (simp add: word_le_nat_alt)
  from RandomNumber_unat [OF this, of s] n assms show ?thesis by (auto simp: word_le_nat_alt)
qed

lemma RandomNumber_const:
  assumes "a \<le> b" "unat (b :: u32) < 4294967295"
  obtains v where "RandomNumber s a b = Some (v, fr_step s)" "a \<le> v" "v \<le> b"
  using RandomNumber_unat [OF assms, of s] by blast

section \<open>The supplier loop ends\<close>

lemma pick_other_step:
  assumes n: "2 \<le> n" "n < 65536"
    and m: "unat (fst (next_u32 ((fr_step ^^ m) s))) < n"
      "word_of_nat (1 + unat (fst (next_u32 ((fr_step ^^ m) s)))) \<noteq> w"
  shows "\<exists>x s'. pick_other_warehouse s (word_of_nat n) w = Some (x, s') \<and>
    1 \<le> unat x \<and> unat x \<le> n \<and> x \<noteq> w"
  using m
proof (induction m arbitrary: s)
  case (0 s)
  have un: "unat (word_of_nat n :: u32) = n" using n by (intro unat_of_nat_u32) simp
  then have "(1 :: u32) \<le> word_of_nat n" using n by (simp add: word_le_nat_alt)
  from RandomNumber_unat [OF this, of s] un n obtain v where
    v: "RandomNumber s 1 (word_of_nat n) = Some (v, fr_step s)" "unat v = 1 + unat (fst (next_u32 s)) mod n"
      "1 \<le> unat v" "unat v \<le> n" by (auto simp: word_le_nat_alt)
  then have "unat v = 1 + unat (fst (next_u32 s))" using 0 by simp
  moreover have "word_of_nat (unat v) = v" by simp
  ultimately have "v \<noteq> w" using 0 by (metis funpow_0)
  with v show ?case by (subst pick_other_warehouse.simps) simp
next
  case (Suc m s)
  from n RandomNumber_1_n [of n s] obtain v where
    v: "RandomNumber s 1 (word_of_nat n) = Some (v, fr_step s)" "1 \<le> unat v" "unat v \<le> n" by auto
  show ?case
  proof (cases "v = w")
    case False
    with v show ?thesis by (subst pick_other_warehouse.simps) simp
  next
    case True
    have "pick_other_warehouse s (word_of_nat n) w = pick_other_warehouse (fr_step s) (word_of_nat n) w"
      using v True by (subst pick_other_warehouse.simps) simp
    moreover have "\<exists>x s'. pick_other_warehouse (fr_step s) (word_of_nat n) w = Some (x, s') \<and>
        1 \<le> unat x \<and> unat x \<le> n \<and> x \<noteq> w"
      using Suc.prems by (intro Suc.IH) (simp_all add: funpow_swap1)
    ultimately show ?thesis by simp
  qed
qed

lemma pick_other_total:
  assumes "2 \<le> n" "n < 65536"
  shows "\<exists>x s'. pick_other_warehouse s (word_of_nat n) w = Some (x, s') \<and>
    1 \<le> unat x \<and> unat x \<le> n \<and> x \<noteq> w"
proof -
  obtain t :: u32 where t: "unat t < n" "word_of_nat (1 + unat t) \<noteq> w"
  proof (cases "w = 1")
    case True
    with assms that [of 1] show ?thesis by simp
  next
    case False
    with assms that [of 0] show ?thesis by auto
  qed
  obtain m where "fst (next_u32 ((fr_step ^^ m) s)) = t" using reach_u32 by blast
  with t pick_other_step [OF assms, of m s w] show ?thesis by simp
qed

section \<open>The items of a new order\<close>

definition line_ok :: "tpcc_cfg \<Rightarrow> u32 \<times> u32 \<times> u32 \<Rightarrow> bool" where
  "line_ok cfg l = (case l of (item, supplier, qty) \<Rightarrow>
     1 \<le> item \<and> item \<le> 100000 \<and> warehouse_in cfg supplier \<and> 1 \<le> qty \<and> qty \<le> 10)"

lemma new_order_items_ok:
  assumes cfg: "cfg_ok cfg" and w: "warehouse_in cfg w"
  shows "\<exists>items all_local s'. new_order_items cfg w n s = Some (items, all_local, s') \<and>
    length items = n \<and> (\<forall>l\<in>set items. line_ok cfg l) \<and>
    (all_local \<longleftrightarrow> (\<forall>l\<in>set items. fst (snd l) = w))"
proof (induction n arbitrary: s)
  case (Suc n)
  obtain item s1 where item: "GetItemId (g_uniform_item_dist cfg) s = Some (item, s1)"
    "1 \<le> item" "item \<le> 100000" using GetItemId_range by blast
  obtain p where p: "RandomNumber s1 1 100 = Some (p, fr_step s1)"
    by (rule RandomNumber_const [of 1 100 s1]) simp_all
  let ?sel = "if sint p > g_new_order_remote_item_pct cfg \<or> warehouse_num cfg = 1
        then Some (w, True, fr_step s1)
        else do {
          (x, s) \<leftarrow> pick_other_warehouse (fr_step s1) (word_of_nat (warehouse_num cfg)) w;
          Some (x, False, s)
        }"
  obtain sup loc s2 where sup: "?sel = Some (sup, loc, s2)" "warehouse_in cfg sup" "loc \<longleftrightarrow> sup = w"
  proof (cases "sint p > g_new_order_remote_item_pct cfg \<or> warehouse_num cfg = 1")
    case True
    with that [of w True "fr_step s1"] w show ?thesis by simp
  next
    case False
    with cfg have "2 \<le> warehouse_num cfg" "warehouse_num cfg < 65536" by (auto simp: cfg_ok_def)
    from pick_other_total [OF this, of "fr_step s1" w] obtain x s' where
      "pick_other_warehouse (fr_step s1) (word_of_nat (warehouse_num cfg)) w = Some (x, s')"
      "1 \<le> unat x" "unat x \<le> warehouse_num cfg" "x \<noteq> w" by blast
    with that [of x False s'] False show ?thesis by (simp add: warehouse_in_def)
  qed
  obtain q where q: "RandomNumber s2 1 10 = Some (q, fr_step s2)" "1 \<le> q" "q \<le> 10"
    by (rule RandomNumber_const [of 1 10 s2]) simp_all
  obtain items al s' where ih: "new_order_items cfg w n (fr_step s2) = Some (items, al, s')"
    "length items = n" "\<forall>l\<in>set items. line_ok cfg l" "al \<longleftrightarrow> (\<forall>l\<in>set items. fst (snd l) = w)"
    using Suc.IH by blast
  have "new_order_items cfg w (Suc n) s = Some ((item, sup, q) # items, loc \<and> al, s')"
    using item(1) p sup(1) q(1) ih(1) by simp
  then show ?case using item q sup ih by (auto simp: line_ok_def)
qed simp

section \<open>The invariant\<close>

definition items_ok :: "tpcc_db \<Rightarrow> bool" where
  "items_ok db \<longleftrightarrow> (\<forall>i::u32. 1 \<le> i \<and> i \<le> 100000 \<longrightarrow> os_get (table_item db) (I_key (ucast i)) \<noteq> None)"

definition qty_ok :: "u32 \<Rightarrow> bool" where
  "qty_ok x \<longleftrightarrow> 10 \<le> x \<and> x \<le> 100"

definition stock_ok :: "tpcc_cfg \<Rightarrow> tpcc_db \<Rightarrow> bool" where
  "stock_ok cfg db \<longleftrightarrow> (\<forall>W i. wh_ok cfg W \<and> 1 \<le> i \<and> i \<le> 100000 \<longrightarrow>
     (\<exists>v. os_get (table_stock db) (S_key W i) = Some v \<and> qty_ok (s_quantity v)))"

definition districts_ok :: "tpcc_cfg \<Rightarrow> tpcc_db \<Rightarrow> bool" where
  "districts_ok cfg db \<longleftrightarrow> (\<forall>W D. wh_ok cfg W \<and> di_ok cfg D \<longrightarrow>
     os_get (table_district db) (D_key W D) \<noteq> None)"

definition next_o_id :: "tpcc_db \<Rightarrow> u16 \<Rightarrow> byte \<Rightarrow> u32" where
  "next_o_id db W D = (case os_get (table_district db) (D_key W D) of Some v \<Rightarrow> d_next_o_id v | None \<Rightarrow> 0)"

text \<open>No order, new-order or order-line record is numbered above its district's counter.\<close>

definition ids_bounded :: "tpcc_cfg \<Rightarrow> tpcc_db \<Rightarrow> bool" where
  "ids_bounded cfg db \<longleftrightarrow> (\<forall>W D oid. wh_ok cfg W \<and> di_ok cfg D \<and> next_o_id db W D < oid \<longrightarrow>
     os_get (table_order db) (O_key W D oid) = None \<and>
     os_get (table_new_order db) (NO_key W D oid) = None \<and>
     (\<forall>n. os_get (table_order_line db) (OL_key W D oid n) = None))"

text \<open>An order has exactly the order lines \<open>1 .. o_ol_cnt\<close>, and a new order has its order.\<close>

definition lines_ok :: "tpcc_cfg \<Rightarrow> tpcc_db \<Rightarrow> bool" where
  "lines_ok cfg db \<longleftrightarrow> (\<forall>W D oid v n. wh_ok cfg W \<and> di_ok cfg D \<and>
     os_get (table_order db) (O_key W D oid) = Some v \<longrightarrow>
     (os_get (table_order_line db) (OL_key W D oid n) \<noteq> None \<longleftrightarrow> 1 \<le> n \<and> n \<le> o_ol_cnt v))"

definition new_orders_ok :: "tpcc_cfg \<Rightarrow> tpcc_db \<Rightarrow> bool" where
  "new_orders_ok cfg db \<longleftrightarrow> (\<forall>W D oid. wh_ok cfg W \<and> di_ok cfg D \<and>
     os_get (table_new_order db) (NO_key W D oid) \<noteq> None \<longrightarrow>
     os_get (table_order db) (O_key W D oid) \<noteq> None)"

definition tpcc_inv :: "tpcc_cfg \<Rightarrow> tpcc_db \<Rightarrow> bool" where
  "tpcc_inv cfg db \<longleftrightarrow> tables_ok db \<and> hack_ok cfg db \<and> items_ok db \<and> stock_ok cfg db \<and>
     districts_ok cfg db \<and> ids_bounded cfg db \<and> lines_ok cfg db \<and> new_orders_ok cfg db"

lemmas inv_defs = tpcc_inv_def tables_ok_def hack_ok_def items_ok_def stock_ok_def districts_ok_def
  next_o_id_def ids_bounded_def lines_ok_def new_orders_ok_def

section \<open>Keys built from fields are equal only when the fields are\<close>

named_theorems key_inject \<open>injectivity of the key constructors\<close>

lemma key_ctor_inject [simp, key_inject]:
  "D_key W D = D_key W' D' \<longleftrightarrow> W = W' \<and> D = D'"
  "O_key W D oid = O_key W' D' oid' \<longleftrightarrow> W = W' \<and> D = D' \<and> oid = oid'"
  "NO_key W D oid = NO_key W' D' oid' \<longleftrightarrow> W = W' \<and> D = D' \<and> oid = oid'"
  "OL_key W D oid n = OL_key W' D' oid' n' \<longleftrightarrow> W = W' \<and> D = D' \<and> oid = oid' \<and> n = n'"
  "S_key W i = S_key W' i' \<longleftrightarrow> W = W' \<and> i = i'"
  "C_key c D W = C_key c' D' W' \<longleftrightarrow> c = c' \<and> D = D' \<and> W = W'"
  "W_key w = W_key w' \<longleftrightarrow> w = w'"
  "I_key w = I_key w' \<longleftrightarrow> w = w'"
  by (auto simp: D_key_def O_key_def NO_key_def OL_key_def S_key_def C_key_def W_key_def I_key_def)

lemma key_sel [simp]: "no_o_id (NO_key W D oid) = oid"
  by (simp add: NO_key_def)

section \<open>Stock quantities\<close>

lemma stock_take_range:
  assumes "qty_ok x" "1 \<le> q" "q \<le> 10"
  shows "qty_ok (stock_take x q)"
proof -
  have b: "10 \<le> unat x" "unat x \<le> 100" "1 \<le> unat q" "unat q \<le> 10"
    using assms by (simp_all add: qty_ok_def word_le_nat_alt)
  then have sub: "unat (x - q) = unat x - unat q" by (simp add: unat_sub word_le_nat_alt)
  have s91: "unat (91 - q) = 91 - unat q"
    using b by (subst unat_sub) (simp_all add: word_le_nat_alt)
  have add: "unat (x + (91 - q)) = unat x + (91 - unat q)" using b by (simp add: unat_word_ariths s91)
  show ?thesis
    using b by (auto simp: stock_take_def qty_ok_def word_le_nat_alt sub add)
qed

text \<open>The loop over the lines of an order changes two tables only.\<close>

definition line_keys :: "u16 \<Rightarrow> byte \<Rightarrow> u32 \<Rightarrow> u32 \<Rightarrow> nat \<Rightarrow> OL_key set" where
  "line_keys W D oid n len = (\<lambda>i. OL_key W D oid (ucast (n + word_of_nat i))) ` {..<len}"

lemma line_keys_Suc:
  "line_keys W D oid n (Suc len) = insert (OL_key W D oid (ucast n)) (line_keys W D oid (n + 1) len)"
proof -
  have "{..<Suc len} = insert 0 (Suc ` {..<len})" by (rule lessThan_Suc_eq_insert_0)
  then show ?thesis
    by (simp add: line_keys_def image_image add.assoc)
qed

lemma new_order_lines_ok:
  assumes "cfg_ok cfg" "items_ok db" "stock_ok cfg db" "\<forall>l\<in>set items. line_ok cfg l"
    and "os_ok (table_stock db)" "os_ok (table_order_line db)"
  shows "\<exists>amt' st ol. new_order_lines J w d oid n items amt db =
      (True, amt', db\<lparr>table_stock := st, table_order_line := ol\<rparr>) \<and>
    os_ok st \<and> os_ok ol \<and> stock_ok cfg (db\<lparr>table_stock := st\<rparr>) \<and>
    (\<forall>k. k \<notin> line_keys (ucast w) (ucast d) oid n (length items) \<longrightarrow>
       os_get ol k = os_get (table_order_line db) k) \<and>
    (\<forall>k\<in>line_keys (ucast w) (ucast d) oid n (length items). os_get ol k \<noteq> None)"
  using assms(2-)
proof (induction items arbitrary: n amt db)
  case Nil
  then show ?case
    by (intro exI [of _ amt] exI [of _ "table_stock db"] exI [of _ "table_order_line db"])
      (auto simp: line_keys_def stock_ok_def)
next
  case (Cons l items)
  obtain i sup q where l: "l = (i, sup, q)" by (cases l)
  from Cons.prems(3) l have r: "1 \<le> i" "i \<le> 100000" "warehouse_in cfg sup" "1 \<le> q" "q \<le> 10"
    by (auto simp: line_ok_def)
  then have W: "wh_ok cfg (ucast sup)" using assms(1) by (intro wh_ok_ucast)
  from r Cons.prems(1) obtain v_i where vi: "os_get (table_item db) (I_key (ucast i)) = Some v_i"
    by (auto simp: items_ok_def)
  from r W Cons.prems(2) obtain v_s where
    vs: "os_get (table_stock db) (S_key (ucast sup) i) = Some v_s" "qty_ok (s_quantity v_s)"
    by (auto simp: stock_ok_def)
  let ?st = "os_insert (table_stock db) (S_key (ucast sup) i) (stock_update v_s q (sup = w))"
  let ?v = "\<lparr>ol_i_id = i, ol_delivery_d = 0, ol_amount = f32 (f64 (of_nat (unat q) * i_price v_i)),
    ol_supply_w_id = sup, ol_quantity = ucast q\<rparr>"
  let ?k = "OL_key (ucast w) (ucast d) oid (ucast n)"
  let ?ol = "os_insert (table_order_line db) ?k ?v"
  let ?db = "db\<lparr>table_stock := ?st, table_order_line := ?ol\<rparr>"
  have step: "new_order_lines J w d oid n (l # items) amt db =
      new_order_lines J w d oid (n + 1) items (f32 (amt + ol_amount ?v)) ?db"
    using vi vs by (simp add: l Let_def)
  have "stock_ok cfg ?db"
    using Cons.prems(2) vs(2) r stock_take_range [of "s_quantity v_s" q]
    by (auto simp: stock_ok_def stock_update_def)
  then obtain amt' st ol where ih:
    "new_order_lines J w d oid (n + 1) items (f32 (amt + ol_amount ?v)) ?db =
      (True, amt', ?db\<lparr>table_stock := st, table_order_line := ol\<rparr>)"
    "os_ok st" "os_ok ol" "stock_ok cfg (?db\<lparr>table_stock := st\<rparr>)"
    "\<forall>k. k \<notin> line_keys (ucast w) (ucast d) oid (n + 1) (length items) \<longrightarrow>
       os_get ol k = os_get (table_order_line ?db) k"
    "\<forall>k\<in>line_keys (ucast w) (ucast d) oid (n + 1) (length items). os_get ol k \<noteq> None"
    using Cons.IH [of ?db "n + 1" "f32 (amt + ol_amount ?v)"] Cons.prems
    by (auto simp: items_ok_def)
  have "stock_ok cfg (db\<lparr>table_stock := st\<rparr>)" using ih(4) by (simp add: stock_ok_def)
  moreover have "os_get ol ?k \<noteq> None"
    using ih(5,6) by (cases "?k \<in> line_keys (ucast w) (ucast d) oid (n + 1) (length items)") auto
  moreover have "?db\<lparr>table_stock := st, table_order_line := ol\<rparr> =
      db\<lparr>table_stock := st, table_order_line := ol\<rparr>" by simp
  ultimately show ?case
    using ih by (intro exI [of _ amt'] exI [of _ st] exI [of _ ol])
      (auto simp: step line_keys_Suc)
qed

section \<open>Opening a new order\<close>

lemma hack_ok_cong:
  "pending_new_order_per_dis db = pending_new_order_per_dis db' \<Longrightarrow>
   latest_order_id_per_customer db = latest_order_id_per_customer db' \<Longrightarrow>
   hack_ok cfg db = hack_ok cfg db'"
  by (simp add: hack_ok_def)

lemma new_order_open_ok:
  assumes hack: "hack_ok cfg db" and w: "warehouse_in cfg w" and d: "district_in cfg d"
    and c: "1 \<le> c" "c \<le> 3000"
    and v: "v = (kv_get (table_district db) (D_key (ucast w) (ucast d)) (junk_d J))
      \<lparr>d_next_o_id := d_next_o_id (kv_get (table_district db) (D_key (ucast w) (ucast d)) (junk_d J)) + 1\<rparr>"
  shows "\<exists>pend latest. new_order_open J w d c num_items all_local now db =
     Some (v, d_next_o_id v, db\<lparr>
       table_district := os_insert (table_district db) (D_key (ucast w) (ucast d)) v,
       table_new_order := os_insert (table_new_order db) (NO_key (ucast w) (ucast d) (d_next_o_id v))
         \<lparr>no_dummy = var_assign 2 (bytes_of ''no'')\<rparr>,
       pending_new_order_per_dis := pend, latest_order_id_per_customer := latest,
       table_order := os_insert (table_order db) (O_key (ucast w) (ucast d) (d_next_o_id v))
         \<lparr>o_c_id = c, o_carrier_id = 0, o_ol_cnt = ucast num_items, o_all_local = all_local,
          o_entry_d = now\<rparr>\<rparr>) \<and>
     hack_ok cfg (db\<lparr>pending_new_order_per_dis := pend, latest_order_id_per_customer := latest\<rparr>) \<and>
     pend ! unat (w - 1) ! unat (d - 1) = ucast (d_next_o_id v) \<and>
     (\<forall>i j. (i, j) \<noteq> (unat (w - 1), unat (d - 1)) \<longrightarrow> pend ! i ! j = pending_new_order_per_dis db ! i ! j) \<and>
     latest ! unat (w - 1) ! unat (d - 1) ! unat (c - 1) = ucast (d_next_o_id v)"
proof -
  have "w \<noteq> 0" "d \<noteq> 0" "c \<noteq> 0" using w d c by (auto simp: warehouse_in_def district_in_def)
  then have u: "unat (w - 1) = unat w - 1" "unat (d - 1) = unat d - 1" "unat (c - 1) = unat c - 1"
    by (simp_all add: unat_minus_one)
  let ?W = "unat w - 1" and ?D = "unat d - 1"
  have b: "?W < warehouse_num cfg" "?D < num_district_per_warehouse cfg" "unat c - 1 < 3000"
    using w d c by (auto simp: warehouse_in_def district_in_def word_le_nat_alt)
  let ?p = "pending_new_order_per_dis db" and ?l = "latest_order_id_per_customer db"
  have len: "?W < length ?p" "?D < length (?p ! ?W)" "?W < length ?l" "?D < length (?l ! ?W)"
    "unat c - 1 < length (?l ! ?W ! ?D)"
    using hack b by (auto simp: hack_ok_def)
  let ?pend = "?p[?W := (?p ! ?W)[?D := ucast (d_next_o_id v)]]"
  let ?latest = "?l[?W := (?l ! ?W)[?D := (?l ! ?W ! ?D)[unat c - 1 := ucast (d_next_o_id v)]]]"
  have "hack_ok cfg (db\<lparr>pending_new_order_per_dis := ?pend, latest_order_id_per_customer := ?latest\<rparr>)"
    using hack b by (auto simp: hack_ok_def nth_list_update)
  moreover have "new_order_open J w d c num_items all_local now db =
     Some (v, d_next_o_id v, db\<lparr>
       table_district := os_insert (table_district db) (D_key (ucast w) (ucast d)) v,
       table_new_order := os_insert (table_new_order db) (NO_key (ucast w) (ucast d) (d_next_o_id v))
         \<lparr>no_dummy = var_assign 2 (bytes_of ''no'')\<rparr>,
       pending_new_order_per_dis := ?pend, latest_order_id_per_customer := ?latest,
       table_order := os_insert (table_order db) (O_key (ucast w) (ucast d) (d_next_o_id v))
         \<lparr>o_c_id = c, o_carrier_id = 0, o_ol_cnt = ucast num_items, o_all_local = all_local,
          o_entry_d = now\<rparr>\<rparr>)"
    using len by (simp add: new_order_open_def Let_def v u)
  moreover have "?pend ! unat (w - 1) ! unat (d - 1) = ucast (d_next_o_id v)"
    "?latest ! unat (w - 1) ! unat (d - 1) ! unat (c - 1) = ucast (d_next_o_id v)"
    using len by (simp_all add: u)
  moreover have "\<forall>i j. (i, j) \<noteq> (unat (w - 1), unat (d - 1)) \<longrightarrow> ?pend ! i ! j = ?p ! i ! j"
    using len by (auto simp: u nth_list_update)
  ultimately show ?thesis by blast
qed

lemma line_keys_mem:
  assumes "len < 256"
  shows "OL_key W' D' oid' m \<in> line_keys W D oid 1 len \<longleftrightarrow>
    W' = W \<and> D' = D \<and> oid' = oid \<and> 1 \<le> m \<and> unat m \<le> len"
proof -
  have u: "unat (ucast (1 + word_of_nat i :: u32) :: byte) = Suc i" if "i < len" for i
  proof -
    have "unat (word_of_nat i :: u32) = i" using that assms by (intro unat_of_nat_u32) simp
    then have "unat (1 + word_of_nat i :: u32) = Suc i"
      using that assms by (simp add: unat_word_ariths)
    then show ?thesis using that assms by (simp add: unat_ucast8)
  qed
  have "(\<exists>i<len. m = ucast (1 + word_of_nat i :: u32)) \<longleftrightarrow> 1 \<le> m \<and> unat m \<le> len"
  proof
    assume "\<exists>i<len. m = ucast (1 + word_of_nat i :: u32)"
    then show "1 \<le> m \<and> unat m \<le> len" using u by (auto simp: word_le_nat_alt)
  next
    assume m: "1 \<le> m \<and> unat m \<le> len"
    then have "unat m - 1 < len" "Suc (unat m - 1) = unat m" by (auto simp: word_le_nat_alt)
    with u [of "unat m - 1"] show "\<exists>i<len. m = ucast (1 + word_of_nat i :: u32)"
      by (metis word_unat_eq_iff)
  qed
  then show ?thesis by (auto simp: line_keys_def)
qed

lemma inv_add_order:
  assumes inv: "tpcc_inv cfg db" and r: "wh_ok cfg W" "di_ok cfg D"
    and nx: "next_o_id db W D \<noteq> - 1" and oid: "oid = next_o_id db W D + 1" "d_next_o_id v = oid"
    and hack: "hack_ok cfg (db\<lparr>pending_new_order_per_dis := pend, latest_order_id_per_customer := latest\<rparr>)"
    and st: "os_ok st" "stock_ok cfg (db\<lparr>table_stock := st\<rparr>)"
    and ol: "os_ok ol" "len < 256" "unat (o_ol_cnt vo) = len"
      "\<forall>k. k \<notin> line_keys W D oid 1 len \<longrightarrow> os_get ol k = os_get (table_order_line db) k"
      "\<forall>k\<in>line_keys W D oid 1 len. os_get ol k \<noteq> None"
    and db': "db' = db\<lparr>table_district := os_insert (table_district db) (D_key W D) v,
       table_new_order := os_insert (table_new_order db) (NO_key W D oid) vn,
       pending_new_order_per_dis := pend, latest_order_id_per_customer := latest,
       table_order := os_insert (table_order db) (O_key W D oid) vo,
       table_stock := st, table_order_line := ol\<rparr>"
  shows "tpcc_inv cfg db'"
proof -
  have lt: "next_o_id db W D < oid"
    using unat_inc_u32 [OF nx] by (simp add: oid(1) word_less_nat_alt)
  have nx': "next_o_id db' W' D' = (if W' = W \<and> D' = D then oid else next_o_id db W' D')" for W' D'
    by (simp add: db' next_o_id_def oid)
  have fresh: "os_get (table_order_line db) (OL_key W D oid n) = None" for n
    using inv r lt by (auto simp: tpcc_inv_def ids_bounded_def)
  have olk: "os_get ol (OL_key W' D' oid' n) \<noteq> None \<longleftrightarrow>
      os_get (table_order_line db) (OL_key W' D' oid' n) \<noteq> None \<or>
      W' = W \<and> D' = D \<and> oid' = oid \<and> 1 \<le> n \<and> unat n \<le> len" for W' D' oid' n
    using ol(4,5) line_keys_mem [OF ol(2), of W' D' oid' n W D oid] by metis
  have "tables_ok db'" using inv st ol by (simp add: tpcc_inv_def tables_ok_def db')
  moreover have "hack_ok cfg db'" using hack by (simp add: db' hack_ok_def)
  moreover have "items_ok db'" using inv by (simp add: tpcc_inv_def items_ok_def db')
  moreover have "stock_ok cfg db'" using st(2) by (simp add: stock_ok_def db')
  moreover have "districts_ok cfg db'" using inv by (auto simp: tpcc_inv_def districts_ok_def db')
  moreover have "ids_bounded cfg db'"
  proof -
    have "os_get (table_order db') (O_key W' D' oid') = None \<and>
        os_get (table_new_order db') (NO_key W' D' oid') = None \<and>
        os_get (table_order_line db') (OL_key W' D' oid' n) = None"
      if h: "wh_ok cfg W'" "di_ok cfg D'" "next_o_id db' W' D' < oid'" for W' D' oid' n
    proof -
      have "next_o_id db W' D' < oid'" "\<not> (W' = W \<and> D' = D \<and> oid' = oid)"
        using h(3) lt by (auto simp: nx' split: if_splits)
      then show ?thesis
        using inv h(1,2) olk [of W' D' oid' n] by (auto simp: tpcc_inv_def ids_bounded_def db')
    qed
    then show ?thesis by (auto simp: ids_bounded_def)
  qed
  moreover have "lines_ok cfg db'"
  proof -
    have "os_get (table_order_line db') (OL_key W' D' oid' n) \<noteq> None \<longleftrightarrow> 1 \<le> n \<and> n \<le> o_ol_cnt x"
      if h: "wh_ok cfg W'" "di_ok cfg D'" "os_get (table_order db') (O_key W' D' oid') = Some x"
      for W' D' oid' n x
    proof (cases "W' = W \<and> D' = D \<and> oid' = oid")
      case True
      with h(3) fresh ol(3) olk [of W D oid n] show ?thesis
        by (simp add: db' word_le_nat_alt)
    next
      case False
      with h have "os_get (table_order db) (O_key W' D' oid') = Some x" by (auto simp: db' split: if_splits)
      with inv h(1,2) have "os_get (table_order_line db) (OL_key W' D' oid' n) \<noteq> None \<longleftrightarrow>
          1 \<le> n \<and> n \<le> o_ol_cnt x" by (simp add: tpcc_inv_def lines_ok_def)
      with False olk [of W' D' oid' n] show ?thesis by (auto simp: db')
    qed
    then show ?thesis by (auto simp: lines_ok_def)
  qed
  moreover have "new_orders_ok cfg db'"
    using inv by (auto simp: tpcc_inv_def new_orders_ok_def db')
  ultimately show ?thesis by (simp add: tpcc_inv_def)
qed

end
