(* ===== verification/TpccLoader.thy ===== *)
theory TpccLoader
  imports TpccInvariant OtherWrappers
begin

text \<open>
  The population of the TPC-C tables, \<open>benchmark/real_world/tpcc_loader.h\<close>: one function per
  table that fills a \<open>std::map\<close>, and the bulk load of such a map into an index. A \<open>std::map\<close>
  is the list of its elements in key order. \<open>std::shuffle\<close> with a default-constructed
  \<open>std::default_random_engine\<close> is a fixed but implementation-defined permutation: it is the
  argument \<open>shuffle\<close>. \<open>None\<close> is a load that produces no table (a failed assertion included).
  The loops count from 1 to bounds below \<open>2^32\<close>, where a \<open>uint32_t\<close> counter does not wrap. The
  operands of \<open>+\<close> on strings are evaluated from left to right.
\<close>

section \<open>Loops and maps\<close>

fun for_each :: "('a \<Rightarrow> 's \<Rightarrow> 's option) \<Rightarrow> 'a list \<Rightarrow> 's \<Rightarrow> 's option" where
  "for_each f [] st = Some st"
| "for_each f (x # xs) st = do { st \<leftarrow> f x st; for_each f xs st }"

text \<open>\<open>std::map::emplace\<close>: an equivalent key that is present stays, with its value.\<close>

fun emplace_by :: "('k \<Rightarrow> 'k \<Rightarrow> bool) \<Rightarrow> ('k \<times> 'v) list \<Rightarrow> 'k \<Rightarrow> 'v \<Rightarrow> ('k \<times> 'v) list" where
  "emplace_by lt [] k v = [(k, v)]"
| "emplace_by lt ((k', v') # m) k v =
     (if lt k k' then (k, v) # (k', v') # m
      else if lt k' k then (k', v') # emplace_by lt m k v
      else (k', v') # m)"

abbreviation emplace :: "('k::linorder, 'v) ostore \<Rightarrow> 'k \<Rightarrow> 'v \<Rightarrow> ('k, 'v) ostore" where
  "emplace \<equiv> emplace_by (<)"

definition assertO :: "bool \<Rightarrow> unit option" where
  "assertO b = (if b then Some () else None)"

text \<open>The globals the loaders share.\<close>

record loader_state =
  ld_tl_hack :: u32
  temp_no_map :: "(NO_key, NO_val) ostore"
  temp_ol_map :: "(OL_key, OL_val) ostore"
  temp_order_index_map :: "(OrderCidIndexKey, OrderCidIndexVal) ostore"
  temp_customer_index_map :: "(CustomerNameIndexKey \<times> CustomerNameIndexVal) list"

definition loader_init :: loader_state where
  "loader_init = \<lparr>ld_tl_hack = tl_hack_init, temp_no_map = [], temp_ol_map = [],
     temp_order_index_map = [], temp_customer_index_map = []\<rparr>"

section \<open>Rows\<close>

text \<open>\<open>RandomStr(r, RandomNumber(r, a, b))\<close>\<close>

definition random_str_of :: "u64 \<Rightarrow> u32 \<Rightarrow> u32 \<Rightarrow> (byte list \<times> u64) option" where
  "random_str_of s a b = do { (n, s) \<leftarrow> RandomNumber s a b; RandomStr s (unat n) }"

text \<open>\<open>(float)RandomNumber(r, a, b) / c\<close> and \<open>(float)(RandomNumber(r, a, b) / c)\<close> with a double \<open>c\<close>.\<close>

definition float_then_div :: "u32 \<Rightarrow> rat \<Rightarrow> rat" where
  "float_then_div n c = f32 (f64 (f32 (of_int (sint n)) / c))"

definition div_then_float :: "u32 \<Rightarrow> rat \<Rightarrow> rat" where
  "div_then_float n c = f32 (f64 (of_int (sint n) / c))"

definition warehouse_row :: "u64 \<Rightarrow> (W_val \<times> u64) option" where
  "warehouse_row s = do {
     (tax, s) \<leftarrow> RandomNumber s 0 2000;
     (name, s) \<leftarrow> random_str_of s 6 10;
     (street_1, s) \<leftarrow> random_str_of s 10 20;
     (street_2, s) \<leftarrow> random_str_of s 10 20;
     (city, s) \<leftarrow> random_str_of s 10 20;
     (state, s) \<leftarrow> RandomStr s 3;
     Some (\<lparr>w_ytd = 300000, w_tax = float_then_div tax 10000, w_name = var_assign 10 name,
            w_street_1 = var_assign 20 street_1, w_street_2 = var_assign 20 street_2,
            w_city = var_assign 20 city, w_state = var_assign 2 state,
            w_zip = var_assign 9 (bytes_of ''123456789'')\<rparr>, s)
   }"

definition load_warehouse :: "tpcc_cfg \<Rightarrow> u64 \<Rightarrow> loader_state \<Rightarrow>
    ((W_key, W_val) ostore \<times> loader_state) option" where
  "load_warehouse cfg seed st = do {
     (s, kvmap) \<leftarrow> for_each (\<lambda>i (s, kvmap). do {
         (v, s) \<leftarrow> warehouse_row s;
         Some (s, emplace kvmap (W_key (word_of_nat i)) v)
       }) [1..<Suc (warehouse_num cfg)] (set_seed0 seed, []);
     Some (kvmap, st)
   }"

definition district_row :: "u64 \<Rightarrow> (D_val \<times> u64) option" where
  "district_row s = do {
     (tax, s) \<leftarrow> RandomNumber s 0 2000;
     (name, s) \<leftarrow> random_str_of s 6 10;
     (street1, s) \<leftarrow> random_str_of s 10 20;
     (street2, s) \<leftarrow> random_str_of s 10 20;
     (city, s) \<leftarrow> random_str_of s 10 20;
     (state, s) \<leftarrow> RandomStr s 3;
     Some (\<lparr>d_ytd = 30000, d_tax = float_then_div tax 10000, d_next_o_id = 3001,
            d_name = var_assign 10 name, d_street1 = var_assign 20 street1,
            d_street2 = var_assign 20 street2, d_city = var_assign 20 city,
            d_state = var_assign 2 state, d_zip = var_assign 9 (bytes_of ''123456789'')\<rparr>, s)
   }"

definition load_district :: "tpcc_cfg \<Rightarrow> u64 \<Rightarrow> loader_state \<Rightarrow>
    ((D_key, D_val) ostore \<times> loader_state) option" where
  "load_district cfg seed st = do {
     (s, kvmap) \<leftarrow> for_each (\<lambda>w_i. for_each (\<lambda>d_i (s, kvmap). do {
         (v, s) \<leftarrow> district_row s;
         Some (s, emplace kvmap (D_key (word_of_nat w_i) (word_of_nat d_i)) v)
       }) [1..<Suc (num_district_per_warehouse cfg)]) [1..<Suc (warehouse_num cfg)] (set_seed0 seed, []);
     Some (kvmap, st)
   }"

definition customer_row ::
  "nat \<Rightarrow> u64 \<times> u32 \<Rightarrow> (C_val \<times> byte list \<times> byte list \<times> u64 \<times> u32) option" where
  "customer_row c_i st = do {
     let (s, tl_hack) = st;
     (discount, s) \<leftarrow> RandomNumber s 1 5000;
     (p, s) \<leftarrow> RandomNumber s 1 100;
     let credit = (if sint p \<le> 10 then ''BC'' else ''GC'');
     (last_name, s) \<leftarrow>
       (if c_i \<le> 1000 then do { n \<leftarrow> GetCustomerLastName (int c_i - 1); Some (n, s) }
        else GetNonUniformCustomerLastNameLoad s);
     (first_name, s) \<leftarrow> random_str_of s 8 16;
     (street_1, s) \<leftarrow> random_str_of s 10 20;
     (street_2, s) \<leftarrow> random_str_of s 10 20;
     (city, s) \<leftarrow> random_str_of s 10 20;
     (state, s) \<leftarrow> RandomStr s 3;
     let (zip, s) = RandomNStr s 4;
     let (phone, s) = RandomNStr s 16;
     let (since, tl_hack) = GetCurrentTimeMillis tl_hack;
     (data, s) \<leftarrow> random_str_of s 300 500;
     Some (\<lparr>c_discount = div_then_float discount 10000, c_credit_lim = 50000, c_balance = -10,
            c_ytd_payment = 10, c_payment_cnt = 1, c_delivery_cnt = 0, c_since = since,
            c_credit = var_assign 2 (bytes_of credit), c_last = var_assign 16 last_name,
            c_first = var_assign 16 first_name, c_street_1 = var_assign 20 street_1,
            c_street_2 = var_assign 20 street_2, c_city = var_assign 20 city,
            c_state = var_assign 2 state, c_zip = var_assign 9 (zip @ bytes_of ''11111''),
            c_phone = var_assign 16 phone, c_middle = var_assign 2 (bytes_of ''OE''),
            c_data = var_assign 500 data\<rparr>, last_name, first_name, s, tl_hack)
   }"

definition load_customer :: "tpcc_cfg \<Rightarrow> u64 \<Rightarrow> loader_state \<Rightarrow>
    ((C_key, C_val) ostore \<times> loader_state) option" where
  "load_customer cfg seed st = do {
     let st = st\<lparr>temp_customer_index_map := []\<rparr>;
     (s, kvmap, st) \<leftarrow> for_each (\<lambda>w_i. for_each (\<lambda>d_i. for_each (\<lambda>c_i (s, kvmap, st). do {
         (v, last_name, first_name, s, tl_hack) \<leftarrow> customer_row c_i (s, ld_tl_hack st);
         let k = C_key (word_of_nat c_i) (word_of_nat d_i) (word_of_nat w_i);
         let name_index_key = CustomerNameIndexKey (word_of_nat w_i) (word_of_nat d_i)
           (var_assign 16 last_name) (var_assign 16 first_name);
         let st = st\<lparr>ld_tl_hack := tl_hack, temp_customer_index_map :=
           emplace_by CustomerNameIndexKey_lt (temp_customer_index_map st) name_index_key
             \<lparr>ci_c_id = word_of_nat c_i\<rparr>\<rparr>;
         Some (s, emplace kvmap k v, st)
       }) [1..<Suc (unat num_customer_per_district)]) [1..<Suc (num_district_per_warehouse cfg)])
       [1..<Suc (warehouse_num cfg)] (set_seed0 seed, [], st);
     Some (kvmap, st)
   }"

definition load_customer_index :: "u64 \<Rightarrow> loader_state \<Rightarrow>
    ((CustomerNameIndexKey \<times> CustomerNameIndexVal) list \<times> loader_state) option" where
  "load_customer_index seed st = do {
     assertO (0 < length (temp_customer_index_map st));
     kvmap \<leftarrow> for_each (\<lambda>(k, v) kvmap. Some (emplace_by CustomerNameIndexKey_lt kvmap k v))
       (temp_customer_index_map st) [];
     Some (kvmap, st\<lparr>temp_customer_index_map := []\<rparr>)
   }"

definition load_history :: "tpcc_cfg \<Rightarrow> u64 \<Rightarrow> loader_state \<Rightarrow>
    ((H_key, H_val) ostore \<times> loader_state) option" where
  "load_history cfg seed st = do {
     (s, kvmap) \<leftarrow> for_each (\<lambda>w_i. for_each (\<lambda>d_i (s, kvmap). do {
         (ts, s, kvmap) \<leftarrow> for_each (\<lambda>c_i (ts, s, kvmap). do {
             let ts = ts + 1;
             (data, s) \<leftarrow> random_str_of s 10 24;
             let h_k = H_key (word_of_nat w_i) (word_of_nat d_i) (word_of_nat w_i) (word_of_nat d_i)
               (word_of_nat c_i) ts;
             Some (ts, s, emplace kvmap h_k \<lparr>h_amount = 10, h_data = var_assign 24 data\<rparr>)
           }) [1..<Suc (unat num_customer_per_district)] (0, s, kvmap);
         Some (s, kvmap)
       }) [1..<Suc (num_district_per_warehouse cfg)]) [1..<Suc (warehouse_num cfg)] (set_seed0 seed, []);
     Some (kvmap, st)
   }"

text \<open>The data string of items and stock: one in ten contains \<open>ORIGINAL\<close>.\<close>

definition original_data :: "u64 \<Rightarrow> (byte list \<times> u64) option" where
  "original_data s = do {
     (len, s) \<leftarrow> RandomNumber s 26 50;
     (p, s) \<leftarrow> RandomNumber s 1 100;
     if sint p > 10 then do { (data, s) \<leftarrow> RandomStr s (unat len); Some (var_assign 50 data, s) }
     else do {
       (startOriginal, s) \<leftarrow> RandomNumber s 2 (len - 8);
       (x, s) \<leftarrow> RandomStr s (unat (startOriginal + 1));
       (y, s) \<leftarrow> RandomStr s (unat (len - startOriginal - 7));
       Some (var_assign 50 (x @ bytes_of ''ORIGINAL'' @ y), s)
     }
   }"

definition item_row :: "u64 \<Rightarrow> (I_val \<times> u64) option" where
  "item_row s = do {
     (name, s) \<leftarrow> random_str_of s 14 24;
     (price, s) \<leftarrow> RandomNumber s 100 10000;
     (data, s) \<leftarrow> original_data s;
     (im_id, s) \<leftarrow> RandomNumber s 1 10000;
     Some (\<lparr>i_price = float_then_div price 100, i_name = var_assign 24 name, i_data = data,
            i_im_id = im_id\<rparr>, s)
   }"

definition load_item :: "u64 \<Rightarrow> loader_state \<Rightarrow> ((I_key, I_val) ostore \<times> loader_state) option" where
  "load_item seed st = do {
     (s, kvmap) \<leftarrow> for_each (\<lambda>i (s, kvmap). do {
         (v, s) \<leftarrow> item_row s;
         Some (s, emplace kvmap (I_key (word_of_nat i)) v)
       }) [1..<Suc (unat num_item)] (set_seed0 seed, []);
     Some (kvmap, st)
   }"

definition stock_row :: "u64 \<Rightarrow> (S_val \<times> u64) option" where
  "stock_row s = do {
     (quantity, s) \<leftarrow> RandomNumber s 10 100;
     Some (\<lparr>s_quantity = quantity, s_ytd = 0, s_order_cnt = 0, s_remote_cnt = 0\<rparr>, s)
   }"

definition load_stock :: "tpcc_cfg \<Rightarrow> u64 \<Rightarrow> loader_state \<Rightarrow>
    ((S_key, S_val) ostore \<times> loader_state) option" where
  "load_stock cfg seed st = do {
     (s, kvmap) \<leftarrow> for_each (\<lambda>w_i. for_each (\<lambda>i_i (s, kvmap). do {
         (v, s) \<leftarrow> stock_row s;
         Some (s, emplace kvmap (S_key (word_of_nat w_i) (word_of_nat i_i)) v)
       }) [1..<Suc (unat num_item)]) [1..<Suc (warehouse_num cfg)] (set_seed0 seed, []);
     Some (kvmap, st)
   }"

definition load_stock_data :: "tpcc_cfg \<Rightarrow> u64 \<Rightarrow> loader_state \<Rightarrow>
    ((S_Data_key, S_Data_val) ostore \<times> loader_state) option" where
  "load_stock_data cfg seed st = do {
     (s, kvmap) \<leftarrow> for_each (\<lambda>w_i. for_each (\<lambda>i_i (s, kvmap). do {
         (data, s) \<leftarrow> original_data s;
         (dist, s) \<leftarrow> for_each (\<lambda>j (dist, s). do {
             (x, s) \<leftarrow> RandomStr s 24;
             Some (dist @ [var_assign 24 x], s)
           }) [0..<10] ([], s);
         Some (s, emplace kvmap (S_Data_key (word_of_nat w_i) (word_of_nat i_i))
           \<lparr>s_data = data, s_dist = dist\<rparr>)
       }) [1..<Suc (unat num_item)]) [1..<Suc (warehouse_num cfg)] (set_seed0 seed, []);
     Some (kvmap, st)
   }"

section \<open>Orders\<close>

definition order_line_row :: "nat \<Rightarrow> nat \<Rightarrow> u32 \<Rightarrow> u64 \<Rightarrow> (OL_val \<times> u64) option" where
  "order_line_row w_i o_i entry_d s = do {
     (item, s) \<leftarrow> RandomNumber s 1 100000;
     (delivery_d, amount, s) \<leftarrow>
       (if o_i < 2101 then Some (entry_d, 0, s)
        else do {
          (a, s) \<leftarrow> RandomNumber s 1 999999;
          Some (0, div_then_float a 100, s)
        });
     Some (\<lparr>ol_i_id = item, ol_delivery_d = delivery_d, ol_amount = amount,
            ol_supply_w_id = ucast (word_of_nat w_i :: u16), ol_quantity = 5\<rparr>, s)
   }"

definition order_row :: "u32 list \<Rightarrow> nat \<Rightarrow> u32 \<Rightarrow> u64 \<Rightarrow> (O_val \<times> u64) option" where
  "order_row c_ids o_i ts s = do {
     c_id \<leftarrow> vec_get c_ids (o_i - 1);
     (carrier, s) \<leftarrow> (if o_i < 2101 then RandomNumber s 1 10 else Some (0, s));
     (cnt, s) \<leftarrow> RandomNumber s 5 15;
     Some (\<lparr>o_c_id = c_id, o_carrier_id = carrier, o_ol_cnt = ucast cnt, o_all_local = True,
            o_entry_d = ts\<rparr>, s)
   }"

text \<open>One order with its index entry, its new-order record and its lines.\<close>

definition load_one_order ::
  "u32 list \<Rightarrow> nat \<Rightarrow> nat \<Rightarrow> nat \<Rightarrow> u64 \<times> u32 \<times> (O_key, O_val) ostore \<times> loader_state \<Rightarrow>
   (u64 \<times> u32 \<times> (O_key, O_val) ostore \<times> loader_state) option" where
  "load_one_order c_ids w_i d_i o_i x = do {
     let (s, ts, kvmap, st) = x;
     let ts = ts + 1;
     let k_o = O_key (word_of_nat w_i) (word_of_nat d_i) (word_of_nat o_i);
     (v_o, s) \<leftarrow> order_row c_ids o_i ts s;
     let kvmap = emplace kvmap k_o v_o;
     let order_index_key = OrderCidIndexKey (word_of_nat w_i) (word_of_nat d_i) (ucast (o_c_id v_o))
       (word_of_nat o_i);
     let st = st\<lparr>temp_order_index_map := emplace (temp_order_index_map st) order_index_key \<lparr>oc_dummy = 0\<rparr>\<rparr>;
     let st = (if 2101 \<le> o_i
       then st\<lparr>temp_no_map := emplace (temp_no_map st)
              (NO_key (word_of_nat w_i) (word_of_nat d_i) (word_of_nat o_i))
              \<lparr>no_dummy = var_assign 2 (bytes_of ''a'')\<rparr>\<rparr>
       else st);
     (s, ol) \<leftarrow> for_each (\<lambda>l_i (s, ol). do {
         (v_ol, s) \<leftarrow> order_line_row w_i o_i (o_entry_d v_o) s;
         Some (s, emplace ol (OL_key (word_of_nat w_i) (word_of_nat d_i) (word_of_nat o_i) (word_of_nat l_i)) v_ol)
       }) [1..<Suc (unat (o_ol_cnt v_o))] (s, temp_ol_map st);
     Some (s, ts, kvmap, st\<lparr>temp_ol_map := ol\<rparr>)
   }"

definition load_order :: "(u32 list \<Rightarrow> u32 list) \<Rightarrow> tpcc_cfg \<Rightarrow> u64 \<Rightarrow> loader_state \<Rightarrow>
    ((O_key, O_val) ostore \<times> loader_state) option" where
  "load_order shuffle cfg seed st = do {
     let st = st\<lparr>temp_no_map := [], temp_ol_map := [], temp_order_index_map := []\<rparr>;
     (s, ts, kvmap, st) \<leftarrow> for_each (\<lambda>w_i. for_each (\<lambda>d_i x. do {
         let c_ids = shuffle (map word_of_nat [1..<Suc (unat num_customer_per_district)]);
         for_each (load_one_order c_ids w_i d_i) [1..<Suc (unat num_customer_per_district)] x
       }) [1..<Suc (num_district_per_warehouse cfg)]) [1..<Suc (warehouse_num cfg)]
       (set_seed0 seed, 0, [], st);
     Some (kvmap, st)
   }"

definition load_new_order :: "u64 \<Rightarrow> loader_state \<Rightarrow>
    ((NO_key, NO_val) ostore \<times> loader_state) option" where
  "load_new_order seed st = do {
     assertO (temp_no_map st \<noteq> []);
     kvmap \<leftarrow> for_each (\<lambda>(k, v) kvmap. Some (emplace kvmap k v)) (temp_no_map st) [];
     Some (kvmap, st\<lparr>temp_no_map := []\<rparr>)
   }"

definition load_online_order :: "u64 \<Rightarrow> loader_state \<Rightarrow>
    ((OL_key, OL_val) ostore \<times> loader_state) option" where
  "load_online_order seed st = do {
     assertO (length (temp_ol_map st) > 3000);
     kvmap \<leftarrow> for_each (\<lambda>(k, v) kvmap. Some (emplace kvmap k v)) (temp_ol_map st) [];
     Some (kvmap, st\<lparr>temp_ol_map := []\<rparr>)
   }"

definition load_order_index :: "u64 \<Rightarrow> loader_state \<Rightarrow>
    ((OrderCidIndexKey, OrderCidIndexVal) ostore \<times> loader_state) option" where
  "load_order_index seed st = do {
     assertO (length (temp_order_index_map st) > 0);
     kvmap \<leftarrow> for_each (\<lambda>(k, v) kvmap. Some (emplace kvmap k v)) (temp_order_index_map st) [];
     Some (kvmap, st\<lparr>temp_order_index_map := []\<rparr>)
   }"

section \<open>Bulk load into an index\<close>

text \<open>
  The map is inserted element by element into a new index; an insert that does not return true
  stops the program (\<open>INVARIANT(res)\<close>).
\<close>

definition insert_all ::
  "('i \<Rightarrow> 'k \<Rightarrow> 'v \<Rightarrow> fault + 'i \<times> bool) \<Rightarrow> ('k \<times> 'v) list \<Rightarrow> 'i \<Rightarrow> 'i option" where
  "insert_all ins kvmap table =
     for_each (\<lambda>(k, v) table. case ins table k v of
         Inr (table, res) \<Rightarrow> if res then Some table else None
       | Inl e \<Rightarrow> None) kvmap table"

definition load_masstree_kv_data ::
  "(int \<Rightarrow> 'i) \<Rightarrow> ('i \<Rightarrow> 'k \<Rightarrow> 'v \<Rightarrow> fault + 'i \<times> bool) \<Rightarrow> int \<Rightarrow>
   (u64 \<Rightarrow> loader_state \<Rightarrow> (('k \<times> 'v) list \<times> loader_state) option) \<Rightarrow> u64 \<Rightarrow> loader_state \<Rightarrow>
   ('i \<times> loader_state) option" where
  "load_masstree_kv_data new_table ins cxl_percentage load seed st = do {
     (kvmap, st) \<leftarrow> load seed st;
     table \<leftarrow> insert_all ins kvmap (new_table cxl_percentage);
     Some (table, st)
   }"

definition load_wormhole_kv_data ::
  "(int \<Rightarrow> 's) \<Rightarrow> ('s, 'r, 'v) wh_api \<Rightarrow> ('k \<Rightarrow> byte list) \<Rightarrow> nat \<Rightarrow>
   (u64 \<Rightarrow> loader_state \<Rightarrow> (('k \<times> 'v) list \<times> loader_state) option) \<Rightarrow> u64 \<Rightarrow> loader_state \<Rightarrow>
   (('s, 'r) wormhole_kv \<times> loader_state) option" where
  "load_wormhole_kv_data create q enc worker_num load seed st = do {
     (kvmap, st) \<leftarrow> load seed st;
     table \<leftarrow> (case WormholeKV_worker_enter q (WormholeKV_new create worker_num 0) 0 of
                 Inr t \<Rightarrow> Some t | Inl e \<Rightarrow> None);
     table \<leftarrow> insert_all (\<lambda>t k v. WormholeKV_insert q enc t 0 k v) kvmap table;
     table \<leftarrow> (case WormholeKV_worker_exit q table 0 of Inr t \<Rightarrow> Some t | Inl e \<Rightarrow> None);
     Some (table, st)
   }"

definition load_art_kv_data ::
  "(int \<Rightarrow> 's) \<Rightarrow> ('s \<Rightarrow> 'k \<Rightarrow> 'v \<Rightarrow> 's \<times> bool) \<Rightarrow> int \<Rightarrow>
   (u64 \<Rightarrow> loader_state \<Rightarrow> (('k \<times> 'v) list \<times> loader_state) option) \<Rightarrow> u64 \<Rightarrow> loader_state \<Rightarrow>
   ('s \<times> loader_state) option" where
  "load_art_kv_data create ins cxl_percentage load seed st = do {
     (kvmap, st) \<leftarrow> load seed st;
     table \<leftarrow> insert_all (\<lambda>t k v. Inr (ins t k v)) kvmap (ARTKV_new create cxl_percentage);
     Some (table, st)
   }"

section \<open>The whole database\<close>

text \<open>The bookkeeping vectors that \<open>run_tpcc\<close> fills before it loads the tables.\<close>

definition hack_pending :: "tpcc_cfg \<Rightarrow> u64 list list" where
  "hack_pending cfg = replicate (warehouse_num cfg) (replicate (num_district_per_warehouse cfg) 3000)"

definition hack_latest :: "tpcc_cfg \<Rightarrow> u64 list list list" where
  "hack_latest cfg = replicate (warehouse_num cfg) (replicate (num_district_per_warehouse cfg)
     (replicate (unat num_customer_per_district) 3000))"

text \<open>
  \<open>prepare_kvs\<close>, with the ordered store for the index of each table, as \<open>MasstreeKV\<close> is shown
  to be one.
\<close>

definition prepare_kvs :: "(u32 list \<Rightarrow> u32 list) \<Rightarrow> int \<Rightarrow> tpcc_cfg \<Rightarrow> loader_state \<Rightarrow>
    (tpcc_db \<times> loader_state) option" where
  "prepare_kvs shuffle cxl cfg st = do {
     (t_w, st) \<leftarrow> load_masstree_kv_data (\<lambda>_. os_empty) os_put cxl (load_warehouse cfg) 9394 st;
     (t_d, st) \<leftarrow> load_masstree_kv_data (\<lambda>_. os_empty) os_put cxl (load_district cfg) 129856349 st;
     (t_c, st) \<leftarrow> load_masstree_kv_data (\<lambda>_. os_empty) os_put cxl (load_customer cfg) 923587856425 st;
     (t_h, st) \<leftarrow> load_masstree_kv_data (\<lambda>_. os_empty) os_put cxl (load_history cfg) 923587856425 st;
     (t_i, st) \<leftarrow> load_masstree_kv_data (\<lambda>_. os_empty) os_put cxl load_item 235443 st;
     (t_s, st) \<leftarrow> load_masstree_kv_data (\<lambda>_. os_empty) os_put cxl (load_stock cfg) 89785943 st;
     (t_o, st) \<leftarrow> load_masstree_kv_data (\<lambda>_. os_empty) os_put cxl (load_order shuffle cfg) 2343352 st;
     (t_no, st) \<leftarrow> load_masstree_kv_data (\<lambda>_. os_empty) os_put cxl load_new_order 2343352 st;
     (t_ol, st) \<leftarrow> load_masstree_kv_data (\<lambda>_. os_empty) os_put cxl load_online_order 2343352 st;
     Some (\<lparr>table_warehouse = t_w, table_district = t_d, table_customer = t_c, table_history = t_h,
            table_item = t_i, table_stock = t_s, table_order = t_o, table_new_order = t_no,
            table_order_line = t_ol, pending_new_order_per_dis = hack_pending cfg,
            latest_order_id_per_customer = hack_latest cfg\<rparr>, st)
   }"

end
