(* ===== verification/TpccCorrect.thy ===== *)
theory TpccCorrect
  imports TpccInvariant
begin

text \<open>
  What the five TPC-C transactions do: each returns for every seed, keeps the invariant and has
  the effect the benchmark means it to have; and the invariant of all reachable databases.
\<close>

section \<open>New order\<close>

definition counters_below :: "tpcc_cfg \<Rightarrow> nat \<Rightarrow> tpcc_db \<Rightarrow> bool" where
  "counters_below cfg B db \<longleftrightarrow> (\<forall>W D. wh_ok cfg W \<and> di_ok cfg D \<longrightarrow> unat (next_o_id db W D) \<le> B)"

lemma district_present:
  "tpcc_inv cfg db \<Longrightarrow> wh_ok cfg W \<Longrightarrow> di_ok cfg D \<Longrightarrow>
   \<exists>v. os_get (table_district db) (D_key W D) = Some v \<and> next_o_id db W D = d_next_o_id v"
  unfolding tpcc_inv_def districts_ok_def next_o_id_def
  by (metis option.exhaust option.simps(5))

lemma unat_neq_max: "unat (w :: u32) < 4294967295 \<Longrightarrow> w \<noteq> - 1"
  by (auto simp: unsigned_minus_1_eq_mask mask_eq_exp_minus_1)

lemma ucast_u64_u32 [simp]: "ucast (ucast (x :: u32) :: u64) = x"
  by (rule bit_eqI) (auto simp: bit_simps dest: bit_imp_le_length)

text \<open>Read back from the bookkeeping vectors: the newest order of a district and of a customer.\<close>

definition pending_of :: "tpcc_db \<Rightarrow> u32 \<Rightarrow> u32 \<Rightarrow> u32" where
  "pending_of db w d = ucast (pending_new_order_per_dis db ! unat (w - 1) ! unat (d - 1))"

definition latest_of :: "tpcc_db \<Rightarrow> u32 \<Rightarrow> u32 \<Rightarrow> u32 \<Rightarrow> u32" where
  "latest_of db w d c = ucast (latest_order_id_per_customer db ! unat (w - 1) ! unat (d - 1) ! unat (c - 1))"

text \<open>
  The new orders the population leaves undelivered: all but the newest one of every district stay
  in the table, and the bookkeeping never points to them.
\<close>

definition backlog_ok :: "tpcc_cfg \<Rightarrow> tpcc_db \<Rightarrow> bool" where
  "backlog_ok cfg db \<longleftrightarrow> (\<forall>w d. warehouse_in cfg w \<and> district_in cfg d \<longrightarrow>
     3000 \<le> pending_of db w d \<and> 3000 \<le> next_o_id db (ucast w) (ucast d) \<and>
     (\<forall>oid. 2101 \<le> oid \<and> oid < 3000 \<longrightarrow>
        os_get (table_new_order db) (NO_key (ucast w) (ucast d) oid) \<noteq> None))"

text \<open>
  What a committed new order is: the next order number of the district, an order that did not
  exist with its new-order record and its 5 to 15 lines, and nothing else besides the stock.
\<close>

definition order_added :: "u32 \<Rightarrow> u32 \<Rightarrow> tpcc_db \<Rightarrow> tpcc_db \<Rightarrow> bool" where
  "order_added w d db db' \<longleftrightarrow>
     (let W = ucast w :: u16; D = ucast d :: byte; oid = next_o_id db W D + 1 in
      (\<exists>v vn. os_get (table_order db) (O_key W D oid) = None \<and> 5 \<le> o_ol_cnt v \<and> o_ol_cnt v \<le> 15 \<and>
        o_carrier_id v = 0 \<and> 1 \<le> o_c_id v \<and> o_c_id v \<le> 3000 \<and>
        table_order db' = os_insert (table_order db) (O_key W D oid) v \<and>
        table_new_order db' = os_insert (table_new_order db) (NO_key W D oid) vn \<and>
        (\<forall>n. os_get (table_order_line db') (OL_key W D oid n) \<noteq> None \<longleftrightarrow> 1 \<le> n \<and> n \<le> o_ol_cnt v) \<and>
        latest_of db' w d (o_c_id v) = oid) \<and>
      (\<forall>W' D' oid' n. (W', D', oid') \<noteq> (W, D, oid) \<longrightarrow>
         os_get (table_order_line db') (OL_key W' D' oid' n) = os_get (table_order_line db) (OL_key W' D' oid' n)) \<and>
      pending_of db' w d = oid \<and> next_o_id db' W D = oid \<and>
      (\<forall>w' d'. (w', d') \<noteq> (w, d) \<longrightarrow> pending_of db' w' d' = pending_of db w' d') \<and>
      (\<forall>W' D'. (W', D') \<noteq> (W, D) \<longrightarrow> next_o_id db' W' D' = next_o_id db W' D') \<and>
      table_warehouse db' = table_warehouse db \<and> table_customer db' = table_customer db \<and>
      table_history db' = table_history db \<and> table_item db' = table_item db)"

lemma new_order_full:
  assumes cfg: "cfg_ok cfg" and w: "warehouse_in cfg w" and inv: "tpcc_inv cfg db"
    and B: "counters_below cfg B db" "B < 4294967295"
  shows "\<exists>total s' db' d. txn_new_order cfg J w (s, h, db) = Some (Some total, s', h + 1, db') \<and>
    tpcc_inv cfg db' \<and> counters_below cfg (B + 1) db' \<and> district_in cfg d \<and> order_added w d db db'"
proof -
  let ?W = "ucast w :: u16"
  have W: "wh_ok cfg ?W" by (rule wh_ok_ucast [OF cfg w])
  obtain d where d: "RandomNumber s 1 (word_of_nat (num_district_per_warehouse cfg)) = Some (d, fr_step s)"
    "1 \<le> unat d" "unat d \<le> num_district_per_warehouse cfg"
    using RandomNumber_1_n [of "num_district_per_warehouse cfg" s] cfg by (auto simp: cfg_ok_def)
  then have din: "district_in cfg d" by (simp add: district_in_def)
  let ?D = "ucast d :: byte"
  have D: "di_ok cfg ?D" by (rule di_ok_ucast [OF cfg din])
  obtain c s1 where c: "GetCustomerId (fr_step s) = Some (c, s1)" "1 \<le> c" "c \<le> 3000"
    using GetCustomerId_range by blast
  obtain n where n: "RandomNumber s1 5 15 = Some (n, fr_step s1)" "5 \<le> n" "n \<le> 15"
    by (rule RandomNumber_const [of 5 15 s1]) simp_all
  then have un: "5 \<le> unat n" "unat n \<le> 15" by (simp_all add: word_le_nat_alt)
  obtain items al s2 where it: "new_order_items cfg w (unat n) (fr_step s1) = Some (items, al, s2)"
    "length items = unat n" "\<forall>l\<in>set items. line_ok cfg l"
    using new_order_items_ok [OF cfg w] by blast
  define vd where "vd = kv_get (table_district db) (D_key ?W ?D) (junk_d J)"
  define v where "v = vd\<lparr>d_next_o_id := d_next_o_id vd + 1\<rparr>"
  have nx: "d_next_o_id vd = next_o_id db ?W ?D"
    using district_present [OF inv W D] by (auto simp: vd_def)
  let ?oid = "next_o_id db ?W ?D + 1"
  have oid: "d_next_o_id v = ?oid" by (simp add: v_def nx)
  have "unat (next_o_id db ?W ?D) \<le> B" using B(1) W D by (simp add: counters_below_def)
  then have max: "next_o_id db ?W ?D \<noteq> - 1" using B(2) by (intro unat_neq_max) simp
  define vo where "vo = \<lparr>o_c_id = c, o_carrier_id = 0, o_ol_cnt = ucast n, o_all_local = al, o_entry_d = h\<rparr>"
  define vn where "vn = \<lparr>no_dummy = var_assign 2 (bytes_of ''no'')\<rparr>"
  have "hack_ok cfg db" using inv by (simp add: tpcc_inv_def)
  from new_order_open_ok [OF this w din c(2,3) v_def [unfolded vd_def], of n al h]
  obtain pend latest where
    op: "new_order_open J w d c n al h db = Some (v, ?oid, db\<lparr>
       table_district := os_insert (table_district db) (D_key ?W ?D) v,
       table_new_order := os_insert (table_new_order db) (NO_key ?W ?D ?oid) vn,
       pending_new_order_per_dis := pend, latest_order_id_per_customer := latest,
       table_order := os_insert (table_order db) (O_key ?W ?D ?oid) vo\<rparr>)" (is "_ = Some (_, _, ?db1)")
    and hack: "hack_ok cfg (db\<lparr>pending_new_order_per_dis := pend, latest_order_id_per_customer := latest\<rparr>)"
    and pend: "pend ! unat (w - 1) ! unat (d - 1) = ucast ?oid"
      "latest ! unat (w - 1) ! unat (d - 1) ! unat (c - 1) = ucast ?oid"
    and pend': "\<forall>i j. (i, j) \<noteq> (unat (w - 1), unat (d - 1)) \<longrightarrow>
      pend ! i ! j = pending_new_order_per_dis db ! i ! j"
    unfolding oid vn_def [symmetric] vo_def [symmetric] by blast
  have "items_ok ?db1" "stock_ok cfg ?db1" "os_ok (table_stock ?db1)" "os_ok (table_order_line ?db1)"
    using inv by (simp_all add: tpcc_inv_def items_ok_def stock_ok_def tables_ok_def)
  from new_order_lines_ok [OF cfg this(1,2) it(3) this(3,4), of J w d ?oid 1 0]
  obtain amt st ol where
    li: "new_order_lines J w d ?oid 1 items 0 ?db1 = (True, amt, ?db1\<lparr>table_stock := st, table_order_line := ol\<rparr>)"
    "os_ok st" "os_ok ol" "stock_ok cfg (?db1\<lparr>table_stock := st\<rparr>)"
    "\<forall>k. k \<notin> line_keys ?W ?D ?oid 1 (unat n) \<longrightarrow> os_get ol k = os_get (table_order_line ?db1) k"
    "\<forall>k\<in>line_keys ?W ?D ?oid 1 (unat n). os_get ol k \<noteq> None"
    unfolding it(2) by blast
  let ?db' = "?db1\<lparr>table_stock := st, table_order_line := ol\<rparr>"
  have cnt: "unat (o_ol_cnt vo) = unat n" using un by (simp add: vo_def unat_ucast8)
  have I: "tpcc_inv cfg ?db'"
  proof (rule inv_add_order [OF inv W D max refl oid hack li(2) _ li(3) _ cnt])
    show "stock_ok cfg (db\<lparr>table_stock := st\<rparr>)" using li(4) by (simp add: stock_ok_def)
    show "\<forall>k. k \<notin> line_keys ?W ?D ?oid 1 (unat n) \<longrightarrow> os_get ol k = os_get (table_order_line db) k"
      using li(5) by simp
  qed (use un li(6) in simp_all)
  have nx': "next_o_id ?db' W' D' = (if W' = ?W \<and> D' = ?D then ?oid else next_o_id db W' D')" for W' D'
    by (simp add: next_o_id_def oid)
  have C: "counters_below cfg (B + 1) ?db'"
    using B(1) unat_inc_u32 [OF max] by (auto simp: counters_below_def nx' le_SucI)
  obtain total where T: "txn_new_order cfg J w (s, h, db) = Some (Some total, s2, h + 1, ?db')"
    using d(1) c(1) n(1) it(1) op li(1) by (simp add: txn_new_order_def Let_def GetCurrentTimeMillis_def)
  have F: "os_get (table_order db) (O_key ?W ?D ?oid) = None"
    using inv W D unat_inc_u32 [OF max] by (auto simp: tpcc_inv_def ids_bounded_def word_less_nat_alt)
  have L: "5 \<le> o_ol_cnt vo \<and> o_ol_cnt vo \<le> 15"
    using un cnt by (simp add: word_le_nat_alt)
  have lines: "os_get ol (OL_key ?W ?D ?oid m) \<noteq> None \<longleftrightarrow> 1 \<le> m \<and> m \<le> o_ol_cnt vo" for m
  proof -
    have "lines_ok cfg ?db'" using I by (simp add: tpcc_inv_def)
    with W D show ?thesis by (simp add: lines_ok_def)
  qed
  have frame: "os_get ol (OL_key W' D' oid' m) = os_get (table_order_line db) (OL_key W' D' oid' m)"
    if "(W', D', oid') \<noteq> (?W, ?D, ?oid)" for W' D' oid' m
    using that li(5) line_keys_mem [of "unat n" W' D' oid' m ?W ?D ?oid] un by auto
  have vo: "o_c_id vo = c" "o_carrier_id vo = 0" by (simp_all add: vo_def)
  have other: "pending_of ?db' w' d' = pending_of db w' d'" if "(w', d') \<noteq> (w, d)" for w' d'
  proof -
    have "(unat (w' - 1), unat (d' - 1)) \<noteq> (unat (w - 1), unat (d - 1))"
      using that by (simp add: word_unat_eq_iff [symmetric])
    with pend' have "pend ! unat (w' - 1) ! unat (d' - 1) =
        pending_new_order_per_dis db ! unat (w' - 1) ! unat (d' - 1)" by blast
    then show ?thesis by (simp add: pending_of_def)
  qed
  have "order_added w d db ?db'"
    unfolding order_added_def Let_def
    using F L lines frame pend c(2,3) other
    by (auto simp: nx' pending_of_def latest_of_def vo intro!: exI [of _ vo])
  with I C T din show ?thesis by blast
qed

section \<open>Payment\<close>

text \<open>
  The invariant only depends on the tables it names, and on the district table only through the
  counters of the real districts.
\<close>

lemma inv_cong:
  assumes inv: "tpcc_inv cfg db" and "tables_ok db'"
    and "hack_ok cfg db'" "table_item db' = table_item db" "table_stock db' = table_stock db"
    and d: "\<And>W D. wh_ok cfg W \<Longrightarrow> di_ok cfg D \<Longrightarrow>
      os_get (table_district db') (D_key W D) \<noteq> None \<and> next_o_id db' W D = next_o_id db W D"
    and o: "\<And>W D oid. wh_ok cfg W \<Longrightarrow> di_ok cfg D \<Longrightarrow>
      map_option o_ol_cnt (os_get (table_order db') (O_key W D oid)) =
      map_option o_ol_cnt (os_get (table_order db) (O_key W D oid))"
    and n: "\<And>W D oid. wh_ok cfg W \<Longrightarrow> di_ok cfg D \<Longrightarrow>
      os_get (table_new_order db') (NO_key W D oid) \<noteq> None \<Longrightarrow>
      os_get (table_new_order db) (NO_key W D oid) \<noteq> None"
    and l: "\<And>k. os_get (table_order_line db') k \<noteq> None \<longleftrightarrow> os_get (table_order_line db) k \<noteq> None"
  shows "tpcc_inv cfg db'"
proof -
  have o': "os_get (table_order db') (O_key W D oid) = None \<longleftrightarrow>
      os_get (table_order db) (O_key W D oid) = None"
    if "wh_ok cfg W" "di_ok cfg D" for W D oid
    using o [OF that, of oid] by (metis map_option_is_None)
  have "ids_bounded cfg db'"
  proof -
    have "os_get (table_order db') (O_key W D oid) = None \<and>
        os_get (table_new_order db') (NO_key W D oid) = None \<and>
        (\<forall>m. os_get (table_order_line db') (OL_key W D oid m) = None)"
      if h: "wh_ok cfg W" "di_ok cfg D" "next_o_id db' W D < oid" for W D oid
    proof -
      have "next_o_id db W D < oid" using d [OF h(1,2)] h(3) by simp
      with inv h(1,2) have "os_get (table_order db) (O_key W D oid) = None"
        "os_get (table_new_order db) (NO_key W D oid) = None"
        "\<forall>m. os_get (table_order_line db) (OL_key W D oid m) = None"
        by (simp_all add: tpcc_inv_def ids_bounded_def)
      with o' [OF h(1,2)] n [OF h(1,2)] l show ?thesis by blast
    qed
    then show ?thesis by (simp add: ids_bounded_def)
  qed
  moreover have "lines_ok cfg db'"
  proof -
    have "os_get (table_order_line db') (OL_key W D oid m) \<noteq> None \<longleftrightarrow> 1 \<le> m \<and> m \<le> o_ol_cnt v"
      if h: "wh_ok cfg W" "di_ok cfg D" "os_get (table_order db') (O_key W D oid) = Some v" for W D oid v m
    proof -
      from o [OF h(1,2), of oid] h(3) obtain v' where
        "os_get (table_order db) (O_key W D oid) = Some v'" "o_ol_cnt v' = o_ol_cnt v"
        by (cases "os_get (table_order db) (O_key W D oid)") auto
      moreover have "lines_ok cfg db" using inv by (simp add: tpcc_inv_def)
      ultimately have "os_get (table_order_line db) (OL_key W D oid m) \<noteq> None \<longleftrightarrow> 1 \<le> m \<and> m \<le> o_ol_cnt v"
        using h(1,2) unfolding lines_ok_def by metis
      with l show ?thesis by simp
    qed
    then show ?thesis by (auto simp: lines_ok_def)
  qed
  moreover have "new_orders_ok cfg db'"
    using inv n o' by (simp add: tpcc_inv_def new_orders_ok_def)
  moreover have "items_ok db'" "stock_ok cfg db'" "districts_ok cfg db'"
    using inv assms(4,5) d by (simp_all add: tpcc_inv_def items_ok_def stock_ok_def districts_ok_def)
  ultimately show ?thesis using assms(2,3) by (simp add: tpcc_inv_def)
qed

lemma payment_apply_inv:
  assumes inv: "tpcc_inv cfg db"
  shows "tpcc_inv cfg (payment_apply J w d cw cd c ts amt db)"
    and "wh_ok cfg W \<Longrightarrow> di_ok cfg D \<Longrightarrow>
      next_o_id (payment_apply J w d cw cd c ts amt db) W D = next_o_id db W D"
proof -
  let ?db' = "payment_apply J w d cw cd c ts amt db"
  let ?k = "D_key (ucast w) (ucast d)"
  have dist: "table_district ?db' = os_insert (table_district db) ?k
      ((kv_get (table_district db) ?k (junk_d J))
        \<lparr>d_ytd := f32 (d_ytd (kv_get (table_district db) ?k (junk_d J)) + amt)\<rparr>)"
    by (simp add: payment_apply_def Let_def)
  have nx: "os_get (table_district ?db') (D_key W D) \<noteq> None \<and> next_o_id ?db' W D = next_o_id db W D"
    if "wh_ok cfg W" "di_ok cfg D" for W D
    using district_present [OF inv that] by (auto simp: next_o_id_def dist)
  show "tpcc_inv cfg ?db'"
  proof (rule inv_cong [OF inv _ _ _ _ nx])
    show "tables_ok ?db'" using inv by (simp add: tpcc_inv_def tables_ok_def payment_apply_def Let_def)
    show "hack_ok cfg ?db'" using inv by (simp add: tpcc_inv_def hack_ok_def payment_apply_def Let_def)
  qed (simp_all add: payment_apply_def Let_def)
  show "wh_ok cfg W \<Longrightarrow> di_ok cfg D \<Longrightarrow> next_o_id ?db' W D = next_o_id db W D" using nx by blast
qed

lemma payment_full:
  assumes cfg: "cfg_ok cfg" and w: "warehouse_in cfg w"
  shows "\<exists>s' d cw cd c cents. txn_payment cfg J w (s, h, db) =
      Some (s', h + 1, payment_apply J w d cw cd c h (f32 (f64 (of_nat (unat (cents :: u32)) / 100))) db) \<and>
    100 \<le> cents \<and> cents \<le> 500000 \<and>
    1 \<le> d \<and> d \<le> 10 \<and> warehouse_in cfg cw \<and> 1 \<le> cd \<and> cd \<le> 10 \<and> 1 \<le> c \<and> c \<le> 3000"
proof -
  obtain d where d: "RandomNumber s 1 10 = Some (d, fr_step s)" "1 \<le> d" "d \<le> 10"
    by (rule RandomNumber_const [of 1 10 s]) simp_all
  let ?s1 = "fr_step s"
  obtain home s2 where home: "(if warehouse_num cfg = 1 then Some (True, ?s1)
        else do { (p, s) \<leftarrow> RandomNumber ?s1 1 100; Some (sint p \<le> 85, s) }) = Some (home, s2)"
    "warehouse_num cfg = 1 \<Longrightarrow> home"
  proof (cases "warehouse_num cfg = 1")
    case True
    with that [of True ?s1] show ?thesis by simp
  next
    case False
    obtain p where "RandomNumber ?s1 1 100 = Some (p, fr_step ?s1)"
      by (rule RandomNumber_const [of 1 100 ?s1]) simp_all
    with False that [of "sint p \<le> 85" "fr_step ?s1"] show ?thesis by simp
  qed
  obtain cd cw s3 where cust: "(if home then Some (d, w, s2)
        else do {
          (cd, s) \<leftarrow> RandomNumber s2 1 10;
          (cw, s) \<leftarrow> pick_other_warehouse s (word_of_nat (warehouse_num cfg)) w;
          Some (cd, cw, s)
        }) = Some (cd, cw, s3)" "warehouse_in cfg cw" "1 \<le> cd" "cd \<le> 10"
  proof (cases home)
    case True
    with that [of d w s2] d w show ?thesis by simp
  next
    case False
    with home(2) have "warehouse_num cfg \<noteq> 1" by blast
    with cfg have "2 \<le> warehouse_num cfg" "warehouse_num cfg < 65536"
      by (auto simp: cfg_ok_def)
    moreover obtain cd where cd: "RandomNumber s2 1 10 = Some (cd, fr_step s2)" "1 \<le> cd" "cd \<le> 10"
      by (rule RandomNumber_const [of 1 10 s2]) simp_all
    ultimately obtain x s' where
      "pick_other_warehouse (fr_step s2) (word_of_nat (warehouse_num cfg)) w = Some (x, s')"
      "1 \<le> unat x" "unat x \<le> warehouse_num cfg"
      using pick_other_total [of "warehouse_num cfg" "fr_step s2" w] by blast
    with cd False that [of cd x s'] show ?thesis by (simp add: warehouse_in_def)
  qed
  obtain cents where cents: "RandomNumber s3 100 500000 = Some (cents, fr_step s3)"
    "100 \<le> cents" "cents \<le> 500000"
    by (rule RandomNumber_const [of 100 500000 s3]) simp_all
  obtain c s4 where c: "GetCustomerId (fr_step s3) = Some (c, s4)" "1 \<le> c" "c \<le> 3000"
    using GetCustomerId_range by blast
  have "txn_payment cfg J w (s, h, db) = Some (s4, h + 1,
      payment_apply J w d cw cd c h (f32 (f64 (of_nat (unat cents) / 100))) db)"
    using d(1) home(1) cust(1) cents(1) c(1)
    by (simp add: txn_payment_def Let_def GetCurrentTimeMillis_def del: of_nat_unat)
  with d cust c cents show ?thesis by blast
qed

section \<open>Delivery\<close>

lemma deliver_lines_effect:
  assumes "os_ok t" "os_ok kvs"
  shows "\<exists>tot t'. deliver_lines kvs acc h t = (tot, h + word_of_nat (length kvs), t') \<and> os_ok t' \<and>
    (\<forall>k. k \<notin> os_keys kvs \<longrightarrow> os_get t' k = os_get t k) \<and>
    (\<forall>k v. os_get kvs k = Some v \<longrightarrow> (\<exists>now. os_get t' k = Some (v\<lparr>ol_delivery_d := now\<rparr>)))"
  using assms
proof (induction kvs arbitrary: acc h t)
  case Nil
  then show ?case by (auto simp: os_keys_def)
next
  case (Cons x kvs)
  obtain k v where x: "x = (k, v)" by fastforce
  let ?t = "os_insert t k (v\<lparr>ol_delivery_d := h\<rparr>)"
  have ok: "os_ok ?t" "os_ok kvs" "k \<notin> os_keys kvs"
    using Cons.prems x by (auto simp: os_ok_Cons)
  from Cons.IH [OF ok(1,2), of "f32 (acc + ol_amount v)" "h + 1"] obtain tot t' where
    ih: "deliver_lines kvs (f32 (acc + ol_amount v)) (h + 1) ?t = (tot, h + 1 + word_of_nat (length kvs), t')"
      "os_ok t'" "\<forall>k'. k' \<notin> os_keys kvs \<longrightarrow> os_get t' k' = os_get ?t k'"
      "\<forall>k' v'. os_get kvs k' = Some v' \<longrightarrow> (\<exists>now. os_get t' k' = Some (v'\<lparr>ol_delivery_d := now\<rparr>))"
    by blast
  have "deliver_lines (x # kvs) acc h t = (tot, h + word_of_nat (length (x # kvs)), t')"
    using ih(1) by (simp add: x Let_def GetCurrentTimeMillis_def add.assoc)
  moreover have "os_get t' k = Some (v\<lparr>ol_delivery_d := h\<rparr>)"
    using ih(3) ok(3) by simp
  ultimately show ?case using ih x by (auto intro: exI [of _ h])
qed

lemma pending_access:
  assumes "tpcc_inv cfg db" "warehouse_in cfg w" "district_in cfg d"
  shows "vec_get (pending_new_order_per_dis db) (unat (w - 1)) =
      Some (pending_new_order_per_dis db ! unat (w - 1))"
    and "vec_get (pending_new_order_per_dis db ! unat (w - 1)) (unat (d - 1)) =
      Some (pending_new_order_per_dis db ! unat (w - 1) ! unat (d - 1))"
proof -
  have "w \<noteq> 0" "d \<noteq> 0" using assms(2,3) by (auto simp: warehouse_in_def district_in_def)
  then have "unat (w - 1) = unat w - 1" "unat (d - 1) = unat d - 1" by (simp_all add: unat_minus_one)
  moreover have "unat w - 1 < warehouse_num cfg" "unat d - 1 < num_district_per_warehouse cfg"
    using assms(2,3) by (auto simp: warehouse_in_def district_in_def)
  ultimately have "unat (w - 1) < warehouse_num cfg" "unat (d - 1) < num_district_per_warehouse cfg"
    by simp_all
  then show "vec_get (pending_new_order_per_dis db) (unat (w - 1)) =
      Some (pending_new_order_per_dis db ! unat (w - 1))"
    "vec_get (pending_new_order_per_dis db ! unat (w - 1)) (unat (d - 1)) =
      Some (pending_new_order_per_dis db ! unat (w - 1) ! unat (d - 1))"
    using assms(1) by (simp_all add: tpcc_inv_def hack_ok_def)
qed

text \<open>What one round of the delivery loop does when it finds a new order.\<close>

definition delivered_in ::
  "u16 \<Rightarrow> byte \<Rightarrow> u32 \<Rightarrow> u32 \<Rightarrow> tpcc_db \<Rightarrow> tpcc_db \<Rightarrow> bool" where
  "delivered_in W D oid carrier db db' \<longleftrightarrow>
     table_new_order db' = os_remove (table_new_order db) (NO_key W D oid) \<and>
     (\<exists>v. os_get (table_order db) (O_key W D oid) = Some v \<and>
        table_order db' = os_insert (table_order db) (O_key W D oid) (v\<lparr>o_carrier_id := carrier\<rparr>)) \<and>
     (\<forall>k. k \<notin> os_keys (os_scan (table_order_line db) (OL_key W D oid 0) 10) \<longrightarrow>
        os_get (table_order_line db') k = os_get (table_order_line db) k) \<and>
     (\<forall>k v. os_get (os_scan (table_order_line db) (OL_key W D oid 0) 10) k = Some v \<longrightarrow>
        (\<exists>now. os_get (table_order_line db') k = Some (v\<lparr>ol_delivery_d := now\<rparr>))) \<and>
     table_warehouse db' = table_warehouse db \<and> table_district db' = table_district db \<and>
     table_history db' = table_history db \<and> table_item db' = table_item db \<and>
     table_stock db' = table_stock db \<and>
     pending_new_order_per_dis db' = pending_new_order_per_dis db \<and>
     latest_order_id_per_customer db' = latest_order_id_per_customer db \<and> os_ok (table_order_line db') \<and>
     os_ok (table_customer db')"

lemma deliver_district_found:
  assumes "vec_get (pending_new_order_per_dis db) (unat (w - 1)) = Some p"
    and "vec_get p (unat (d - 1)) = Some x" and "ucast x = oid"
    and "os_get (table_new_order db) (NO_key (ucast w) (ucast d) oid) \<noteq> None"
    and "os_get (table_order db) (O_key (ucast w) (ucast d) oid) = Some vo"
    and "deliver_lines (os_scan (table_order_line db) (OL_key (ucast w) (ucast d) oid 0) 10) 0 h
      (table_order_line db) = (tot, h', t')"
  shows "deliver_district J w d carrier (h, db) = Some (True, h',
    db\<lparr>table_new_order := os_remove (table_new_order db) (NO_key (ucast w) (ucast d) oid),
      table_order := os_insert (table_order db) (O_key (ucast w) (ucast d) oid) (vo\<lparr>o_carrier_id := carrier\<rparr>),
      table_order_line := t',
      table_customer := os_insert (table_customer db) (C_key (ucast (o_c_id vo)) (ucast d) (ucast w))
        ((kv_get (table_customer db) (C_key (ucast (o_c_id vo)) (ucast d) (ucast w)) (junk_c J))
          \<lparr>c_balance := f32 (c_balance (kv_get (table_customer db)
              (C_key (ucast (o_c_id vo)) (ucast d) (ucast w)) (junk_c J)) + tot),
           c_delivery_cnt := c_delivery_cnt (kv_get (table_customer db)
              (C_key (ucast (o_c_id vo)) (ucast d) (ucast w)) (junk_c J)) + 1\<rparr>)\<rparr>)"
proof -
  have "(os_get (table_new_order db) (NO_key (ucast w) (ucast d) oid) = None) = False"
    using assms(4) by blast
  with assms(1-3,5,6) show ?thesis
    by (simp add: deliver_district_def delivery_scan_n_def Let_def del: not_None_eq)
qed

lemma deliver_district_ok:
  assumes cfg: "cfg_ok cfg" and w: "warehouse_in cfg w" and d: "district_in cfg d"
    and inv: "tpcc_inv cfg db"
  shows "\<exists>h' db'. deliver_district J w d carrier (h, db) = Some (True, h', db') \<and>
    (if os_get (table_new_order db) (NO_key (ucast w) (ucast d) (pending_of db w d)) = None
     then db' = db else delivered_in (ucast w) (ucast d) (pending_of db w d) carrier db db')"
proof -
  let ?W = "ucast w :: u16" and ?D = "ucast d :: byte" and ?oid = "pending_of db w d"
  have WD: "wh_ok cfg ?W" "di_ok cfg ?D"
    using cfg w d by (auto intro: wh_ok_ucast di_ok_ucast)
  note pend = pending_access [OF inv w d]
  show ?thesis
  proof (cases "os_get (table_new_order db) (NO_key ?W ?D ?oid) = None")
    case True
    then have "deliver_district J w d carrier (h, db) = Some (True, h, db)"
      using pend by (simp add: deliver_district_def pending_of_def)
    with True show ?thesis by simp
  next
    case False
    with inv WD have "os_get (table_order db) (O_key ?W ?D ?oid) \<noteq> None"
      unfolding tpcc_inv_def new_orders_ok_def by blast
    then obtain vo where vo: "os_get (table_order db) (O_key ?W ?D ?oid) = Some vo" by blast
    have ok: "os_ok (table_order_line db)" "os_ok (table_customer db)"
      using inv by (auto simp: tpcc_inv_def tables_ok_def)
    let ?kvs = "os_scan (table_order_line db) (OL_key ?W ?D ?oid 0) 10"
    obtain tot t' where dl: "deliver_lines ?kvs 0 h (table_order_line db) = (tot, h + word_of_nat (length ?kvs), t')"
      "os_ok t'" "\<forall>k. k \<notin> os_keys ?kvs \<longrightarrow> os_get t' k = os_get (table_order_line db) k"
      "\<forall>k v. os_get ?kvs k = Some v \<longrightarrow> (\<exists>now. os_get t' k = Some (v\<lparr>ol_delivery_d := now\<rparr>))"
      using deliver_lines_effect [OF ok(1) os_scan_sorted [OF ok(1)]] by blast
    let ?kc = "C_key (ucast (o_c_id vo)) ?D ?W"
    let ?vc = "kv_get (table_customer db) ?kc (junk_c J)"
    let ?db' = "db\<lparr>table_new_order := os_remove (table_new_order db) (NO_key ?W ?D ?oid),
      table_order := os_insert (table_order db) (O_key ?W ?D ?oid) (vo\<lparr>o_carrier_id := carrier\<rparr>),
      table_order_line := t',
      table_customer := os_insert (table_customer db) ?kc
        (?vc\<lparr>c_balance := f32 (c_balance ?vc + tot), c_delivery_cnt := c_delivery_cnt ?vc + 1\<rparr>)\<rparr>"
    have "deliver_district J w d carrier (h, db) = Some (True, h + word_of_nat (length ?kvs), ?db')"
      by (rule deliver_district_found [OF pend pending_of_def [symmetric] False vo dl(1)])
    moreover have "delivered_in ?W ?D ?oid carrier db ?db'"
      using vo dl(2-4) ok(2) by (simp add: delivered_in_def)
    ultimately show ?thesis using False by auto
  qed
qed

lemma delivered_inv:
  assumes inv: "tpcc_inv cfg db" and del: "delivered_in W D oid carrier db db'"
  shows "tpcc_inv cfg db'" and "next_o_id db' W' D' = next_o_id db W' D'"
proof -
  have nx: "next_o_id db' W' D' = next_o_id db W' D'" for W' D'
    using del by (simp add: delivered_in_def next_o_id_def)
  then show "next_o_id db' W' D' = next_o_id db W' D'" .
  have T: "tables_ok db" using inv by (simp add: tpcc_inv_def)
  obtain v where v: "os_get (table_order db) (O_key W D oid) = Some v"
    "table_order db' = os_insert (table_order db) (O_key W D oid) (v\<lparr>o_carrier_id := carrier\<rparr>)"
    using del by (auto simp: delivered_in_def)
  have lines: "os_get (table_order_line db') k \<noteq> None \<longleftrightarrow> os_get (table_order_line db) k \<noteq> None" for k
  proof (cases "os_get (os_scan (table_order_line db) (OL_key W D oid 0) 10) k")
    case None
    with del show ?thesis by (auto simp: delivered_in_def os_get_None)
  next
    case (Some x)
    then have "(k, x) \<in> set (os_scan (table_order_line db) (OL_key W D oid 0) 10)"
      using T by (simp add: tables_ok_def os_scan_sorted flip: os_get_in_set)
    then have "os_get (table_order_line db) k = Some x"
      using T os_scan_mem [of "table_order_line db" k x] by (simp add: tables_ok_def)
    moreover have "\<forall>k v. os_get (os_scan (table_order_line db) (OL_key W D oid 0) 10) k = Some v \<longrightarrow>
        (\<exists>now. os_get (table_order_line db') k = Some (v\<lparr>ol_delivery_d := now\<rparr>))"
      using del by (simp add: delivered_in_def)
    with Some obtain now where
      "os_get (table_order_line db') k = Some (x\<lparr>ol_delivery_d := now\<rparr>)" by blast
    ultimately show ?thesis by simp
  qed
  show "tpcc_inv cfg db'"
  proof (rule inv_cong [OF inv])
    show "tables_ok db'" using T del v(2) by (simp add: tables_ok_def delivered_in_def)
    show "hack_ok cfg db'" using inv del by (simp add: tpcc_inv_def hack_ok_def delivered_in_def)
    show "table_item db' = table_item db" "table_stock db' = table_stock db"
      using del by (simp_all add: delivered_in_def)
    show "map_option o_ol_cnt (os_get (table_order db') (O_key W' D' oid')) =
        map_option o_ol_cnt (os_get (table_order db) (O_key W' D' oid'))" for W' D' oid'
      using v by auto
    show "os_get (table_new_order db) (NO_key W' D' oid') \<noteq> None"
      if "os_get (table_new_order db') (NO_key W' D' oid') \<noteq> None" for W' D' oid'
      using that del T by (auto simp: delivered_in_def tables_ok_def split: if_splits)
    show "os_get (table_district db') (D_key W' D') \<noteq> None \<and> next_o_id db' W' D' = next_o_id db W' D'"
      if "wh_ok cfg W'" "di_ok cfg D'" for W' D'
      using district_present [OF inv that] nx del by (auto simp: delivered_in_def)
  qed (rule lines)
qed

text \<open>
  The loop over the districts. What it leaves for one district: no pending new-order record, and
  the carrier in the order that had one.
\<close>

definition district_delivered :: "u32 \<Rightarrow> u32 \<Rightarrow> u32 \<Rightarrow> tpcc_db \<Rightarrow> tpcc_db \<Rightarrow> bool" where
  "district_delivered w d carrier db db' \<longleftrightarrow>
     (let no = NO_key (ucast w) (ucast d) (pending_of db w d);
          k = O_key (ucast w) (ucast d) (pending_of db w d)
      in os_get (table_new_order db') no = None \<and>
         (os_get (table_new_order db) no \<noteq> None \<longrightarrow>
            (\<exists>v. os_get (table_order db) k = Some v \<and>
                 os_get (table_order db') k = Some (v\<lparr>o_carrier_id := carrier\<rparr>))))"

text \<open>The tables a delivery does not touch.\<close>

definition delivery_frame :: "tpcc_db \<Rightarrow> tpcc_db \<Rightarrow> bool" where
  "delivery_frame db db' \<longleftrightarrow>
     pending_new_order_per_dis db' = pending_new_order_per_dis db \<and>
     latest_order_id_per_customer db' = latest_order_id_per_customer db \<and>
     table_warehouse db' = table_warehouse db \<and> table_district db' = table_district db \<and>
     table_history db' = table_history db \<and> table_item db' = table_item db \<and>
     table_stock db' = table_stock db \<and>
     (\<forall>k. os_get (table_new_order db) k = None \<longrightarrow> os_get (table_new_order db') k = None)"

lemma ucast8_inj:
  "unat (d :: u32) < 256 \<Longrightarrow> unat d' < 256 \<Longrightarrow> (ucast d :: byte) = ucast d' \<Longrightarrow> d = d'"
  by (metis unat_ucast8 word_unat_eq_iff)

text \<open>One round of the loop, whether or not the district has a pending order.\<close>

lemma deliver_district_step:
  assumes cfg: "cfg_ok cfg" and w: "warehouse_in cfg w" and d: "district_in cfg d"
    and inv: "tpcc_inv cfg db"
  shows "\<exists>h' db'. deliver_district J w d carrier (h, db) = Some (True, h', db') \<and> tpcc_inv cfg db' \<and>
    delivery_frame db db' \<and> district_delivered w d carrier db db' \<and>
    (\<forall>W D oid. D \<noteq> ucast d \<longrightarrow>
       os_get (table_order db') (O_key W D oid) = os_get (table_order db) (O_key W D oid) \<and>
       os_get (table_new_order db') (NO_key W D oid) = os_get (table_new_order db) (NO_key W D oid)) \<and>
    (\<forall>k. k \<noteq> NO_key (ucast w) (ucast d) (pending_of db w d) \<longrightarrow>
       os_get (table_new_order db') k = os_get (table_new_order db) k)"
proof -
  let ?k = "NO_key (ucast w) (ucast d) (pending_of db w d)"
  obtain h' db' where step: "deliver_district J w d carrier (h, db) = Some (True, h', db')"
    "if os_get (table_new_order db) ?k = None then db' = db
     else delivered_in (ucast w) (ucast d) (pending_of db w d) carrier db db'"
    using deliver_district_ok [OF cfg w d inv, of J carrier h] by blast
  have ok: "os_ok (table_new_order db)" using inv by (simp add: tpcc_inv_def tables_ok_def)
  show ?thesis
  proof (cases "os_get (table_new_order db) ?k = None")
    case True
    with step inv show ?thesis by (auto simp: delivery_frame_def district_delivered_def)
  next
    case False
    with step(2) have del: "delivered_in (ucast w) (ucast d) (pending_of db w d) carrier db db'" by simp
    from delivered_inv(1) [OF inv this] have "tpcc_inv cfg db'" .
    moreover from del ok have "delivery_frame db db'" by (simp add: delivered_in_def delivery_frame_def)
    moreover from del ok have "district_delivered w d carrier db db'"
      by (auto simp: delivered_in_def district_delivered_def)
    moreover from del ok have "\<forall>W D oid. D \<noteq> ucast d \<longrightarrow>
       os_get (table_order db') (O_key W D oid) = os_get (table_order db) (O_key W D oid) \<and>
       os_get (table_new_order db') (NO_key W D oid) = os_get (table_new_order db) (NO_key W D oid)"
      by (auto simp: delivered_in_def)
    moreover from del ok have "\<forall>k. k \<noteq> ?k \<longrightarrow> os_get (table_new_order db') k = os_get (table_new_order db) k"
      by (simp add: delivered_in_def)
    ultimately show ?thesis using step(1) by blast
  qed
qed

lemma delivery_loop_ok:
  assumes cfg: "cfg_ok cfg" and w: "warehouse_in cfg w"
  shows "tpcc_inv cfg db \<Longrightarrow> 1 \<le> unat d \<Longrightarrow> unat d + n = num_district_per_warehouse cfg + 1 \<Longrightarrow>
    \<exists>h' db'. delivery_loop J w carrier n d (h, db) = Some (h', db') \<and> tpcc_inv cfg db' \<and>
      delivery_frame db db' \<and>
      (\<forall>d'. unat d \<le> unat d' \<and> unat d' < unat d + n \<longrightarrow> district_delivered w d' carrier db db') \<and>
      (\<forall>W (d' :: u32) oid. unat d' < unat d \<longrightarrow> os_get (table_order db') (O_key W (ucast d') oid) =
         os_get (table_order db) (O_key W (ucast d') oid)) \<and>
      (\<forall>k. (\<forall>d'. unat d \<le> unat d' \<and> unat d' < unat d + n \<longrightarrow>
             k \<noteq> NO_key (ucast w) (ucast d') (pending_of db w d')) \<longrightarrow>
         os_get (table_new_order db') k = os_get (table_new_order db) k)"
proof (induction n arbitrary: d db h)
  case 0
  then show ?case by (auto simp: delivery_frame_def)
next
  case (Suc n)
  have din: "district_in cfg d" using Suc.prems by (simp add: district_in_def)
  have nd: "num_district_per_warehouse cfg < 256" using cfg by (simp add: cfg_ok_def)
  obtain h1 db1 where db1: "deliver_district J w d carrier (h, db) = Some (True, h1, db1)"
    "tpcc_inv cfg db1" "delivery_frame db db1" "district_delivered w d carrier db db1"
    "\<forall>W D oid. D \<noteq> ucast d \<longrightarrow>
       os_get (table_order db1) (O_key W D oid) = os_get (table_order db) (O_key W D oid) \<and>
       os_get (table_new_order db1) (NO_key W D oid) = os_get (table_new_order db) (NO_key W D oid)"
    "\<forall>k. k \<noteq> NO_key (ucast w) (ucast d) (pending_of db w d) \<longrightarrow>
       os_get (table_new_order db1) k = os_get (table_new_order db) k"
    using deliver_district_step [OF cfg w din Suc.prems(1), of J carrier h] by blast
  have ud: "unat (d + 1) = unat d + 1"
    using Suc.prems(3) nd by (intro unat_inc_u32 unat_neq_max) simp
  obtain h' db' where ih: "delivery_loop J w carrier n (d + 1) (h1, db1) = Some (h', db')"
    "tpcc_inv cfg db'" "delivery_frame db1 db'"
    "\<forall>d'. unat d + 1 \<le> unat d' \<and> unat d' < unat d + 1 + n \<longrightarrow> district_delivered w d' carrier db1 db'"
    "\<forall>W (d' :: u32) oid. unat d' < unat d + 1 \<longrightarrow> os_get (table_order db') (O_key W (ucast d') oid) =
         os_get (table_order db1) (O_key W (ucast d') oid)"
    "\<forall>k. (\<forall>d'. unat d + 1 \<le> unat d' \<and> unat d' < unat d + 1 + n \<longrightarrow>
             k \<noteq> NO_key (ucast w) (ucast d') (pending_of db1 w d')) \<longrightarrow>
         os_get (table_new_order db') k = os_get (table_new_order db1) k"
    using Suc.IH [OF db1(2), of "d + 1" h1] Suc.prems ud by auto
  have p: "pending_of db1 w d' = pending_of db w d'" for d'
    using db1(3) by (simp add: pending_of_def delivery_frame_def)
  have ne: "(ucast d' :: byte) \<noteq> ucast d" if "unat d' < 256" "unat d' \<noteq> unat d" for d' :: u32
    using ucast8_inj [of d' d] that Suc.prems(3) nd by auto
  have "district_delivered w d' carrier db db'"
    if r: "unat d \<le> unat d'" "unat d' < unat d + Suc n" for d'
  proof (cases "unat d' = unat d")
    case True
    then have "d' = d" by (simp add: word_unat_eq_iff)
    with db1(4) ih(3,5) show ?thesis by (simp add: district_delivered_def delivery_frame_def Let_def)
  next
    case False
    with r ih(4) have "district_delivered w d' carrier db1 db'" by simp
    moreover have "(ucast d' :: byte) \<noteq> ucast d" using False r Suc.prems(3) nd by (intro ne) auto
    ultimately show ?thesis using db1(5) by (simp add: district_delivered_def p)
  qed
  moreover have "os_get (table_order db') (O_key W (ucast d') oid) = os_get (table_order db) (O_key W (ucast d') oid)"
    if "unat d' < unat d" for W and d' :: u32 and oid
  proof -
    have "(ucast d' :: byte) \<noteq> ucast d" using that Suc.prems(3) nd by (intro ne) auto
    with that ih(5) db1(5) show ?thesis by simp
  qed
  moreover have "os_get (table_new_order db') k = os_get (table_new_order db) k"
    if k: "\<forall>d'. unat d \<le> unat d' \<and> unat d' < unat d + Suc n \<longrightarrow>
             k \<noteq> NO_key (ucast w) (ucast d') (pending_of db w d')" for k
  proof -
    have "k \<noteq> NO_key (ucast w) (ucast d) (pending_of db w d)" using k by simp
    moreover have "\<forall>d'. unat d + 1 \<le> unat d' \<and> unat d' < unat d + 1 + n \<longrightarrow>
             k \<noteq> NO_key (ucast w) (ucast d') (pending_of db1 w d')" using k by (simp add: p)
    ultimately show ?thesis using db1(6) ih(6) by metis
  qed
  moreover have "delivery_frame db db'" using db1(3) ih(3) by (simp add: delivery_frame_def)
  ultimately show ?case using db1(1) ih(1,2) by simp
qed

lemma delivery_full:
  assumes cfg: "cfg_ok cfg" and w: "warehouse_in cfg w" and inv: "tpcc_inv cfg db"
  shows "\<exists>s' h' db' carrier. txn_delivery cfg J w (s, h, db) = Some (s', h', db') \<and> tpcc_inv cfg db' \<and>
    delivery_frame db db' \<and> district_in cfg carrier \<and>
    (\<forall>d. district_in cfg d \<longrightarrow> district_delivered w d carrier db db') \<and>
    (\<forall>k. (\<forall>d. district_in cfg d \<longrightarrow> k \<noteq> NO_key (ucast w) (ucast d) (pending_of db w d)) \<longrightarrow>
       os_get (table_new_order db') k = os_get (table_new_order db) k)"
proof -
  obtain c where c: "RandomNumber s 1 (word_of_nat (num_district_per_warehouse cfg)) = Some (c, fr_step s)"
    "district_in cfg c"
    using RandomNumber_1_n [of "num_district_per_warehouse cfg" s] cfg by (auto simp: cfg_ok_def district_in_def)
  obtain h' db' where "delivery_loop J w c (num_district_per_warehouse cfg) 1 (h, db) = Some (h', db')"
    "tpcc_inv cfg db'" "delivery_frame db db'"
    "\<forall>d'. 1 \<le> unat d' \<and> unat d' < 1 + num_district_per_warehouse cfg \<longrightarrow>
       district_delivered w d' c db db'"
    "\<forall>k. (\<forall>d'. 1 \<le> unat d' \<and> unat d' < 1 + num_district_per_warehouse cfg \<longrightarrow>
             k \<noteq> NO_key (ucast w) (ucast d') (pending_of db w d')) \<longrightarrow>
         os_get (table_new_order db') k = os_get (table_new_order db) k"
    using delivery_loop_ok [OF cfg w inv, of 1 "num_district_per_warehouse cfg" J c h] by auto
  with c show ?thesis
    by (intro exI [of _ "fr_step s"] exI [of _ h'] exI [of _ db'] exI [of _ c])
      (auto simp: txn_delivery_def district_in_def less_Suc_eq_le)
qed

section \<open>Order status and stock level\<close>

lemma order_status_full:
  assumes cfg: "cfg_ok cfg" and w: "warehouse_in cfg w" and inv: "tpcc_inv cfg db"
  shows "\<exists>s' d c. txn_order_status cfg w (s, h, db) =
      Some (os_scan (table_order_line db) (OL_key (ucast w) (ucast d) (latest_of db w d c) 0) 10, s', h, db) \<and>
    district_in cfg d \<and> 1 \<le> c \<and> c \<le> 3000"
proof -
  obtain d where d: "RandomNumber s 1 (word_of_nat (num_district_per_warehouse cfg)) = Some (d, fr_step s)"
    "1 \<le> unat d" "unat d \<le> num_district_per_warehouse cfg"
    using RandomNumber_1_n [of "num_district_per_warehouse cfg" s] cfg by (auto simp: cfg_ok_def)
  obtain c s1 where c: "GetCustomerId (fr_step s) = Some (c, s1)" "1 \<le> c" "c \<le> 3000"
    using GetCustomerId_range by blast
  have "w \<noteq> 0" "d \<noteq> 0" "c \<noteq> 0" using w d c by (auto simp: warehouse_in_def)
  then have u: "unat (w - 1) = unat w - 1" "unat (d - 1) = unat d - 1" "unat (c - 1) = unat c - 1"
    by (simp_all add: unat_minus_one)
  have b: "unat (w - 1) < warehouse_num cfg" "unat (d - 1) < num_district_per_warehouse cfg"
    "unat (c - 1) < 3000"
    using w d c by (auto simp: warehouse_in_def word_le_nat_alt u)
  let ?l = "latest_order_id_per_customer db"
  have "unat (w - 1) < length ?l" "unat (d - 1) < length (?l ! unat (w - 1))"
    "unat (c - 1) < length (?l ! unat (w - 1) ! unat (d - 1))"
    using inv b by (auto simp: tpcc_inv_def hack_ok_def)
  with d(1) c(1) have "txn_order_status cfg w (s, h, db) =
      Some (os_scan (table_order_line db) (OL_key (ucast w) (ucast d) (latest_of db w d c) 0) 10, s1, h, db)"
    by (simp add: txn_order_status_def latest_of_def)
  with d c show ?thesis by (auto simp: district_in_def)
qed

lemma stock_level_count_eq:
  "stock_level_count J w threshold t kvs =
     length (filter (\<lambda>(k, v). s_quantity (kv_get t (S_key (ucast w) (ol_i_id v)) (junk_s J)) < threshold) kvs)"
  by (induction kvs rule: stock_level_count.induct) (simp_all add: Let_def)

lemma stock_level_full:
  assumes cfg: "cfg_ok cfg" and w: "warehouse_in cfg w" and inv: "tpcc_inv cfg db"
  shows "\<exists>n s' d lo threshold. txn_stock_level cfg J w (s, h, db) = Some (n, s', h, db) \<and>
    district_in cfg d \<and> 10 \<le> threshold \<and> threshold \<le> 20 \<and>
    lo = (if 20 \<le> next_o_id db (ucast w) (ucast d) then next_o_id db (ucast w) (ucast d) - 20 else 0) \<and>
    n = length (filter (\<lambda>(k, v). s_quantity (kv_get (table_stock db) (S_key (ucast w) (ol_i_id v)) (junk_s J))
                          < threshold)
          (os_scan (table_order_line db) (OL_key (ucast w) (ucast d) lo 0) 200)) \<and> n \<le> 200"
proof -
  obtain d where d: "RandomNumber s 1 (word_of_nat (num_district_per_warehouse cfg)) = Some (d, fr_step s)"
    "district_in cfg d"
    using RandomNumber_1_n [of "num_district_per_warehouse cfg" s] cfg by (auto simp: cfg_ok_def district_in_def)
  obtain t where t: "RandomNumber (fr_step s) 10 20 = Some (t, fr_step (fr_step s))" "10 \<le> t" "t \<le> 20"
    by (rule RandomNumber_const [of 10 20 "fr_step s"]) simp_all
  obtain v where v: "os_get (table_district db) (D_key (ucast w) (ucast d)) = Some v"
    "next_o_id db (ucast w) (ucast d) = d_next_o_id v"
    using district_present [OF inv wh_ok_ucast [OF cfg w] di_ok_ucast [OF cfg d(2)]] by blast
  let ?lo = "if 20 \<le> next_o_id db (ucast w) (ucast d) then next_o_id db (ucast w) (ucast d) - 20 else 0"
  let ?scan = "os_scan (table_order_line db) (OL_key (ucast w) (ucast d) ?lo 0) 200"
  let ?n = "stock_level_count J w t (table_stock db) ?scan"
  have "?n \<le> 200"
    unfolding stock_level_count_eq using os_scan_length by (rule order_trans [OF length_filter_le])
  moreover have "txn_stock_level cfg J w (s, h, db) = Some (?n, fr_step (fr_step s), h, db)"
    using d(1) t(1) v by (simp add: txn_stock_level_def Let_def)
  ultimately show ?thesis using d(2) t(2,3) unfolding stock_level_count_eq by blast
qed

end
