(* ===== verification/TpccLoaded.thy ===== *)
theory TpccLoaded
  imports TpccLoader TpccCorrect
begin

text \<open>
  The loaders return for every seed, and the database they build satisfies the invariant of the
  transactions; with that, the invariant of every database that transactions reach.
\<close>

section \<open>Rows are always produced\<close>

definition yields :: "('a \<times> 's) option \<Rightarrow> ('a \<Rightarrow> bool) \<Rightarrow> bool" where
  "yields m P \<longleftrightarrow> (\<exists>x s. m = Some (x, s) \<and> P x)"

named_theorems yields_intros \<open>introduction rules for the outcome of a random computation\<close>

lemma yieldsE: "yields m P \<Longrightarrow> (\<And>x s. m = Some (x, s) \<Longrightarrow> P x \<Longrightarrow> R) \<Longrightarrow> R"
  by (auto simp: yields_def)

lemma yields_bind [yields_intros]:
  "yields m (\<lambda>_. True) \<Longrightarrow> (\<And>x s. yields (f x s) P) \<Longrightarrow> yields (do { (x, s) \<leftarrow> m; f x s }) P"
  by (auto simp: yields_def)

lemma yields_number:
  "a \<le> b \<Longrightarrow> unat b < 4294967295 \<Longrightarrow> (\<And>v s. a \<le> v \<Longrightarrow> v \<le> b \<Longrightarrow> yields (f v s) P) \<Longrightarrow>
   yields (do { (v, s) \<leftarrow> RandomNumber s a b; f v s }) P"
  by (rule RandomNumber_const [of a b s]) (auto simp: yields_def)

lemma yields_Some [yields_intros]: "P x \<Longrightarrow> yields (Some (x, s)) P"
  by (simp add: yields_def)

lemma yields_case: "(\<And>x y. p = (x, y) \<Longrightarrow> yields (f x y) P) \<Longrightarrow> yields (case p of (x, y) \<Rightarrow> f x y) P"
  by (cases p) simp

lemma yields_Let: "yields (f x) P \<Longrightarrow> yields (let y = x in f y) P"
  by (simp add: Let_def)

lemma yields_if [yields_intros]:
  "(b \<Longrightarrow> yields m P) \<Longrightarrow> (\<not> b \<Longrightarrow> yields n P) \<Longrightarrow> yields (if b then m else n) P"
  by simp

lemma yields_RandomNumber [yields_intros]:
  "a \<le> b \<Longrightarrow> unat b < 4294967295 \<Longrightarrow> yields (RandomNumber s a b) (\<lambda>_. True)"
  by (rule RandomNumber_const [of a b s]) (auto simp: yields_def)

lemma yields_RandomStr [yields_intros]: "yields (RandomStr s n) (\<lambda>_. True)"
  using RandomStr_total [of s n] by (auto simp: yields_def)

lemma yields_random_str_of [yields_intros]:
  "a \<le> b \<Longrightarrow> unat b < 4294967295 \<Longrightarrow> yields (random_str_of s a b) (\<lambda>_. True)"
  unfolding random_str_of_def by (rule yields_number | rule yields_intros yields_case | simp)+

lemma yields_warehouse_row: "yields (warehouse_row s) (\<lambda>v. w_ytd v = 300000)"
  unfolding warehouse_row_def by (rule yields_number | rule yields_intros yields_case | simp)+

lemma yields_district_row: "yields (district_row s) (\<lambda>v. d_next_o_id v = 3001 \<and> d_ytd v = 30000)"
  unfolding district_row_def by (rule yields_number | rule yields_intros yields_case | simp)+

lemma yields_original_data [yields_intros]: "yields (original_data s) (\<lambda>_. True)"
proof -
  have len: "2 \<le> len - 8 \<and> unat (len - 8) < 4294967295" if "26 \<le> len" "len \<le> (50 :: u32)" for len
  proof -
    have "26 \<le> unat len" "unat len \<le> 50" using that by (simp_all add: word_le_nat_alt)
    moreover have "unat (len - 8) = unat len - 8" using calculation
      by (intro trans [OF unat_sub]) (simp_all add: word_le_nat_alt)
    ultimately show ?thesis unfolding word_le_nat_alt by simp presburger
  qed
  show ?thesis unfolding original_data_def
    by (rule yields_number | rule yields_intros | simp add: len)+
qed

lemma yields_item_row: "yields (item_row s) (\<lambda>_. True)"
  unfolding item_row_def by (rule yields_number | rule yields_intros yields_case | simp)+

lemma yields_order_line_row: "yields (order_line_row w o_i e s) (\<lambda>_. True)"
proof (cases "o_i < 2101")
  case True
  show ?thesis unfolding order_line_row_def
    by (simp only: True if_True bind.bind_lunit prod.case) (rule yields_number | rule yields_intros yields_case | simp)+
next
  case False
  show ?thesis unfolding order_line_row_def
    by (simp only: False if_False) (rule yields_number | rule yields_intros yields_case | simp)+
qed

lemma yields_order_row:
  assumes "o_i - 1 < length c_ids"
  shows "yields (order_row c_ids o_i ts s) (\<lambda>v. 5 \<le> o_ol_cnt v \<and> o_ol_cnt v \<le> 15)"
proof -
  have cnt: "5 \<le> (ucast c :: byte) \<and> (ucast c :: byte) \<le> 15" if "5 \<le> c" "c \<le> 15" for c :: u32
    using that by (simp add: word_le_nat_alt unat_ucast8)
  note c = vec_get_Some [OF assms] bind.bind_lunit
  show ?thesis
  proof (cases "o_i < 2101")
    case True
    show ?thesis unfolding order_row_def
      by (simp only: c True if_True) (rule yields_number | rule yields_intros yields_case | simp add: cnt)+
  next
    case False
    show ?thesis unfolding order_row_def
      by (simp only: c False if_False prod.case) (rule yields_number | rule yields_intros yields_case | simp add: cnt)+
  qed
qed

text \<open>The rows with a longer result.\<close>

lemma yields_name_load [yields_intros]: "yields (GetNonUniformCustomerLastNameLoad s) (\<lambda>_. True)"
proof -
  obtain v where "NonUniformRandom s 255 157 0 999 = Some (v, fr_step (fr_step s))"
    "0 \<le> sint v" "sint v < 1000" using NonUniformRandom_999 [of 157 s] by auto
  with last_name_into_ok [of "sint v"] show ?thesis
    by (auto simp: GetNonUniformCustomerLastNameLoad_def GetCustomerLastName_eq yields_def)
qed

lemma yields_last_name [yields_intros]:
  assumes "1 \<le> c_i"
  shows "yields (if c_i \<le> 1000 then do { n \<leftarrow> GetCustomerLastName (int c_i - 1); Some (n, s) }
     else GetNonUniformCustomerLastNameLoad s) (\<lambda>_. True)"
proof (cases "c_i \<le> 1000")
  case True
  with assms last_name_into_ok [of "int c_i - 1"] show ?thesis
    by (auto simp: GetCustomerLastName_eq yields_def)
next
  case False
  with yields_name_load show ?thesis by simp
qed

lemma yields_customer_row:
  assumes "1 \<le> c_i"
  shows "yields (customer_row c_i (s, h)) (\<lambda>v. c_balance v = -10 \<and> c_ytd_payment v = 10 \<and> c_payment_cnt v = 1)"
  unfolding customer_row_def
  by (rule yields_last_name [OF assms] yields_Let yields_case yields_number | rule yields_intros | simp)+

section \<open>Loops\<close>

text \<open>
  A loop whose steps each handle a set \<open>B x\<close> of rows not handled before: what holds of the rows
  handled is an invariant \<open>J\<close> indexed by that set. The rule nests.
\<close>

lemma for_each_inv:
  assumes "distinct xs" "\<And>x y. x \<in> set xs \<Longrightarrow> y \<in> set xs \<Longrightarrow> x \<noteq> y \<Longrightarrow> B x \<inter> B y = {}"
    and "\<And>x st A. x \<in> set xs \<Longrightarrow> A \<inter> B x = {} \<Longrightarrow> J A st \<Longrightarrow> \<exists>st'. f x st = Some st' \<and> J (A \<union> B x) st'"
    and "A \<inter> (\<Union>x\<in>set xs. B x) = {}" "J A st"
  shows "\<exists>st'. for_each f xs st = Some st' \<and> J (A \<union> (\<Union>x\<in>set xs. B x)) st'"
  using assms
proof (induction xs arbitrary: A st)
  case (Cons x xs)
  have "A \<inter> B x = {}" using Cons.prems(4) by auto
  with Cons.prems(3) [of x A st] Cons.prems(5) obtain st1 where
    st1: "f x st = Some st1" "J (A \<union> B x) st1" by auto
  have "\<exists>st'. for_each f xs st1 = Some st' \<and> J (A \<union> B x \<union> (\<Union>x\<in>set xs. B x)) st'"
  proof (rule Cons.IH [OF _ _ _ _ st1(2)])
    show "(A \<union> B x) \<inter> (\<Union>x\<in>set xs. B x) = {}"
      using Cons.prems(1,4) Cons.prems(2) [of x] by fastforce
    show "\<exists>st'. f y st = Some st' \<and> J (A \<union> B y) st'" if "y \<in> set xs" "A \<inter> B y = {}" "J A st" for y st A
      using Cons.prems(3) [of y A st] that by simp
  qed (use Cons.prems in simp_all)
  with st1(1) show ?case by (simp add: Un_assoc)
qed simp

lemma emplace_eq: "os_ok m \<Longrightarrow> emplace m k v = (if os_get m k = None then os_insert m k v else m)"
  by (induction "(<) :: 'a \<Rightarrow> 'a \<Rightarrow> bool" m k v rule: emplace_by.induct)
    (auto simp: os_ok_Cons not_less_iff_gr_or_eq dest: os_get_Some_keys, meson less_asym os_get_Some_keys)

lemma os_ok_emplace [simp]: "os_ok m \<Longrightarrow> os_ok (emplace m k v)"
  by (simp add: emplace_eq)

lemma os_get_emplace: "os_ok m \<Longrightarrow> os_get (emplace m k v) k' =
    (if k' = k \<and> os_get m k = None then Some v else os_get m k')"
  by (auto simp: emplace_eq)

text \<open>A table that holds exactly the rows \<open>A\<close>, all of them with a property.\<close>

definition filled ::
  "('a \<Rightarrow> 'k::linorder) \<Rightarrow> ('k \<Rightarrow> 'v \<Rightarrow> bool) \<Rightarrow> 'a set \<Rightarrow> ('k, 'v) ostore \<Rightarrow> bool" where
  "filled key P A m \<longleftrightarrow> os_ok m \<and> os_keys m = key ` A \<and> (\<forall>k v. os_get m k = Some v \<longrightarrow> P k v)"

lemma filled_Nil: "filled key P {} []"
  by (simp add: filled_def)

lemma filled_emplace:
  assumes "filled key P A m" "P (key a) v"
  shows "filled key P (A \<union> {a}) (emplace m (key a) v)"
  using assms by (auto simp: filled_def emplace_eq os_get_None)

lemma filled_get: "filled key P A m \<Longrightarrow> a \<in> A \<Longrightarrow> \<exists>v. os_get m (key a) = Some v \<and> P (key a) v"
  by (metis filled_def image_eqI os_get_None option.exhaust)

text \<open>Loops that fill one table from a row generator.\<close>

lemma for_each_rows:
  fixes row :: "u64 \<Rightarrow> ('v \<times> u64) option" and key :: "'a \<Rightarrow> 'k::linorder" and g :: "nat \<Rightarrow> 'a"
  assumes "\<And>s. yields (row s) Q" "\<And>x v. x \<in> set xs \<Longrightarrow> Q v \<Longrightarrow> P (key (g x)) v"
    and "distinct xs" "inj_on g (set xs)" "A \<inter> g ` set xs = {}" "filled key P A m"
  shows "\<exists>s' m'. for_each (\<lambda>x (s, m). do { (v, s) \<leftarrow> row s; Some (s, emplace m (key (g x)) v) }) xs (s, m)
    = Some (s', m') \<and> filled key P (A \<union> g ` set xs) m'"
proof -
  let ?f = "\<lambda>x (s, m). do { (v, s) \<leftarrow> row s; Some (s, emplace m (key (g x)) v) }"
  have "\<exists>st'. for_each ?f xs (s, m) = Some st' \<and> filled key P (A \<union> (\<Union>x\<in>set xs. {g x})) (snd st')"
  proof (rule for_each_inv [where J = "\<lambda>A st. filled key P A (snd st)"])
    fix x and st :: "u64 \<times> ('k, 'v) ostore" and A
    assume x: "x \<in> set xs" and J: "filled key P A (snd st)"
    obtain s m where st: "st = (s, m)" by (cases st)
    from assms(1) [of s] obtain v s' where v: "row s = Some (v, s')" "Q v" by (rule yieldsE)
    then show "\<exists>st'. ?f x st = Some st' \<and> filled key P (A \<union> {g x}) (snd st')"
      using filled_emplace [of key P A m "g x" v] assms(2) [OF x] J st by simp
  qed (use assms in \<open>auto simp: inj_on_def\<close>)
  then show ?thesis by (simp add: UNION_singleton_eq_range)
qed

lemma for_each_rows2:
  fixes row :: "u64 \<Rightarrow> ('v \<times> u64) option" and key :: "nat \<times> nat \<Rightarrow> 'k::linorder"
  assumes "\<And>s. yields (row s) Q" "\<And>x y v. x \<in> set xs \<Longrightarrow> y \<in> set ys \<Longrightarrow> Q v \<Longrightarrow> P (key (x, y)) v"
    and "distinct xs" "distinct ys"
  shows "\<exists>s' m'. for_each (\<lambda>x. for_each (\<lambda>y (s, m). do {
      (v, s) \<leftarrow> row s; Some (s, emplace m (key (x, y)) v) }) ys) xs (s, [])
    = Some (s', m') \<and> filled key P (set xs \<times> set ys) m'"
proof -
  let ?f = "\<lambda>x. for_each (\<lambda>y (s, m). do { (v, s) \<leftarrow> row s; Some (s, emplace m (key (x, y)) v) }) ys"
  have "\<exists>st'. for_each ?f xs (s, []) = Some st' \<and>
      filled key P ({} \<union> (\<Union>x\<in>set xs. Pair x ` set ys)) (snd st')"
  proof (rule for_each_inv [where J = "\<lambda>A st. filled key P A (snd st)"])
    fix x and st :: "u64 \<times> ('k, 'v) ostore" and A
    assume x: "x \<in> set xs" "A \<inter> Pair x ` set ys = {}" and J: "filled key P A (snd st)"
    obtain s m where st: "st = (s, m)" by (cases st)
    have "\<exists>s' m'. ?f x (s, m) = Some (s', m') \<and> filled key P (A \<union> Pair x ` set ys) m'"
      by (rule for_each_rows [where Q = Q]) (use assms x J st in \<open>auto simp: inj_on_def\<close>)
    then show "\<exists>st'. ?f x st = Some st' \<and> filled key P (A \<union> Pair x ` set ys) (snd st')"
      by (auto simp: st)
  qed (use assms filled_Nil in auto)
  moreover have "{} \<union> (\<Union>x\<in>set xs. Pair x ` set ys) = set xs \<times> set ys" by auto
  ultimately show ?thesis by (auto simp only: snd_conv split_paired_Ex)
qed

lemma for_each_keeps:
  assumes "\<And>x st. x \<in> set xs \<Longrightarrow> J st \<Longrightarrow> \<exists>st'. f x st = Some st' \<and> J st'" and "J st"
  shows "\<exists>st'. for_each f xs st = Some st' \<and> J st'"
  using assms
proof (induction xs arbitrary: st)
  case (Cons x xs)
  from Cons.prems obtain st1 where "f x st = Some st1" "J st1" by force
  with Cons show ?case by simp
qed simp

lemma for_each_keeps2:
  assumes "\<And>x y st. y \<in> set ys \<Longrightarrow> J st \<Longrightarrow> \<exists>st'. f x y st = Some st' \<and> J st'" and "J st"
  shows "\<exists>st'. for_each (\<lambda>x. for_each (f x) ys) xs st = Some st' \<and> J st'"
  by (rule for_each_keeps [where J = J, OF for_each_keeps [where J = J]]) (use assms in blast)+

text \<open>Three nested loops that each time handle the row named by their counters.\<close>

lemma for_each_acc:
  assumes "\<And>y x A. y \<in> set ys \<Longrightarrow> J A x \<Longrightarrow> \<exists>x'. f y x = Some x' \<and> J (A \<union> B y) x'" and "J A x"
  shows "\<exists>x'. for_each f ys x = Some x' \<and> J (A \<union> (\<Union>y\<in>set ys. B y)) x'"
  using assms
proof (induction ys arbitrary: A x)
  case (Cons y ys)
  from Cons.prems(1) [of y A x] Cons.prems(2) obtain x1 where
    x1: "f y x = Some x1" "J (A \<union> B y) x1" by auto
  from Cons.IH [OF _ x1(2)] Cons.prems(1) x1(1) show ?case by (simp add: Un_assoc)
qed simp

lemma for_each_acc3:
  assumes "\<And>w d c x A. c \<in> set zs \<Longrightarrow> J A x \<Longrightarrow> \<exists>x'. f w d c x = Some x' \<and> J (A \<union> {(w, d, c)}) x'" and "J A x"
  shows "\<exists>x'. for_each (\<lambda>w. for_each (\<lambda>d. for_each (f w d) zs) ys) xs x = Some x' \<and>
    J (A \<union> set xs \<times> set ys \<times> set zs) x'"
proof -
  have zs: "\<exists>x'. for_each (f w d) zs x = Some x' \<and> J (A \<union> (\<Union>c\<in>set zs. {(w, d, c)})) x'" if "J A x" for w d A x
    by (rule for_each_acc [where J = J, OF assms(1) that])
  have ys: "\<exists>x'. for_each (\<lambda>d. for_each (f w d) zs) ys x = Some x' \<and>
      J (A \<union> (\<Union>d\<in>set ys. \<Union>c\<in>set zs. {(w, d, c)})) x'" if "J A x" for w A x
    by (rule for_each_acc [where J = J, OF zs that])
  have "\<exists>x'. for_each (\<lambda>w. for_each (\<lambda>d. for_each (f w d) zs) ys) xs x = Some x' \<and>
      J (A \<union> (\<Union>w\<in>set xs. \<Union>d\<in>set ys. \<Union>c\<in>set zs. {(w, d, c)})) x'"
    by (rule for_each_acc [where J = J, OF ys assms(2)])
  moreover have "(\<Union>w\<in>set xs. \<Union>d\<in>set ys. \<Union>c\<in>set zs. {(w, d, c)}) = set xs \<times> set ys \<times> set zs" by auto
  ultimately show ?thesis by (simp only:)
qed

section \<open>The tables without order records\<close>

lemma item_range: "{Suc 0..<100001} = {Suc 0..100000}"
  by auto

abbreviation one_to :: "nat \<Rightarrow> nat list" where
  "one_to n \<equiv> [1..<Suc n]"

lemma load_warehouse_ok:
  "\<exists>m. load_warehouse cfg seed st = Some (m, st) \<and>
    filled (\<lambda>i. W_key (word_of_nat i)) (\<lambda>_ v. w_ytd v = 300000) {1..warehouse_num cfg} m"
proof -
  have "\<exists>s' m'. for_each (\<lambda>i (s, kvmap). do {
         (v, s) \<leftarrow> warehouse_row s; Some (s, emplace kvmap (W_key (word_of_nat (id i))) v)
       }) (one_to (warehouse_num cfg)) (set_seed0 seed, []) = Some (s', m') \<and>
    filled (\<lambda>i. W_key (word_of_nat i)) (\<lambda>_ v. w_ytd v = 300000) ({} \<union> id ` set (one_to (warehouse_num cfg))) m'"
    by (rule for_each_rows [OF yields_warehouse_row]) (auto simp: filled_Nil)
  then show ?thesis
    by (auto simp: load_warehouse_def atLeastLessThanSuc_atLeastAtMost simp del: upt_Suc)
qed

lemma load_district_ok:
  "\<exists>m. load_district cfg seed st = Some (m, st) \<and>
    filled (\<lambda>(w, d). D_key (word_of_nat w) (word_of_nat d)) (\<lambda>_ v. d_next_o_id v = 3001 \<and> d_ytd v = 30000)
      ({1..warehouse_num cfg} \<times> {1..num_district_per_warehouse cfg}) m"
proof -
  let ?key = "\<lambda>(w, d). D_key (word_of_nat w) (word_of_nat d)"
  from for_each_rows2 [where row = district_row, OF yields_district_row, where key = ?key and P = "\<lambda>_ v. d_next_o_id v = 3001 \<and> d_ytd v = 30000" and
    xs = "one_to (warehouse_num cfg)" and ys = "one_to (num_district_per_warehouse cfg)" and s = "set_seed0 seed"]
  show ?thesis
    by (auto simp: load_district_def atLeastLessThanSuc_atLeastAtMost simp del: upt_Suc)
qed

lemma yields_stock_row: "yields (stock_row s) (\<lambda>v. qty_ok (s_quantity v))"
  unfolding stock_row_def by (rule yields_number yields_Some | simp add: qty_ok_def)+

lemma load_stock_ok:
  "\<exists>m. load_stock cfg seed st = Some (m, st) \<and>
    filled (\<lambda>(w, i). S_key (word_of_nat w) (word_of_nat i)) (\<lambda>_ v. qty_ok (s_quantity v))
      ({1..warehouse_num cfg} \<times> {1..100000}) m"
proof -
  let ?key = "\<lambda>(w, i). S_key (word_of_nat w) (word_of_nat i)"
  from for_each_rows2 [where row = stock_row, OF yields_stock_row, where key = ?key and P = "\<lambda>_ v. qty_ok (s_quantity v)" and
    xs = "one_to (warehouse_num cfg)" and ys = "one_to (unat num_item)" and s = "set_seed0 seed"]
  show ?thesis
    by (auto simp: load_stock_def num_item_def item_range atLeastLessThanSuc_atLeastAtMost simp del: upt_Suc)
qed

lemma load_item_ok:
  "\<exists>m. load_item seed st = Some (m, st) \<and>
    filled (\<lambda>i. I_key (word_of_nat i)) (\<lambda>_ _. True) {1..100000} m"
proof -
  have "\<exists>s' m'. for_each (\<lambda>i (s, kvmap). do {
         (v, s) \<leftarrow> item_row s; Some (s, emplace kvmap (I_key (word_of_nat (id i))) v)
       }) (one_to (unat num_item)) (set_seed0 seed, []) = Some (s', m') \<and>
    filled (\<lambda>i. I_key (word_of_nat i)) (\<lambda>_ _. True) ({} \<union> id ` set (one_to (unat num_item))) m'"
    by (rule for_each_rows [OF yields_item_row]) (auto simp: filled_Nil)
  then show ?thesis
    by (auto simp: load_item_def num_item_def item_range simp del: upt_Suc)
qed

lemma atLeastLessThan_3001: "{Suc 0..<3001} = {Suc 0..3000}"
  by auto

definition ckey :: "nat \<times> nat \<times> nat \<Rightarrow> C_key" where
  "ckey = (\<lambda>(w, d, c). C_key (word_of_nat c) (word_of_nat d) (word_of_nat w))"

lemma load_customer_ok: "\<exists>m st'. load_customer cfg seed st = Some (m, st') \<and>
    filled ckey (\<lambda>_ v. c_balance v = -10 \<and> c_ytd_payment v = 10 \<and> c_payment_cnt v = 1) ({1..warehouse_num cfg} \<times> {1..num_district_per_warehouse cfg} \<times> {1..3000}) m"
proof -
  let ?J = "\<lambda>A x. filled ckey (\<lambda>_ v. c_balance v = -10 \<and> c_ytd_payment v = 10 \<and> c_payment_cnt v = 1) A (fst (snd x))"
  let ?f = "\<lambda>w_i d_i c_i (s, kvmap :: (C_key, C_val) ostore, st :: loader_state). do {
         (v, last_name, first_name, s, tl_hack) \<leftarrow> customer_row c_i (s, ld_tl_hack st);
         let k = C_key (word_of_nat c_i) (word_of_nat d_i) (word_of_nat w_i);
         let name_index_key = CustomerNameIndexKey (word_of_nat w_i) (word_of_nat d_i)
           (var_assign 16 last_name) (var_assign 16 first_name);
         let st = st\<lparr>ld_tl_hack := tl_hack, temp_customer_index_map :=
           emplace_by CustomerNameIndexKey_lt (temp_customer_index_map st) name_index_key
             \<lparr>ci_c_id = word_of_nat c_i\<rparr>\<rparr>;
         Some (s, emplace kvmap k v, st)
       }"
  have step: "\<exists>x'. ?f w d c x = Some x' \<and> ?J (A \<union> {(w, d, c)}) x'"
    if "c \<in> set (one_to (unat num_customer_per_district))" "?J A x"
    for w d c A and x :: "u64 \<times> (C_key, C_val) ostore \<times> loader_state"
  proof -
    obtain s m st where x: "x = (s, m, st)" by (cases x)
    have "1 \<le> c" using that(1) by auto
    from yields_customer_row [OF this, of s "ld_tl_hack st"]
    obtain v ln fn s' h where "customer_row c (s, ld_tl_hack st) = Some (v, ln, fn, s', h)"
      "c_balance v = -10 \<and> c_ytd_payment v = 10 \<and> c_payment_cnt v = 1"
      by (auto simp: yields_def)
    with filled_emplace [of ckey _ A m "(w, d, c)" v] that(2) show ?thesis by (simp add: x Let_def ckey_def)
  qed
  have "\<exists>x'. for_each (\<lambda>w. for_each (\<lambda>d. for_each (?f w d) (one_to (unat num_customer_per_district)))
      (one_to (num_district_per_warehouse cfg))) (one_to (warehouse_num cfg)) x = Some x' \<and>
    ?J ({} \<union> set (one_to (warehouse_num cfg)) \<times> set (one_to (num_district_per_warehouse cfg)) \<times>
      set (one_to (unat num_customer_per_district))) x'" if "?J {} x" for x
    by (rule for_each_acc3 [where J = ?J, OF step that])
  from this [of "(set_seed0 seed, [], st\<lparr>temp_customer_index_map := []\<rparr>)"] show ?thesis
    unfolding load_customer_def
    by (auto simp: Let_def filled_Nil atLeastLessThan_3001 num_customer_per_district_def atLeastLessThanSuc_atLeastAtMost simp del: upt_Suc)
qed

text \<open>The time stamps of a district's history records count its customers.\<close>

definition hkey :: "nat \<times> nat \<times> nat \<Rightarrow> H_key" where
  "hkey = (\<lambda>(w, d, c). H_key (word_of_nat w) (word_of_nat d) (word_of_nat w) (word_of_nat d)
     (word_of_nat c) (word_of_nat c))"

lemma for_each_count:
  assumes "\<And>k st. k < n \<Longrightarrow> J k st \<Longrightarrow> \<exists>st'. f (Suc k) st = Some st' \<and> J (Suc k) st'" and "J 0 st"
  shows "\<exists>st'. for_each f (one_to n) st = Some st' \<and> J n st'"
proof -
  have app: "for_each f (xs @ ys) x = do { x \<leftarrow> for_each f xs x; for_each f ys x }" for xs ys x
    by (induction xs arbitrary: x) (auto split: bind_split)
  have "k \<le> n \<Longrightarrow> \<exists>st'. for_each f (one_to k) st = Some st' \<and> J k st'" for k
  proof (induction k)
    case (Suc k)
    then obtain st1 where "for_each f (one_to k) st = Some st1" "J k st1" by auto
    with assms(1) [of k st1] Suc.prems show ?case by (auto simp: app)
  qed (use assms(2) in simp)
  then show ?thesis by simp
qed

lemma load_history_ok: "\<exists>m. load_history cfg seed st = Some (m, st) \<and>
    filled hkey (\<lambda>_ v. h_amount v = 10) ({1..warehouse_num cfg} \<times> {1..num_district_per_warehouse cfg} \<times> {1..3000}) m"
proof -
  let ?F = "filled hkey (\<lambda>_ v. h_amount v = 10)"
  let ?J = "\<lambda>A x. ?F A (snd x)"
  let ?f = "\<lambda>w_i d_i c_i (ts, s, kvmap). do {
      let ts = ts + 1;
      (data, s) \<leftarrow> random_str_of s 10 24;
      let h_k = H_key (word_of_nat w_i) (word_of_nat d_i) (word_of_nat w_i) (word_of_nat d_i)
        (word_of_nat c_i) ts;
      Some (ts, s, emplace kvmap h_k \<lparr>h_amount = 10, h_data = var_assign 24 data\<rparr>)
    }"
  have cust: "\<exists>x'. for_each (?f w d) (one_to 3000) (0, s, m) = Some x' \<and>
      fst x' = word_of_nat 3000 \<and> ?F (A \<union> Pair w ` Pair d ` {1..3000}) (snd (snd x'))"
    if "?F A m" for w d A s and m :: "(H_key, H_val) ostore"
  proof (rule for_each_count [where J = "\<lambda>k x. fst x = word_of_nat k \<and> ?F (A \<union> Pair w ` Pair d ` {1..k}) (snd (snd x))"])
    fix k and x :: "u32 \<times> u64 \<times> (H_key, H_val) ostore"
    assume J: "fst x = word_of_nat k \<and> ?F (A \<union> Pair w ` Pair d ` {1..k}) (snd (snd x))"
    obtain s m where x: "x = (word_of_nat k, s, m)" using J by (cases x) auto
    have "yields (random_str_of s 10 24) (\<lambda>_. True)" by (rule yields_intros) simp_all
    then obtain data s' where d: "random_str_of s 10 24 = Some (data, s')" by (rule yieldsE)
    have "A \<union> Pair w ` Pair d ` {1..Suc k} = A \<union> Pair w ` Pair d ` {1..k} \<union> {(w, d, Suc k)}"
      by (auto simp: atLeastAtMostSuc_conv)
    with filled_emplace [of hkey _ "A \<union> Pair w ` Pair d ` {1..k}" m "(w, d, Suc k)"
        "\<lparr>h_amount = 10, h_data = var_assign 24 data\<rparr>"] J
    show "\<exists>x'. ?f w d (Suc k) x = Some x' \<and> fst x' = word_of_nat (Suc k) \<and>
        ?F (A \<union> Pair w ` Pair d ` {1..Suc k}) (snd (snd x'))"
      by (simp add: x d Let_def hkey_def add.commute)
  qed (use that in simp)
  let ?g = "\<lambda>w d (s, kvmap). do {
      (ts, s, kvmap) \<leftarrow> for_each (?f w d) (one_to (unat num_customer_per_district)) (0, s, kvmap);
      Some (s, kvmap) }"
  have g: "\<exists>x'. ?g w d x = Some x' \<and> ?J (A \<union> Pair w ` Pair d ` {1..3000}) x'"
    if "?J A x" for w d A and x :: "u64 \<times> (H_key, H_val) ostore"
  proof -
    obtain s m where x: "x = (s, m)" by (cases x)
    with that have "?F A m" by simp
    then have "\<exists>x'. for_each (?f w d) (one_to 3000) (0, s, m) = Some x' \<and>
        fst x' = word_of_nat 3000 \<and> ?F (A \<union> Pair w ` Pair d ` {1..3000}) (snd (snd x'))" by (rule cust)
    then show ?thesis by (auto simp: x num_customer_per_district_def simp del: upt_Suc)
  qed
  have "\<exists>x'. for_each (?g w) (one_to (num_district_per_warehouse cfg)) x = Some x' \<and>
      ?J (A \<union> (\<Union>d\<in>set (one_to (num_district_per_warehouse cfg)). Pair w ` Pair d ` {1..3000})) x'"
    if "?J A x" for w A x
    by (rule for_each_acc [where J = ?J, OF g that])
  note dist = this
  have "\<exists>x'. for_each (\<lambda>w. for_each (?g w) (one_to (num_district_per_warehouse cfg)))
      (one_to (warehouse_num cfg)) (set_seed0 seed, []) = Some x' \<and>
    ?J ({} \<union> (\<Union>w\<in>set (one_to (warehouse_num cfg)). \<Union>d\<in>set (one_to (num_district_per_warehouse cfg)).
      Pair w ` Pair d ` {1..3000})) x'"
    by (rule for_each_acc [where J = ?J, OF dist]) (simp_all add: filled_Nil)
  moreover have "{} \<union> (\<Union>w\<in>set (one_to (warehouse_num cfg)). \<Union>d\<in>set (one_to (num_district_per_warehouse cfg)).
      Pair w ` Pair d ` {1..3000 :: nat}) = {1..warehouse_num cfg} \<times> {1..num_district_per_warehouse cfg} \<times> {1..3000}"
    by (simp only: set_upt atLeastLessThanSuc_atLeastAtMost) blast
  ultimately show ?thesis
    unfolding load_history_def by (auto simp del: upt_Suc)
qed

section \<open>Orders and their lines\<close>

text \<open>
  What holds of the order tables when the orders \<open>A\<close>, given by warehouse, district and number,
  have been loaded.
\<close>

definition order_range :: "tpcc_cfg \<Rightarrow> (nat \<times> nat \<times> nat) set" where
  "order_range cfg = {1..warehouse_num cfg} \<times> {1..num_district_per_warehouse cfg} \<times> {1..3000}"

definition okey :: "nat \<times> nat \<times> nat \<Rightarrow> O_key" where
  "okey = (\<lambda>(w, d, oid). O_key (word_of_nat w) (word_of_nat d) (word_of_nat oid))"

definition nkey :: "nat \<times> nat \<times> nat \<Rightarrow> NO_key" where
  "nkey = (\<lambda>(w, d, oid). NO_key (word_of_nat w) (word_of_nat d) (word_of_nat oid))"

definition lkey :: "nat \<times> nat \<times> nat \<Rightarrow> byte \<Rightarrow> OL_key" where
  "lkey = (\<lambda>(w, d, oid) n. OL_key (word_of_nat w) (word_of_nat d) (word_of_nat oid) n)"

definition orders_loaded ::
  "(nat \<times> nat \<times> nat) set \<Rightarrow> u64 \<times> u32 \<times> (O_key, O_val) ostore \<times> loader_state \<Rightarrow> bool" where
  "orders_loaded A x \<longleftrightarrow> (case x of (s, ts, m, st) \<Rightarrow>
     filled okey (\<lambda>_ v. 5 \<le> o_ol_cnt v \<and> o_ol_cnt v \<le> 15) A m \<and>
     filled nkey (\<lambda>_ _. True) {a\<in>A. 2101 \<le> snd (snd a)} (temp_no_map st) \<and>
     os_ok (temp_ol_map st) \<and>
     (\<forall>k\<in>os_keys (temp_ol_map st). \<exists>a\<in>A. \<exists>n. k = lkey a n) \<and>
     (\<forall>a\<in>A. \<forall>v n. os_get m (okey a) = Some v \<longrightarrow>
        (lkey a n \<in> os_keys (temp_ol_map st) \<longleftrightarrow> 1 \<le> n \<and> n \<le> o_ol_cnt v)))"

lemma small_words:
  assumes "cfg_ok cfg"
  shows "w \<le> warehouse_num cfg \<Longrightarrow> unat (word_of_nat w :: u16) = w"
    and "d \<le> num_district_per_warehouse cfg \<Longrightarrow> unat (word_of_nat d :: byte) = d"
  using assms by (simp_all add: cfg_ok_def unat_of_nat)

lemma order_keys_inj:
  assumes "cfg_ok cfg" "a \<in> order_range cfg" "b \<in> order_range cfg"
  shows "okey a = okey b \<longleftrightarrow> a = b" "nkey a = nkey b \<longleftrightarrow> a = b" "lkey a n = lkey b m \<longleftrightarrow> a = b \<and> n = m"
proof -
  obtain w d i w' d' i' where ab: "a = (w, d, i)" "b = (w', d', i')" by (metis prod_cases3)
  have r: "w \<le> warehouse_num cfg" "w' \<le> warehouse_num cfg" "d \<le> num_district_per_warehouse cfg"
    "d' \<le> num_district_per_warehouse cfg" "i < 2 ^ 32" "i' < 2 ^ 32"
    using assms(2,3) by (simp_all add: order_range_def ab)
  have "(word_of_nat w :: u16) = word_of_nat w' \<longleftrightarrow> w = w'"
    using small_words(1) [OF assms(1) r(1)] small_words(1) [OF assms(1) r(2)] by metis
  moreover have "(word_of_nat d :: byte) = word_of_nat d' \<longleftrightarrow> d = d'"
    using small_words(2) [OF assms(1) r(3)] small_words(2) [OF assms(1) r(4)] by metis
  moreover have "(word_of_nat i :: u32) = word_of_nat i' \<longleftrightarrow> i = i'"
    using unat_of_nat_u32 [OF r(5)] unat_of_nat_u32 [OF r(6)] by metis
  ultimately show "okey a = okey b \<longleftrightarrow> a = b" "nkey a = nkey b \<longleftrightarrow> a = b" "lkey a n = lkey b m \<longleftrightarrow> a = b \<and> n = m"
    by (auto simp: okey_def nkey_def lkey_def ab)
qed

text \<open>The loop over the lines of one order.\<close>

lemma load_lines_ok:
  assumes "os_ok ol" "unat (cnt :: byte) \<le> 15"
  shows "\<exists>s' ol'. for_each (\<lambda>l_i (s, ol). do {
        (v_ol, s) \<leftarrow> order_line_row w i e s;
        Some (s, emplace ol (OL_key (word_of_nat w) (word_of_nat d) (word_of_nat i) (word_of_nat l_i)) v_ol)
      }) (one_to (unat cnt)) (s, ol) = Some (s', ol') \<and> os_ok ol' \<and>
    os_keys ol' = os_keys ol \<union> lkey (w, d, i) ` {n. 1 \<le> n \<and> n \<le> cnt}"
proof -
  let ?f = "\<lambda>l_i (s, ol). do {
        (v_ol, s) \<leftarrow> order_line_row w i e s;
        Some (s, emplace ol (OL_key (word_of_nat w) (word_of_nat d) (word_of_nat i) (word_of_nat l_i)) v_ol)
      }"
  let ?J = "\<lambda>A x. os_ok (snd x) \<and> os_keys (snd x) = os_keys ol \<union> lkey (w, d, i) ` word_of_nat ` A"
  have "\<exists>x'. for_each ?f (one_to (unat cnt)) (s, ol) = Some x' \<and> ?J ({} \<union> (\<Union>l\<in>set (one_to (unat cnt)). {l})) x'"
  proof (rule for_each_inv [where J = ?J])
    fix l A and x :: "u64 \<times> (OL_key, OL_val) ostore" assume J: "?J A x"
    obtain s m where x: "x = (s, m)" by (cases x)
    from yields_order_line_row [of w i e s] obtain v s' where "order_line_row w i e s = Some (v, s')"
      by (auto simp: yields_def)
    then show "\<exists>x'. ?f l x = Some x' \<and> ?J (A \<union> {l}) x'"
      using J by (auto simp: x emplace_eq lkey_def os_get_None)
  qed (use assms in auto)
  moreover have "word_of_nat ` {1..unat cnt} = {n :: byte. 1 \<le> n \<and> n \<le> cnt}"
  proof (intro set_eqI iffI)
    fix n :: byte assume "n \<in> word_of_nat ` {1..unat cnt}"
    then obtain k where k: "n = word_of_nat k" "1 \<le> k" "k \<le> unat cnt" by auto
    then have "unat n = k" using assms(2) by (simp add: unat_of_nat)
    with k show "n \<in> {n. 1 \<le> n \<and> n \<le> cnt}" by (simp add: word_le_nat_alt)
  next
    fix n :: byte assume "n \<in> {n. 1 \<le> n \<and> n \<le> cnt}"
    then have "unat n \<in> {1..unat cnt}" "n = word_of_nat (unat n)" by (simp_all add: word_le_nat_alt)
    then show "n \<in> word_of_nat ` {1..unat cnt}" by blast
  qed
  moreover have "(\<Union>l\<in>set (one_to (unat cnt)). {l}) = {1..unat cnt}" by auto
  ultimately show ?thesis by (auto simp only: Un_empty_left snd_conv split_paired_Ex)
qed

lemma load_one_order_ok:
  assumes cfg: "cfg_ok cfg" and len: "length c_ids = 3000"
    and a: "(w, d, i) \<in> order_range cfg" "(w, d, i) \<notin> A" "A \<subseteq> order_range cfg"
    and J: "orders_loaded A x"
  shows "\<exists>x'. load_one_order c_ids w d i x = Some x' \<and> orders_loaded (A \<union> {(w, d, i)}) x'"
proof -
  let ?a = "(w, d, i)"
  obtain s ts m st where x: "x = (s, ts, m, st)" by (cases x)
  note J' = J [unfolded orders_loaded_def x prod.case]
  have "i - 1 < length c_ids" using a(1) len by (auto simp: order_range_def)
  from yields_order_row [OF this, of "ts + 1" s] obtain v s1 where
    v: "order_row c_ids i (ts + 1) s = Some (v, s1)" "5 \<le> o_ol_cnt v" "o_ol_cnt v \<le> 15"
    by (auto simp: yields_def)
  then have cnt: "unat (o_ol_cnt v) \<le> 15" by (simp add: word_le_nat_alt)
  have okol: "os_ok (temp_ol_map st)" using J' by simp
  obtain s2 ol where ol: "for_each (\<lambda>l_i (s, ol). do {
        (v_ol, s) \<leftarrow> order_line_row w i (o_entry_d v) s;
        Some (s, emplace ol (OL_key (word_of_nat w) (word_of_nat d) (word_of_nat i) (word_of_nat l_i)) v_ol)
      }) (one_to (unat (o_ol_cnt v))) (s1, temp_ol_map st) = Some (s2, ol)" "os_ok ol"
    "os_keys ol = os_keys (temp_ol_map st) \<union> lkey ?a ` {n. 1 \<le> n \<and> n \<le> o_ol_cnt v}"
    using load_lines_ok [OF okol cnt] by blast
  let ?no = "if 2101 \<le> i then emplace (temp_no_map st) (nkey ?a) \<lparr>no_dummy = var_assign 2 (bytes_of ''a'')\<rparr>
    else temp_no_map st"
  obtain st' where st': "load_one_order c_ids w d i x =
      Some (s2, ts + 1, emplace m (okey ?a) v, st')" "temp_ol_map st' = ol" "temp_no_map st' = ?no"
    using v(1) ol(1) by (cases "2101 \<le> i") (simp_all add: load_one_order_def x Let_def okey_def nkey_def del: upt_Suc)
  have fo: "filled okey (\<lambda>_ v. 5 \<le> o_ol_cnt v \<and> o_ol_cnt v \<le> 15) (A \<union> {?a}) (emplace m (okey ?a) v)"
    using J' v by (intro filled_emplace) simp_all
  have fn: "filled nkey (\<lambda>_ _. True) {b \<in> A \<union> {?a}. 2101 \<le> snd (snd b)} ?no"
  proof (cases "2101 \<le> i")
    case True
    then have "{b \<in> A \<union> {?a}. 2101 \<le> snd (snd b)} = {b \<in> A. 2101 \<le> snd (snd b)} \<union> {?a}" by auto
    with True J' show ?thesis by (simp only: if_True) (intro filled_emplace, simp_all)
  next
    case False
    then have "{b \<in> A \<union> {?a}. 2101 \<le> snd (snd b)} = {b \<in> A. 2101 \<le> snd (snd b)}" by auto
    with False J' show ?thesis by simp
  qed
  have okm: "os_ok m" "os_keys m = okey ` A" using J' by (simp_all add: filled_def)
  have fresh: "os_get m (okey ?a) = None"
  proof -
    have "okey ?a \<notin> okey ` A"
    proof
      assume "okey ?a \<in> okey ` A"
      then obtain b where "b \<in> A" "okey ?a = okey b" by blast
      with a order_keys_inj(1) [OF cfg a(1), of b] show False by auto
    qed
    with okm show ?thesis by (simp add: os_get_None)
  qed
  have nl: "lkey ?a n \<notin> os_keys (temp_ol_map st)" for n
  proof
    assume "lkey ?a n \<in> os_keys (temp_ol_map st)"
    with J' obtain b k where "b \<in> A" "lkey ?a n = lkey b k" by auto
    with a order_keys_inj(3) [OF cfg a(1), of b n k] show False by auto
  qed
  have lines: "lkey b n \<in> os_keys ol \<longleftrightarrow> 1 \<le> n \<and> n \<le> o_ol_cnt u"
    if "b \<in> A \<union> {?a}" "os_get (emplace m (okey ?a) v) (okey b) = Some u" for b n u
  proof (cases "b = ?a")
    case True
    with that(2) fresh okm(1) have "u = v" by (simp add: os_get_emplace)
    with True nl order_keys_inj(3) [OF cfg a(1) a(1)] show ?thesis by (auto simp: ol(3))
  next
    case False
    with that(1) have b: "b \<in> A" "b \<in> order_range cfg" using a(3) by auto
    have "okey b \<noteq> okey ?a" "\<And>k. lkey b n \<noteq> lkey ?a k"
      using False order_keys_inj(1) [OF cfg b(2) a(1)] order_keys_inj(3) [OF cfg b(2) a(1), of n] by auto
    moreover from this that(2) okm(1) have "os_get m (okey b) = Some u" by (simp add: os_get_emplace)
    ultimately show ?thesis using J' b(1) by (auto simp: ol(3))
  qed
  have "orders_loaded (A \<union> {?a}) (s2, ts + 1, emplace m (okey ?a) v, st')"
    unfolding orders_loaded_def prod.case st'(2,3)
  proof (intro conjI fo fn ol(2))
    show "\<forall>k\<in>os_keys ol. \<exists>b\<in>A \<union> {?a}. \<exists>n. k = lkey b n" using J' by (auto simp: ol(3))
    show "\<forall>b\<in>A \<union> {?a}. \<forall>u n. os_get (emplace m (okey ?a) v) (okey b) = Some u \<longrightarrow>
        (lkey b n \<in> os_keys ol \<longleftrightarrow> 1 \<le> n \<and> n \<le> o_ol_cnt u)" using lines by blast
  qed
  with st'(1) show ?thesis by blast
qed

lemma load_order_ok:
  assumes cfg: "cfg_ok cfg" and sh: "mset (shuffle (map word_of_nat [1..<3001])) = mset (map word_of_nat [1..<3001])"
  shows "\<exists>s ts m st'. load_order shuffle cfg seed st = Some (m, st') \<and> orders_loaded (order_range cfg) (s, ts, m, st')"
proof -
  let ?c = "shuffle (map word_of_nat (one_to (unat num_customer_per_district)))"
  have len: "length ?c = 3000"
    using arg_cong [OF sh, of size] by (simp add: num_customer_per_district_def)
  let ?J = "\<lambda>A x. A \<subseteq> order_range cfg \<and> orders_loaded A x"
  let ?wd = "\<lambda>w d. {w} \<times> {d} \<times> {1..3000::nat}" and ?w = "\<lambda>w. {w} \<times> {1..num_district_per_warehouse cfg} \<times> {1..3000::nat}"
  have c3000: "unat num_customer_per_district = 3000" by (simp add: num_customer_per_district_def)
  let ?fd = "\<lambda>w d. for_each (load_one_order ?c w d) (one_to (unat num_customer_per_district))"
  have d: "\<exists>x'. ?fd w d x = Some x' \<and> ?J (A \<union> ?wd w d) x'"
    if h: "w \<in> {1..warehouse_num cfg}" "d \<in> {1..num_district_per_warehouse cfg}" "A \<inter> ?wd w d = {}" "?J A x" for w d A x
  proof -
    have "\<exists>x'. ?fd w d x = Some x' \<and>
        ?J (A \<union> (\<Union>i\<in>set (one_to (unat num_customer_per_district)). {(w, d, i)})) x'"
    proof (rule for_each_inv [where J = ?J])
      fix i A x assume i: "i \<in> set (one_to (unat num_customer_per_district))" "A \<inter> {(w, d, i)} = {}" "?J A x"
      then have "(w, d, i) \<in> order_range cfg" using h by (auto simp: order_range_def c3000)
      with load_one_order_ok [OF cfg len this, of A x] i(2,3)
      show "\<exists>x'. load_one_order ?c w d i x = Some x' \<and> ?J (A \<union> {(w, d, i)}) x'" by auto
    qed (use h in \<open>auto simp: c3000\<close>)
    moreover have "(\<Union>i\<in>set (one_to (unat num_customer_per_district)). {(w, d, i)}) = ?wd w d"
      by (auto simp: c3000)
    ultimately show ?thesis by (simp only:)
  qed
  let ?fw = "\<lambda>w. for_each (?fd w) (one_to (num_district_per_warehouse cfg))"
  have w: "\<exists>x'. ?fw w x = Some x' \<and> ?J (A \<union> ?w w) x'"
    if h: "w \<in> {1..warehouse_num cfg}" "A \<inter> ?w w = {}" "?J A x" for w A x
  proof -
    have "\<exists>x'. ?fw w x = Some x' \<and> ?J (A \<union> (\<Union>d\<in>set (one_to (num_district_per_warehouse cfg)). ?wd w d)) x'"
    proof (rule for_each_inv [where J = ?J])
      fix d A x assume "d \<in> set (one_to (num_district_per_warehouse cfg))" "A \<inter> ?wd w d = {}" "?J A x"
      with h(1) show "\<exists>x'. ?fd w d x = Some x' \<and> ?J (A \<union> ?wd w d) x'" by (intro d) auto
    qed (use h in auto)
    moreover have "(\<Union>d\<in>set (one_to (num_district_per_warehouse cfg)). ?wd w d) = ?w w" by auto
    ultimately show ?thesis by (simp only:)
  qed
  let ?st = "st\<lparr>temp_no_map := [], temp_ol_map := [], temp_order_index_map := []\<rparr>"
  have range: "{} \<union> (\<Union>w\<in>set (one_to (warehouse_num cfg)). ?w w) = order_range cfg"
    by (auto simp: order_range_def)
  have loop: "\<exists>x'. for_each ?fw (one_to (warehouse_num cfg)) (set_seed0 seed, 0, [], ?st) = Some x' \<and>
      ?J ({} \<union> (\<Union>w\<in>set (one_to (warehouse_num cfg)). ?w w)) x'"
    if "orders_loaded {} (set_seed0 seed, 0, [], ?st)"
  proof (rule for_each_inv [where J = ?J])
    fix v A x assume "v \<in> set (one_to (warehouse_num cfg))" "A \<inter> ?w v = {}" "?J A x"
    then show "\<exists>x'. ?fw v x = Some x' \<and> ?J (A \<union> ?w v) x'" by (intro w) auto
  qed (use that in auto)
  have "orders_loaded {} (set_seed0 seed, 0, [], ?st)" by (simp add: orders_loaded_def filled_def)
  from loop [OF this] obtain s ts m st' where
    "for_each ?fw (one_to (warehouse_num cfg)) (set_seed0 seed, 0, [], ?st) = Some (s, ts, m, st')"
    "orders_loaded (order_range cfg) (s, ts, m, st')" unfolding range by (auto simp only: split_paired_Ex)
  then show ?thesis by (simp add: load_order_def Let_def del: upt_Suc) blast
qed

section \<open>Copies and bulk loads\<close>

lemma os_ok_appendD: "os_ok (xs @ ys) \<Longrightarrow> os_ok xs"
  by (simp add: os_ok_def sorted_wrt_append)

lemma os_insert_last: "os_ok (m @ [(k, v)]) \<Longrightarrow> os_insert m k v = m @ [(k, v)]"
proof (induction m)
  case (Cons x m)
  obtain k' v' where x: "x = (k', v')" by (cases x)
  have "k' < k" "os_ok (m @ [(k, v)])" using Cons.prems by (auto simp: x os_ok_def)
  with Cons.IH show ?case by (auto simp: x)
qed simp

lemma os_get_last_None: "os_ok (m @ [(k, v)]) \<Longrightarrow> os_get m k = None"
  by (auto simp: os_get_None os_ok_def os_keys_def sorted_wrt_append)

lemma copy_map: "os_ok (acc @ m) \<Longrightarrow>
    for_each (\<lambda>(k, v) kvmap. Some (emplace kvmap k v)) m acc = Some (acc @ m)"
proof (induction m arbitrary: acc)
  case (Cons x m)
  obtain k v where x: "x = (k, v)" by (cases x)
  have "os_ok (acc @ [(k, v)])" using Cons.prems os_ok_appendD [of "acc @ [(k, v)]" m] by (simp add: x)
  then have "emplace acc k v = acc @ [(k, v)]"
    by (simp add: emplace_eq os_ok_appendD os_insert_last os_get_last_None)
  with Cons.IH [of "acc @ [(k, v)]"] Cons.prems show ?case by (simp add: x)
qed simp

context masstree_kv
begin

lemma insert_all_repr: "repr t acc \<Longrightarrow> os_ok (acc @ m) \<Longrightarrow>
    \<exists>t'. insert_all (MasstreeKV_insert q enc) m t = Some t' \<and> repr t' (acc @ m)"
proof (induction m arbitrary: t acc)
  case Nil
  then show ?case by (simp add: insert_all_def)
next
  case (Cons x m)
  obtain k v where x: "x = (k, v)" by (cases x)
  have ok: "os_ok (acc @ [(k, v)])" using Cons.prems(2) os_ok_appendD [of "acc @ [(k, v)]" m] by (simp add: x)
  obtain t1 where t1: "MasstreeKV_insert q enc t k v = Inr (t1, True)" "repr t1 (acc @ [(k, v)])"
    using insert_repr [OF Cons.prems(1), of k v] by (auto simp: os_insert_last [OF ok])
  with Cons.IH [OF t1(2)] Cons.prems(2) show ?case by (auto simp: x insert_all_def)
qed

text \<open>Loading a map into a new wrapper gives an index that holds exactly the map.\<close>

lemma load_repr:
  assumes "inv (create cxl)" "abs (create cxl) = os_empty" "load seed st = Some (m, st')" "os_ok m"
  shows "\<exists>t. load_masstree_kv_data (MasstreeKV_new create) (MasstreeKV_insert q enc) cxl load seed st
      = Some (t, st') \<and> repr t m"
proof -
  have "repr (MasstreeKV_new create cxl) []"
    using assms(1,2) by (simp add: repr_def MasstreeKV_new_def os_empty_def)
  from insert_all_repr [OF this, of m] assms(3,4) show ?thesis
    by (auto simp: load_masstree_kv_data_def)
qed

end

lemma insert_all_os: "os_ok (acc @ m) \<Longrightarrow> insert_all os_put m acc = Some (acc @ m)"
proof (induction m arbitrary: acc)
  case (Cons x m)
  obtain k v where x: "x = (k, v)" by (cases x)
  have "os_ok (acc @ [(k, v)])" using Cons.prems os_ok_appendD [of "acc @ [(k, v)]" m] by (simp add: x)
  with Cons.IH [of "acc @ [(k, v)]"] Cons.prems show ?case
    by (simp add: x insert_all_def os_put_def os_insert_last)
qed (simp add: insert_all_def)

lemma load_os:
  assumes "load seed st = Some (m, st')" "os_ok m"
  shows "load_masstree_kv_data (\<lambda>_. os_empty) os_put cxl load seed st = Some (m, st')"
  using assms insert_all_os [of "[]" m] by (simp add: load_masstree_kv_data_def os_empty_def)

section \<open>The loaded database\<close>

lemma length_os: "os_ok m \<Longrightarrow> length m = card (os_keys m)"
  by (simp add: os_keys_def os_ok_def strict_sorted_iff distinct_map card_image distinct_card)

lemma orders_loaded_ol_length:
  assumes cfg: "cfg_ok cfg" and J: "orders_loaded (order_range cfg) (s, ts, m, st)"
  shows "3000 < length (temp_ol_map st)"
proof -
  note J' = J [unfolded orders_loaded_def prod.case]
  let ?f = "\<lambda>(i, n). lkey (1, 1, i) n" and ?A = "{1..3000 :: nat} \<times> {1, 2 :: byte}"
  have r: "(1, 1, i) \<in> order_range cfg" if "i \<in> {1..3000}" for i
    using that cfg by (auto simp: order_range_def cfg_ok_def)
  have sub: "?f x \<in> os_keys (temp_ol_map st)" if x: "x \<in> ?A" for x
  proof -
    obtain i n where i: "x = (i, n)" "(1, 1, i) \<in> order_range cfg" "n = 1 \<or> n = 2" using x r by auto
    have "filled okey (\<lambda>_ v. 5 \<le> o_ol_cnt v \<and> o_ol_cnt v \<le> 15) (order_range cfg) m" using J' by simp
    from filled_get [OF this i(2)] obtain v where "os_get m (okey (1, 1, i)) = Some v" "5 \<le> o_ol_cnt v"
      by blast
    moreover from this have "n \<le> o_ol_cnt v" "1 \<le> n" using i(3) by (auto intro: order_trans [of _ 5])
    ultimately show ?thesis using J' i by simp
  qed
  have inj: "inj_on ?f ?A"
  proof (rule inj_onI, clarify)
    fix i n j k assume "i \<in> {1..3000}" "j \<in> {1..3000}" "lkey (1, 1, i) n = lkey (1, 1, j) k"
    with order_keys_inj(3) [OF cfg r r, of i j n k] show "i = j \<and> n = k" by simp
  qed
  have "card ?A \<le> card (os_keys (temp_ol_map st))"
  proof (rule card_inj_on_le [OF inj])
    show "?f ` ?A \<subseteq> os_keys (temp_ol_map st)" by (rule image_subsetI) (rule sub)
  qed (simp add: os_keys_def)
  with J' show ?thesis by (simp add: length_os card_cartesian_product)
qed

lemma loaded_inv:
  assumes cfg: "cfg_ok cfg"
    and st: "filled (\<lambda>(w, i). S_key (word_of_nat w) (word_of_nat i)) (\<lambda>_ v. qty_ok (s_quantity v))
      ({1..warehouse_num cfg} \<times> {1..100000}) (table_stock db)"
    and it: "filled (\<lambda>i. I_key (word_of_nat i)) (\<lambda>_ _. True) {1..100000} (table_item db)"
    and di: "filled (\<lambda>(w, d). D_key (word_of_nat w) (word_of_nat d)) (\<lambda>_ v. d_next_o_id v = 3001 \<and> d_ytd v = 30000)
      ({1..warehouse_num cfg} \<times> {1..num_district_per_warehouse cfg}) (table_district db)"
    and or: "orders_loaded (order_range cfg) (s, ts, table_order db, ld)"
    and no: "table_new_order db = temp_no_map ld" and ol: "table_order_line db = temp_ol_map ld"
    and ok: "os_ok (table_warehouse db)" "os_ok (table_customer db)" "os_ok (table_history db)"
    and hack: "hack_ok cfg db"
  shows "tpcc_inv cfg db" and "wh_ok cfg W \<Longrightarrow> di_ok cfg D \<Longrightarrow> next_o_id db W D = 3001"
    and "wh_ok cfg W \<Longrightarrow> di_ok cfg D \<Longrightarrow> 2101 \<le> x \<Longrightarrow> x < 3000 \<Longrightarrow>
      os_get (table_new_order db) (NO_key W D x) \<noteq> None"
proof -
  note or' = or [unfolded orders_loaded_def prod.case]
  have nx: "next_o_id db W D = 3001" "os_get (table_district db) (D_key W D) \<noteq> None"
    if "wh_ok cfg W" "di_ok cfg D" for W D
    using filled_get [OF di, of "(unat W, unat D)"] that by (auto simp: next_o_id_def wh_ok_def di_ok_def)
  from nx(1) show "wh_ok cfg W \<Longrightarrow> di_ok cfg D \<Longrightarrow> next_o_id db W D = 3001" .
  let ?t = "\<lambda>W D oid. (unat (W :: u16), unat (D :: byte), unat (oid :: u32))"
  have k: "okey (?t W D oid) = O_key W D oid" "nkey (?t W D oid) = NO_key W D oid"
    "lkey (?t W D oid) n = OL_key W D oid n" for W D oid n
    by (simp_all add: okey_def nkey_def lkey_def)
  have b: "a = ?t W D oid" if "a \<in> order_range cfg"
    "okey a = O_key W D oid \<or> nkey a = NO_key W D oid \<or> lkey a m = OL_key W D oid n" for a W D oid n m
    using that small_words [OF cfg] by (auto simp: order_range_def okey_def nkey_def lkey_def unat_of_nat)
  have keys: "os_keys (table_order db) = okey ` order_range cfg"
    "os_keys (table_new_order db) = nkey ` {a \<in> order_range cfg. 2101 \<le> snd (snd a)}"
    using or' by (simp_all add: filled_def no)
  show "os_get (table_new_order db) (NO_key W D x) \<noteq> None"
    if "wh_ok cfg W" "di_ok cfg D" "2101 \<le> x" "x < 3000"
  proof -
    have "?t W D x \<in> {a \<in> order_range cfg. 2101 \<le> snd (snd a)}"
      using that by (auto simp: order_range_def wh_ok_def di_ok_def word_le_nat_alt word_less_nat_alt)
    then have "nkey (?t W D x) \<in> os_keys (table_new_order db)" by (simp only: keys imageI)
    then show ?thesis by (simp only: k os_get_None not_not)
  qed
  have lk: "\<forall>k\<in>os_keys (table_order_line db). \<exists>a\<in>order_range cfg. \<exists>n. k = lkey a n"
    using or' by (simp add: ol)
  have T: "tables_ok db"
    using ok st it di or' by (simp add: tables_ok_def filled_def no ol)
  have "items_ok db"
    unfolding items_ok_def
  proof (intro allI impI)
    fix i :: u32 assume "1 \<le> i \<and> i \<le> 100000"
    then have "unat i \<in> {1..100000}" by (simp add: word_le_nat_alt)
    from filled_get [OF it this] show "os_get (table_item db) (I_key (ucast i)) \<noteq> None" by auto
  qed
  moreover have "stock_ok cfg db"
    unfolding stock_ok_def
  proof (intro allI impI)
    fix W and i :: u32 assume "wh_ok cfg W \<and> 1 \<le> i \<and> i \<le> 100000"
    then have "(unat W, unat i) \<in> {1..warehouse_num cfg} \<times> {1..100000}"
      by (simp add: word_le_nat_alt wh_ok_def)
    from filled_get [OF st this]
    show "\<exists>v. os_get (table_stock db) (S_key W i) = Some v \<and> qty_ok (s_quantity v)" by auto
  qed
  moreover have "districts_ok cfg db" using nx(2) by (simp add: districts_ok_def)
  moreover have "ids_bounded cfg db"
    unfolding ids_bounded_def
  proof (intro allI impI)
    fix W D and oid :: u32 assume h: "wh_ok cfg W \<and> di_ok cfg D \<and> next_o_id db W D < oid"
    then have out: "?t W D oid \<notin> order_range cfg" using nx(1) by (auto simp: order_range_def word_less_nat_alt)
    have "O_key W D oid \<notin> os_keys (table_order db)" "NO_key W D oid \<notin> os_keys (table_new_order db)"
      using b [of _ W D oid] out by (auto simp: keys)
    moreover have "OL_key W D oid n \<notin> os_keys (table_order_line db)" for n
    proof
      assume "OL_key W D oid n \<in> os_keys (table_order_line db)"
      with lk obtain a m where "a \<in> order_range cfg" "lkey a m = OL_key W D oid n" by metis
      with b [of a W D oid m n] out show False by blast
    qed
    ultimately show "os_get (table_order db) (O_key W D oid) = None \<and>
        os_get (table_new_order db) (NO_key W D oid) = None \<and>
        (\<forall>n. os_get (table_order_line db) (OL_key W D oid n) = None)" by (simp add: os_get_None)
  qed
  moreover have "lines_ok cfg db"
    unfolding lines_ok_def
  proof (intro allI impI)
    fix W D oid v n
    assume h: "wh_ok cfg W \<and> di_ok cfg D \<and> os_get (table_order db) (O_key W D oid) = Some v"
    then have "O_key W D oid \<in> os_keys (table_order db)" by (auto dest: os_get_Some_keys)
    then have "?t W D oid \<in> order_range cfg" using b [of _ W D oid] by (auto simp: keys)
    with or' h have "lkey (?t W D oid) n \<in> os_keys (temp_ol_map ld) \<longleftrightarrow> 1 \<le> n \<and> n \<le> o_ol_cnt v"
      by (metis k(1))
    then show "os_get (table_order_line db) (OL_key W D oid n) \<noteq> None \<longleftrightarrow> 1 \<le> n \<and> n \<le> o_ol_cnt v"
      by (simp only: k os_get_None ol not_not)
  qed
  moreover have "new_orders_ok cfg db"
    unfolding new_orders_ok_def
  proof (intro allI impI)
    fix W D oid assume "wh_ok cfg W \<and> di_ok cfg D \<and> os_get (table_new_order db) (NO_key W D oid) \<noteq> None"
    then have "?t W D oid \<in> order_range cfg" using b [of _ W D oid] by (auto simp: keys os_get_None)
    then have "okey (?t W D oid) \<in> os_keys (table_order db)" by (simp only: keys imageI)
    then show "os_get (table_order db) (O_key W D oid) \<noteq> None" by (simp only: k os_get_None not_not)
  qed
  ultimately show "tpcc_inv cfg db" using T hack by (simp add: tpcc_inv_def)
qed

lemma filled_ok: "filled key P A m \<Longrightarrow> os_ok m"
  by (simp add: filled_def)

lemma hack_loaded:
  "pending_new_order_per_dis db = hack_pending cfg \<Longrightarrow> latest_order_id_per_customer db = hack_latest cfg \<Longrightarrow>
   hack_ok cfg db"
  by (simp add: hack_ok_def hack_pending_def hack_latest_def num_customer_per_district_def)

lemma pending_hack:
  assumes "warehouse_in cfg w" "district_in cfg d" "pending_new_order_per_dis db = hack_pending cfg"
  shows "pending_of db w d = 3000"
proof -
  have "w \<noteq> 0" "d \<noteq> 0" using assms(1,2) by (auto simp: warehouse_in_def district_in_def)
  then have "unat (w - 1) = unat w - 1" "unat (d - 1) = unat d - 1" by (simp_all add: unat_minus_one)
  moreover have "unat w - 1 < warehouse_num cfg" "unat d - 1 < num_district_per_warehouse cfg"
    using assms(1,2) by (auto simp: warehouse_in_def district_in_def)
  ultimately show ?thesis by (simp add: pending_of_def assms(3) hack_pending_def)
qed

text \<open>
  What \<open>prepare_kvs\<close> leaves in the nine tables: their keys exactly, and the fields that are not
  random.
\<close>

definition populated :: "tpcc_cfg \<Rightarrow> tpcc_db \<Rightarrow> bool" where
  "populated cfg db \<longleftrightarrow>
     (let districts = {1..warehouse_num cfg} \<times> {1..num_district_per_warehouse cfg};
          customers = {1..warehouse_num cfg} \<times> {1..num_district_per_warehouse cfg} \<times> {1..3000}
      in filled (\<lambda>i. W_key (word_of_nat i)) (\<lambda>_ v. w_ytd v = 300000) {1..warehouse_num cfg} (table_warehouse db) \<and>
        filled (\<lambda>(w, d). D_key (word_of_nat w) (word_of_nat d)) (\<lambda>_ v. d_next_o_id v = 3001 \<and> d_ytd v = 30000)
          districts (table_district db) \<and>
        filled ckey (\<lambda>_ v. c_balance v = -10 \<and> c_ytd_payment v = 10 \<and> c_payment_cnt v = 1) customers
          (table_customer db) \<and>
        filled hkey (\<lambda>_ v. h_amount v = 10) customers (table_history db) \<and>
        filled (\<lambda>i. I_key (word_of_nat i)) (\<lambda>_ _. True) {1..100000} (table_item db) \<and>
        filled (\<lambda>(w, i). S_key (word_of_nat w) (word_of_nat i)) (\<lambda>_ v. qty_ok (s_quantity v))
          ({1..warehouse_num cfg} \<times> {1..100000}) (table_stock db) \<and>
        filled okey (\<lambda>_ v. 5 \<le> o_ol_cnt v \<and> o_ol_cnt v \<le> 15) (order_range cfg) (table_order db) \<and>
        filled nkey (\<lambda>_ _. True) {a \<in> order_range cfg. 2101 \<le> snd (snd a)} (table_new_order db) \<and>
        os_keys (table_order_line db) = {lkey a n | a n v. a \<in> order_range cfg \<and>
          os_get (table_order db) (okey a) = Some v \<and> 1 \<le> n \<and> n \<le> o_ol_cnt v})"

lemma order_lines_loaded:
  assumes "orders_loaded A (s, ts, m, ld)"
  shows "os_keys (temp_ol_map ld) = {lkey a n | a n v. a \<in> A \<and> os_get m (okey a) = Some v \<and> 1 \<le> n \<and> n \<le> o_ol_cnt v}"
proof -
  note J = assms [unfolded orders_loaded_def prod.case]
  have f: "filled okey (\<lambda>_ v. 5 \<le> o_ol_cnt v \<and> o_ol_cnt v \<le> 15) A m" using J by blast
  have "\<exists>a n v. k = lkey a n \<and> a \<in> A \<and> os_get m (okey a) = Some v \<and> 1 \<le> n \<and> n \<le> o_ol_cnt v"
    if k: "k \<in> os_keys (temp_ol_map ld)" for k
  proof -
    obtain a n where a: "a \<in> A" "k = lkey a n" using J k by blast
    from filled_get [OF f a(1)] obtain v where v: "os_get m (okey a) = Some v" by blast
    have "1 \<le> n \<and> n \<le> o_ol_cnt v" using J a k v by blast
    with a v show ?thesis by blast
  qed
  moreover have "lkey a n \<in> os_keys (temp_ol_map ld)"
    if "a \<in> A" "os_get m (okey a) = Some v" "1 \<le> n" "n \<le> o_ol_cnt v" for a n v
    using J that by blast
  ultimately show ?thesis by blast
qed

lemma prepare_kvs_rows:
  assumes cfg: "cfg_ok cfg" and sh: "mset (shuffle (map word_of_nat [1..<3001])) = mset (map word_of_nat [1..<3001])"
  shows "\<exists>db st' s ts ld. prepare_kvs shuffle cxl cfg st = Some (db, st') \<and>
    (tpcc_inv cfg db \<and> counters_below cfg 3001 db \<and> backlog_ok cfg db) \<and> populated cfg db \<and>
    (\<forall>W D. wh_ok cfg W \<and> di_ok cfg D \<longrightarrow> next_o_id db W D = 3001) \<and>
    (\<forall>w d. warehouse_in cfg w \<and> district_in cfg d \<longrightarrow> pending_of db w d = 3000) \<and>
    filled (\<lambda>i. W_key (word_of_nat i)) (\<lambda>_ v. w_ytd v = 300000) {1..warehouse_num cfg} (table_warehouse db) \<and>
    filled ckey (\<lambda>_ v. c_balance v = -10 \<and> c_ytd_payment v = 10 \<and> c_payment_cnt v = 1) ({1..warehouse_num cfg} \<times> {1..num_district_per_warehouse cfg} \<times> {1..3000})
      (table_customer db) \<and>
    orders_loaded (order_range cfg) (s, ts, table_order db, ld) \<and>
    table_new_order db = temp_no_map ld \<and> table_order_line db = temp_ol_map ld"
proof -
  obtain t_w where w: "load_warehouse cfg 9394 st = Some (t_w, st)"
    "filled (\<lambda>i. W_key (word_of_nat i)) (\<lambda>_ v. w_ytd v = 300000) {1..warehouse_num cfg} t_w"
    using load_warehouse_ok by blast
  obtain t_d where d: "load_district cfg 129856349 st = Some (t_d, st)"
    "filled (\<lambda>(w, d). D_key (word_of_nat w) (word_of_nat d)) (\<lambda>_ v. d_next_o_id v = 3001 \<and> d_ytd v = 30000)
      ({1..warehouse_num cfg} \<times> {1..num_district_per_warehouse cfg}) t_d"
    using load_district_ok by blast
  obtain t_c st1 where c: "load_customer cfg 923587856425 st = Some (t_c, st1)"
    "filled ckey (\<lambda>_ v. c_balance v = -10 \<and> c_ytd_payment v = 10 \<and> c_payment_cnt v = 1) ({1..warehouse_num cfg} \<times> {1..num_district_per_warehouse cfg} \<times> {1..3000}) t_c"
    using load_customer_ok by blast
  obtain t_h where h: "load_history cfg 923587856425 st1 = Some (t_h, st1)"
    "filled hkey (\<lambda>_ v. h_amount v = 10) ({1..warehouse_num cfg} \<times> {1..num_district_per_warehouse cfg} \<times> {1..3000}) t_h"
    using load_history_ok by blast
  obtain t_i where i: "load_item 235443 st1 = Some (t_i, st1)"
    "filled (\<lambda>i. I_key (word_of_nat i)) (\<lambda>_ _. True) {1..100000} t_i"
    using load_item_ok by blast
  obtain t_s where s: "load_stock cfg 89785943 st1 = Some (t_s, st1)"
    "filled (\<lambda>(w, i). S_key (word_of_nat w) (word_of_nat i)) (\<lambda>_ v. qty_ok (s_quantity v))
      ({1..warehouse_num cfg} \<times> {1..100000}) t_s"
    using load_stock_ok by blast
  obtain sd ts t_o st2 where o: "load_order shuffle cfg 2343352 st1 = Some (t_o, st2)"
    "orders_loaded (order_range cfg) (sd, ts, t_o, st2)"
    using load_order_ok [of cfg shuffle, OF cfg sh] by blast
  note o' = o(2) [unfolded orders_loaded_def prod.case]
  have ok: "os_ok t_o" "os_ok (temp_no_map st2)" "os_ok (temp_ol_map st2)"
    using o' by (auto intro: filled_ok)
  have "(1, 1, 3000) \<in> order_range cfg" using cfg by (auto simp: order_range_def cfg_ok_def)
  then have "nkey (1, 1, 3000) \<in> os_keys (temp_no_map st2)" using o' by (simp add: filled_def)
  then have "temp_no_map st2 \<noteq> []" by auto
  then have no: "load_new_order 2343352 st2 = Some (temp_no_map st2, st2\<lparr>temp_no_map := []\<rparr>)"
    using copy_map [of "[]" "temp_no_map st2"] ok(2) by (simp add: load_new_order_def assertO_def)
  have ol: "load_online_order 2343352 (st2\<lparr>temp_no_map := []\<rparr>) =
      Some (temp_ol_map st2, st2\<lparr>temp_no_map := [], temp_ol_map := []\<rparr>)"
    using copy_map [of "[]" "temp_ol_map st2"] ok(3) orders_loaded_ol_length [OF cfg o(2)]
    by (simp add: load_online_order_def assertO_def)
  let ?db = "\<lparr>table_warehouse = t_w, table_district = t_d, table_customer = t_c, table_history = t_h,
            table_item = t_i, table_stock = t_s, table_order = t_o, table_new_order = temp_no_map st2,
            table_order_line = temp_ol_map st2, pending_new_order_per_dis = hack_pending cfg,
            latest_order_id_per_customer = hack_latest cfg\<rparr>"
  have "prepare_kvs shuffle cxl cfg st = Some (?db, st2\<lparr>temp_no_map := [], temp_ol_map := []\<rparr>)"
    unfolding prepare_kvs_def
    by (simp only: bind.bind_lunit prod.case
      load_os [where load = "load_warehouse cfg", OF w(1) filled_ok [OF w(2)]]
      load_os [where load = "load_district cfg", OF d(1) filled_ok [OF d(2)]]
      load_os [where load = "load_customer cfg", OF c(1) filled_ok [OF c(2)]] load_os [where load = "load_history cfg", OF h(1) filled_ok [OF h(2)]]
      load_os [where load = load_item, OF i(1) filled_ok [OF i(2)]]
      load_os [where load = "load_stock cfg", OF s(1) filled_ok [OF s(2)]]
      load_os [where load = "load_order shuffle cfg", OF o(1) ok(1)]
      load_os [where load = load_new_order, OF no ok(2)]
      load_os [where load = load_online_order, OF ol ok(3)])
  moreover have inv: "tpcc_inv cfg ?db" and nx: "\<And>W D. wh_ok cfg W \<Longrightarrow> di_ok cfg D \<Longrightarrow> next_o_id ?db W D = 3001"
    using loaded_inv [OF cfg, where db = ?db and ld = st2 and s = sd and ts = ts]
      w(2) d(2) c(2) h(2) i(2) s(2) o(2) by (simp_all add: filled_ok hack_loaded)
  moreover have "os_get (table_new_order ?db) (NO_key W D x) \<noteq> None"
    if "wh_ok cfg W" "di_ok cfg D" "2101 \<le> x" "x < 3000" for W D x
    using loaded_inv(3) [OF cfg, where db = ?db and ld = st2 and s = sd and ts = ts, OF _ _ _ _ _ _ _ _ _ _ that]
      w(2) d(2) c(2) h(2) i(2) s(2) o(2) by (simp add: filled_ok hack_loaded)
  moreover have pending: "pending_of ?db w d = 3000" if "warehouse_in cfg w" "district_in cfg d" for w d
    using pending_hack [OF that, of ?db] by simp
  ultimately have "prepare_kvs shuffle cxl cfg st = Some (?db, st2\<lparr>temp_no_map := [], temp_ol_map := []\<rparr>)"
    "tpcc_inv cfg ?db \<and> counters_below cfg 3001 ?db \<and> backlog_ok cfg ?db"
    using wh_ok_ucast [OF cfg] di_ok_ucast [OF cfg] by (simp_all add: counters_below_def backlog_ok_def)
  moreover have "populated cfg ?db"
    using w(2) d(2) c(2) h(2) i(2) s(2) o' order_lines_loaded [OF o(2)] by (simp add: populated_def Let_def)
  moreover note nx pending
  ultimately show ?thesis
    using w(2) c(2) o(2)
    by (intro exI [of _ ?db] exI [of _ "st2\<lparr>temp_no_map := [], temp_ol_map := []\<rparr>"] exI [of _ sd] exI [of _ ts]
      exI [of _ st2] conjI) simp_all
qed

lemma prepare_kvs_ok:
  assumes "cfg_ok cfg" "mset (shuffle (map word_of_nat [1..<3001])) = mset (map word_of_nat [1..<3001])"
  shows "\<exists>db st'. prepare_kvs shuffle cxl cfg st = Some (db, st') \<and> tpcc_inv cfg db \<and>
    counters_below cfg 3001 db \<and> backlog_ok cfg db"
  using prepare_kvs_rows [of cfg shuffle cxl st, OF assms] by blast

end
