(* ===== verification/TpccDriver.thy ===== *)
theory TpccDriver
  imports TpccLoaded HelperModel
begin

text \<open>
  The driver of the TPC-C benchmark, \<open>benchmark/real_world/tpcc.cpp\<close>: the latency statistics, the
  distribution of the warehouses over the workers, the transaction mix and the loop of a worker.
  The transactions of concurrent workers are interleaved transaction by transaction: a schedule
  is the list of the workers in the order in which they run a transaction, with the cycle count
  each one measures. Each worker first binds itself to a core, which aborts the program for more
  than 55 workers.
\<close>

section \<open>Latency statistics\<close>

record LatencyStats =
  latencies :: "u64 list"
  total_latency :: u64
  lat_count :: u64

definition LatencyStats_new :: LatencyStats where
  "LatencyStats_new = \<lparr>latencies = [], total_latency = 0, lat_count = 0\<rparr>"

definition add_latency :: "u64 \<Rightarrow> LatencyStats \<Rightarrow> LatencyStats" where
  "add_latency latency_ns st =
     st\<lparr>latencies := latencies st @ [latency_ns], total_latency := total_latency st + latency_ns,
        lat_count := lat_count st + 1\<rparr>"

definition get_avg :: "LatencyStats \<Rightarrow> rat" where
  "get_avg st =
     (if 0 < lat_count st
      then f64 (f64 (of_nat (unat (total_latency st))) / f64 (of_nat (unat (lat_count st)))) else 0)"

text \<open>The index is computed in \<open>double\<close> and truncated; \<open>None\<close> is a read outside the vector.\<close>

definition percentile_index :: "rat \<Rightarrow> nat \<Rightarrow> nat" where
  "percentile_index percentile n = nat \<lfloor>f64 (f64 (percentile / 100) * f64 (of_nat (n - 1)))\<rfloor>"

definition get_percentile :: "rat \<Rightarrow> LatencyStats \<Rightarrow> u64 option" where
  "get_percentile percentile st =
     (if latencies st = [] then Some 0
      else vec_get (sort (latencies st)) (percentile_index percentile (length (latencies st))))"

definition CPU_CYCLE_PER_NANOSEC :: rat where
  "CPU_CYCLE_PER_NANOSEC = f64 (29 / 10)"

definition cycles_to_ns :: "u64 \<Rightarrow> u64" where
  "cycles_to_ns cycles = word_of_int \<lfloor>f64 (f64 (of_nat (unat cycles)) / CPU_CYCLE_PER_NANOSEC)\<rfloor>"

section \<open>Workers\<close>

datatype txn_kind = NewOrder | Payment | Delivery | OrderStatus | StockLevel

text \<open>The cycles, the count and the statistics of one kind of transaction.\<close>

record txn_counters =
  txn_cycles :: u64
  txn_tput :: u64
  txn_stats :: LatencyStats

definition txn_counters_new :: txn_counters where
  "txn_counters_new = \<lparr>txn_cycles = 0, txn_tput = 0, txn_stats = LatencyStats_new\<rparr>"

text \<open>\<open>WorkerThreadParam\<close>, with the worker's generator and its \<open>GetCurrentTimeMillis\<close> counter.\<close>

record worker =
  throughput :: u64
  w_id_start :: u32
  w_id_end :: u32
  worker_seed :: u64
  worker_tl_hack :: u32
  counters :: "txn_kind \<Rightarrow> txn_counters"

text \<open>\<open>begin_i\<close> and \<open>end_i\<close> of each worker; \<open>k\<close> workers are still to be given a share.\<close>

fun worker_shares :: "nat \<Rightarrow> nat \<Rightarrow> nat \<Rightarrow> nat \<Rightarrow> (nat \<times> nat) list" where
  "worker_shares 0 w_num_per_thread trailing prev_end_i = []"
| "worker_shares (Suc k) w_num_per_thread trailing prev_end_i =
     (let begin_i = prev_end_i;
          end_i = begin_i + w_num_per_thread;
          (end_i, trailing) = (if trailing > 0 then (end_i + 1, trailing - 1) else (end_i, trailing))
      in (begin_i, end_i) # worker_shares k w_num_per_thread trailing end_i)"

definition worker_new :: "u64 \<Rightarrow> nat \<times> nat \<Rightarrow> worker" where
  "worker_new now share =
     \<lparr>throughput = 0, w_id_start = word_of_nat (fst share) + 1, w_id_end = word_of_nat (snd share) + 1,
      worker_seed = set_seed0 now, worker_tl_hack = tl_hack_init, counters = (\<lambda>_. txn_counters_new)\<rparr>"

text \<open>
  The workers of \<open>fg_n\<close> threads; \<open>now i\<close> is the \<open>time(nullptr)\<close>, in seconds, with which worker
  \<open>i\<close> is seeded.
\<close>

definition make_workers :: "tpcc_cfg \<Rightarrow> nat \<Rightarrow> (nat \<Rightarrow> u64) \<Rightarrow> worker list" where
  "make_workers cfg fg_n now =
     (let w_num_per_thread = warehouse_num cfg div fg_n;
          trailing_warehouse = warehouse_num cfg - w_num_per_thread * fg_n
      in map2 (\<lambda>worker_i. worker_new (now worker_i)) [0..<fg_n]
           (worker_shares fg_n w_num_per_thread trailing_warehouse 0))"

text \<open>
  \<open>bind_to_physical_cores(worker_id)\<close> at the start of the workers \<open>0 .. fg_n - 1\<close>: \<open>None\<close> when its
  \<open>INVARIANT\<close> stops the program.
\<close>

definition bind_workers :: "nat \<Rightarrow> unit option" where
  "bind_workers fg_n =
     for_each (\<lambda>worker_i _. case bind_to_physical_cores (int worker_i) of Inr core \<Rightarrow> Some () | Inl e \<Rightarrow> None)
       [0..<fg_n] ()"

lemma for_each_assert: "for_each (\<lambda>x _. assertO (P x)) xs () = assertO (\<forall>x\<in>set xs. P x)"
  by (induction xs) (auto simp: assertO_def)

lemma bind_workers_eq: "bind_workers fg_n = assertO (fg_n \<le> 55)"
proof -
  have "(case bind_to_physical_cores (int i) of Inr core \<Rightarrow> Some () | Inl e \<Rightarrow> None) = assertO (i < 55)" for i
    by (simp add: bind_to_physical_cores_eq assertO_def)
  then have "bind_workers fg_n = assertO (\<forall>i\<in>set [0..<fg_n]. i < 55)"
    by (simp add: bind_workers_def for_each_assert)
  also have "(\<forall>i\<in>set [0..<fg_n]. i < 55) \<longleftrightarrow> fg_n \<le> 55"
    by (cases fg_n) (auto simp: less_Suc_eq_le)
  finally show ?thesis .
qed

type_synonym txn_ratio = "int \<times> int \<times> int \<times> int \<times> int"

definition default_ratio :: txn_ratio where
  "default_ratio = (45, 43, 4, 4, 4)"

text \<open>\<open>main\<close> insists on a mix that sums to 100.\<close>

definition ratio_ok :: "txn_ratio \<Rightarrow> bool" where
  "ratio_ok ratio = (case ratio of (n, p, d, os, s) \<Rightarrow> n + p + d + os + s = 100)"

definition pick_txn :: "txn_ratio \<Rightarrow> int \<Rightarrow> txn_kind" where
  "pick_txn ratio d = (case ratio of (n, p, dl, os, s) \<Rightarrow>
     if d \<le> n then NewOrder
     else if d \<le> n + p then Payment
     else if d \<le> n + p + dl then Delivery
     else if d \<le> n + p + dl + os then OrderStatus
     else StockLevel)"

definition run_txn :: "tpcc_cfg \<Rightarrow> junk \<Rightarrow> txn_kind \<Rightarrow> u32 \<Rightarrow> txn_state \<Rightarrow> txn_state option" where
  "run_txn cfg J kind warehouse_id st = (case kind of
     NewOrder \<Rightarrow> map_option snd (txn_new_order cfg J warehouse_id st)
   | Payment \<Rightarrow> txn_payment cfg J warehouse_id st
   | Delivery \<Rightarrow> txn_delivery cfg J warehouse_id st
   | OrderStatus \<Rightarrow> map_option snd (txn_order_status cfg warehouse_id st)
   | StockLevel \<Rightarrow> map_option snd (txn_stock_level cfg J warehouse_id st))"

text \<open>One round of the loop of \<open>run_worker\<close>; \<open>cycles\<close> is what the time stamps measure.\<close>

definition worker_step ::
  "tpcc_cfg \<Rightarrow> txn_ratio \<Rightarrow> bool \<Rightarrow> junk \<Rightarrow> u64 \<Rightarrow> worker \<times> tpcc_db \<Rightarrow> (worker \<times> tpcc_db) option" where
  "worker_step cfg ratio stat_lat J cycles st = do {
     let (w, db) = st;
     (d, s) \<leftarrow> RandomNumber (worker_seed w) 1 100;
     (warehouse_id, s) \<leftarrow> RandomNumber s (w_id_start w) (w_id_end w - 1);
     let kind = pick_txn ratio (sint d);
     (s, tl_hack, db) \<leftarrow> run_txn cfg J kind warehouse_id (s, worker_tl_hack w, db);
     let c = counters w kind;
     let c' = c\<lparr>txn_cycles := txn_cycles c + cycles, txn_tput := txn_tput c + 1,
               txn_stats := add_latency (cycles_to_ns cycles) (txn_stats c)\<rparr>;
     Some (w\<lparr>throughput := throughput w + 1, worker_seed := s, worker_tl_hack := tl_hack,
             counters := (if stat_lat then (counters w)(kind := c') else counters w)\<rparr>, db)
   }"

text \<open>A schedule of all workers on the shared database.\<close>

fun run_schedule ::
  "tpcc_cfg \<Rightarrow> txn_ratio \<Rightarrow> bool \<Rightarrow> (nat \<times> junk \<times> u64) list \<Rightarrow> worker list \<times> tpcc_db \<Rightarrow>
   (worker list \<times> tpcc_db) option" where
  "run_schedule cfg ratio stat_lat [] st = Some st"
| "run_schedule cfg ratio stat_lat ((i, J, cycles) # sched) (ws, db) = do {
     w \<leftarrow> vec_get ws i;
     (w, db) \<leftarrow> worker_step cfg ratio stat_lat J cycles (w, db);
     run_schedule cfg ratio stat_lat sched (ws[i := w], db)
   }"

text \<open>The sums and the global statistics at the end of \<open>run_tpcc\<close>.\<close>

definition total_throughput :: "worker list \<Rightarrow> u64" where
  "total_throughput ws = sum_list (map throughput ws)"

definition all_txn_cycles :: "txn_kind \<Rightarrow> worker list \<Rightarrow> u64" where
  "all_txn_cycles kind ws = sum_list (map (\<lambda>w. txn_cycles (counters w kind)) ws)"

definition all_txn_tput :: "txn_kind \<Rightarrow> worker list \<Rightarrow> u64" where
  "all_txn_tput kind ws = sum_list (map (\<lambda>w. txn_tput (counters w kind)) ws)"

definition global_stats :: "worker list \<Rightarrow> LatencyStats" where
  "global_stats ws =
     fold add_latency
       (concat (map (\<lambda>w. concat (map (\<lambda>kind. latencies (txn_stats (counters w kind)))
          [NewOrder, Payment, Delivery, OrderStatus, StockLevel])) ws))
       LatencyStats_new"

text \<open>
  \<open>run_tpcc\<close>, from loading to the printed results: the throughput per second of the measured
  \<open>runtime\<close> seconds and, with latencies on, the global statistics. The workers run their
  transactions in the order \<open>sched\<close>. No workers and a \<open>runtime\<close> of 0 divide by zero.
\<close>

record tpcc_result =
  printed_throughput :: u64
  printed_stats :: "LatencyStats option"
  final_workers :: "worker list"
  final_db :: tpcc_db

definition run_tpcc ::
  "(u32 list \<Rightarrow> u32 list) \<Rightarrow> int \<Rightarrow> tpcc_cfg \<Rightarrow> txn_ratio \<Rightarrow> bool \<Rightarrow> nat \<Rightarrow> u64 \<Rightarrow> (nat \<Rightarrow> u64) \<Rightarrow>
   (nat \<times> junk \<times> u64) list \<Rightarrow> tpcc_result option" where
  "run_tpcc shuffle cxl cfg ratio stat_lat fg_n runtime now sched = do {
     (db, st) \<leftarrow> prepare_kvs shuffle cxl cfg loader_init;
     assertO (fg_n \<noteq> 0);
     let ws = make_workers cfg fg_n now;
     bind_workers fg_n;
     (ws, db) \<leftarrow> run_schedule cfg ratio stat_lat sched (ws, db);
     assertO (runtime \<noteq> 0);
     Some \<lparr>printed_throughput = total_throughput ws div runtime,
           printed_stats = (if stat_lat then Some (global_stats ws) else None),
           final_workers = ws, final_db = db\<rparr>
   }"

definition tpcc_main ::
  "(u32 list \<Rightarrow> u32 list) \<Rightarrow> int \<Rightarrow> tpcc_cfg \<Rightarrow> txn_ratio \<Rightarrow> bool \<Rightarrow> nat \<Rightarrow> u64 \<Rightarrow> (nat \<Rightarrow> u64) \<Rightarrow>
   (nat \<times> junk \<times> u64) list \<Rightarrow> tpcc_result option" where
  "tpcc_main shuffle cxl cfg ratio stat_lat fg_n runtime now sched = do {
     assertO (ratio_ok ratio);
     run_tpcc shuffle cxl cfg ratio stat_lat fg_n runtime now sched
   }"

section \<open>Steps and reachable databases\<close>

text \<open>What any worker may do: one transaction on one of the warehouses, from any generator state.\<close>

inductive tpcc_step :: "tpcc_cfg \<Rightarrow> tpcc_db \<Rightarrow> tpcc_db \<Rightarrow> bool" for cfg where
  step: "warehouse_in cfg w \<Longrightarrow> run_txn cfg J kind w (s, h, db) = Some (s', h', db') \<Longrightarrow> tpcc_step cfg db db'"

inductive tpcc_reach :: "tpcc_cfg \<Rightarrow> tpcc_db \<Rightarrow> nat \<Rightarrow> tpcc_db \<Rightarrow> bool" for cfg db0 where
  start: "tpcc_reach cfg db0 0 db0"
| next_txn: "tpcc_reach cfg db0 n db \<Longrightarrow> tpcc_step cfg db db' \<Longrightarrow> tpcc_reach cfg db0 (Suc n) db'"

inductive_cases tpcc_stepE: "tpcc_step cfg db db'"
inductive_cases tpcc_reach_SucE: "tpcc_reach cfg db0 (Suc n) db"
inductive_simps tpcc_reach_0: "tpcc_reach cfg db0 0 db"

lemma counters_mono: "counters_below cfg B db \<Longrightarrow> B \<le> B' \<Longrightarrow> counters_below cfg B' db"
  by (auto simp: counters_below_def intro: order_trans)

lemma counters_cong:
  "(\<And>W D. wh_ok cfg W \<Longrightarrow> di_ok cfg D \<Longrightarrow> next_o_id db' W D = next_o_id db W D) \<Longrightarrow>
   counters_below cfg B db \<Longrightarrow> counters_below cfg B db'"
  by (simp add: counters_below_def)

text \<open>Every kind of transaction returns, keeps the invariant and uses up at most one order number.\<close>

lemma run_txn_ok:
  assumes cfg: "cfg_ok cfg" and w: "warehouse_in cfg w" and inv: "tpcc_inv cfg db"
    and B: "counters_below cfg B db" "B < 4294967295"
  shows "\<exists>s' h' db'. run_txn cfg J kind w (s, h, db) = Some (s', h', db') \<and> tpcc_inv cfg db' \<and>
    counters_below cfg (B + 1) db'"
proof (cases kind)
  case NewOrder
  obtain total s' db' where "txn_new_order cfg J w (s, h, db) = Some (Some total, s', h + 1, db')"
    "tpcc_inv cfg db'" "counters_below cfg (B + 1) db'"
    using new_order_full [OF assms, of J s h] by blast
  with NewOrder show ?thesis by (simp add: run_txn_def)
next
  case Payment
  obtain s' d cw cd c amt where
    "txn_payment cfg J w (s, h, db) = Some (s', h + 1, payment_apply J w d cw cd c h amt db)"
    using payment_full [OF cfg w, of J s h db] by blast
  moreover have "counters_below cfg (B + 1) (payment_apply J w d cw cd c h amt db)"
    by (rule counters_mono [OF counters_cong [OF _ B(1)]]) (simp_all add: payment_apply_inv(2) [OF inv])
  ultimately show ?thesis using Payment payment_apply_inv(1) [OF inv] by (simp add: run_txn_def)
next
  case Delivery
  obtain s' h' db' where "txn_delivery cfg J w (s, h, db) = Some (s', h', db')" "tpcc_inv cfg db'"
    "delivery_frame db db'"
    using delivery_full [OF cfg w inv, of J s h] by blast
  moreover from this(3) have "counters_below cfg (B + 1) db'"
    by (intro counters_mono [OF counters_cong [OF _ B(1)]])
      (simp_all add: next_o_id_def delivery_frame_def)
  ultimately show ?thesis using Delivery by (simp add: run_txn_def)
next
  case OrderStatus
  with order_status_full [OF cfg w inv, of s h] inv counters_mono [OF B(1)] show ?thesis
    by (auto simp: run_txn_def)
next
  case StockLevel
  with stock_level_full [OF cfg w inv, of J s h] inv counters_mono [OF B(1)] show ?thesis
    by (auto simp: run_txn_def)
qed

lemma tpcc_step_ok:
  assumes "tpcc_step cfg db db'" "cfg_ok cfg" "tpcc_inv cfg db" "counters_below cfg B db" "B < 4294967295"
  shows "tpcc_inv cfg db' \<and> counters_below cfg (B + 1) db'"
  using assms(1)
proof (rule tpcc_stepE)
  fix w J kind s h s' h'
  assume "warehouse_in cfg w" "run_txn cfg J kind w (s, h, db) = Some (s', h', db')"
  with run_txn_ok [OF assms(2) _ assms(3-5), of w J kind s h] show ?thesis by auto
qed

lemma tpcc_reach_ok:
  "tpcc_reach cfg db0 n db \<Longrightarrow> cfg_ok cfg \<Longrightarrow> tpcc_inv cfg db0 \<Longrightarrow> counters_below cfg B db0 \<Longrightarrow>
   B + n < 4294967296 \<Longrightarrow> tpcc_inv cfg db \<and> counters_below cfg (B + n) db"
proof (induction rule: tpcc_reach.induct)
  case (next_txn n db db')
  then show ?case using tpcc_step_ok [of cfg db db' "B + n"] by simp
qed simp

section \<open>What the driver guarantees\<close>

text \<open>The totals of a statistics object are those of the latencies it holds.\<close>

definition stats_ok :: "LatencyStats \<Rightarrow> bool" where
  "stats_ok st \<longleftrightarrow> total_latency st = sum_list (latencies st) \<and>
     lat_count st = word_of_nat (length (latencies st))"

lemma stats_ok_new [simp]: "stats_ok LatencyStats_new"
  by (simp add: stats_ok_def LatencyStats_new_def)

lemma stats_ok_add [simp]: "stats_ok st \<Longrightarrow> stats_ok (add_latency l st)"
  by (simp add: stats_ok_def add_latency_def add.commute)

lemma fold_add_latency:
  "stats_ok st \<Longrightarrow> stats_ok (fold add_latency ls st) \<and>
   latencies (fold add_latency ls st) = latencies st @ ls"
  by (induction ls arbitrary: st) (auto simp: add_latency_def [THEN arg_cong [where f = latencies]])

abbreviation txn_kinds :: "txn_kind list" where
  "txn_kinds \<equiv> [NewOrder, Payment, Delivery, OrderStatus, StockLevel]"

lemma txn_kinds_all: "kind \<in> set txn_kinds"
  by (cases kind) simp_all

text \<open>
  A worker is fit to run when its warehouses are a nonempty part of the loaded ones; its
  statistics agree with its counters.
\<close>

definition worker_ok :: "tpcc_cfg \<Rightarrow> worker \<Rightarrow> bool" where
  "worker_ok cfg w \<longleftrightarrow> 1 \<le> unat (w_id_start w) \<and> unat (w_id_start w) < unat (w_id_end w) \<and>
     unat (w_id_end w) \<le> warehouse_num cfg + 1"

definition worker_stats_ok :: "bool \<Rightarrow> worker \<Rightarrow> bool" where
  "worker_stats_ok stat_lat w \<longleftrightarrow>
     (\<forall>kind. stats_ok (txn_stats (counters w kind)) \<and>
        txn_tput (counters w kind) = lat_count (txn_stats (counters w kind))) \<and>
     (stat_lat \<longrightarrow> throughput w = (\<Sum>kind\<leftarrow>txn_kinds. txn_tput (counters w kind)))"

lemma worker_step_ok:
  assumes cfg: "cfg_ok cfg" and inv: "tpcc_inv cfg db" and B: "counters_below cfg B db" "B < 4294967295"
    and w: "worker_ok cfg w" "worker_stats_ok stat_lat w"
  shows "\<exists>w' db'. worker_step cfg ratio stat_lat J cycles (w, db) = Some (w', db') \<and> tpcc_inv cfg db' \<and>
    counters_below cfg (B + 1) db' \<and> tpcc_step cfg db db' \<and> worker_ok cfg w' \<and>
    worker_stats_ok stat_lat w' \<and> throughput w' = throughput w + 1"
proof -
  obtain d where d: "RandomNumber (worker_seed w) 1 100 = Some (d, fr_step (worker_seed w))"
    by (rule RandomNumber_const [of 1 100 "worker_seed w"]) simp_all
  let ?s = "fr_step (worker_seed w)"
  have "w_id_end w \<noteq> 0" using w(1) by (auto simp: worker_ok_def)
  then have e: "unat (w_id_end w - 1) = unat (w_id_end w) - 1" by (rule unat_minus_one)
  have le: "w_id_start w \<le> w_id_end w - 1" "unat (w_id_end w - 1) < 4294967295"
    using w(1) e cfg by (auto simp: worker_ok_def cfg_ok_def word_le_nat_alt)
  obtain wid where wid: "RandomNumber ?s (w_id_start w) (w_id_end w - 1) = Some (wid, fr_step ?s)"
    "w_id_start w \<le> wid" "wid \<le> w_id_end w - 1"
    using RandomNumber_const [OF le] by blast
  then have win: "warehouse_in cfg wid"
    using w(1) e by (auto simp: warehouse_in_def worker_ok_def word_le_nat_alt)
  let ?kind = "pick_txn ratio (sint d)"
  obtain s' h' db' where run: "run_txn cfg J ?kind wid (fr_step ?s, worker_tl_hack w, db) = Some (s', h', db')"
    "tpcc_inv cfg db'" "counters_below cfg (B + 1) db'"
    using run_txn_ok [OF cfg win inv B] by blast
  let ?c = "counters w ?kind"
  let ?c' = "?c\<lparr>txn_cycles := txn_cycles ?c + cycles, txn_tput := txn_tput ?c + 1,
      txn_stats := add_latency (cycles_to_ns cycles) (txn_stats ?c)\<rparr>"
  let ?w' = "w\<lparr>throughput := throughput w + 1, worker_seed := s', worker_tl_hack := h',
      counters := (if stat_lat then (counters w)(?kind := ?c') else counters w)\<rparr>"
  have "worker_step cfg ratio stat_lat J cycles (w, db) = Some (?w', db')"
    using d wid(1) run(1) by (simp add: worker_step_def Let_def)
  moreover have "tpcc_step cfg db db'" using win run(1) by (rule tpcc_step.step)
  moreover have "worker_ok cfg ?w'" using w(1) by (simp add: worker_ok_def)
  moreover have "worker_stats_ok stat_lat ?w'"
    using w(2) by (cases ?kind) (auto simp: worker_stats_ok_def add_latency_def stats_ok_def add.commute)
  ultimately show ?thesis using run by auto
qed

lemma sum_list_update_word:
  fixes f :: "'a \<Rightarrow> u64"
  shows "i < length ws \<Longrightarrow> f w' = f (ws ! i) + 1 \<Longrightarrow>
    sum_list (map f (ws[i := w'])) = sum_list (map f ws) + 1"
  by (induction ws arbitrary: i) (auto simp: nth_Cons split: nat.splits)

text \<open>Every schedule runs through: no worker ever stops or faults.\<close>

lemma run_schedule_ok:
  assumes cfg: "cfg_ok cfg"
  shows "tpcc_inv cfg db \<Longrightarrow> counters_below cfg B db \<Longrightarrow> B + length sched < 4294967296 \<Longrightarrow>
    \<forall>w\<in>set ws. worker_ok cfg w \<and> worker_stats_ok stat_lat w \<Longrightarrow>
    \<forall>(i, J, c)\<in>set sched. i < length ws \<Longrightarrow>
    \<exists>ws' db'. run_schedule cfg ratio stat_lat sched (ws, db) = Some (ws', db') \<and> tpcc_inv cfg db' \<and>
      counters_below cfg (B + length sched) db' \<and> length ws' = length ws \<and>
      (\<forall>w\<in>set ws'. worker_ok cfg w \<and> worker_stats_ok stat_lat w) \<and>
      total_throughput ws' = total_throughput ws + word_of_nat (length sched)"
proof (induction sched arbitrary: ws db B)
  case (Cons x sched)
  obtain i J c where x: "x = (i, J, c)" by (cases x)
  with Cons.prems(5) have i: "i < length ws" by simp
  have ok: "worker_ok cfg (ws ! i)" "worker_stats_ok stat_lat (ws ! i)"
    using Cons.prems(4) i by auto
  have "B < 4294967295" using Cons.prems(3) by simp
  from worker_step_ok [OF cfg Cons.prems(1,2) this ok, of ratio J c] obtain w' db' where
    st: "worker_step cfg ratio stat_lat J c (ws ! i, db) = Some (w', db')" "tpcc_inv cfg db'"
      "counters_below cfg (B + 1) db'" "worker_ok cfg w'" "worker_stats_ok stat_lat w'"
      "throughput w' = throughput (ws ! i) + 1" by blast
  have "\<forall>w\<in>set (ws[i := w']). worker_ok cfg w \<and> worker_stats_ok stat_lat w"
    using Cons.prems(4) st(4,5) set_update_subset_insert [of ws i w'] by blast
  note ws' = this
  have sched': "\<forall>(j, J, c)\<in>set sched. j < length (ws[i := w'])" using Cons.prems(5) by auto
  have "B + 1 + length sched < 4294967296" using Cons.prems(3) by simp
  from Cons.IH [OF st(2,3) this ws' sched'] obtain ws'' db'' where
    "run_schedule cfg ratio stat_lat sched (ws[i := w'], db') = Some (ws'', db'')"
    "tpcc_inv cfg db''" "counters_below cfg (B + 1 + length sched) db''"
    "length ws'' = length (ws[i := w'])" "\<forall>w\<in>set ws''. worker_ok cfg w \<and> worker_stats_ok stat_lat w"
    "total_throughput ws'' = total_throughput (ws[i := w']) + word_of_nat (length sched)" by blast
  moreover have "total_throughput (ws[i := w']) = total_throughput ws + 1"
    unfolding total_throughput_def using i st(6) by (rule sum_list_update_word)
  ultimately show ?case using i st(1) by (simp add: x add.assoc)
qed auto

text \<open>What the run prints: the number of latencies over all workers is the number of transactions.\<close>

lemma global_stats_ok:
  "stats_ok (global_stats ws) \<and> latencies (global_stats ws) =
     concat (map (\<lambda>w. concat (map (\<lambda>kind. latencies (txn_stats (counters w kind))) txn_kinds)) ws)"
  using fold_add_latency [OF stats_ok_new] by (simp add: global_stats_def LatencyStats_new_def)

lemma global_count:
  assumes "\<forall>w\<in>set ws. worker_stats_ok True w"
  shows "lat_count (global_stats ws) = total_throughput ws"
proof -
  have "word_of_nat (length (concat (map (\<lambda>kind. latencies (txn_stats (counters w kind))) txn_kinds))) =
      throughput w" if "w \<in> set ws" for w
    using assms that by (auto simp: worker_stats_ok_def stats_ok_def)
  then have "word_of_nat (length (latencies (global_stats ws))) = total_throughput ws"
    unfolding global_stats_ok [THEN conjunct2] total_throughput_def
    by (induction ws) (simp_all only: concat.simps list.map length_append of_nat_add sum_list.Nil sum_list.Cons
        list.size of_nat_0 list.set_intros insert_iff simp_thms, auto)
  then show ?thesis using global_stats_ok [of ws] by (simp add: stats_ok_def)
qed

section \<open>The shares of the workers\<close>

text \<open>The shares in closed form: the first \<open>tr\<close> workers get one warehouse more.\<close>

lemma worker_shares_eq:
  "worker_shares k q tr p =
     map (\<lambda>i. (p + i * q + min i tr, p + Suc i * q + min (Suc i) tr)) [0..<k]"
proof (induction k arbitrary: tr p)
  case (Suc k)
  have up: "[0..<Suc k] = 0 # map Suc [0..<k]" by (simp add: upt_conv_Cons map_Suc_upt)
  show ?case
    by (cases tr) (simp_all add: Suc.IH up algebra_simps del: upt_Suc)
qed simp

lemma step_interval:
  fixes f :: "nat \<Rightarrow> nat"
  shows "f 0 \<le> x \<Longrightarrow> x < f n \<Longrightarrow> \<exists>i<n. f i \<le> x \<and> x < f (Suc i)"
proof (induction n)
  case (Suc n)
  show ?case
  proof (cases "x < f n")
    case True
    with Suc show ?thesis using less_SucI by blast
  next
    case False
    with Suc.prems(2) show ?thesis by (intro exI [of _ n]) auto
  qed
qed simp

lemma step_interval_unique:
  fixes f :: "nat \<Rightarrow> nat"
  assumes "mono f" "f i \<le> x" "x < f (Suc i)" "f j \<le> x" "x < f (Suc j)"
  shows "i = j"
proof -
  have "\<not> Suc i \<le> j" "\<not> Suc j \<le> i"
    using assms monoD [OF assms(1), of "Suc i" j] monoD [OF assms(1), of "Suc j" i] by auto
  then show ?thesis by simp
qed

definition share_bound :: "nat \<Rightarrow> nat \<Rightarrow> nat \<Rightarrow> nat" where
  "share_bound wn fg_n i = i * (wn div fg_n) + min i (wn mod fg_n)"

lemma share_bound_mono: "mono (share_bound wn fg_n)"
  by (intro monoI) (auto simp: share_bound_def intro!: add_mono mult_right_mono)

lemma share_bound_last: "0 < fg_n \<Longrightarrow> share_bound wn fg_n fg_n = wn"
  by (simp add: share_bound_def less_imp_le [OF mod_less_divisor])

lemma make_workers_nth:
  assumes "0 < fg_n" "warehouse_num cfg < 65536" "i < fg_n"
  shows "unat (w_id_start (make_workers cfg fg_n now ! i)) = share_bound (warehouse_num cfg) fg_n i + 1"
    and "unat (w_id_end (make_workers cfg fg_n now ! i)) = share_bound (warehouse_num cfg) fg_n (Suc i) + 1"
proof -
  let ?n = "warehouse_num cfg" and ?f = "share_bound (warehouse_num cfg) fg_n"
  have tr: "?n - ?n div fg_n * fg_n = ?n mod fg_n" by (simp add: minus_div_mult_eq_mod)
  have "make_workers cfg fg_n now ! i = worker_new (now i) (?f i, ?f (Suc i))"
    using assms(3) by (simp add: make_workers_def Let_def worker_shares_eq tr share_bound_def del: upt_Suc)
  moreover have "?f i \<le> ?f fg_n" "?f (Suc i) \<le> ?f fg_n"
    using assms(3) by (auto intro!: monoD [OF share_bound_mono])
  then have "?f i < 65536" "?f (Suc i) < 65536" using assms share_bound_last [of fg_n ?n] by auto
  then have "unat (word_of_nat (?f i) + 1 :: u32) = ?f i + 1"
    "unat (word_of_nat (?f (Suc i)) + 1 :: u32) = ?f (Suc i) + 1"
    by (simp_all add: unat_word_ariths unat_of_nat_u32)
  ultimately show "unat (w_id_start (make_workers cfg fg_n now ! i)) = ?f i + 1"
    "unat (w_id_end (make_workers cfg fg_n now ! i)) = ?f (Suc i) + 1"
    by (simp_all add: worker_new_def)
qed

lemma length_make_workers [simp]: "length (make_workers cfg fg_n now) = fg_n"
  by (simp add: make_workers_def Let_def worker_shares_eq)

lemma worker_new_stats: "worker_stats_ok stat_lat (worker_new now share)"
  by (simp add: worker_stats_ok_def worker_new_def txn_counters_new_def LatencyStats_new_def stats_ok_def)

lemma make_workers_stats: "w \<in> set (make_workers cfg fg_n now) \<Longrightarrow> worker_stats_ok stat_lat w \<and> throughput w = 0"
  by (auto simp: make_workers_def Let_def worker_new_stats) (simp add: worker_new_def)

lemma share_bound_less: "0 < fg_n \<Longrightarrow> fg_n \<le> wn \<Longrightarrow> share_bound wn fg_n i < share_bound wn fg_n (Suc i)"
  using div_greater_zero_iff [of wn fg_n] by (auto simp: share_bound_def min_def)

lemma make_workers_ok:
  assumes "cfg_ok cfg" "0 < fg_n" "fg_n \<le> warehouse_num cfg" "w \<in> set (make_workers cfg fg_n now)"
  shows "worker_ok cfg w"
proof -
  obtain i where i: "i < fg_n" "w = make_workers cfg fg_n now ! i"
    using assms(4) by (auto simp: in_set_conv_nth)
  have wn: "warehouse_num cfg < 65536" using assms(1) by (simp add: cfg_ok_def)
  have "share_bound (warehouse_num cfg) fg_n (Suc i) \<le> share_bound (warehouse_num cfg) fg_n fg_n"
    using i(1) by (intro monoD [OF share_bound_mono]) simp
  then show ?thesis
    using make_workers_nth [OF assms(2) wn i(1), of now] share_bound_less [OF assms(2,3), of i]
      share_bound_last [OF assms(2)] by (simp add: i(2) worker_ok_def)
qed

text \<open>\<open>run_tpcc\<close> deals out the warehouses: every warehouse \<open>1 .. warehouse_num\<close> belongs to exactly one
  of the \<open>fg_n\<close> workers and the shares differ by at most one warehouse.\<close>

theorem warehouses_partitioned:
  assumes "0 < fg_n" and "warehouse_num cfg < 65536"
  shows "length (make_workers cfg fg_n now) = fg_n \<and>
    (\<forall>x. 1 \<le> x \<and> x \<le> warehouse_num cfg \<longrightarrow>
       (\<exists>!i. i < fg_n \<and> unat (w_id_start (make_workers cfg fg_n now ! i)) \<le> x \<and>
             x < unat (w_id_end (make_workers cfg fg_n now ! i)))) \<and>
    (\<forall>w\<in>set (make_workers cfg fg_n now).
       unat (w_id_end w) - unat (w_id_start w) \<in>
         {warehouse_num cfg div fg_n, warehouse_num cfg div fg_n + 1})"
proof -
  let ?n = "warehouse_num cfg" and ?f = "share_bound (warehouse_num cfg) fg_n" and ?ws = "make_workers cfg fg_n now"
  note nth = make_workers_nth [OF assms, of _ now]
  have "\<exists>!i. i < fg_n \<and> unat (w_id_start (?ws ! i)) \<le> x \<and> x < unat (w_id_end (?ws ! i))"
    if x: "1 \<le> x" "x \<le> ?n" for x
  proof -
    have "?f 0 \<le> x - 1" "x - 1 < ?f fg_n"
      using x share_bound_last [OF assms(1), of ?n] by (simp_all add: share_bound_def)
    from step_interval [OF this] obtain i where i: "i < fg_n" "?f i \<le> x - 1" "x - 1 < ?f (Suc i)" by blast
    show ?thesis
    proof (rule ex1I [of _ i])
      show "i < fg_n \<and> unat (w_id_start (?ws ! i)) \<le> x \<and> x < unat (w_id_end (?ws ! i))"
        using i x nth by auto
      fix j assume "j < fg_n \<and> unat (w_id_start (?ws ! j)) \<le> x \<and> x < unat (w_id_end (?ws ! j))"
      with nth have "?f j \<le> x - 1" "x - 1 < ?f (Suc j)" using x by auto
      with i(2,3) show "j = i" by (blast intro: step_interval_unique [OF share_bound_mono])
    qed
  qed
  moreover have "unat (w_id_end w) - unat (w_id_start w) \<in> {?n div fg_n, ?n div fg_n + 1}" if "w \<in> set ?ws" for w
    using that nth by (auto simp: in_set_conv_nth share_bound_def min_def)
  ultimately show ?thesis by simp
qed

lemma warehouses_partitioned_witness:
  "\<exists>!i. i < 3 \<and> unat (w_id_start (make_workers (tpcc_default_cfg\<lparr>warehouse_num := 8\<rparr>) 3 (\<lambda>_. 7) ! i)) \<le> 5 \<and>
        5 < unat (w_id_end (make_workers (tpcc_default_cfg\<lparr>warehouse_num := 8\<rparr>) 3 (\<lambda>_. 7) ! i))"
proof -
  have a: "warehouse_num (tpcc_default_cfg\<lparr>warehouse_num := 8\<rparr>) < 65536"
    "(1::nat) \<le> 5 \<and> 5 \<le> warehouse_num (tpcc_default_cfg\<lparr>warehouse_num := 8\<rparr>)" by simp_all
  from warehouses_partitioned [OF _ a(1), of 3 "\<lambda>_. 7"] a(2) show ?thesis by simp
qed

text \<open>With more workers than warehouses the last worker has no warehouse, and its first round already
  has no result: \<open>RandomNumber(r, w_start, w_end - 1)\<close> divides by zero.\<close>

theorem idle_worker_faults:
  assumes "cfg_ok cfg" and "warehouse_num cfg < fg_n"
  shows "worker_step cfg ratio stat_lat J cycles (make_workers cfg fg_n now ! (fg_n - 1), db) = None"
proof -
  let ?w = "make_workers cfg fg_n now ! (fg_n - 1)"
  obtain d where d: "RandomNumber (worker_seed ?w) 1 100 = Some (d, fr_step (worker_seed ?w))"
    by (rule RandomNumber_const [of 1 100 "worker_seed ?w"]) simp_all
  have wn: "warehouse_num cfg < 65536" "0 < fg_n" "fg_n - 1 < fg_n" using assms by (auto simp: cfg_ok_def)
  have "share_bound (warehouse_num cfg) fg_n (fg_n - 1) = share_bound (warehouse_num cfg) fg_n (Suc (fg_n - 1))"
    using assms(2) by (simp add: share_bound_def)
  then have "unat (w_id_start ?w) = unat (w_id_end ?w)"
    using make_workers_nth [OF wn(2,1,3), of now] by (simp only:)
  then have "w_id_start ?w = w_id_end ?w" by (simp add: word_unat_eq_iff)
  then have "RandomNumber (fr_step (worker_seed ?w)) (w_id_start ?w) (w_id_end ?w - 1) = None"
    by (simp add: RandomNumber_None)
  with d show ?thesis by (simp add: worker_step_def)
qed

lemma idle_worker_faults_witness:
  "\<forall>J db. worker_step tpcc_default_cfg default_ratio True J 0 (make_workers tpcc_default_cfg 2 (\<lambda>_. 7) ! 1, db) = None"
  using idle_worker_faults [of tpcc_default_cfg 2] by (simp add: cfg_ok_def tpcc_default_cfg_def)

section \<open>The transaction mix\<close>

text \<open>a worker draws from \<open>1 .. 100\<close>; a mix that passes the check of \<open>main\<close> gives every transaction
  exactly its percentage of the draws.\<close>

theorem txn_mix_exact:
  assumes "ratio_ok (n, p, d, os, s)" and "0 \<le> n" and "0 \<le> p" and "0 \<le> d" and "0 \<le> os" and "0 \<le> s"
  shows "card {x \<in> {1..100}. pick_txn (n, p, d, os, s) x = kind} =
    nat (case kind of NewOrder \<Rightarrow> n | Payment \<Rightarrow> p | Delivery \<Rightarrow> d | OrderStatus \<Rightarrow> os | StockLevel \<Rightarrow> s)"
proof -
  have sum: "n + p + d + os + s = 100" using assms(1) by (simp add: ratio_ok_def)
  let ?lo = "case kind of NewOrder \<Rightarrow> 0 | Payment \<Rightarrow> n | Delivery \<Rightarrow> n + p | OrderStatus \<Rightarrow> n + p + d
    | StockLevel \<Rightarrow> n + p + d + os"
  let ?k = "case kind of NewOrder \<Rightarrow> n | Payment \<Rightarrow> p | Delivery \<Rightarrow> d | OrderStatus \<Rightarrow> os | StockLevel \<Rightarrow> s"
  have "{x \<in> {1..100}. pick_txn (n, p, d, os, s) x = kind} = {?lo + 1..?lo + ?k}"
    using assms sum by (cases kind) (auto simp: pick_txn_def split: if_splits)
  then show ?thesis by (cases kind) simp_all
qed

lemma txn_mix_exact_witness:
  "card {x \<in> {1..100}. pick_txn default_ratio x = Payment} = 43"
  using txn_mix_exact [of 45 43 4 4 4 Payment] by (simp add: ratio_ok_def default_ratio_def)

section \<open>Percentiles\<close>

lemma f64_le_nat:
  assumes "0 \<le> x" "x \<le> of_nat n" "n < 2 ^ 53"
  shows "0 \<le> f64 x \<and> f64 x \<le> of_nat n"
proof -
  have "int n < 2 ^ 53" using assms(3) by (metis of_nat_less_iff of_nat_numeral of_nat_power)
  with rnd_le_int [of x "int n" 53] assms(1,2) show ?thesis by (simp add: f64_def)
qed

lemma f64_nat: "n < 2 ^ 53 \<Longrightarrow> f64 (of_nat n) = of_nat n"
  using rnd_exact_int [of "int n" 53] by (simp add: f64_def)

lemma f64_1 [simp]: "f64 1 = 1"
  using f64_nat [of 1] by simp

lemma f64_0 [simp]: "f64 0 = 0"
  by (simp add: f64_def)

lemma percentile_index_less:
  assumes "0 \<le> p" "p \<le> 100" "0 < n" "n \<le> 2 ^ 53"
  shows "percentile_index p n < n"
proof -
  have a: "0 \<le> f64 (p / 100)" "f64 (p / 100) \<le> 1"
    using f64_le_nat [of "p / 100" 1] assms(1,2) by simp_all
  have n: "n - 1 < 2 ^ 53" using assms(3,4) by simp
  then have e: "f64 (of_nat (n - 1)) = of_nat (n - 1)" by (rule f64_nat)
  have m: "0 \<le> f64 (p / 100) * of_nat (n - 1)" "f64 (p / 100) * of_nat (n - 1) \<le> of_nat (n - 1)"
    using a by (simp, intro mult_left_le_one_le, simp_all)
  have "\<lfloor>f64 (f64 (p / 100) * f64 (of_nat (n - 1)))\<rfloor> \<le> int (n - 1)"
    using f64_le_nat [OF m n] unfolding e by linarith
  then have "percentile_index p n \<le> n - 1" by (simp only: percentile_index_def nat_le_iff)
  with assms(3) show ?thesis by simp
qed

text \<open>a percentile of \<open>LatencyStats\<close> is always one of the recorded latencies, never a read outside the
  vector, although the index is computed in \<open>double\<close>; the extremes are the minimum and the maximum.\<close>

theorem percentile_recorded:
  assumes "latencies st \<noteq> []" and "length (latencies st) \<le> 2 ^ 53" and "0 \<le> p" and "p \<le> 100"
  shows "(\<exists>v\<in>set (latencies st). get_percentile p st = Some v) \<and>
    get_percentile 0 st = Some (Min (set (latencies st))) \<and>
    get_percentile 100 st = Some (Max (set (latencies st)))"
proof -
  let ?l = "latencies st" let ?n = "length (latencies st)"
  let ?s = "sort ?l"
  have n: "0 < ?n" using assms(1) by simp
  have get: "get_percentile q st = Some (?s ! percentile_index q ?n)" if "0 \<le> q" "q \<le> 100" for q
    using percentile_index_less [OF that n assms(2)] assms(1) by (simp add: get_percentile_def)
  have "?s ! percentile_index p ?n \<in> set ?l"
    using percentile_index_less [OF assms(3,4) n assms(2)] by (metis length_sort nth_mem set_sort)
  moreover have "percentile_index 0 ?n = 0" by (simp add: percentile_index_def)
  moreover have "percentile_index 100 ?n = ?n - 1"
  proof -
    have "f64 (of_nat (?n - 1)) = of_nat (?n - 1)" using assms(2) n by (intro f64_nat) simp
    then show ?thesis by (simp only: percentile_index_def divide_self_if) simp
  qed
  moreover have "?s ! 0 = Min (set ?l)"
  proof (rule Min_eqI [symmetric])
    show "?s ! 0 \<le> y" if "y \<in> set ?l" for y
      using that sorted_nth_mono [of ?s 0] by (metis in_set_conv_nth le0 set_sort sorted_sort)
    show "?s ! 0 \<in> set ?l" using n by (metis length_sort nth_mem set_sort)
  qed simp
  moreover have "?s ! (?n - 1) = Max (set ?l)"
  proof (rule Max_eqI [symmetric])
    show "y \<le> ?s ! (?n - 1)" if y: "y \<in> set ?l" for y
    proof -
      obtain i where "i < length ?s" "y = ?s ! i" using y by (metis in_set_conv_nth set_sort)
      then show ?thesis using n by (auto intro!: sorted_nth_mono)
    qed
    show "?s ! (?n - 1) \<in> set ?l" using n by (metis diff_less length_sort nth_mem set_sort zero_less_one)
  qed simp
  ultimately show ?thesis using get assms(3,4) by auto
qed

lemma percentile_recorded_witness:
  "get_percentile 100 (add_latency 5 (add_latency 9 (add_latency 2 LatencyStats_new))) = Some 9"
proof -
  let ?st = "add_latency 5 (add_latency 9 (add_latency 2 LatencyStats_new))"
  have l: "latencies ?st = [2, 9, 5]" by (simp add: add_latency_def LatencyStats_new_def)
  then show ?thesis using percentile_recorded [of ?st 50] by simp
qed

end
