(* ===== verification/TpccTheorems.thy ===== *)
theory TpccTheorems
  imports TpccDriver
begin

text \<open>
  The properties of the TPC-C implementation: the population of the database, the effect of each
  transaction, their composition, and what the benchmark does not keep.
\<close>

section \<open>Population\<close>

lemma loaded_default:
  "\<exists>db st'. prepare_kvs id 0 tpcc_default_cfg loader_init = Some (db, st') \<and>
     tpcc_inv tpcc_default_cfg db \<and> counters_below tpcc_default_cfg 3001 db"
  using prepare_kvs_ok [of tpcc_default_cfg id 0 loader_init]
  by (simp add: cfg_ok_def tpcc_default_cfg_def) blast

lemma default_cfg_ok: "cfg_ok tpcc_default_cfg" "warehouse_in tpcc_default_cfg 1"
  "num_district_per_warehouse tpcc_default_cfg = 10"
  by (simp_all add: cfg_ok_def tpcc_default_cfg_def warehouse_in_def)

text \<open>C23: \<open>prepare_kvs\<close> terminates and populates all nine tables for every configuration and every
  shuffle. The loaded tables have exactly the keys of TPC-C: one record per warehouse, district,
  customer, item and stock, one history record per customer, the orders 1 to 3000 of every
  district, the new-order records of its orders 2101 to 3000, and for every order exactly as many
  lines as the order says, 5 to 15. Every district counter is 3001, the totals of warehouses
  and districts, the balances of the customers and the history amounts are the initial ones, stock quantities
  are between 10 and 100, the bookkeeping of undelivered orders points to order 3000 everywhere, and
  the database invariant holds.\<close>

theorem population_ok:
  assumes "cfg_ok cfg" and "mset (shuffle (map word_of_nat [1..<3001])) = mset (map word_of_nat [1..<3001])"
  shows "\<exists>db st'. prepare_kvs shuffle cxl cfg st = Some (db, st') \<and> tpcc_inv cfg db \<and> populated cfg db \<and>
    (\<forall>W D. wh_ok cfg W \<and> di_ok cfg D \<longrightarrow> next_o_id db W D = 3001) \<and>
    (\<forall>w d. warehouse_in cfg w \<and> district_in cfg d \<longrightarrow> pending_of db w d = 3000)"
  using prepare_kvs_rows [of cfg shuffle cxl st, OF assms] by blast

lemma population_ok_witness:
  "\<exists>db st' v. prepare_kvs rev 0 (tpcc_default_cfg\<lparr>warehouse_num := 4\<rparr>) loader_init = Some (db, st') \<and>
     os_get (table_customer db) (C_key 3000 10 4) = Some v \<and> c_balance v = -10 \<and>
     next_o_id db 4 10 = 3001 \<and> pending_of db 4 10 = 3000"
proof -
  let ?cfg = "tpcc_default_cfg\<lparr>warehouse_num := 4\<rparr>"
  have cfg: "cfg_ok ?cfg" "wh_ok ?cfg 4" "di_ok ?cfg 10" "warehouse_in ?cfg 4" "district_in ?cfg 10"
    by (simp_all add: cfg_ok_def tpcc_default_cfg_def wh_ok_def di_ok_def warehouse_in_def district_in_def)
  obtain db st' where db: "prepare_kvs rev 0 ?cfg loader_init = Some (db, st')" "populated ?cfg db"
    "next_o_id db 4 10 = 3001" "pending_of db 4 10 = 3000"
    using population_ok [of ?cfg rev 0 loader_init, OF cfg(1)] cfg(2-5) by auto
  have "filled ckey (\<lambda>_ v. c_balance v = -10 \<and> c_ytd_payment v = 10 \<and> c_payment_cnt v = 1)
      ({1..4} \<times> {1..10} \<times> {1..3000}) (table_customer db)"
    using db(2) by (simp add: populated_def Let_def tpcc_default_cfg_def)
  from filled_get [OF this, of "(4, 10, 3000)"] db(1,3,4) show ?thesis by (auto simp: ckey_def)
qed

text \<open>C24: bulk loading through the real wrapper: filling a new \<open>MasstreeKV\<close> from any loader's
  sorted map succeeds on any Masstree that is an ordered map of byte strings, and the tree then
  holds exactly the records of the map, in the order of the keys. This connects the loaders with
  the ordered stores on which the transactions are modelled.\<close>

theorem bulk_load_refines:
  assumes "masstree_contract q ok cont" and "index_key enc dec"
    and "ok (create cxl)" and "cont (create cxl) = os_empty"
    and "load seed st = Some (m, st')" and "os_ok m"
  shows "\<exists>t. load_masstree_kv_data (MasstreeKV_new create) (MasstreeKV_insert q enc) cxl load seed st
      = Some (t, st') \<and> ok t \<and> cont t = os_image enc m"
proof -
  have l: "masstree_kv q ok cont enc dec" using assms(1,2) by (rule masstree_kv.intro)
  show ?thesis
    using masstree_kv.load_repr [where create = create and cxl = cxl and load = load, OF l assms(3-6)]
    by (auto simp: masstree_kv.repr_def [OF l])
qed

lemma bulk_load_refines_witness:
  "\<exists>t m. load_masstree_kv_data (MasstreeKV_new (\<lambda>_. os_empty)) (MasstreeKV_insert os_api (str_enc pack_D unpack_D))
      0 (load_district tpcc_default_cfg) 129856349 loader_init = Some (t, loader_init) \<and>
    t = os_image (str_enc pack_D unpack_D) m \<and> os_get m (D_key 1 10) \<noteq> None"
proof -
  obtain m where m: "load_district tpcc_default_cfg 129856349 loader_init = Some (m, loader_init)"
    "filled (\<lambda>(w, d). D_key (word_of_nat w) (word_of_nat d)) (\<lambda>_ v. d_next_o_id v = 3001 \<and> d_ytd v = 30000)
      ({1..warehouse_num tpcc_default_cfg} \<times> {1..num_district_per_warehouse tpcc_default_cfg}) m"
    using load_district_ok by blast
  have "os_get m (D_key 1 10) \<noteq> None"
    using m(2) filled_get [OF m(2), of "(1, 10)"] by (auto simp: tpcc_default_cfg_def)
  with bulk_load_refines [OF os_api_contract D.index_key_axioms, of "\<lambda>_. os_empty" 0
      "load_district tpcc_default_cfg", OF _ _ m(1) filled_ok [OF m(2)]]
  show ?thesis by auto
qed

section \<open>Reachable databases\<close>

text \<open>C3: whatever transactions run, in whatever order, on whatever warehouses and with whatever seeds:
  every database reachable from the loaded one satisfies the database invariant, as long as fewer
  than \<open>2^32\<close> order numbers can have been given out.\<close>

theorem reachable_databases_ok:
  assumes "cfg_ok cfg" and "mset (shuffle (map word_of_nat [1..<3001])) = mset (map word_of_nat [1..<3001])"
    and "prepare_kvs shuffle cxl cfg st = Some (db0, st')"
    and "tpcc_reach cfg db0 n db" and "3001 + n < 4294967296"
  shows "tpcc_inv cfg db \<and> counters_below cfg (3001 + n) db"
proof -
  have "tpcc_inv cfg db0" "counters_below cfg 3001 db0"
    using prepare_kvs_ok [of cfg shuffle cxl st, OF assms(1,2)] assms(3) by auto
  with assms show ?thesis by (blast intro: tpcc_reach_ok [THEN conjunct1] tpcc_reach_ok [THEN conjunct2])
qed

lemma reachable_databases_ok_witness:
  "\<forall>J. \<exists>db0 st' s h db. prepare_kvs id 0 tpcc_default_cfg loader_init = Some (db0, st') \<and>
     run_txn tpcc_default_cfg J Delivery 1 (42, 0, db0) = Some (s, h, db) \<and> tpcc_inv tpcc_default_cfg db"
proof
  fix J :: junk
  obtain db0 st' where db0: "prepare_kvs id 0 tpcc_default_cfg loader_init = Some (db0, st')"
    "tpcc_inv tpcc_default_cfg db0" "counters_below tpcc_default_cfg 3001 db0" using loaded_default by blast
  have lt: "(3001 :: nat) < 4294967295" by simp
  obtain s h db where run: "run_txn tpcc_default_cfg J Delivery 1 (42, 0, db0) = Some (s, h, db)"
    using run_txn_ok [OF default_cfg_ok(1,2) db0(2,3) lt] by blast
  have "tpcc_reach tpcc_default_cfg db0 (Suc 0) db"
    using tpcc_reach.start tpcc_step.step [OF default_cfg_ok(2) run] by (rule tpcc_reach.next_txn)
  then have "tpcc_inv tpcc_default_cfg db"
    using reachable_databases_ok [of tpcc_default_cfg id 0 loader_init, OF default_cfg_ok(1) _ db0(1)] by simp
  with db0(1) run show "\<exists>db0 st' s h db. prepare_kvs id 0 tpcc_default_cfg loader_init = Some (db0, st') \<and>
     run_txn tpcc_default_cfg J Delivery 1 (42, 0, db0) = Some (s, h, db) \<and> tpcc_inv tpcc_default_cfg db"
    by blast
qed

lemma no_throughput: "(\<And>w. w \<in> set ws \<Longrightarrow> throughput w = 0) \<Longrightarrow> total_throughput ws = 0"
  by (induction ws) (simp_all add: total_throughput_def)

text \<open>C2: the whole run of \<open>main\<close>, with transactions that workers interleave one whole transaction at a
  time: with a mix that sums to 100 and at least as many warehouses as workers, up to 55 workers
  execute every schedule on the database they loaded. No transaction, random draw or vector access
  ever fails, the invariant holds at the end, the throughput printed is the number of transactions
  per second of the run time, rounded down, and, with latencies on, the count of the printed
  statistics is the number of transactions. With more than 55 workers the program always stops:
  the 56th cannot bind itself to a core.\<close>

theorem tpcc_run_correct:
  assumes "cfg_ok cfg" and "mset (shuffle (map word_of_nat [1..<3001])) = mset (map word_of_nat [1..<3001])"
    and "ratio_ok ratio" and "0 < fg_n" and "fg_n \<le> warehouse_num cfg" and "runtime \<noteq> 0"
    and "\<forall>(i, J, c)\<in>set sched. i < fg_n" and "3001 + length sched < 4294967296"
  shows "(fg_n \<le> 55 \<longrightarrow> (\<exists>res. tpcc_main shuffle cxl cfg ratio stat_lat fg_n runtime now sched = Some res \<and>
      tpcc_inv cfg (final_db res) \<and> printed_throughput res = word_of_nat (length sched) div runtime \<and>
      (case printed_stats res of Some st \<Rightarrow> stat_lat \<and> lat_count st = word_of_nat (length sched)
       | None \<Rightarrow> \<not> stat_lat))) \<and>
    (55 < fg_n \<longrightarrow> tpcc_main shuffle cxl cfg ratio stat_lat fg_n runtime now sched = None)"
proof -
  let ?ws = "make_workers cfg fg_n now"
  obtain db0 st' where db0: "prepare_kvs shuffle cxl cfg loader_init = Some (db0, st')"
    "tpcc_inv cfg db0" "counters_below cfg 3001 db0"
    using prepare_kvs_ok [of cfg shuffle cxl loader_init, OF assms(1,2)] by blast
  have ok: "\<forall>w\<in>set ?ws. worker_ok cfg w \<and> worker_stats_ok stat_lat w"
    using make_workers_ok [OF assms(1,4,5)] make_workers_stats by blast
  have len: "\<forall>(i, J, c)\<in>set sched. i < length ?ws" using assms(7) by simp
  from run_schedule_ok [OF assms(1) db0(2,3) assms(8) ok len, of ratio] obtain ws db where
    run: "run_schedule cfg ratio stat_lat sched (?ws, db0) = Some (ws, db)" "tpcc_inv cfg db"
      "\<forall>w\<in>set ws. worker_ok cfg w \<and> worker_stats_ok stat_lat w"
      "total_throughput ws = total_throughput ?ws + word_of_nat (length sched)" by blast
  have "total_throughput ?ws = 0" by (rule no_throughput) (use make_workers_stats in blast)
  moreover have "lat_count (global_stats ws) = total_throughput ws" if stat_lat
    using run(3) that by (intro global_count) simp
  ultimately show ?thesis
    using assms(3,4,6) db0(1) run(1,2,4) by (simp add: tpcc_main_def run_tpcc_def bind_workers_eq assertO_def Let_def)
qed

lemma tpcc_run_correct_witness:
  "\<forall>J. (\<exists>res st. tpcc_main id 0 (tpcc_default_cfg\<lparr>warehouse_num := 60\<rparr>) default_ratio True 2 1 (\<lambda>_. 7)
      [(0, J, 2900), (1, J, 5800)] = Some res \<and> printed_throughput res = 2 \<and>
      printed_stats res = Some st \<and> lat_count st = 2) \<and>
    tpcc_main id 0 (tpcc_default_cfg\<lparr>warehouse_num := 60\<rparr>) default_ratio True 60 1 (\<lambda>_. 7)
      [(0, J, 2900), (1, J, 5800)] = None"
proof
  fix J :: junk
  let ?cfg = "tpcc_default_cfg\<lparr>warehouse_num := 60\<rparr>"
  let ?s = "[(0 :: nat, J, 2900 :: u64), (1, J, 5800)]"
  have cfg: "cfg_ok ?cfg" "warehouse_num ?cfg = 60" by (simp_all add: cfg_ok_def tpcc_default_cfg_def)
  have r: "ratio_ok default_ratio" by (simp add: ratio_ok_def default_ratio_def)
  have s: "\<forall>(i, J, c)\<in>set ?s. i < 2" "\<forall>(i, J, c)\<in>set ?s. i < 60" "3001 + length ?s < 4294967296" by simp_all
  note run = tpcc_run_correct [of ?cfg id default_ratio, OF cfg(1) _ r]
  from run [OF _ _ _ _ s(1,3), of 1 0 True "\<lambda>_. 7"] run [OF _ _ _ _ s(2,3), of 1 0 True "\<lambda>_. 7"]
  show "(\<exists>res st. tpcc_main id 0 ?cfg default_ratio True 2 1 (\<lambda>_. 7) ?s = Some res \<and>
      printed_throughput res = 2 \<and> printed_stats res = Some st \<and> lat_count st = 2) \<and>
    tpcc_main id 0 ?cfg default_ratio True 60 1 (\<lambda>_. 7) ?s = None"
    by (auto simp: cfg(2) split: option.splits)
qed

section \<open>New order\<close>

text \<open>C18: a new order always commits on a database that satisfies the invariant. It takes the next order
  number of a district, adds under it an order that was not there, its new-order record and
  exactly its 5 to 15 order lines, points the bookkeeping of the district and of the customer to
  it, leaves every other order, line, counter and table as it was (the stock apart), and keeps
  the invariant.\<close>

theorem new_order_correct:
  assumes "cfg_ok cfg" and "warehouse_in cfg w" and "tpcc_inv cfg db"
    and "counters_below cfg B db" and "B < 4294967295"
  shows "\<exists>total s' db' d. txn_new_order cfg J w (s, h, db) = Some (Some total, s', h + 1, db') \<and>
    tpcc_inv cfg db' \<and> counters_below cfg (B + 1) db' \<and> district_in cfg d \<and> order_added w d db db'"
  using assms by (rule new_order_full)

lemma new_order_correct_witness:
  "\<forall>J. \<exists>db st' total s' db' d. prepare_kvs id 0 tpcc_default_cfg loader_init = Some (db, st') \<and>
    txn_new_order tpcc_default_cfg J 1 (42, 0, db) = Some (Some total, s', 1, db') \<and> order_added 1 d db db'"
proof
  fix J :: junk
  obtain db st' where db: "prepare_kvs id 0 tpcc_default_cfg loader_init = Some (db, st')"
    "tpcc_inv tpcc_default_cfg db" "counters_below tpcc_default_cfg 3001 db" using loaded_default by blast
  have lt: "(3001 :: nat) < 4294967295" by simp
  from new_order_correct [OF default_cfg_ok(1,2) db(2,3) lt, of J 42 0] db(1)
  show "\<exists>db st' total s' db' d. prepare_kvs id 0 tpcc_default_cfg loader_init = Some (db, st') \<and>
    txn_new_order tpcc_default_cfg J 1 (42, 0, db) = Some (Some total, s', 1, db') \<and> order_added 1 d db db'"
    by (simp only: add_0) blast
qed

text \<open>C35: the quantity of a stock record never leaves \<open>10 .. 100\<close>: ordering 1 to 10 pieces either subtracts
  them or, when fewer than ten would remain, also restocks 91; the unsigned subtraction of the
  code does not wrap.\<close>

theorem stock_stays_in_range:
  assumes "qty_ok x" and "1 \<le> q" and "q \<le> 10"
  shows "qty_ok (stock_take x q) \<and>
    unat (stock_take x q) =
      (if unat q + 10 \<le> unat x then unat x - unat q else unat x - unat q + 91)"
proof -
  have b: "10 \<le> unat x" "unat x \<le> 100" "1 \<le> unat q" "unat q \<le> 10"
    using assms by (simp_all add: qty_ok_def word_le_nat_alt)
  then have "unat (x - q) = unat x - unat q" by (simp add: unat_sub word_le_nat_alt)
  moreover have "unat (91 - q) = 91 - unat q" using b by (subst unat_sub) (simp_all add: word_le_nat_alt)
  moreover from this have "unat (x + (91 - q)) = unat x + (91 - unat q)" using b by (simp add: unat_word_ariths)
  ultimately show ?thesis
    using stock_take_range [OF assms] b by (auto simp: stock_take_def word_le_nat_alt)
qed

lemma stock_stays_in_range_witness: "unat (stock_take 14 7) = 98"
  using stock_stays_in_range [of 14 7] by (simp add: qty_ok_def)

section \<open>Delivery\<close>

text \<open>C19: a delivery always returns on a database that satisfies the invariant. In every district the order
  the bookkeeping points to loses its new-order record and gets the carrier, if it was still
  undelivered; all other new-order records, the orders' counters and the tables a delivery has no
  business with stay, and so does the invariant.\<close>

theorem delivery_correct:
  assumes "cfg_ok cfg" and "warehouse_in cfg w" and "tpcc_inv cfg db"
  shows "\<exists>s' h' db' carrier. txn_delivery cfg J w (s, h, db) = Some (s', h', db') \<and> tpcc_inv cfg db' \<and>
    delivery_frame db db' \<and> district_in cfg carrier \<and>
    (\<forall>d. district_in cfg d \<longrightarrow> district_delivered w d carrier db db') \<and>
    (\<forall>k. (\<forall>d. district_in cfg d \<longrightarrow> k \<noteq> NO_key (ucast w) (ucast d) (pending_of db w d)) \<longrightarrow>
       os_get (table_new_order db') k = os_get (table_new_order db) k)"
  using assms by (rule delivery_full)

lemma delivery_correct_witness:
  "\<forall>J. \<exists>db st' s' h' db' carrier. prepare_kvs id 0 tpcc_default_cfg loader_init = Some (db, st') \<and>
    txn_delivery tpcc_default_cfg J 1 (42, 0, db) = Some (s', h', db') \<and>
    district_delivered 1 3 carrier db db'"
proof
  fix J :: junk
  obtain db st' where db: "prepare_kvs id 0 tpcc_default_cfg loader_init = Some (db, st')"
    "tpcc_inv tpcc_default_cfg db" using loaded_default by blast
  have "district_in tpcc_default_cfg 3" by (simp add: district_in_def tpcc_default_cfg_def)
  with delivery_correct [OF default_cfg_ok(1,2) db(2), of J 42 0] db(1)
  show "\<exists>db st' s' h' db' carrier. prepare_kvs id 0 tpcc_default_cfg loader_init = Some (db, st') \<and>
    txn_delivery tpcc_default_cfg J 1 (42, 0, db) = Some (s', h', db') \<and> district_delivered 1 3 carrier db db'"
    by blast
qed

text \<open>C25: an order that has been placed is delivered: when a new order is followed by a delivery on the same
  warehouse, with any seeds, the delivery finds exactly that order in its district, removes its
  new-order record and gives it a carrier.\<close>

theorem new_order_is_delivered:
  assumes "cfg_ok cfg" and "warehouse_in cfg w" and "tpcc_inv cfg db"
    and "counters_below cfg B db" and "B < 4294967295"
  shows "\<exists>total s1 h1 db1 d s2 h2 db2 carrier v.
    txn_new_order cfg J w (s, h, db) = Some (Some total, s1, h1, db1) \<and> order_added w d db db1 \<and>
    txn_delivery cfg J w (s1, h1, db1) = Some (s2, h2, db2) \<and>
    os_get (table_new_order db2) (NO_key (ucast w) (ucast d) (next_o_id db1 (ucast w) (ucast d))) = None \<and>
    os_get (table_order db2) (O_key (ucast w) (ucast d) (next_o_id db1 (ucast w) (ucast d))) = Some v \<and>
    o_carrier_id v = carrier \<and> district_in cfg carrier"
proof -
  obtain total s1 db1 d where n: "txn_new_order cfg J w (s, h, db) = Some (Some total, s1, h + 1, db1)"
    "tpcc_inv cfg db1" "district_in cfg d" "order_added w d db db1"
    using new_order_full [OF assms] by blast
  obtain s2 h2 db2 carrier where dl: "txn_delivery cfg J w (s1, h + 1, db1) = Some (s2, h2, db2)"
    "district_in cfg carrier" "district_delivered w d carrier db1 db2"
    using delivery_full [OF assms(1,2) n(2)] n(3) by blast
  let ?oid = "next_o_id db (ucast w) (ucast d) + 1"
  have a: "pending_of db1 w d = ?oid" "next_o_id db1 (ucast w) (ucast d) = ?oid"
    "os_get (table_new_order db1) (NO_key (ucast w) (ucast d) ?oid) \<noteq> None"
    using n(4) by (auto simp: order_added_def Let_def)
  from dl(3) obtain v where v:
    "os_get (table_new_order db2) (NO_key (ucast w) (ucast d) ?oid) = None"
    "os_get (table_order db2) (O_key (ucast w) (ucast d) ?oid) = Some (v\<lparr>o_carrier_id := carrier\<rparr>)"
    using a(3) unfolding district_delivered_def Let_def a(1) by blast
  have "o_carrier_id (v\<lparr>o_carrier_id := carrier\<rparr>) = carrier" by simp
  with n(1,4) dl(1,2) v [folded a(2)] show ?thesis by blast
qed

lemma new_order_is_delivered_witness:
  "\<forall>J. \<exists>db st' total s1 h1 db1 d s2 h2 db2. prepare_kvs id 0 tpcc_default_cfg loader_init = Some (db, st') \<and>
    txn_new_order tpcc_default_cfg J 1 (42, 0, db) = Some (Some total, s1, h1, db1) \<and>
    txn_delivery tpcc_default_cfg J 1 (s1, h1, db1) = Some (s2, h2, db2) \<and>
    os_get (table_new_order db2) (NO_key 1 (ucast (d::u32)) (next_o_id db1 1 (ucast d))) = None"
proof
  fix J :: junk
  obtain db st' where db: "prepare_kvs id 0 tpcc_default_cfg loader_init = Some (db, st')"
    "tpcc_inv tpcc_default_cfg db" "counters_below tpcc_default_cfg 3001 db" using loaded_default by blast
  have lt: "(3001 :: nat) < 4294967295" by simp
  from new_order_is_delivered [OF default_cfg_ok(1,2) db(2,3) lt, of J 42 0] db(1)
  show "\<exists>db st' total s1 h1 db1 d s2 h2 db2. prepare_kvs id 0 tpcc_default_cfg loader_init = Some (db, st') \<and>
    txn_new_order tpcc_default_cfg J 1 (42, 0, db) = Some (Some total, s1, h1, db1) \<and>
    txn_delivery tpcc_default_cfg J 1 (s1, h1, db1) = Some (s2, h2, db2) \<and>
    os_get (table_new_order db2) (NO_key 1 (ucast (d::u32)) (next_o_id db1 1 (ucast d))) = None"
    by (simp only: unsigned_1) blast
qed

text \<open>Older orders are never delivered: each kind of transaction keeps the backlog.\<close>

lemma payment_apply_frame:
  "table_new_order (payment_apply J w d cw cd c ts amt db) = table_new_order db"
  "pending_new_order_per_dis (payment_apply J w d cw cd c ts amt db) = pending_new_order_per_dis db"
  by (simp_all add: payment_apply_def Let_def)

lemma backlog_cong:
  assumes "backlog_ok cfg db" "cfg_ok cfg" "pending_new_order_per_dis db' = pending_new_order_per_dis db"
    and "\<And>W D. wh_ok cfg W \<Longrightarrow> di_ok cfg D \<Longrightarrow> next_o_id db' W D = next_o_id db W D"
    and "\<And>k. (\<And>w d. warehouse_in cfg w \<Longrightarrow> district_in cfg d \<Longrightarrow>
           k \<noteq> NO_key (ucast w) (ucast d) (pending_of db w d)) \<Longrightarrow>
         os_get (table_new_order db') k = os_get (table_new_order db) k"
  shows "backlog_ok cfg db'"
  unfolding backlog_ok_def
proof (intro allI impI)
  fix w d assume wd: "warehouse_in cfg w \<and> district_in cfg d"
  have p: "pending_of db' w' d' = pending_of db w' d'" for w' d'
    using assms(3) by (simp add: pending_of_def)
  have "next_o_id db' (ucast w) (ucast d) = next_o_id db (ucast w) (ucast d)"
    using wd by (intro assms(4)) (simp_all add: wh_ok_ucast di_ok_ucast assms(2))
  moreover have "os_get (table_new_order db') (NO_key (ucast w) (ucast d) oid) \<noteq> None"
    if "2101 \<le> oid" "oid < 3000" for oid
  proof -
    have "NO_key (ucast w) (ucast d) oid \<noteq> NO_key (ucast w') (ucast d') (pending_of db w' d')"
      if h: "warehouse_in cfg w'" "district_in cfg d'" for w' d'
    proof -
      have "3000 \<le> pending_of db w' d'" using assms(1) h by (simp add: backlog_ok_def)
      with \<open>oid < 3000\<close> show ?thesis by auto
    qed
    then have "os_get (table_new_order db') (NO_key (ucast w) (ucast d) oid) =
        os_get (table_new_order db) (NO_key (ucast w) (ucast d) oid)" by (rule assms(5))
    with assms(1) wd that show ?thesis by (simp add: backlog_ok_def)
  qed
  ultimately show "3000 \<le> pending_of db' w d \<and> 3000 \<le> next_o_id db' (ucast w) (ucast d) \<and>
     (\<forall>oid. 2101 \<le> oid \<and> oid < 3000 \<longrightarrow>
        os_get (table_new_order db') (NO_key (ucast w) (ucast d) oid) \<noteq> None)"
    using assms(1) wd by (simp add: backlog_ok_def p)
qed

lemma backlog_order_added:
  assumes bl: "backlog_ok cfg db" and cfg: "cfg_ok cfg" and wd: "warehouse_in cfg w" "district_in cfg d"
    and nx: "counters_below cfg B db" "B < 4294967295" and add: "order_added w d db db'"
  shows "backlog_ok cfg db'"
  unfolding backlog_ok_def
proof (intro allI impI)
  let ?oid = "next_o_id db (ucast w) (ucast d) + 1"
  fix w' d' assume h: "warehouse_in cfg w' \<and> district_in cfg d'"
  have A: "pending_of db' w d = ?oid" "next_o_id db' (ucast w) (ucast d) = ?oid"
    "\<forall>w' d'. (w', d') \<noteq> (w, d) \<longrightarrow> pending_of db' w' d' = pending_of db w' d'"
    "\<forall>W' D'. (W', D') \<noteq> (ucast w, ucast d) \<longrightarrow> next_o_id db' W' D' = next_o_id db W' D'"
    "\<exists>vn. table_new_order db' = os_insert (table_new_order db) (NO_key (ucast w) (ucast d) ?oid) vn"
    using add unfolding order_added_def Let_def by blast+
  have "next_o_id db (ucast w) (ucast d) \<noteq> - 1"
    using nx wh_ok_ucast [OF cfg wd(1)] di_ok_ucast [OF cfg wd(2)]
    by (intro unat_neq_max) (auto simp: counters_below_def intro: le_less_trans)
  moreover have "3000 \<le> next_o_id db (ucast w) (ucast d)" using bl wd by (simp add: backlog_ok_def)
  ultimately have new: "3000 \<le> ?oid" using unat_inc_u32 by (simp add: word_le_nat_alt)
  have "3000 \<le> pending_of db' w' d'"
    using A(1,3) new bl h by (cases "(w', d') = (w, d)") (auto simp: backlog_ok_def)
  moreover have "3000 \<le> next_o_id db' (ucast w') (ucast d')"
    using A(2,4) new bl h by (cases "(ucast w' :: u16, ucast d' :: byte) = (ucast w, ucast d)")
      (auto simp: backlog_ok_def)
  moreover have "os_get (table_new_order db') (NO_key (ucast w') (ucast d') oid) \<noteq> None"
    if "2101 \<le> oid" "oid < 3000" for oid
    using A(5) bl h that by (auto simp: backlog_ok_def)
  ultimately show "3000 \<le> pending_of db' w' d' \<and> 3000 \<le> next_o_id db' (ucast w') (ucast d') \<and>
     (\<forall>oid. 2101 \<le> oid \<and> oid < 3000 \<longrightarrow>
        os_get (table_new_order db') (NO_key (ucast w') (ucast d') oid) \<noteq> None)" by blast
qed

lemma backlog_step:
  assumes step: "tpcc_step cfg db db'" and cfg: "cfg_ok cfg" and inv: "tpcc_inv cfg db"
    and B: "counters_below cfg B db" "B < 4294967295" and bl: "backlog_ok cfg db"
  shows "backlog_ok cfg db'"
  using step
proof (rule tpcc_stepE)
  fix w J kind s h s' h'
  assume w: "warehouse_in cfg w" and run: "run_txn cfg J kind w (s, h, db) = Some (s', h', db')"
  show ?thesis
  proof (cases kind)
    case NewOrder
    obtain total s1 db1 d where "txn_new_order cfg J w (s, h, db) = Some (Some total, s1, h + 1, db1)"
      "district_in cfg d" "order_added w d db db1"
      using new_order_full [OF cfg w inv B] by blast
    with NewOrder run backlog_order_added [OF bl cfg w _ B] show ?thesis by (auto simp: run_txn_def)
  next
    case Payment
    obtain s1 d cw cd c amt where
      "txn_payment cfg J w (s, h, db) = Some (s1, h + 1, payment_apply J w d cw cd c h amt db)"
      using payment_full [OF cfg w, of J s h db] by blast
    with Payment run have db': "db' = payment_apply J w d cw cd c h amt db" by (simp add: run_txn_def)
    show ?thesis
      unfolding db' by (rule backlog_cong [OF bl cfg])
        (simp_all add: payment_apply_frame payment_apply_inv(2) [OF inv])
  next
    case Delivery
    obtain s1 h1 db1 where D: "txn_delivery cfg J w (s, h, db) = Some (s1, h1, db1)" "delivery_frame db db1"
      "\<forall>k. (\<forall>d. district_in cfg d \<longrightarrow> k \<noteq> NO_key (ucast w) (ucast d) (pending_of db w d)) \<longrightarrow>
         os_get (table_new_order db1) k = os_get (table_new_order db) k"
      using delivery_full [OF cfg w inv, of J s h] by blast
    then have "db' = db1" using Delivery run by (simp add: run_txn_def)
    moreover have "backlog_ok cfg db1"
      by (rule backlog_cong [OF bl cfg])
        (use D(2,3) w in \<open>auto simp: delivery_frame_def next_o_id_def\<close>)
    ultimately show ?thesis by simp
  next
    case OrderStatus
    with run order_status_full [OF cfg w inv, of s h] bl show ?thesis by (auto simp: run_txn_def)
  next
    case StockLevel
    with run stock_level_full [OF cfg w inv, of J s h] bl show ?thesis by (auto simp: run_txn_def)
  qed
qed

lemma backlog_reach:
  "tpcc_reach cfg db0 n db \<Longrightarrow> cfg_ok cfg \<Longrightarrow> tpcc_inv cfg db0 \<Longrightarrow> counters_below cfg B db0 \<Longrightarrow>
   B + n < 4294967296 \<Longrightarrow> backlog_ok cfg db0 \<Longrightarrow> backlog_ok cfg db"
proof (induction rule: tpcc_reach.induct)
  case (next_txn n db db')
  then have "B + n < 4294967296" by simp
  with tpcc_reach_ok [OF next_txn.hyps(1) next_txn.prems(1-3)]
  have "tpcc_inv cfg db" "counters_below cfg (B + n) db" by blast+
  with next_txn show ?case by (auto intro: backlog_step)
qed

text \<open>C26: what the benchmark does not do: the new orders 2101 to 2999 of every district are never delivered,
  whatever transactions run after the population. TPC-C's delivery takes the oldest new order of
  a district; \<open>txn_delivery\<close> takes the newest one only.\<close>

theorem old_orders_starve:
  assumes "cfg_ok cfg" and "mset (shuffle (map word_of_nat [1..<3001])) = mset (map word_of_nat [1..<3001])"
    and "prepare_kvs shuffle cxl cfg st = Some (db0, st')"
    and "tpcc_reach cfg db0 n db" and "3001 + n < 4294967296"
    and "warehouse_in cfg w" and "district_in cfg d" and "2101 \<le> oid" and "oid < 3000"
  shows "os_get (table_new_order db) (NO_key (ucast w) (ucast d) oid) \<noteq> None"
proof -
  have "tpcc_inv cfg db0" "counters_below cfg 3001 db0" "backlog_ok cfg db0"
    using prepare_kvs_ok [of cfg shuffle cxl st, OF assms(1,2)] assms(3) by auto
  with assms have "backlog_ok cfg db" by (blast intro: backlog_reach)
  with assms show ?thesis by (simp add: backlog_ok_def)
qed

lemma old_orders_starve_witness:
  "\<forall>J. \<exists>db0 st' s h db. prepare_kvs id 0 tpcc_default_cfg loader_init = Some (db0, st') \<and>
     run_txn tpcc_default_cfg J Delivery 1 (42, 0, db0) = Some (s, h, db) \<and>
     os_get (table_new_order db) (NO_key 1 5 2500) \<noteq> None"
proof
  fix J :: junk
  obtain db0 st' where db0: "prepare_kvs id 0 tpcc_default_cfg loader_init = Some (db0, st')"
    "tpcc_inv tpcc_default_cfg db0" "counters_below tpcc_default_cfg 3001 db0" using loaded_default by blast
  have lt: "(3001 :: nat) < 4294967295" by simp
  obtain s h db where run: "run_txn tpcc_default_cfg J Delivery 1 (42, 0, db0) = Some (s, h, db)"
    using run_txn_ok [OF default_cfg_ok(1,2) db0(2,3) lt] by blast
  have r: "tpcc_reach tpcc_default_cfg db0 (Suc 0) db"
    using tpcc_reach.start tpcc_step.step [OF default_cfg_ok(2) run] by (rule tpcc_reach.next_txn)
  have "district_in tpcc_default_cfg 5" by (simp add: district_in_def tpcc_default_cfg_def)
  then have "os_get (table_new_order db) (NO_key 1 5 2500) \<noteq> None"
    using old_orders_starve [of tpcc_default_cfg id 0 loader_init, OF default_cfg_ok(1) _ db0(1) r _
      default_cfg_ok(2), of 5 2500] by simp
  with db0(1) run show "\<exists>db0 st' s h db. prepare_kvs id 0 tpcc_default_cfg loader_init = Some (db0, st') \<and>
     run_txn tpcc_default_cfg J Delivery 1 (42, 0, db0) = Some (s, h, db) \<and>
     os_get (table_new_order db) (NO_key 1 5 2500) \<noteq> None" by blast
qed

text \<open>The total of the delivered lines, added up in single precision.\<close>

lemma deliver_lines_total:
  "fst (deliver_lines kvs acc h t) = fold (\<lambda>(k, v) acc. f32 (acc + ol_amount v)) kvs acc"
  by (induction kvs acc h t rule: deliver_lines.induct) (simp_all add: Let_def GetCurrentTimeMillis_def)

text \<open>C28: which lines a delivery stamps: not the lines of the delivered order but the first ten records of
  the order-line table from \<open>OL_key(w, d, o, 0)\<close> on, and their total goes to the customer of the
  order. An order of more than ten lines is delivered in part; after an order of fewer lines the
  scan runs on into the lines of the next district or warehouse, which are stamped and credited
  too.\<close>

theorem delivery_takes_ten_records:
  assumes "os_ok (table_order_line db)"
    and "vec_get (pending_new_order_per_dis db) (unat (w - 1)) = Some p" and "vec_get p (unat (d - 1)) = Some x"
    and "os_get (table_new_order db) (NO_key (ucast w) (ucast d) (ucast x)) \<noteq> None"
    and "os_get (table_order db) (O_key (ucast w) (ucast d) (ucast x)) = Some vo"
    and "os_get (table_customer db) (C_key (ucast (o_c_id vo)) (ucast d) (ucast w)) = Some vc"
    and "kvs = take 10 (filter (\<lambda>(k, _). OL_key (ucast w) (ucast d) (ucast x) 0 \<le> k) (table_order_line db))"
  shows "\<exists>h' db' vc'. deliver_district J w d carrier (h, db) = Some (True, h', db') \<and>
    (\<forall>k v. (k, v) \<in> set kvs \<longrightarrow> (\<exists>now. os_get (table_order_line db') k = Some (v\<lparr>ol_delivery_d := now\<rparr>))) \<and>
    (\<forall>k. k \<notin> fst ` set kvs \<longrightarrow> os_get (table_order_line db') k = os_get (table_order_line db) k) \<and>
    os_get (table_customer db') (C_key (ucast (o_c_id vo)) (ucast d) (ucast w)) = Some vc' \<and>
    c_balance vc' = f32 (c_balance vc + fold (\<lambda>(k, v) acc. f32 (acc + ol_amount v)) kvs 0)"
proof -
  let ?t = "table_order_line db"
  have kvs: "os_scan ?t (OL_key (ucast w) (ucast d) (ucast x) 0) 10 = kvs" "os_ok kvs"
    using os_scan_eq [OF assms(1)] os_scan_sorted [OF assms(1)] assms(7) by metis+
  obtain tot t' where dl: "deliver_lines kvs 0 h ?t = (tot, h + word_of_nat (length kvs), t')"
    "\<forall>k. k \<notin> os_keys kvs \<longrightarrow> os_get t' k = os_get ?t k"
    "\<forall>k v. os_get kvs k = Some v \<longrightarrow> (\<exists>now. os_get t' k = Some (v\<lparr>ol_delivery_d := now\<rparr>))"
    using deliver_lines_effect [OF assms(1) kvs(2), of 0 h] by blast
  have tot: "tot = fold (\<lambda>(k, v) acc. f32 (acc + ol_amount v)) kvs 0"
    using deliver_lines_total [of kvs 0 h ?t] dl(1) by simp
  let ?c = "C_key (ucast (o_c_id vo)) (ucast d) (ucast w)"
  let ?db = "db\<lparr>table_new_order := os_remove (table_new_order db) (NO_key (ucast w) (ucast d) (ucast x)),
      table_order := os_insert (table_order db) (O_key (ucast w) (ucast d) (ucast x)) (vo\<lparr>o_carrier_id := carrier\<rparr>),
      table_order_line := t',
      table_customer := os_insert (table_customer db) ?c
        (vc\<lparr>c_balance := f32 (c_balance vc + tot), c_delivery_cnt := c_delivery_cnt vc + 1\<rparr>)\<rparr>"
  have "deliver_district J w d carrier (h, db) = Some (True, h + word_of_nat (length kvs), ?db)"
    using deliver_district_found [OF assms(2,3) refl assms(4,5) dl(1) [folded kvs(1)], of J carrier] assms(6)
    by (simp add: kvs(1))
  moreover have "\<forall>k v. (k, v) \<in> set kvs \<longrightarrow> (\<exists>now. os_get t' k = Some (v\<lparr>ol_delivery_d := now\<rparr>))"
    using dl(3) by (simp add: os_get_in_set [OF kvs(2)])
  moreover have "\<forall>k. k \<notin> fst ` set kvs \<longrightarrow> os_get t' k = os_get ?t k"
    using dl(2) by (simp add: os_keys_def)
  ultimately show ?thesis
    unfolding tot by (intro exI [of _ "h + word_of_nat (length kvs)"] exI [of _ ?db]) (simp add: tot)
qed

definition sample_line :: "rat \<Rightarrow> OL_val" where
  "sample_line amount = \<lparr>ol_i_id = 1, ol_delivery_d = 0, ol_amount = amount, ol_supply_w_id = 1, ol_quantity = 5\<rparr>"

text \<open>
  Order 1 of district 1 has one line; the delivery of district 1 also stamps the line of
  district 2 and credits its amount.
\<close>

lemma delivery_takes_ten_records_witness:
  "\<forall>J db0 vc. \<exists>h' db' vc' now. deliver_district J 1 1 7 (0,
       db0\<lparr>table_order_line := [(OL_key 1 1 1 1, sample_line 3), (OL_key 1 2 1 1, sample_line 40)],
         table_new_order := [(NO_key 1 1 1, \<lparr>no_dummy = []\<rparr>)],
         table_order := [(O_key 1 1 1, \<lparr>o_c_id = 9, o_carrier_id = 0, o_ol_cnt = 1, o_all_local = True, o_entry_d = 0\<rparr>)],
         table_customer := [(C_key 9 1 1, vc\<lparr>c_balance := 0\<rparr>)],
         pending_new_order_per_dis := [[1]]\<rparr>) = Some (True, h', db') \<and>
     os_get (table_order_line db') (OL_key 1 2 1 1) = Some ((sample_line 40)\<lparr>ol_delivery_d := now\<rparr>) \<and>
     os_get (table_customer db') (C_key 9 1 1) = Some vc' \<and> c_balance vc' = f32 (f32 (f32 3 + 40))"
proof (intro allI)
  fix J :: junk and db0 :: tpcc_db and vc :: C_val
  let ?lines = "[(OL_key 1 1 1 1, sample_line 3), (OL_key 1 2 1 1, sample_line 40)]"
  let ?vo = "\<lparr>o_c_id = 9, o_carrier_id = 0, o_ol_cnt = 1, o_all_local = True, o_entry_d = 0 :: u32\<rparr>"
  let ?db = "db0\<lparr>table_order_line := ?lines, table_new_order := [(NO_key 1 1 1, \<lparr>no_dummy = []\<rparr>)],
         table_order := [(O_key 1 1 1, ?vo)], table_customer := [(C_key 9 1 1, vc\<lparr>c_balance := 0\<rparr>)],
         pending_new_order_per_dis := [[1]]\<rparr>"
  have lt: "OL_key 1 1 1 1 < OL_key 1 2 1 1" "OL_key 1 1 1 0 \<le> OL_key 1 1 1 1" "OL_key 1 1 1 0 \<le> OL_key 1 2 1 1"
    by (simp_all add: OL_key_less_iff OL_key_def not_less [symmetric])
  have ok: "os_ok (table_order_line ?db)" using lt by (simp add: os_ok_def)
  have kvs: "?lines = take 10 (filter (\<lambda>(k, _). OL_key (ucast (1::u32)) (ucast (1::u32)) (ucast (1::u64)) 0 \<le> k)
      (table_order_line ?db))" using lt by simp
  from delivery_takes_ten_records [where p = "[1]" and vo = ?vo and vc = "vc\<lparr>c_balance := 0\<rparr>" and J = J and carrier = 7
      and h = 0, OF ok _ _ _ _ _ kvs]
  obtain h' db' vc' where D: "deliver_district J 1 1 7 (0, ?db) = Some (True, h', db')"
    "\<forall>k v. (k, v) \<in> set ?lines \<longrightarrow> (\<exists>now. os_get (table_order_line db') k = Some (v\<lparr>ol_delivery_d := now\<rparr>))"
    "os_get (table_customer db') (C_key 9 1 1) = Some vc'"
    "c_balance vc' = f32 (0 + fold (\<lambda>(k, v) acc. f32 (acc + ol_amount v)) ?lines 0)" by auto
  from D(2) obtain now where "os_get (table_order_line db') (OL_key 1 2 1 1) = Some ((sample_line 40)\<lparr>ol_delivery_d := now\<rparr>)"
    by auto
  with D(1,3,4) show "\<exists>h' db' vc' now. deliver_district J 1 1 7 (0, ?db) = Some (True, h', db') \<and>
     os_get (table_order_line db') (OL_key 1 2 1 1) = Some ((sample_line 40)\<lparr>ol_delivery_d := now\<rparr>) \<and>
     os_get (table_customer db') (C_key 9 1 1) = Some vc' \<and> c_balance vc' = f32 (f32 (f32 3 + 40))"
    by (auto simp: sample_line_def)
qed

section \<open>Payment\<close>

text \<open>C22: a payment always returns. It adds one amount of 1.00 to 5000.00 (in single precision) to the
  year-to-date of the home warehouse and of one district, takes it from the balance of one
  customer, whose payments it counts, and writes one history record of that amount; all other
  records, the orders, the stock and the district counters stay, and so does the invariant.\<close>

theorem payment_correct:
  assumes "cfg_ok cfg" and "warehouse_in cfg w" and "tpcc_inv cfg db"
  shows "\<exists>s' d cw cd c amt cents db'. txn_payment cfg J w (s, h, db) = Some (s', h + 1, db') \<and>
    amt = f32 (f64 (of_nat cents / 100)) \<and> 100 \<le> cents \<and> cents \<le> 500000 \<and> tpcc_inv cfg db' \<and>
    1 \<le> d \<and> d \<le> 10 \<and> warehouse_in cfg cw \<and> 1 \<le> cd \<and> cd \<le> 10 \<and> 1 \<le> c \<and> c \<le> 3000 \<and>
    (let kw = W_key (ucast w); kd = D_key (ucast w) (ucast (d :: u32));
         kc = C_key (ucast (c :: u32)) (ucast (cd :: u32)) (ucast cw);
         kh = H_key (ucast w) (ucast d) (ucast cw) (ucast cd) (ucast c) h
     in (\<forall>v. os_get (table_warehouse db) kw = Some v \<longrightarrow>
           os_get (table_warehouse db') kw = Some (v\<lparr>w_ytd := f32 (w_ytd v + amt)\<rparr>)) \<and>
        (\<forall>v. os_get (table_district db) kd = Some v \<longrightarrow>
           os_get (table_district db') kd = Some (v\<lparr>d_ytd := f32 (d_ytd v + amt)\<rparr>)) \<and>
        (\<forall>v. os_get (table_customer db) kc = Some v \<longrightarrow> (\<exists>v'. os_get (table_customer db') kc = Some v' \<and>
           c_balance v' = f32 (c_balance v - amt) \<and> c_ytd_payment v' = f32 (c_ytd_payment v + amt) \<and>
           c_payment_cnt v' = c_payment_cnt v + 1 \<and> c_last v' = c_last v \<and> c_credit v' = c_credit v)) \<and>
        (\<exists>v. os_get (table_history db') kh = Some v \<and> h_amount v = amt) \<and>
        (\<forall>k. k \<noteq> kw \<longrightarrow> os_get (table_warehouse db') k = os_get (table_warehouse db) k) \<and>
        (\<forall>k. k \<noteq> kd \<longrightarrow> os_get (table_district db') k = os_get (table_district db) k) \<and>
        (\<forall>k. k \<noteq> kc \<longrightarrow> os_get (table_customer db') k = os_get (table_customer db) k) \<and>
        (\<forall>k. k \<noteq> kh \<longrightarrow> os_get (table_history db') k = os_get (table_history db) k)) \<and>
    (\<forall>W D. wh_ok cfg W \<and> di_ok cfg D \<longrightarrow> next_o_id db' W D = next_o_id db W D) \<and>
    table_item db' = table_item db \<and> table_stock db' = table_stock db \<and> table_order db' = table_order db \<and>
    table_new_order db' = table_new_order db \<and> table_order_line db' = table_order_line db"
proof -
  obtain s' d cw cd c and cents :: u32 where p: "txn_payment cfg J w (s, h, db) =
      Some (s', h + 1, payment_apply J w d cw cd c h (f32 (f64 (of_nat (unat cents) / 100))) db)"
    "100 \<le> cents" "cents \<le> 500000"
    "1 \<le> d \<and> d \<le> 10 \<and> warehouse_in cfg cw \<and> 1 \<le> cd \<and> cd \<le> 10 \<and> 1 \<le> c \<and> c \<le> 3000"
    using payment_full [OF assms(1,2), of J s h db] by blast
  have cents: "100 \<le> unat cents" "unat cents \<le> 500000" using p(2,3) by (simp_all add: word_le_nat_alt)
  let ?db' = "payment_apply J w d cw cd c h (f32 (f64 (of_nat (unat cents) / 100))) db"
  note pay = payment_apply_inv [OF assms(3), where J = J and w = w and d = d and cw = cw and cd = cd and c = c
    and ts = h and amt = "f32 (f64 (of_nat (unat cents) / 100))"]
  show ?thesis
    by (rule exI [of _ s'], rule exI [of _ d], rule exI [of _ cw], rule exI [of _ cd], rule exI [of _ c],
        rule exI [of _ "f32 (f64 (of_nat (unat cents) / 100))"], rule exI [of _ "unat cents"],
        rule exI [of _ ?db'], intro conjI)
      (use p cents pay in \<open>simp_all add: payment_apply_def payment_customer_def Let_def del: of_nat_unat\<close>)
qed

lemma payment_correct_witness:
  "\<forall>J. \<exists>db st' s' db'. prepare_kvs id 0 tpcc_default_cfg loader_init = Some (db, st') \<and>
    txn_payment tpcc_default_cfg J 1 (42, 5, db) = Some (s', 6, db') \<and> table_order db' = table_order db"
proof
  fix J :: junk
  obtain db st' where db: "prepare_kvs id 0 tpcc_default_cfg loader_init = Some (db, st')"
    "tpcc_inv tpcc_default_cfg db" using loaded_default by blast
  have six: "(5 :: u32) + 1 = 6" by simp
  from payment_correct [OF default_cfg_ok(1,2) db(2), of J 42 5] db(1)
  show "\<exists>db st' s' db'. prepare_kvs id 0 tpcc_default_cfg loader_init = Some (db, st') \<and>
    txn_payment tpcc_default_cfg J 1 (42, 5, db) = Some (s', 6, db') \<and> table_order db' = table_order db"
    unfolding six by blast
qed

text \<open>The first payment of 100.01 breaks TPC-C's consistency condition 1 (a warehouse's year-to-date is
  the sum of its districts'): the totals are single-precision, and from the loaded 300000 and
  30000 the warehouse's total grows by 100 exactly but the district's by 100 + 5/512.\<close>

lemma payment_breaks_ytd:
  assumes "os_get (table_warehouse db) (W_key (ucast w)) = Some vw" and "w_ytd vw = 300000"
    and "os_get (table_district db) (D_key (ucast w) (ucast d)) = Some vd" and "d_ytd vd = 30000"
  shows "let db' = payment_apply J w d cw cd c ts (f32 (f64 (10001 / 100))) db in
    map_option w_ytd (os_get (table_warehouse db') (W_key (ucast w))) = Some (300000 + 100) \<and>
    map_option d_ytd (os_get (table_district db') (D_key (ucast w) (ucast d))) = Some (30000 + 100 + 5 / 512)"
proof -
  have "f32 (300000 + f32 (f64 (10001 / 100))) = 300000 + 100"
    "f32 (30000 + f32 (f64 (10001 / 100))) = 30000 + 100 + 5 / 512" by code_simp+
  with assms show ?thesis by (simp add: payment_apply_def Let_def)
qed

lemma payment_breaks_ytd_witness:
  "\<forall>J db0 vw vd. let db' = payment_apply J 1 2 1 2 7 0 (f32 (f64 (10001 / 100)))
      (db0\<lparr>table_warehouse := [(W_key 1, vw\<lparr>w_ytd := 300000\<rparr>)],
           table_district := [(D_key 1 2, vd\<lparr>d_ytd := 30000\<rparr>)]\<rparr>) in
    map_option w_ytd (os_get (table_warehouse db') (W_key 1)) = Some 300100 \<and>
    map_option d_ytd (os_get (table_district db') (D_key 1 2)) = Some (15411205 / 512)"
proof (intro allI)
  fix J :: junk and db0 :: tpcc_db and vw :: W_val and vd :: D_val
  let ?db = "db0\<lparr>table_warehouse := [(W_key 1, vw\<lparr>w_ytd := 300000\<rparr>)],
           table_district := [(D_key 1 2, vd\<lparr>d_ytd := 30000\<rparr>)]\<rparr>"
  show "let db' = payment_apply J 1 2 1 2 7 0 (f32 (f64 (10001 / 100))) ?db in
    map_option w_ytd (os_get (table_warehouse db') (W_key 1)) = Some 300100 \<and>
    map_option d_ytd (os_get (table_district db') (D_key 1 2)) = Some (15411205 / 512)"
    using payment_breaks_ytd [of ?db 1 "vw\<lparr>w_ytd := 300000\<rparr>" 2 "vd\<lparr>d_ytd := 30000\<rparr>" J 1 2 7 0]
    by (simp add: Let_def)
qed

section \<open>Order status and stock level\<close>

text \<open>the two read-only transactions always return and change neither the database nor the clock.
  Order status returns the first ten records from the newest order of one of the customers on;
  stock level counts, among at most 200 order lines from the district's last 20 order numbers on,
  those whose stock is below a threshold between 10 and 20.\<close>

theorem read_only_txns:
  assumes "cfg_ok cfg" and "warehouse_in cfg w" and "tpcc_inv cfg db"
  shows "(\<exists>s' d c. txn_order_status cfg w (s, h, db) =
      Some (os_scan (table_order_line db) (OL_key (ucast w) (ucast d) (latest_of db w d c) 0) 10, s', h, db) \<and>
      district_in cfg d \<and> 1 \<le> c \<and> c \<le> 3000) \<and>
    (\<exists>n s' d lo threshold. txn_stock_level cfg J w (s, h, db) = Some (n, s', h, db) \<and>
      district_in cfg d \<and> 10 \<le> threshold \<and> threshold \<le> 20 \<and>
      lo = (if 20 \<le> next_o_id db (ucast w) (ucast d) then next_o_id db (ucast w) (ucast d) - 20 else 0) \<and>
      n = length (filter (\<lambda>(k, v). s_quantity (kv_get (table_stock db) (S_key (ucast w) (ol_i_id v)) (junk_s J))
                            < threshold)
            (os_scan (table_order_line db) (OL_key (ucast w) (ucast d) lo 0) 200)) \<and> n \<le> 200)"
  using order_status_full [OF assms] stock_level_full [OF assms] by blast

lemma read_only_txns_witness:
  "\<forall>J. \<exists>db st' n s'. prepare_kvs id 0 tpcc_default_cfg loader_init = Some (db, st') \<and>
    txn_stock_level tpcc_default_cfg J 1 (42, 0, db) = Some (n, s', 0, db) \<and> n \<le> 200"
proof
  fix J :: junk
  obtain db st' where db: "prepare_kvs id 0 tpcc_default_cfg loader_init = Some (db, st')"
    "tpcc_inv tpcc_default_cfg db" using loaded_default by blast
  from read_only_txns [OF default_cfg_ok(1,2) db(2), of 42 0 J] db(1)
  show "\<exists>db st' n s'. prepare_kvs id 0 tpcc_default_cfg loader_init = Some (db, st') \<and>
    txn_stock_level tpcc_default_cfg J 1 (42, 0, db) = Some (n, s', 0, db) \<and> n \<le> 200" by blast
qed

end
