(* ===== verification/TpccOps.thy ===== *)
theory TpccOps
  imports TpccDriver
begin

text \<open>
  The single-operation benchmark over the TPC-C tables, \<open>benchmark/real_world/tpcc_op.cpp\<close>: the
  twenty operations of its table \<open>operations\<close>, the loop of a worker, one measurement and \<open>main\<close>.
  An operation gets the tables with the two bookkeeping vectors, which all workers share, and the
  worker's generator and \<open>GetCurrentTimeMillis\<close> counter. \<open>None\<close> is an execution that ends in
  \<open>INVARIANT\<close> or has no result. In \<open>op_schedule\<close> the workers' operations run one at a time, each as
  a whole; the last section has the finer model of \<open>op_new_order_insert\<close>, one access to a shared
  vector or table at a time, in which the unsynchronised increments race. The assertion of \<open>RandomNumber\<close>
  is part of the draws that can violate it, when the build keeps assertions (\<open>RandomNumber_in_range\<close>
  covers the others). The two range scans, which no entry of the table names and which
  \<open>MasstreeKV\<close> does not implement, are left out.
\<close>

section \<open>State\<close>

record op_global =
  op_db :: tpcc_db
  next_o_id_hack_info :: "u32 list list"
  next_ol_number_hack_info :: "u32 list list"

type_synonym op_state = "op_global \<times> u64 \<times> u32"

definition hack_get :: "u32 list list \<Rightarrow> u32 \<Rightarrow> u32 \<Rightarrow> u32 option" where
  "hack_get v warehouse_id district_id = do {
     r \<leftarrow> vec_get v (unat (warehouse_id - 1));
     vec_get r (unat (district_id - 1))
   }"

definition hack_set :: "u32 list list \<Rightarrow> u32 \<Rightarrow> u32 \<Rightarrow> u32 \<Rightarrow> u32 list list option" where
  "hack_set v warehouse_id district_id x = do {
     r \<leftarrow> vec_get v (unat (warehouse_id - 1));
     r \<leftarrow> vec_set r (unat (district_id - 1)) x;
     vec_set v (unat (warehouse_id - 1)) r
   }"

text \<open>\<open>INVARIANT(table->get(k, v, ...))\<close> and \<open>INVARIANT(table->insert(k, v, ...))\<close>\<close>

definition must_get :: "('k, 'v) ostore \<Rightarrow> 'k \<Rightarrow> unit option" where
  "must_get t k = assertO (os_get t k \<noteq> None)"

definition must_insert :: "('k::linorder, 'v) ostore \<Rightarrow> 'k \<Rightarrow> 'v \<Rightarrow> ('k, 'v) ostore option" where
  "must_insert t k v = (case os_put t k v of
     Inr (t, res) \<Rightarrow> do { assertO res; Some t }
   | Inl e \<Rightarrow> None)"

definition random_warehouse :: "tpcc_cfg \<Rightarrow> u64 \<Rightarrow> (u32 \<times> u64) option" where
  "random_warehouse cfg s = RandomNumber s 1 (word_of_nat (warehouse_num cfg))"

definition random_district :: "tpcc_cfg \<Rightarrow> u64 \<Rightarrow> (u32 \<times> u64) option" where
  "random_district cfg s = RandomNumber s 1 (word_of_nat (num_district_per_warehouse cfg))"

section \<open>Reads\<close>

definition op_warehouse_get :: "tpcc_cfg \<Rightarrow> op_state \<Rightarrow> op_state option" where
  "op_warehouse_get cfg st = do {
     let (g, s, h) = st;
     (warehouse_id, s) \<leftarrow> random_warehouse cfg s;
     must_get (table_warehouse (op_db g)) (W_key (ucast warehouse_id));
     Some (g, s, h)
   }"

definition op_district_get :: "tpcc_cfg \<Rightarrow> op_state \<Rightarrow> op_state option" where
  "op_district_get cfg st = do {
     let (g, s, h) = st;
     (warehouse_id, s) \<leftarrow> random_warehouse cfg s;
     (district_id, s) \<leftarrow> random_district cfg s;
     must_get (table_district (op_db g)) (D_key (ucast warehouse_id) (ucast district_id));
     Some (g, s, h)
   }"

definition op_customer_get :: "tpcc_cfg \<Rightarrow> op_state \<Rightarrow> op_state option" where
  "op_customer_get cfg st = do {
     let (g, s, h) = st;
     (warehouse_id, s) \<leftarrow> random_warehouse cfg s;
     (district_id, s) \<leftarrow> random_district cfg s;
     (customer_id, s) \<leftarrow> GetCustomerId s;
     must_get (table_customer (op_db g))
       (C_key (ucast customer_id) (ucast district_id) (ucast warehouse_id));
     Some (g, s, h)
   }"

definition op_item_get :: "tpcc_cfg \<Rightarrow> op_state \<Rightarrow> op_state option" where
  "op_item_get cfg st = do {
     let (g, s, h) = st;
     (item_id, s) \<leftarrow> GetItemId (g_uniform_item_dist cfg) s;
     must_get (table_item (op_db g)) (I_key (ucast item_id));
     Some (g, s, h)
   }"

definition op_stock_get :: "tpcc_cfg \<Rightarrow> op_state \<Rightarrow> op_state option" where
  "op_stock_get cfg st = do {
     let (g, s, h) = st;
     (warehouse_id, s) \<leftarrow> random_warehouse cfg s;
     (item_id, s) \<leftarrow> GetItemId (g_uniform_item_dist cfg) s;
     must_get (table_stock (op_db g)) (S_key (ucast warehouse_id) item_id);
     Some (g, s, h)
   }"

definition op_order_get :: "tpcc_cfg \<Rightarrow> op_state \<Rightarrow> op_state option" where
  "op_order_get cfg st = do {
     let (g, s, h) = st;
     (warehouse_id, s) \<leftarrow> random_warehouse cfg s;
     (district_id, s) \<leftarrow> random_district cfg s;
     (oid, s) \<leftarrow> RandomNumber s 1 num_customer_per_district;
     must_get (table_order (op_db g)) (O_key (ucast warehouse_id) (ucast district_id) oid);
     Some (g, s, h)
   }"

definition op_new_order_get :: "tpcc_cfg \<Rightarrow> op_state \<Rightarrow> op_state option" where
  "op_new_order_get cfg st = do {
     let (g, s, h) = st;
     (warehouse_id, s) \<leftarrow> random_warehouse cfg s;
     (district_id, s) \<leftarrow> random_district cfg s;
     (oid, s) \<leftarrow> RandomNumber s 2101 num_customer_per_district;
     must_get (table_new_order (op_db g)) (NO_key (ucast warehouse_id) (ucast district_id) oid);
     Some (g, s, h)
   }"

section \<open>Updates\<close>

text \<open>
  The values are the ones the loaders draw (\<open>district_row\<close>, \<open>warehouse_row\<close>, and \<open>customer_row\<close>
  for a customer beyond the first thousand, whose last name is random).
\<close>

definition op_district_update :: "tpcc_cfg \<Rightarrow> op_state \<Rightarrow> op_state option" where
  "op_district_update cfg st = do {
     let (g, s, h) = st;
     (warehouse_id, s) \<leftarrow> random_warehouse cfg s;
     (dstrict_id, s) \<leftarrow> random_district cfg s;
     (v, s) \<leftarrow> district_row s;
     t \<leftarrow> must_insert (table_district (op_db g)) (D_key (ucast warehouse_id) (ucast dstrict_id)) v;
     Some (g\<lparr>op_db := (op_db g)\<lparr>table_district := t\<rparr>\<rparr>, s, h)
   }"

definition op_stock_update :: "tpcc_cfg \<Rightarrow> op_state \<Rightarrow> op_state option" where
  "op_stock_update cfg st = do {
     let (g, s, h) = st;
     (ol_supply_w_id, s) \<leftarrow> random_warehouse cfg s;
     (item_id, s) \<leftarrow> RandomNumber s 1 num_item;
     (quantity, s) \<leftarrow> RandomNumber s 10 100;
     (ytd, s) \<leftarrow> RandomNumber s 1 10000;
     (order_cnt, s) \<leftarrow> RandomNumber s 10 100;
     (remote_cnt, s) \<leftarrow> RandomNumber s 10 100;
     t \<leftarrow> must_insert (table_stock (op_db g)) (S_key (ucast ol_supply_w_id) item_id)
       \<lparr>s_quantity = quantity, s_ytd = f32 (of_int (sint ytd)), s_order_cnt = order_cnt,
        s_remote_cnt = remote_cnt\<rparr>;
     Some (g\<lparr>op_db := (op_db g)\<lparr>table_stock := t\<rparr>\<rparr>, s, h)
   }"

definition op_warehouse_udpate :: "tpcc_cfg \<Rightarrow> op_state \<Rightarrow> op_state option" where
  "op_warehouse_udpate cfg st = do {
     let (g, s, h) = st;
     (warehouse_id, s) \<leftarrow> random_warehouse cfg s;
     (v, s) \<leftarrow> warehouse_row s;
     t \<leftarrow> must_insert (table_warehouse (op_db g)) (W_key (ucast warehouse_id)) v;
     Some (g\<lparr>op_db := (op_db g)\<lparr>table_warehouse := t\<rparr>\<rparr>, s, h)
   }"

definition op_customer_udpate :: "tpcc_cfg \<Rightarrow> op_state \<Rightarrow> op_state option" where
  "op_customer_udpate cfg st = do {
     let (g, s, h) = st;
     (warehouse_id, s) \<leftarrow> random_warehouse cfg s;
     (customer_id, s) \<leftarrow> RandomNumber s 1 num_customer_per_district;
     (dstrict_id, s) \<leftarrow> random_district cfg s;
     (v, last_name, first_name, s, h) \<leftarrow> customer_row 1001 (s, h);
     t \<leftarrow> must_insert (table_customer (op_db g))
       (C_key (ucast customer_id) (ucast dstrict_id) (ucast warehouse_id)) v;
     Some (g\<lparr>op_db := (op_db g)\<lparr>table_customer := t\<rparr>\<rparr>, s, h)
   }"

definition op_order_udpate :: "tpcc_cfg \<Rightarrow> op_state \<Rightarrow> op_state option" where
  "op_order_udpate cfg st = do {
     let (g, s, h) = st;
     (warehouse_id, s) \<leftarrow> random_warehouse cfg s;
     (district_id, s) \<leftarrow> random_district cfg s;
     (customer_id, s) \<leftarrow> GetCustomerId s;
     (oid, s) \<leftarrow> RandomNumber s 1 num_customer_per_district;
     (num_items, s) \<leftarrow> RandomNumber s 5 15;
     (carrier, s) \<leftarrow> random_district cfg s;
     t \<leftarrow> must_insert (table_order (op_db g)) (O_key (ucast warehouse_id) (ucast district_id) oid)
       \<lparr>o_c_id = customer_id, o_carrier_id = carrier, o_ol_cnt = ucast num_items,
        o_all_local = True, o_entry_d = 0\<rparr>;
     Some (g\<lparr>op_db := (op_db g)\<lparr>table_order := t\<rparr>\<rparr>, s, h)
   }"

text \<open>
  \<open>RandomNumber(r, 1, UINT32_MAX - 1)\<close>: the bound becomes the \<open>int\<close> \<open>-2\<close>, the range is
  \<open>2^32 - 2\<close>, and the amount is the signed reading of the result. \<open>nd\<close> tells whether the
  assertion of \<open>RandomNumber\<close> is compiled away (\<open>NDEBUG\<close>, the CMake option \<open>nd\<close>).
\<close>

definition random_number :: "bool \<Rightarrow> u64 \<Rightarrow> (u32 \<times> u64) option" where
  "random_number nd s = do {
     (n, s) \<leftarrow> RandomNumber s 1 4294967294;
     assertO (nd \<or> RandomNumber_assert n 1 4294967294);
     Some (n, s)
   }"

definition random_amount :: "bool \<Rightarrow> u64 \<Rightarrow> (rat \<times> u64) option" where
  "random_amount nd s = do { (n, s) \<leftarrow> random_number nd s; Some (f32 (of_int (sint n)), s) }"

definition op_order_line_update :: "bool \<Rightarrow> tpcc_cfg \<Rightarrow> op_state \<Rightarrow> op_state option" where
  "op_order_line_update nd cfg st = do {
     let (g, s, h) = st;
     (warehouse_id, s) \<leftarrow> random_warehouse cfg s;
     (district_id, s) \<leftarrow> random_district cfg s;
     (oid, s) \<leftarrow> RandomNumber s 1 num_customer_per_district;
     (line_no, s) \<leftarrow> RandomNumber s 1 5;
     (item_id, s) \<leftarrow> GetItemId (g_uniform_item_dist cfg) s;
     (amount, s) \<leftarrow> random_amount nd s;
     t \<leftarrow> must_insert (table_order_line (op_db g))
       (OL_key (ucast warehouse_id) (ucast district_id) oid (ucast line_no))
       \<lparr>ol_i_id = item_id, ol_delivery_d = 1, ol_amount = amount, ol_supply_w_id = warehouse_id,
        ol_quantity = ucast warehouse_id\<rparr>;
     Some (g\<lparr>op_db := (op_db g)\<lparr>table_order_line := t\<rparr>\<rparr>, s, h)
   }"

section \<open>Inserts and the removal\<close>

definition op_new_order_insert :: "tpcc_cfg \<Rightarrow> op_state \<Rightarrow> op_state option" where
  "op_new_order_insert cfg st = do {
     let (g, s, h) = st;
     (warehouse_id, s) \<leftarrow> random_warehouse cfg s;
     (district_id, s) \<leftarrow> random_district cfg s;
     oid \<leftarrow> hack_get (next_o_id_hack_info g) warehouse_id district_id;
     hack \<leftarrow> hack_set (next_o_id_hack_info g) warehouse_id district_id (oid + 1);
     t \<leftarrow> must_insert (table_new_order (op_db g)) (NO_key (ucast warehouse_id) (ucast district_id) oid)
       \<lparr>no_dummy = var_assign 2 (bytes_of ''no'')\<rparr>;
     Some (g\<lparr>next_o_id_hack_info := hack, op_db := (op_db g)\<lparr>table_new_order := t\<rparr>\<rparr>, s, h)
   }"

definition op_order_insert :: "tpcc_cfg \<Rightarrow> op_state \<Rightarrow> op_state option" where
  "op_order_insert cfg st = do {
     let (g, s, h) = st;
     (warehouse_id, s) \<leftarrow> random_warehouse cfg s;
     (district_id, s) \<leftarrow> random_district cfg s;
     (customer_id, s) \<leftarrow> GetCustomerId s;
     (num_items, s) \<leftarrow> RandomNumber s 5 15;
     oid \<leftarrow> hack_get (next_o_id_hack_info g) warehouse_id district_id;
     hack \<leftarrow> hack_set (next_o_id_hack_info g) warehouse_id district_id (oid + 1);
     (carrier, s) \<leftarrow> random_district cfg s;
     t \<leftarrow> must_insert (table_order (op_db g)) (O_key (ucast warehouse_id) (ucast district_id) oid)
       \<lparr>o_c_id = customer_id, o_carrier_id = carrier, o_ol_cnt = ucast num_items,
        o_all_local = True, o_entry_d = 0\<rparr>;
     Some (g\<lparr>next_o_id_hack_info := hack, op_db := (op_db g)\<lparr>table_order := t\<rparr>\<rparr>, s, h)
   }"

text \<open>The line number is increased up to a random size of the order, then the order's number.\<close>

definition order_line_hack ::
  "u32 \<Rightarrow> u32 \<Rightarrow> u32 \<Rightarrow> u32 \<Rightarrow> u32 \<Rightarrow> op_global \<Rightarrow> op_global option" where
  "order_line_hack warehouse_id district_id item_num oid line_no g =
     (if line_no > item_num then do {
        hack \<leftarrow> hack_set (next_o_id_hack_info g) warehouse_id district_id (oid + 1);
        hack_ol \<leftarrow> hack_set (next_ol_number_hack_info g) warehouse_id district_id 0;
        Some (g\<lparr>next_o_id_hack_info := hack, next_ol_number_hack_info := hack_ol\<rparr>)
      }
      else do {
        hack_ol \<leftarrow> hack_set (next_ol_number_hack_info g) warehouse_id district_id (line_no + 1);
        Some (g\<lparr>next_ol_number_hack_info := hack_ol\<rparr>)
      })"

definition op_order_line_insert :: "bool \<Rightarrow> tpcc_cfg \<Rightarrow> op_state \<Rightarrow> op_state option" where
  "op_order_line_insert nd cfg st = do {
     let (g, s, h) = st;
     (warehouse_id, s) \<leftarrow> random_warehouse cfg s;
     (district_id, s) \<leftarrow> random_district cfg s;
     (item_num, s) \<leftarrow> RandomNumber s 5 15;
     oid \<leftarrow> hack_get (next_o_id_hack_info g) warehouse_id district_id;
     line_no \<leftarrow> hack_get (next_ol_number_hack_info g) warehouse_id district_id;
     g \<leftarrow> order_line_hack warehouse_id district_id item_num oid line_no g;
     (item_id, s) \<leftarrow> GetItemId (g_uniform_item_dist cfg) s;
     (amount, s) \<leftarrow> random_amount nd s;
     t \<leftarrow> must_insert (table_order_line (op_db g))
       (OL_key (ucast warehouse_id) (ucast district_id) oid (ucast line_no))
       \<lparr>ol_i_id = item_id, ol_delivery_d = 0, ol_amount = amount, ol_supply_w_id = warehouse_id,
        ol_quantity = ucast warehouse_id\<rparr>;
     Some (g\<lparr>op_db := (op_db g)\<lparr>table_order_line := t\<rparr>\<rparr>, s, h)
   }"

text \<open>The record that \<open>op_history_insert\<close> draws, and the operation.\<close>

definition history_draw :: "tpcc_cfg \<Rightarrow> u64 \<times> u32 \<Rightarrow> ((H_key \<times> H_val) \<times> u64 \<times> u32) option" where
  "history_draw cfg st = do {
     let (s, h) = st;
     (warehouse_id, s) \<leftarrow> random_warehouse cfg s;
     (customer_warehouse_id, s) \<leftarrow> random_warehouse cfg s;
     (customer_dstrict_id, s) \<leftarrow> random_district cfg s;
     (district_id, s) \<leftarrow> random_district cfg s;
     (amount, s) \<leftarrow> RandomNumber s 100 500000;
     let (ts, h) = GetCurrentTimeMillis h;
     (customer_id, s) \<leftarrow> GetCustomerId s;
     (data, s) \<leftarrow> random_str_of s 12 20;
     Some ((H_key (ucast warehouse_id) (ucast district_id) (ucast customer_warehouse_id)
         (ucast customer_dstrict_id) (ucast customer_id) ts,
       \<lparr>h_amount = div_then_float amount 100, h_data = var_assign 24 data\<rparr>), s, h)
   }"

definition op_history_insert :: "tpcc_cfg \<Rightarrow> op_state \<Rightarrow> op_state option" where
  "op_history_insert cfg st = do {
     let (g, s, h) = st;
     ((k_h, v_h), s, h) \<leftarrow> history_draw cfg (s, h);
     t \<leftarrow> must_insert (table_history (op_db g)) k_h v_h;
     Some (g\<lparr>op_db := (op_db g)\<lparr>table_history := t\<rparr>\<rparr>, s, h)
   }"

text \<open>The result of the removal is not looked at.\<close>

definition op_new_order_remove :: "bool \<Rightarrow> tpcc_cfg \<Rightarrow> op_state \<Rightarrow> op_state option" where
  "op_new_order_remove nd cfg st = do {
     let (g, s, h) = st;
     (warehouse_id, s) \<leftarrow> random_warehouse cfg s;
     (district_id, s) \<leftarrow> random_district cfg s;
     (oid, s) \<leftarrow> random_number nd s;
     Some (g\<lparr>op_db := (op_db g)\<lparr>table_new_order := os_remove (table_new_order (op_db g))
       (NO_key (ucast warehouse_id) (ucast district_id) oid)\<rparr>\<rparr>, s, h)
   }"

section \<open>Scans\<close>

text \<open>\<open>scan\<close> appends to the caller's vector and returns its length.\<close>

definition must_scan :: "('k::linorder, 'v) ostore \<Rightarrow> 'k \<Rightarrow> nat \<Rightarrow> ('k \<times> 'v) list option" where
  "must_scan t k n = (let kvs = os_scan t k n; ret = length kvs
     in do { assertO (0 \<le> ret \<and> ret = length kvs); Some kvs })"

definition op_order_line_scan_n_short :: "tpcc_cfg \<Rightarrow> op_state \<Rightarrow> op_state option" where
  "op_order_line_scan_n_short cfg st = do {
     let (g, s, h) = st;
     (warehouse_id, s) \<leftarrow> random_warehouse cfg s;
     (district_id, s) \<leftarrow> random_district cfg s;
     (newest_o_c_id, s) \<leftarrow> RandomNumber s 1 num_customer_per_district;
     must_scan (table_order_line (op_db g))
       (OL_key (ucast warehouse_id) (ucast district_id) newest_o_c_id 0) 10;
     Some (g, s, h)
   }"

definition op_order_line_scan_n_long :: "tpcc_cfg \<Rightarrow> op_state \<Rightarrow> op_state option" where
  "op_order_line_scan_n_long cfg st = do {
     let (g, s, h) = st;
     (warehouse_id, s) \<leftarrow> random_warehouse cfg s;
     (district_id, s) \<leftarrow> random_district cfg s;
     (cur_next_o_id, s) \<leftarrow> RandomNumber s 1 num_customer_per_district;
     let lower = (if cur_next_o_id \<ge> 20 then cur_next_o_id - 20 else 0);
     must_scan (table_order_line (op_db g))
       (OL_key (ucast warehouse_id) (ucast district_id) lower 0) 200;
     Some (g, s, h)
   }"

section \<open>Workers, measurements and the program\<close>

text \<open>The table \<open>operations\<close>.\<close>

definition operations :: "bool \<Rightarrow> (tpcc_cfg \<Rightarrow> op_state \<Rightarrow> op_state option) list" where
  "operations nd = [op_warehouse_get, op_district_get, op_customer_get, op_item_get, op_stock_get,
     op_order_get, op_new_order_get, op_order_line_scan_n_short, op_order_line_scan_n_long,
     op_district_update, op_stock_update, op_warehouse_udpate, op_customer_udpate,
     op_order_udpate, op_order_line_update nd, op_new_order_insert, op_order_insert,
     op_order_line_insert nd, op_history_insert, op_new_order_remove nd]"

text \<open>\<open>OpWorkerParam\<close> with the worker's generator and its thread-local counter.\<close>

record op_worker =
  opw_throughput :: u64
  opw_seed :: u64
  opw_tl_hack :: u32

text \<open>The seed of a worker is the \<open>time(nullptr)\<close>, in seconds, at which its thread is created.\<close>

definition op_worker_new :: "u64 \<Rightarrow> op_worker" where
  "op_worker_new now = \<lparr>opw_throughput = 0, opw_seed = set_seed0 now, opw_tl_hack = tl_hack_init\<rparr>"

text \<open>One round of the loop of \<open>run_op_worker\<close>, and the rounds of all workers in some order.\<close>

definition op_worker_step ::
  "(op_state \<Rightarrow> op_state option) \<Rightarrow> op_worker \<times> op_global \<Rightarrow> (op_worker \<times> op_global) option" where
  "op_worker_step runner st = do {
     let (w, g) = st;
     (g, s, h) \<leftarrow> runner (g, opw_seed w, opw_tl_hack w);
     Some (\<lparr>opw_throughput = opw_throughput w + 1, opw_seed = s, opw_tl_hack = h\<rparr>, g)
   }"

fun op_schedule ::
  "(op_state \<Rightarrow> op_state option) \<Rightarrow> nat list \<Rightarrow> op_worker list \<times> op_global \<Rightarrow>
   (op_worker list \<times> op_global) option" where
  "op_schedule runner [] st = Some st"
| "op_schedule runner (i # sched) (ws, g) = do {
     w \<leftarrow> vec_get ws i;
     (w, g) \<leftarrow> op_worker_step runner (w, g);
     op_schedule runner sched (ws[i := w], g)
   }"

text \<open>The loops at the start of \<open>run_tpcc_ops\<close>.\<close>

definition init_hack_info :: "tpcc_cfg \<Rightarrow> op_global \<Rightarrow> op_global option" where
  "init_hack_info cfg g =
     for_each (\<lambda>i. for_each (\<lambda>j g. do {
         hack \<leftarrow> hack_set (next_o_id_hack_info g) (word_of_nat (i + 1)) (word_of_nat (j + 1)) 3001;
         hack_ol \<leftarrow> hack_set (next_ol_number_hack_info g) (word_of_nat (i + 1)) (word_of_nat (j + 1)) 1;
         Some (g\<lparr>next_o_id_hack_info := hack, next_ol_number_hack_info := hack_ol\<rparr>)
       }) [0..<num_district_per_warehouse cfg]) [0..<warehouse_num cfg] g"

text \<open>
  One measurement of \<open>sec\<close> seconds, in which the workers, each bound to its core, run in the order
  \<open>sched\<close>. The rate is added to an \<open>int\<close>.
\<close>

definition run_tpcc_ops ::
  "bool \<Rightarrow> tpcc_cfg \<Rightarrow> nat \<Rightarrow> (nat \<Rightarrow> u64) \<Rightarrow> u64 \<Rightarrow> nat list \<Rightarrow> nat \<Rightarrow> op_global \<times> u32 list \<Rightarrow>
   (op_global \<times> u32 list) option" where
  "run_tpcc_ops nd cfg fg_n now sec sched op_id st = do {
     let (g, avg_throughput) = st;
     g \<leftarrow> init_hack_info cfg g;
     runner \<leftarrow> vec_get (operations nd) op_id;
     bind_workers fg_n;
     (ws, g) \<leftarrow> op_schedule (runner cfg) sched
       (map (\<lambda>worker_i. op_worker_new (now worker_i)) [0..<fg_n], g);
     let total = sum_list (map opw_throughput ws);
     assertO (sec \<noteq> 0);
     avg \<leftarrow> vec_get avg_throughput op_id;
     avg_throughput \<leftarrow> vec_set avg_throughput op_id (ucast ((scast avg :: u64) + total div sec));
     Some (g, avg_throughput)
   }"

text \<open>
  \<open>main\<close> after the tables are loaded: one operation, or all of them in the order of the table.
  \<open>run op_i\<close> gives, for the measurement of \<open>op_i\<close>, the times at which its threads are created and
  its schedule.
\<close>

definition op_global_new :: "tpcc_cfg \<Rightarrow> tpcc_db \<Rightarrow> op_global" where
  "op_global_new cfg db = (let temp = replicate (num_district_per_warehouse cfg) 3001
     in \<lparr>op_db = db, next_o_id_hack_info = replicate (warehouse_num cfg) temp,
         next_ol_number_hack_info = replicate (warehouse_num cfg) temp\<rparr>)"

definition tpcc_ops_main ::
  "bool \<Rightarrow> tpcc_cfg \<Rightarrow> nat \<Rightarrow> u64 \<Rightarrow> int \<Rightarrow> (nat \<Rightarrow> (nat \<Rightarrow> u64) \<times> nat list) \<Rightarrow> tpcc_db \<Rightarrow>
   (op_global \<times> u32 list) option" where
  "tpcc_ops_main nd cfg fg_n sec operation_id run db = do {
     let g = op_global_new cfg db;
     let measure = (\<lambda>op_i. run_tpcc_ops nd cfg fg_n (fst (run op_i)) sec (snd (run op_i)) op_i);
     let avg_throughput = replicate (length (operations nd)) 0;
     if 0 \<le> operation_id then measure (nat operation_id) (g, avg_throughput)
     else for_each measure [0..<length (operations nd)] (g, avg_throughput)
   }"

section \<open>Racing inserts\<close>

text \<open>
  \<open>op_new_order_insert\<close> again, one access to shared data per step. \<open>insert_pc\<close> is where a worker is in
  it: before its draws, before the read of the next number of its warehouse and district, before
  the load and the store of the increment, before the insert. The draws touch the worker's own
  generator only. Accesses take effect in one order (the C++ standard calls the race undefined).
\<close>

datatype insert_pc =
  Draw
| ReadId u32 u32
| LoadCounter u32 u32 u32
| StoreCounter u32 u32 u32 u32
| InsertOrder u32 u32 u32

definition new_order_access ::
  "tpcc_cfg \<Rightarrow> (insert_pc \<times> op_worker) \<times> op_global \<Rightarrow> ((insert_pc \<times> op_worker) \<times> op_global) option" where
  "new_order_access cfg st = (let ((pc, w), g) = st in case pc of
     Draw \<Rightarrow> do {
       (warehouse_id, s) \<leftarrow> random_warehouse cfg (opw_seed w);
       (district_id, s) \<leftarrow> random_district cfg s;
       Some ((ReadId warehouse_id district_id, w\<lparr>opw_seed := s\<rparr>), g)
     }
   | ReadId warehouse_id district_id \<Rightarrow> do {
       oid \<leftarrow> hack_get (next_o_id_hack_info g) warehouse_id district_id;
       Some ((LoadCounter warehouse_id district_id oid, w), g)
     }
   | LoadCounter warehouse_id district_id oid \<Rightarrow> do {
       x \<leftarrow> hack_get (next_o_id_hack_info g) warehouse_id district_id;
       Some ((StoreCounter warehouse_id district_id oid x, w), g)
     }
   | StoreCounter warehouse_id district_id oid x \<Rightarrow> do {
       hack \<leftarrow> hack_set (next_o_id_hack_info g) warehouse_id district_id (x + 1);
       Some ((InsertOrder warehouse_id district_id oid, w), g\<lparr>next_o_id_hack_info := hack\<rparr>)
     }
   | InsertOrder warehouse_id district_id oid \<Rightarrow> do {
       t \<leftarrow> must_insert (table_new_order (op_db g)) (NO_key (ucast warehouse_id) (ucast district_id) oid)
         \<lparr>no_dummy = var_assign 2 (bytes_of ''no'')\<rparr>;
       Some ((Draw, w\<lparr>opw_throughput := opw_throughput w + 1\<rparr>),
         g\<lparr>op_db := (op_db g)\<lparr>table_new_order := t\<rparr>\<rparr>)
     })"

text \<open>The accesses of all workers in some order, and a measurement of them started by \<open>main\<close>.\<close>

fun access_schedule ::
  "tpcc_cfg \<Rightarrow> nat list \<Rightarrow> (insert_pc \<times> op_worker) list \<times> op_global \<Rightarrow>
   ((insert_pc \<times> op_worker) list \<times> op_global) option" where
  "access_schedule cfg [] st = Some st"
| "access_schedule cfg (i # sched) (ws, g) = do {
     w \<leftarrow> vec_get ws i;
     (w, g) \<leftarrow> new_order_access cfg (w, g);
     access_schedule cfg sched (ws[i := w], g)
   }"

definition run_new_order_accesses ::
  "tpcc_cfg \<Rightarrow> nat \<Rightarrow> (nat \<Rightarrow> u64) \<Rightarrow> nat list \<Rightarrow> tpcc_db \<Rightarrow> ((insert_pc \<times> op_worker) list \<times> op_global) option" where
  "run_new_order_accesses cfg fg_n now sched db = do {
     g \<leftarrow> init_hack_info cfg (op_global_new cfg db);
     bind_workers fg_n;
     access_schedule cfg sched (map (\<lambda>worker_i. (Draw, op_worker_new (now worker_i))) [0..<fg_n], g)
   }"

end
