(* ===== verification/TpccOpsCorrect.thy ===== *)
theory TpccOpsCorrect
  imports TpccOps
begin

text \<open>
  What the operation benchmark guarantees on a loaded database: no read misses and no
  \<open>INVARIANT\<close> stops the program, updates change records in place, inserts are new records. The
  lemmas about one operation say that it returns and what holds afterwards (\<open>yields\<close>); the lemma
  \<open>op_schedule_inv\<close> lifts them to all interleavings of the workers.
\<close>

section \<open>The records that every read finds\<close>

definition ops_loaded :: "tpcc_cfg \<Rightarrow> tpcc_db \<Rightarrow> bool" where
  "ops_loaded cfg db \<longleftrightarrow> tables_ok db \<and> items_ok db \<and>
     (\<forall>w. warehouse_in cfg w \<longrightarrow>
        os_get (table_warehouse db) (W_key (ucast w)) \<noteq> None \<and>
        (\<forall>i. 1 \<le> i \<and> i \<le> 100000 \<longrightarrow> os_get (table_stock db) (S_key (ucast w) i) \<noteq> None)) \<and>
     (\<forall>w d. warehouse_in cfg w \<and> district_in cfg d \<longrightarrow>
        os_get (table_district db) (D_key (ucast w) (ucast d)) \<noteq> None \<and>
        (\<forall>c. 1 \<le> c \<and> c \<le> 3000 \<longrightarrow>
           os_get (table_customer db) (C_key (ucast c) (ucast d) (ucast w)) \<noteq> None \<and>
           os_get (table_order db) (O_key (ucast w) (ucast d) c) \<noteq> None \<and>
           (2101 \<le> c \<longrightarrow> os_get (table_new_order db) (NO_key (ucast w) (ucast d) c) \<noteq> None) \<and>
           (\<forall>n. 1 \<le> n \<and> n \<le> 5 \<longrightarrow>
              os_get (table_order_line db) (OL_key (ucast w) (ucast d) c n) \<noteq> None)))"

lemma ops_loaded_warehouse:
  "ops_loaded cfg db \<Longrightarrow> warehouse_in cfg w \<Longrightarrow> os_get (table_warehouse db) (W_key (ucast w)) \<noteq> None"
  "ops_loaded cfg db \<Longrightarrow> warehouse_in cfg w \<Longrightarrow> 1 \<le> i \<Longrightarrow> i \<le> 100000 \<Longrightarrow>
   os_get (table_stock db) (S_key (ucast w) i) \<noteq> None"
  "ops_loaded cfg db \<Longrightarrow> 1 \<le> (i :: u32) \<Longrightarrow> i \<le> 100000 \<Longrightarrow> os_get (table_item db) (I_key (ucast i)) \<noteq> None"
  by (auto simp: ops_loaded_def items_ok_def)

lemma ops_loaded_district:
  assumes "ops_loaded cfg db" "warehouse_in cfg w" "district_in cfg d"
  shows "os_get (table_district db) (D_key (ucast w) (ucast d)) \<noteq> None"
    and "1 \<le> (c :: u32) \<Longrightarrow> c \<le> 3000 \<Longrightarrow>
      os_get (table_customer db) (C_key (ucast c) (ucast d) (ucast w)) \<noteq> None"
    and "1 \<le> c \<Longrightarrow> c \<le> 3000 \<Longrightarrow> os_get (table_order db) (O_key (ucast w) (ucast d) c) \<noteq> None"
    and "2101 \<le> c \<Longrightarrow> c \<le> 3000 \<Longrightarrow> os_get (table_new_order db) (NO_key (ucast w) (ucast d) c) \<noteq> None"
    and "1 \<le> c \<Longrightarrow> c \<le> 3000 \<Longrightarrow> 1 \<le> n \<Longrightarrow> n \<le> 5 \<Longrightarrow>
      os_get (table_order_line db) (OL_key (ucast w) (ucast d) c n) \<noteq> None"
proof -
  show "os_get (table_new_order db) (NO_key (ucast w) (ucast d) c) \<noteq> None" if "2101 \<le> c" "c \<le> 3000"
  proof -
    have "1 \<le> c" using that(1) by (auto intro: order_trans [of 1 2101])
    then show ?thesis using assms that unfolding ops_loaded_def by blast
  qed
qed (use assms in \<open>auto simp: ops_loaded_def\<close>)

lemmas ops_loaded_there = ops_loaded_warehouse ops_loaded_district

text \<open>Inserts never take a record away.\<close>

lemma ops_loaded_insert [intro]:
  assumes "ops_loaded cfg db"
  shows "ops_loaded cfg (db\<lparr>table_warehouse := os_insert (table_warehouse db) kw vw\<rparr>)"
    and "ops_loaded cfg (db\<lparr>table_district := os_insert (table_district db) kd vd\<rparr>)"
    and "ops_loaded cfg (db\<lparr>table_customer := os_insert (table_customer db) kc vc\<rparr>)"
    and "ops_loaded cfg (db\<lparr>table_history := os_insert (table_history db) kh vh\<rparr>)"
    and "ops_loaded cfg (db\<lparr>table_stock := os_insert (table_stock db) ks vs\<rparr>)"
    and "ops_loaded cfg (db\<lparr>table_order := os_insert (table_order db) ko vo\<rparr>)"
    and "ops_loaded cfg (db\<lparr>table_new_order := os_insert (table_new_order db) kn vn\<rparr>)"
    and "ops_loaded cfg (db\<lparr>table_order_line := os_insert (table_order_line db) kl vl\<rparr>)"
  using assms by (simp_all add: ops_loaded_def tables_ok_def items_ok_def)

section \<open>The bookkeeping vectors\<close>

definition fits :: "tpcc_cfg \<Rightarrow> u32 list list \<Rightarrow> bool" where
  "fits cfg v \<longleftrightarrow> length v = warehouse_num cfg \<and> (\<forall>r\<in>set v. length r = num_district_per_warehouse cfg)"

definition hack_at :: "u32 list list \<Rightarrow> u32 \<Rightarrow> u32 \<Rightarrow> u32" where
  "hack_at v w d = v ! unat (w - 1) ! unat (d - 1)"

lemma minus_one_in:
  "warehouse_in cfg w \<Longrightarrow> unat (w - 1) = unat w - 1 \<and> unat w - 1 < warehouse_num cfg"
  "district_in cfg d \<Longrightarrow> unat (d - 1) = unat d - 1 \<and> unat d - 1 < num_district_per_warehouse cfg"
proof -
  have "x \<noteq> 0" if "1 \<le> unat x" for x :: u32 using that by auto
  then show "warehouse_in cfg w \<Longrightarrow> unat (w - 1) = unat w - 1 \<and> unat w - 1 < warehouse_num cfg"
    "district_in cfg d \<Longrightarrow> unat (d - 1) = unat d - 1 \<and> unat d - 1 < num_district_per_warehouse cfg"
    by (auto simp: warehouse_in_def district_in_def unat_minus_one)
qed

lemma minus_one_eq:
  "1 \<le> unat (x :: u32) \<Longrightarrow> 1 \<le> unat y \<Longrightarrow> unat (x - 1) = unat (y - 1) \<longleftrightarrow> x = y"
  by (simp add: word_unat_eq_iff [symmetric])

lemma hack_get_fits:
  assumes "fits cfg v" "warehouse_in cfg w" "district_in cfg d"
  shows "hack_get v w d = Some (hack_at v w d)"
  using assms minus_one_in(1) [of cfg w] minus_one_in(2) [of cfg d]
  by (simp add: fits_def hack_get_def hack_at_def)

lemma hack_set_fits:
  assumes "fits cfg v" "warehouse_in cfg w" "district_in cfg d"
  obtains v' where "hack_set v w d x = Some v'" "fits cfg v'"
    "\<And>w' d'. warehouse_in cfg w' \<Longrightarrow> district_in cfg d' \<Longrightarrow>
      hack_at v' w' d' = (if w' = w \<and> d' = d then x else hack_at v w' d')"
proof -
  let ?i = "unat (w - 1)" and ?j = "unat (d - 1)"
  let ?v = "v[?i := (v ! ?i)[?j := x]]"
  have i: "?i < length v" "?j < length (v ! ?i)"
    using assms minus_one_in(1) [of cfg w] minus_one_in(2) [of cfg d] by (simp_all add: fits_def)
  show thesis
  proof (rule that [of ?v])
    show "hack_set v w d x = Some ?v" using i by (simp add: hack_set_def)
    show "fits cfg ?v" using assms(1) i set_update_subset_insert [of v ?i "(v ! ?i)[?j := x]"]
      by (auto simp: fits_def)
    fix w' d' assume "warehouse_in cfg w'" "district_in cfg d'"
    with assms(2,3) have "unat (w' - 1) = ?i \<longleftrightarrow> w' = w" "unat (d' - 1) = ?j \<longleftrightarrow> d' = d"
      by (simp_all add: minus_one_eq warehouse_in_def district_in_def)
    then show "hack_at ?v w' d' = (if w' = w \<and> d' = d then x else hack_at v w' d')"
      using i by (auto simp: hack_at_def nth_list_update)
  qed
qed

section \<open>Rules for the steps of an operation\<close>

lemma must_insert_eq [simp]: "must_insert t k v = Some (os_insert t k v)"
  by (simp add: must_insert_def os_put_def assertO_def)

lemma must_scan_eq [simp]: "must_scan t k n = Some (os_scan t k n)"
  by (simp add: must_scan_def assertO_def Let_def)

lemma must_get_Some [simp]: "os_get t k \<noteq> None \<Longrightarrow> must_get t k = Some ()"
  by (simp add: must_get_def assertO_def)

named_theorems op_rules \<open>what the random choices of an operation give\<close>

lemma yields_warehouse [op_rules]:
  assumes "cfg_ok cfg" "\<And>v s. warehouse_in cfg v \<Longrightarrow> yields (f v s) P"
  shows "yields (do { (v, s) \<leftarrow> random_warehouse cfg s; f v s }) P"
proof -
  have "0 < warehouse_num cfg" "warehouse_num cfg < 65536" using assms(1) by (simp_all add: cfg_ok_def)
  from RandomNumber_1_n [OF this, of s] assms(2) show ?thesis
    by (auto simp: random_warehouse_def yields_def warehouse_in_def)
qed

lemma yields_district [op_rules]:
  assumes "cfg_ok cfg" "\<And>v s. district_in cfg v \<Longrightarrow> yields (f v s) P"
  shows "yields (do { (v, s) \<leftarrow> random_district cfg s; f v s }) P"
proof -
  have "0 < num_district_per_warehouse cfg" "num_district_per_warehouse cfg < 65536"
    using assms(1) by (simp_all add: cfg_ok_def)
  from RandomNumber_1_n [OF this, of s] assms(2) show ?thesis
    by (auto simp: random_district_def yields_def district_in_def)
qed

lemma yields_customer [op_rules]:
  "(\<And>v s. 1 \<le> v \<Longrightarrow> v \<le> 3000 \<Longrightarrow> yields (f v s) P) \<Longrightarrow> yields (do { (v, s) \<leftarrow> GetCustomerId s; f v s }) P"
  using GetCustomerId_range [of s] by (auto simp: yields_def)

lemma yields_item [op_rules]:
  "(\<And>v s. 1 \<le> v \<Longrightarrow> v \<le> 100000 \<Longrightarrow> yields (f v s) P) \<Longrightarrow> yields (do { (v, s) \<leftarrow> GetItemId u s; f v s }) P"
  using GetItemId_range [of u s] by (auto simp: yields_def)

lemma yields_wide [op_rules]:
  "(\<And>v s. yields (f v s) P) \<Longrightarrow> yields (do { (v, s) \<leftarrow> random_number True s; f v s }) P"
  unfolding random_number_def by (rule RandomNumber_const [of 1 4294967294 s]) (auto simp: yields_def assertO_def)

lemma yields_amount [op_rules]:
  "(\<And>v s. yields (f v s) P) \<Longrightarrow> yields (do { (v, s) \<leftarrow> random_amount True s; f v s }) P"
  unfolding random_amount_def random_number_def
  by (rule RandomNumber_const [of 1 4294967294 s]) (auto simp: yields_def assertO_def)

lemma yields_get [op_rules]:
  "os_get t k \<noteq> None \<Longrightarrow> yields m P \<Longrightarrow> yields (do { must_get t k; m }) P"
  by simp

lemma yields_put [op_rules]:
  "yields (f (os_insert t k v)) P \<Longrightarrow> yields (do { t \<leftarrow> must_insert t k v; f t }) P"
  by simp

lemma yields_scan [op_rules]: "yields m P \<Longrightarrow> yields (do { must_scan t k n; m }) P"
  by simp

text \<open>A computation whose outcome does not matter for what follows.\<close>

lemma yields_any: "yields m Q \<Longrightarrow> (\<And>v s. Q v \<Longrightarrow> yields (f v s) P) \<Longrightarrow> yields (do { (v, s) \<leftarrow> m; f v s }) P"
  by (auto simp: yields_def)

lemmas op_row_rules [op_rules] =
  yields_any [OF yields_district_row] yields_any [OF yields_warehouse_row]
  yields_any [OF yields_random_str_of] yields_number yields_Some

lemma op_customer_row_rule [op_rules]:
  "(\<And>v l n s h. yields (f v l n s h) P) \<Longrightarrow>
   yields (do { (v, l, n, s, h) \<leftarrow> customer_row 1001 (s, h); f v l n s h }) P"
  using yields_customer_row [of 1001 s h] by (auto simp: yields_def)

text \<open>The ranges of the constants.\<close>

lemma op_consts: "num_customer_per_district = 3000" "num_item = 100000"
  by (simp_all add: num_customer_per_district_def num_item_def)

section \<open>One operation\<close>

definition op_fine :: "tpcc_cfg \<Rightarrow> op_global \<Rightarrow> bool" where
  "op_fine cfg g \<longleftrightarrow> ops_loaded cfg (op_db g) \<and> fits cfg (next_o_id_hack_info g) \<and>
     fits cfg (next_ol_number_hack_info g)"

text \<open>Reads and scans find what they look for and change no table.\<close>

lemma reads_ok:
  assumes cfg: "cfg_ok cfg" and db: "ops_loaded cfg (op_db g)"
  shows "yields (op_warehouse_get cfg (g, s, h)) (\<lambda>g'. g' = g)"
    and "yields (op_district_get cfg (g, s, h)) (\<lambda>g'. g' = g)"
    and "yields (op_customer_get cfg (g, s, h)) (\<lambda>g'. g' = g)"
    and "yields (op_item_get cfg (g, s, h)) (\<lambda>g'. g' = g)"
    and "yields (op_stock_get cfg (g, s, h)) (\<lambda>g'. g' = g)"
    and "yields (op_order_get cfg (g, s, h)) (\<lambda>g'. g' = g)"
    and "yields (op_new_order_get cfg (g, s, h)) (\<lambda>g'. g' = g)"
    and "yields (op_order_line_scan_n_short cfg (g, s, h)) (\<lambda>g'. g' = g)"
    and "yields (op_order_line_scan_n_long cfg (g, s, h)) (\<lambda>g'. g' = g)"
  unfolding op_warehouse_get_def op_district_get_def op_customer_get_def op_item_get_def
    op_stock_get_def op_order_get_def op_new_order_get_def op_order_line_scan_n_short_def
    op_order_line_scan_n_long_def op_consts Let_def prod.case
  by (rule op_rules cfg | simp add: ops_loaded_there [OF db])+

text \<open>Updates replace one record: no table gets a new key.\<close>

definition same_keys :: "tpcc_db \<Rightarrow> tpcc_db \<Rightarrow> bool" where
  "same_keys db db' \<longleftrightarrow> os_keys (table_warehouse db') = os_keys (table_warehouse db) \<and>
     os_keys (table_district db') = os_keys (table_district db) \<and>
     os_keys (table_customer db') = os_keys (table_customer db) \<and>
     os_keys (table_history db') = os_keys (table_history db) \<and>
     os_keys (table_item db') = os_keys (table_item db) \<and>
     os_keys (table_stock db') = os_keys (table_stock db) \<and>
     os_keys (table_order db') = os_keys (table_order db) \<and>
     os_keys (table_new_order db') = os_keys (table_new_order db) \<and>
     os_keys (table_order_line db') = os_keys (table_order_line db)"

lemma same_keys_refl [simp]: "same_keys db db"
  by (simp add: same_keys_def)

lemma same_keys_trans: "same_keys a b \<Longrightarrow> same_keys b c \<Longrightarrow> same_keys a c"
  by (simp add: same_keys_def)

lemma insert_absorb_key: "os_get t k \<noteq> None \<Longrightarrow> insert k (os_keys t) = os_keys t"
  by (simp add: os_get_None insert_absorb)

definition updated :: "tpcc_cfg \<Rightarrow> op_global \<Rightarrow> op_global \<Rightarrow> bool" where
  "updated cfg g g' \<longleftrightarrow> ops_loaded cfg (op_db g') \<and> same_keys (op_db g) (op_db g') \<and>
     next_o_id_hack_info g' = next_o_id_hack_info g \<and>
     next_ol_number_hack_info g' = next_ol_number_hack_info g"

lemma ol_number_ok: "1 \<le> x \<Longrightarrow> x \<le> 5 \<Longrightarrow> 1 \<le> (ucast (x :: u32) :: byte) \<and> (ucast x :: byte) \<le> 5"
  by (simp add: word_le_nat_alt unat_ucast8)

lemma updates_ok:
  assumes cfg: "cfg_ok cfg" and db: "ops_loaded cfg (op_db g)"
  shows "yields (op_district_update cfg (g, s, h)) (updated cfg g)"
    and "yields (op_stock_update cfg (g, s, h)) (updated cfg g)"
    and "yields (op_warehouse_udpate cfg (g, s, h)) (updated cfg g)"
    and "yields (op_customer_udpate cfg (g, s, h)) (updated cfg g)"
    and "yields (op_order_udpate cfg (g, s, h)) (updated cfg g)"
    and "yields (op_order_line_update True cfg (g, s, h)) (updated cfg g)"
  unfolding op_district_update_def op_stock_update_def op_warehouse_udpate_def
    op_customer_udpate_def op_order_udpate_def op_order_line_update_def op_consts Let_def prod.case
  by (rule op_rules cfg | simp add: updated_def same_keys_def insert_absorb_key
      ops_loaded_there [OF db] ops_loaded_insert [OF db] ol_number_ok)+

section \<open>Inserts\<close>

text \<open>One entry of a bookkeeping vector changed.\<close>

definition hack_upd :: "tpcc_cfg \<Rightarrow> u32 list list \<Rightarrow> u32 \<Rightarrow> u32 \<Rightarrow> u32 \<Rightarrow> u32 list list \<Rightarrow> bool" where
  "hack_upd cfg v w d x v' \<longleftrightarrow> fits cfg v' \<and> (\<forall>w' d'. warehouse_in cfg w' \<and> district_in cfg d' \<longrightarrow>
     hack_at v' w' d' = (if w' = w \<and> d' = d then x else hack_at v w' d'))"

lemma yields_hack_get [op_rules]:
  "fits cfg v \<Longrightarrow> warehouse_in cfg w \<Longrightarrow> district_in cfg d \<Longrightarrow> yields (f (hack_at v w d)) P \<Longrightarrow>
   yields (do { x \<leftarrow> hack_get v w d; f x }) P"
  by (simp add: hack_get_fits)

lemma yields_hack_set [op_rules]:
  assumes "fits cfg v" "warehouse_in cfg w" "district_in cfg d"
    and "\<And>v'. hack_upd cfg v w d x v' \<Longrightarrow> yields (f v') P"
  shows "yields (do { v' \<leftarrow> hack_set v w d x; f v' }) P"
  by (rule hack_set_fits [OF assms(1-3), of x]) (use assms(4) in \<open>simp add: hack_upd_def\<close>)

lemma hack_updD: "hack_upd cfg v w d x v' \<Longrightarrow> fits cfg v'"
  "hack_upd cfg v w d x v' \<Longrightarrow> warehouse_in cfg w' \<Longrightarrow> district_in cfg d' \<Longrightarrow>
   hack_at v' w' d' = (if w' = w \<and> d' = d then x else hack_at v w' d')"
  by (auto simp: hack_upd_def)

lemma hack_set_upd:
  assumes "fits cfg v" "warehouse_in cfg w" "district_in cfg d"
  shows "\<exists>v'. hack_set v w d x = Some v' \<and> hack_upd cfg v w d x v'"
  by (rule hack_set_fits [OF assms, of x]) (simp add: hack_upd_def)

lemma yields_line_hack [op_rules]:
  assumes "fits cfg (next_o_id_hack_info g)" "fits cfg (next_ol_number_hack_info g)"
    and w: "warehouse_in cfg w" "district_in cfg d"
    and over: "\<And>v v'. l > item_num \<Longrightarrow> hack_upd cfg (next_o_id_hack_info g) w d (oid + 1) v \<Longrightarrow>
      hack_upd cfg (next_ol_number_hack_info g) w d 0 v' \<Longrightarrow>
      yields (f (g\<lparr>next_o_id_hack_info := v, next_ol_number_hack_info := v'\<rparr>)) P"
    and more: "\<And>v'. \<not> l > item_num \<Longrightarrow> hack_upd cfg (next_ol_number_hack_info g) w d (l + 1) v' \<Longrightarrow>
      yields (f (g\<lparr>next_ol_number_hack_info := v'\<rparr>)) P"
  shows "yields (do { g \<leftarrow> order_line_hack w d item_num oid l g; f g }) P"
proof -
  obtain v v0 v1 where v: "hack_set (next_o_id_hack_info g) w d (oid + 1) = Some v"
    "hack_upd cfg (next_o_id_hack_info g) w d (oid + 1) v"
    and "hack_set (next_ol_number_hack_info g) w d 0 = Some v0" "hack_upd cfg (next_ol_number_hack_info g) w d 0 v0"
      "hack_set (next_ol_number_hack_info g) w d (l + 1) = Some v1"
      "hack_upd cfg (next_ol_number_hack_info g) w d (l + 1) v1"
    using hack_set_upd [OF assms(1) w] hack_set_upd [OF assms(2) w] by blast
  with v over [of v v0] more [of v1] show ?thesis by (simp add: order_line_hack_def)
qed

lemma history_draw_total: "cfg_ok cfg \<Longrightarrow> yields (history_draw cfg (s, h)) (\<lambda>_. True)"
  unfolding history_draw_def GetCurrentTimeMillis_def Let_def prod.case
  by (rule op_rules | assumption | simp)+

lemma yields_draw [op_rules]:
  "cfg_ok cfg \<Longrightarrow> (\<And>k v s h. yields (f k v s h) P) \<Longrightarrow>
   yields (do { ((k, v), s, h) \<leftarrow> history_draw cfg (s, h); f k v s h }) P"
  using history_draw_total [of cfg s h] by (auto simp: yields_def)

lemma inserts_ok:
  assumes cfg: "cfg_ok cfg" and g: "op_fine cfg g"
  shows "yields (op_new_order_insert cfg (g, s, h)) (op_fine cfg)"
    and "yields (op_order_insert cfg (g, s, h)) (op_fine cfg)"
    and "yields (op_order_line_insert True cfg (g, s, h)) (op_fine cfg)"
    and "yields (op_history_insert cfg (g, s, h)) (op_fine cfg)"
proof -
  note g' = g [unfolded op_fine_def]
  have db: "ops_loaded cfg (op_db g)" and fits: "fits cfg (next_o_id_hack_info g)"
    "fits cfg (next_ol_number_hack_info g)" using g' by simp_all
  show "yields (op_new_order_insert cfg (g, s, h)) (op_fine cfg)"
    "yields (op_order_insert cfg (g, s, h)) (op_fine cfg)"
    "yields (op_order_line_insert True cfg (g, s, h)) (op_fine cfg)"
    "yields (op_history_insert cfg (g, s, h)) (op_fine cfg)"
    unfolding op_new_order_insert_def op_order_insert_def op_order_line_insert_def op_history_insert_def
      Let_def prod.case
    by (rule op_rules cfg fits | assumption | simp add: op_fine_def fits hack_updD(1) ops_loaded_insert [OF db])+
qed

lemma remove_ok:
  assumes "cfg_ok cfg"
  shows "yields (op_new_order_remove True cfg (g, s, h)) (\<lambda>g'. next_o_id_hack_info g' = next_o_id_hack_info g \<and>
    next_ol_number_hack_info g' = next_ol_number_hack_info g)"
  unfolding op_new_order_remove_def Let_def prod.case
  by (rule op_rules assms | simp)+

section \<open>Measurements\<close>

lemma replicate_fits: "fits cfg (replicate (warehouse_num cfg) (replicate (num_district_per_warehouse cfg) x))"
  by (simp add: fits_def)

lemma word_in:
  assumes "cfg_ok cfg"
  shows "i < warehouse_num cfg \<Longrightarrow> warehouse_in cfg (word_of_nat (i + 1))"
    and "j < num_district_per_warehouse cfg \<Longrightarrow> district_in cfg (word_of_nat (j + 1))"
proof -
  have "unat (word_of_nat n :: u32) = n" if "n < 2 ^ 32" for n using that by (rule unat_of_nat_u32)
  from this [of "i + 1"] this [of "j + 1"] assms
  show "i < warehouse_num cfg \<Longrightarrow> warehouse_in cfg (word_of_nat (i + 1))"
    "j < num_district_per_warehouse cfg \<Longrightarrow> district_in cfg (word_of_nat (j + 1))"
    by (auto simp: cfg_ok_def warehouse_in_def district_in_def simp del: of_nat_add of_nat_Suc)
qed

lemma in_word:
  assumes "warehouse_in cfg w" "district_in cfg d"
  shows "\<exists>i<warehouse_num cfg. \<exists>j<num_district_per_warehouse cfg. w = word_of_nat (i + 1) \<and> d = word_of_nat (j + 1)"
proof -
  have "unat w - 1 < warehouse_num cfg" "unat d - 1 < num_district_per_warehouse cfg"
    using minus_one_in assms by auto
  moreover have "w = word_of_nat (unat w - 1 + 1)" "d = word_of_nat (unat d - 1 + 1)"
    using assms by (simp_all add: warehouse_in_def district_in_def del: of_nat_add)
  ultimately show ?thesis by blast
qed

text \<open>The loops at the start of a measurement set every entry.\<close>

lemma init_hack_info_ok:
  assumes cfg: "cfg_ok cfg" and g: "op_fine cfg g"
  shows "\<exists>g'. init_hack_info cfg g = Some g' \<and> op_fine cfg g' \<and> op_db g' = op_db g \<and>
    (\<forall>w d. warehouse_in cfg w \<and> district_in cfg d \<longrightarrow>
       hack_at (next_o_id_hack_info g') w d = 3001 \<and> hack_at (next_ol_number_hack_info g') w d = 1)"
proof -
  let ?w = "\<lambda>i. word_of_nat (i + 1) :: u32"
  let ?f = "\<lambda>i j g. do {
         hack \<leftarrow> hack_set (next_o_id_hack_info g) (?w i) (?w j) 3001;
         hack_ol \<leftarrow> hack_set (next_ol_number_hack_info g) (?w i) (?w j) 1;
         Some (g\<lparr>next_o_id_hack_info := hack, next_ol_number_hack_info := hack_ol\<rparr>)
       }"
  let ?R = "{..<warehouse_num cfg} \<times> {..<num_district_per_warehouse cfg}"
  let ?J = "\<lambda>A g'. A \<subseteq> ?R \<and> op_fine cfg g' \<and> op_db g' = op_db g \<and> (\<forall>(i, j)\<in>A.
      hack_at (next_o_id_hack_info g') (?w i) (?w j) = 3001 \<and> hack_at (next_ol_number_hack_info g') (?w i) (?w j) = 1)"
  have step: "\<exists>x'. ?f i j x = Some x' \<and> ?J (A \<union> {(i, j)}) x'"
    if i: "i < warehouse_num cfg" and j: "j < num_district_per_warehouse cfg" and J: "?J A x" for i j A x
  proof -
    note win = word_in(1) [OF cfg i] and din = word_in(2) [OF cfg j]
    have fits: "fits cfg (next_o_id_hack_info x)" "fits cfg (next_ol_number_hack_info x)"
      using J by (simp_all add: op_fine_def)
    obtain v u where v: "hack_set (next_o_id_hack_info x) (?w i) (?w j) 3001 = Some v"
      "hack_upd cfg (next_o_id_hack_info x) (?w i) (?w j) 3001 v"
      and u: "hack_set (next_ol_number_hack_info x) (?w i) (?w j) 1 = Some u"
      "hack_upd cfg (next_ol_number_hack_info x) (?w i) (?w j) 1 u"
      using hack_set_upd [OF fits(1) win din] hack_set_upd [OF fits(2) win din] by blast
    have "hack_at v (?w i') (?w j') = 3001 \<and> hack_at u (?w i') (?w j') = 1" if "(i', j') \<in> A \<union> {(i, j)}" for i' j'
    proof -
      have "i' < warehouse_num cfg" "j' < num_district_per_warehouse cfg" using that J i j by auto
      then have in': "warehouse_in cfg (?w i')" "district_in cfg (?w j')" using word_in [OF cfg] by auto
      from that J hack_updD(2) [OF v(2) in'] hack_updD(2) [OF u(2) in'] show ?thesis by auto
    qed
    then have "\<forall>(i', j')\<in>A \<union> {(i, j)}. hack_at v (?w i') (?w j') = 3001 \<and> hack_at u (?w i') (?w j') = 1"
      by blast
    moreover have "?f i j x = Some (x\<lparr>next_o_id_hack_info := v, next_ol_number_hack_info := u\<rparr>)"
      using v(1) u(1) by (simp only: bind.bind_lunit)
    ultimately show ?thesis
      using J g i j hack_updD(1) [OF v(2)] hack_updD(1) [OF u(2)] by (simp add: op_fine_def)
  qed
  let ?fd = "\<lambda>i. for_each (?f i) [0..<num_district_per_warehouse cfg]"
  have d: "\<exists>x'. ?fd i x = Some x' \<and> ?J (A \<union> (\<Union>j\<in>set [0..<num_district_per_warehouse cfg]. {(i, j)})) x'"
    if "i \<in> set [0..<warehouse_num cfg]" "?J A x" for i A x
  proof (rule for_each_acc [where J = ?J, OF _ that(2)])
    show "\<exists>x'. ?f i j x = Some x' \<and> ?J (A \<union> {(i, j)}) x'"
      if "j \<in> set [0..<num_district_per_warehouse cfg]" "?J A x" for j x A
      by (rule step [OF _ _ that(2)]) (use that(1) \<open>i \<in> _\<close> in simp_all)
  qed
  have R: "{} \<union> (\<Union>i\<in>set [0..<warehouse_num cfg]. \<Union>j\<in>set [0..<num_district_per_warehouse cfg]. {(i, j)}) = ?R"
    by auto
  have "\<exists>x'. for_each ?fd [0..<warehouse_num cfg] g = Some x' \<and>
      ?J ({} \<union> (\<Union>i\<in>set [0..<warehouse_num cfg]. \<Union>j\<in>set [0..<num_district_per_warehouse cfg]. {(i, j)})) x'"
    by (rule for_each_acc [where J = ?J, OF d]) (use g in simp_all)
  then have "\<exists>x'. init_hack_info cfg g = Some x' \<and> ?J ?R x'"
    by (simp only: R init_hack_info_def)
  then obtain g' where g': "init_hack_info cfg g = Some g'" "?J ?R g'" by (elim exE conjE) (rule that, blast+)
  have "hack_at (next_o_id_hack_info g') w d = 3001 \<and> hack_at (next_ol_number_hack_info g') w d = 1"
    if wd: "warehouse_in cfg w" "district_in cfg d" for w d
  proof -
    obtain i j where ij: "(i, j) \<in> ?R" "w = ?w i" "d = ?w j" using in_word [OF wd] by auto
    from bspec [OF conjunct2 [OF conjunct2 [OF conjunct2 [OF g'(2)]]] ij(1)] show ?thesis
      by (simp only: prod.case ij)
  qed
  then show ?thesis using g'(1) conjunct1 [OF conjunct2 [OF g'(2)]]
      conjunct1 [OF conjunct2 [OF conjunct2 [OF g'(2)]]] by blast
qed

text \<open>
  All interleavings: an invariant indexed by the number of rounds so far, which every round keeps
  as long as fewer than \<open>N\<close> rounds have been run.
\<close>

definition op_rounds :: "op_worker list \<Rightarrow> u64" where
  "op_rounds ws = sum_list (map opw_throughput ws)"

lemma op_schedule_inv:
  assumes step: "\<And>n g s h. n < N \<Longrightarrow> J n g \<Longrightarrow> yields (runner (g, s, h)) (J (Suc n))"
  shows "J n g \<Longrightarrow> n + length sched \<le> N \<Longrightarrow> \<forall>i\<in>set sched. i < length ws \<Longrightarrow>
    \<exists>ws' g'. op_schedule runner sched (ws, g) = Some (ws', g') \<and> J (n + length sched) g' \<and>
      length ws' = length ws \<and> op_rounds ws' = op_rounds ws + of_nat (length sched)"
proof (induction sched arbitrary: n ws g)
  case (Cons i sched)
  have i: "i < length ws" and n: "n < N" using Cons.prems(2,3) by simp_all
  from step [OF n Cons.prems(1), of "opw_seed (ws ! i)" "opw_tl_hack (ws ! i)"] obtain g' s' h' where
    run: "runner (g, opw_seed (ws ! i), opw_tl_hack (ws ! i)) = Some (g', s', h')" "J (Suc n) g'"
    by (auto simp: yields_def)
  let ?w = "\<lparr>opw_throughput = opw_throughput (ws ! i) + 1, opw_seed = s', opw_tl_hack = h'\<rparr>"
  have "op_rounds (ws[i := ?w]) = op_rounds ws + 1"
    unfolding op_rounds_def using i by (intro sum_list_update_word) simp_all
  moreover have "op_schedule runner (i # sched) (ws, g) = op_schedule runner sched (ws[i := ?w], g')"
    using i run(1) by (simp add: op_worker_step_def)
  moreover have "\<exists>ws' g''. op_schedule runner sched (ws[i := ?w], g') = Some (ws', g'') \<and>
      J (Suc n + length sched) g'' \<and> length ws' = length (ws[i := ?w]) \<and>
      op_rounds ws' = op_rounds (ws[i := ?w]) + of_nat (length sched)"
    by (rule Cons.IH [OF run(2)]) (use Cons.prems(2,3) in simp_all)
  ultimately show ?case by (auto simp: add.assoc)
qed auto

lemma op_rounds_new: "op_rounds (map (\<lambda>i. op_worker_new (now i)) is) = 0"
  by (induction "is") (simp_all add: op_rounds_def op_worker_new_def)

section \<open>The loaded database\<close>

lemma key_of_counters:
  "okey (unat w, unat d, unat c) = O_key (ucast (w :: u32)) (ucast (d :: u32)) c"
  "nkey (unat w, unat d, unat c) = NO_key (ucast w) (ucast d) c"
  "lkey (unat w, unat d, unat c) n = OL_key (ucast w) (ucast d) c n"
  "ckey (unat w, unat d, unat c') = C_key (ucast (c' :: u32)) (ucast d) (ucast w)"
  by (simp_all add: okey_def nkey_def lkey_def ckey_def)

lemma in_order_range:
  "warehouse_in cfg w \<Longrightarrow> district_in cfg d \<Longrightarrow> 1 \<le> c \<Longrightarrow> c \<le> 3000 \<Longrightarrow>
   (unat w, unat d, unat (c :: u32)) \<in> order_range cfg"
  by (simp add: order_range_def warehouse_in_def district_in_def word_le_nat_alt)

lemma rows_loaded:
  assumes cfg: "cfg_ok cfg" and inv: "tpcc_inv cfg db"
    and wh: "filled (\<lambda>i. W_key (word_of_nat i)) Pw {1..warehouse_num cfg} (table_warehouse db)"
    and cu: "filled ckey Pc ({1..warehouse_num cfg} \<times> {1..num_district_per_warehouse cfg} \<times> {1..3000})
      (table_customer db)"
    and or: "orders_loaded (order_range cfg) (s, ts, table_order db, ld)"
    and no: "table_new_order db = temp_no_map ld" and ol: "table_order_line db = temp_ol_map ld"
  shows "ops_loaded cfg db"
proof -
  note or' = or [unfolded orders_loaded_def prod.case]
  have fo: "filled okey (\<lambda>_ v. 5 \<le> o_ol_cnt v \<and> o_ol_cnt v \<le> 15) (order_range cfg) (table_order db)"
    and fn: "filled nkey (\<lambda>_ _. True) {a \<in> order_range cfg. 2101 \<le> snd (snd a)} (table_new_order db)"
    using or' by (simp_all add: no)
  have W: "os_get (table_warehouse db) (W_key (ucast w)) \<noteq> None" if "warehouse_in cfg w" for w
    using filled_get [OF wh, of "unat w"] that by (auto simp: warehouse_in_def)
  have C: "os_get (table_customer db) (C_key (ucast c) (ucast d) (ucast w)) \<noteq> None"
    if "warehouse_in cfg w" "district_in cfg d" "1 \<le> c" "c \<le> 3000" for w d and c :: u32
    using filled_get [OF cu, of "(unat w, unat d, unat c)"] that
    by (auto simp: key_of_counters warehouse_in_def district_in_def word_le_nat_alt)
  have O: "\<exists>v. os_get (table_order db) (O_key (ucast w) (ucast d) c) = Some v \<and> 5 \<le> o_ol_cnt v"
    if "warehouse_in cfg w" "district_in cfg d" "1 \<le> c" "c \<le> 3000" for w d c
    using filled_get [OF fo in_order_range [OF that]] by (auto simp: key_of_counters)
  have N: "os_get (table_new_order db) (NO_key (ucast w) (ucast d) c) \<noteq> None"
    if "warehouse_in cfg w" "district_in cfg d" "1 \<le> c" "c \<le> 3000" "2101 \<le> c" for w d c
    using filled_get [OF fn, of "(unat w, unat d, unat c)"] in_order_range [OF that(1-4)] that(5)
    by (auto simp: key_of_counters word_le_nat_alt)
  have L: "os_get (table_order_line db) (OL_key (ucast w) (ucast d) c n) \<noteq> None"
    if c: "warehouse_in cfg w" "district_in cfg d" "1 \<le> c" "c \<le> 3000" and n: "1 \<le> n" "n \<le> 5" for w d c n
  proof -
    obtain v where v: "os_get (table_order db) (O_key (ucast w) (ucast d) c) = Some v" "5 \<le> o_ol_cnt v"
      using O [OF c] by blast
    from v(2) n have "n \<le> o_ol_cnt v" by simp
    with v(1) n(1) or' in_order_range [OF c] have "lkey (unat w, unat d, unat c) n \<in> os_keys (temp_ol_map ld)"
      by (metis key_of_counters(1))
    then show ?thesis by (simp add: key_of_counters ol os_get_None)
  qed
  have "os_get (table_stock db) (S_key (ucast w) i) \<noteq> None" if "warehouse_in cfg w" "1 \<le> i" "i \<le> 100000" for w i
    using inv that wh_ok_ucast [OF cfg that(1)] unfolding tpcc_inv_def stock_ok_def by fastforce
  moreover have "os_get (table_district db) (D_key (ucast w) (ucast d)) \<noteq> None"
    if "warehouse_in cfg w" "district_in cfg d" for w d
    using inv wh_ok_ucast [OF cfg that(1)] di_ok_ucast [OF cfg that(2)]
    unfolding tpcc_inv_def districts_ok_def by blast
  moreover have "tables_ok db" "items_ok db" using inv by (simp_all add: tpcc_inv_def)
  ultimately show ?thesis unfolding ops_loaded_def using W C O N L by fastforce
qed

text \<open>No record of an order is numbered above 3000.\<close>

definition ids_to :: "tpcc_cfg \<Rightarrow> tpcc_db \<Rightarrow> bool" where
  "ids_to cfg db \<longleftrightarrow> (\<forall>w d oid. warehouse_in cfg w \<and> district_in cfg d \<and> 3001 \<le> oid \<longrightarrow>
     os_get (table_order db) (O_key (ucast w) (ucast d) oid) = None \<and>
     os_get (table_new_order db) (NO_key (ucast w) (ucast d) oid) = None \<and>
     (\<forall>n. os_get (table_order_line db) (OL_key (ucast w) (ucast d) oid n) = None))"

lemma rows_ids_to:
  assumes cfg: "cfg_ok cfg"
    and or: "orders_loaded (order_range cfg) (s, ts, table_order db, ld)"
    and no: "table_new_order db = temp_no_map ld" and ol: "table_order_line db = temp_ol_map ld"
  shows "ids_to cfg db"
  unfolding ids_to_def
proof (intro allI impI)
  fix w d and oid :: u32
  assume h: "warehouse_in cfg w \<and> district_in cfg d \<and> 3001 \<le> oid"
  note or' = or [unfolded orders_loaded_def prod.case]
  have keys: "os_keys (table_order db) = okey ` order_range cfg"
    "os_keys (table_new_order db) = nkey ` {a \<in> order_range cfg. 2101 \<le> snd (snd a)}"
    "\<forall>k\<in>os_keys (table_order_line db). \<exists>a\<in>order_range cfg. \<exists>n. k = lkey a n"
    using or' by (simp_all add: filled_def no ol)
  have out: "\<not> (okey a = O_key (ucast w) (ucast d) oid \<or> nkey a = NO_key (ucast w) (ucast d) oid \<or>
      lkey a m = OL_key (ucast w) (ucast d) oid n)" if "a \<in> order_range cfg" for a m n
  proof
    obtain x y i where a: "a = (x, y, i)" by (metis prod_cases3)
    assume "okey a = O_key (ucast w) (ucast d) oid \<or> nkey a = NO_key (ucast w) (ucast d) oid \<or>
      lkey a m = OL_key (ucast w) (ucast d) oid n"
    then have "oid = word_of_nat i" by (auto simp: a okey_def nkey_def lkey_def)
    moreover have "i \<le> 3000" using that by (simp add: order_range_def a)
    ultimately show False using h unat_of_nat_u32 [of i] by (simp add: word_le_nat_alt)
  qed
  have "O_key (ucast w) (ucast d) oid \<notin> os_keys (table_order db)"
    "NO_key (ucast w) (ucast d) oid \<notin> os_keys (table_new_order db)"
    unfolding keys using out by (auto, metis, metis)
  moreover have "OL_key (ucast w) (ucast d) oid n \<notin> os_keys (table_order_line db)" for n
    using keys(3) out by metis
  ultimately show "os_get (table_order db) (O_key (ucast w) (ucast d) oid) = None \<and>
     os_get (table_new_order db) (NO_key (ucast w) (ucast d) oid) = None \<and>
     (\<forall>n. os_get (table_order_line db) (OL_key (ucast w) (ucast d) oid n) = None)"
    by (simp add: os_get_None)
qed

lemma prepare_kvs_loaded:
  assumes "cfg_ok cfg" "mset (shuffle (map word_of_nat [1..<3001])) = mset (map word_of_nat [1..<3001])"
    and "prepare_kvs shuffle cxl cfg st = Some (db, st')"
  shows "ops_loaded cfg db \<and> ids_to cfg db"
  using prepare_kvs_rows [of cfg shuffle cxl st, OF assms(1,2)] assms(3)
    rows_loaded [OF assms(1), of db] rows_ids_to [OF assms(1), of _ _ db] by auto

section \<open>Every operation but the removal keeps the loaded records\<close>

lemma yields_mono: "yields m P \<Longrightarrow> (\<And>x. P x \<Longrightarrow> Q x) \<Longrightarrow> yields m Q"
  by (auto simp: yields_def)

lemma op_keeps:
  assumes cfg: "cfg_ok cfg" and g: "op_fine cfg g" and op: "op_id < 19"
  shows "yields ((operations True ! op_id) cfg (g, s, h)) (op_fine cfg)"
proof -
  have db: "ops_loaded cfg (op_db g)" using g by (simp add: op_fine_def)
  have up: "updated cfg g g' \<Longrightarrow> op_fine cfg g'" for g' using g by (simp add: updated_def op_fine_def)
  have re: "g' = g \<Longrightarrow> op_fine cfg g'" for g' using g by simp
  note rules = reads_ok [OF cfg db, THEN yields_mono, OF re] updates_ok [OF cfg db, THEN yields_mono, OF up]
    inserts_ok [OF cfg g]
  have "\<forall>runner\<in>set (butlast (operations True)). yields (runner cfg (g, s, h)) (op_fine cfg)"
    by (simp add: operations_def rules)
  moreover have "operations True ! op_id \<in> set (butlast (operations True))"
  proof -
    have "op_id < length (butlast (operations True))" using op by (simp add: operations_def)
    then show ?thesis using nth_butlast [of op_id "operations True"] nth_mem [of op_id "butlast (operations True)"] by simp
  qed
  ultimately show ?thesis by blast
qed

lemma length_operations: "length (operations nd) = 20"
  by (simp add: operations_def)

section \<open>One measurement\<close>

lemma run_tpcc_ops_inv:
  assumes cfg: "cfg_ok cfg" and g: "op_fine cfg g" and op: "op_id < 20" and avg: "length avg = 20"
    and sec: "sec \<noteq> 0" and sched: "\<forall>i\<in>set sched. i < fg_n" "fg_n \<le> 55"
    and start: "\<And>g'. op_fine cfg g' \<Longrightarrow> op_db g' = op_db g \<Longrightarrow>
      (\<And>w d. warehouse_in cfg w \<Longrightarrow> district_in cfg d \<Longrightarrow> hack_at (next_o_id_hack_info g') w d = 3001 \<and>
         hack_at (next_ol_number_hack_info g') w d = 1) \<Longrightarrow> J 0 g'"
    and step: "\<And>n g s h. n < length sched \<Longrightarrow> J n g \<Longrightarrow> yields ((operations True ! op_id) cfg (g, s, h)) (J (Suc n))"
  shows "\<exists>g'. run_tpcc_ops True cfg fg_n now sec sched op_id (g, avg) =
      Some (g', avg[op_id := ucast ((scast (avg ! op_id) :: u64) + of_nat (length sched) div sec)]) \<and>
    J (length sched) g'"
proof -
  obtain g1 where g1: "init_hack_info cfg g = Some g1" "op_fine cfg g1" "op_db g1 = op_db g"
    "\<And>w d. warehouse_in cfg w \<Longrightarrow> district_in cfg d \<Longrightarrow> hack_at (next_o_id_hack_info g1) w d = 3001 \<and>
       hack_at (next_ol_number_hack_info g1) w d = 1"
    using init_hack_info_ok [OF cfg g] by blast
  let ?ws = "map (\<lambda>i. op_worker_new (now i)) [0..<fg_n]"
  have J0: "J 0 g1" by (rule start [OF g1(2-4)])
  obtain ws g2 where run: "op_schedule ((operations True ! op_id) cfg) sched (?ws, g1) = Some (ws, g2)"
    "J (0 + length sched) g2" "op_rounds ws = op_rounds ?ws + of_nat (length sched)"
    using op_schedule_inv [where J = J and N = "length sched" and n = 0 and ws = ?ws and g = g1 and sched = sched
        and runner = "(operations True ! op_id) cfg", OF step J0] sched by auto
  then show ?thesis
    using g1(1) op avg sec sched(2)
    by (simp add: run_tpcc_ops_def length_operations op_rounds_new op_rounds_def [symmetric] bind_workers_eq assertO_def Let_def)
qed

lemma for_each_upt:
  assumes "\<And>i st. i < n \<Longrightarrow> J i st \<Longrightarrow> \<exists>st'. f i st = Some st' \<and> J (Suc i) st'" and "J 0 st"
  shows "\<exists>st'. for_each f [0..<n] st = Some st' \<and> J n st'"
proof -
  have app: "for_each f (xs @ ys) x = do { x \<leftarrow> for_each f xs x; for_each f ys x }" for xs ys x
    by (induction xs arbitrary: x) (auto split: bind_split)
  have "k \<le> n \<Longrightarrow> \<exists>st'. for_each f [0..<k] st = Some st' \<and> J k st'" for k
  proof (induction k)
    case (Suc k)
    then obtain st1 where "for_each f [0..<k] st = Some st1" "J k st1" by auto
    with assms(1) [of k st1] Suc.prems show ?case by (auto simp: app)
  qed (use assms(2) in simp)
  then show ?thesis by simp
qed

text \<open>The state with which \<open>main\<close> starts its measurements.\<close>

abbreviation op_start :: "tpcc_cfg \<Rightarrow> tpcc_db \<Rightarrow> op_global" where
  "op_start \<equiv> op_global_new"

lemma op_start_fine: "ops_loaded cfg db \<Longrightarrow> op_fine cfg (op_start cfg db)"
  by (simp add: op_fine_def op_global_new_def replicate_fits Let_def)

lemma op_start_db [simp]: "op_db (op_start cfg db) = db"
  by (simp add: op_global_new_def Let_def)

lemma tpcc_ops_main_eq:
  "tpcc_ops_main nd cfg fg_n sec operation_id run db =
     (let measure = (\<lambda>op_i. run_tpcc_ops nd cfg fg_n (fst (run op_i)) sec (snd (run op_i)) op_i)
      in if 0 \<le> operation_id then measure (nat operation_id) (op_start cfg db, replicate 20 0)
         else for_each measure [0..<20] (op_start cfg db, replicate 20 0))"
  by (simp add: tpcc_ops_main_def Let_def length_operations)

text \<open>Only three operations depend on whether assertions are compiled in.\<close>

lemma operations_nd:
  assumes "nd \<or> op_i \<notin> {14, 17, 19}"
  shows "vec_get (operations nd) op_i = vec_get (operations True) op_i"
proof (cases "op_i < 20")
  case True
  then have "operations nd ! op_i = operations True ! op_i"
    using assms by (cases nd) (auto simp: operations_def less_Suc_eq numeral_eq_Suc)
  then show ?thesis by (simp add: vec_get_def length_operations)
qed (simp add: vec_get_def length_operations)

lemma tpcc_ops_main_nd:
  assumes "nd \<or> 0 \<le> operation_id \<and> nat operation_id \<notin> {14, 17, 19}"
  shows "tpcc_ops_main nd cfg fg_n sec operation_id run db = tpcc_ops_main True cfg fg_n sec operation_id run db"
proof (cases nd)
  case False
  with assms operations_nd [of nd "nat operation_id"] show ?thesis
    by (simp add: tpcc_ops_main_eq run_tpcc_ops_def Let_def)
qed simp

lemma for_each_None: "xs \<noteq> [] \<Longrightarrow> (\<And>x st. f x st = None) \<Longrightarrow> for_each f xs st = None"
  by (cases xs) simp_all

lemma tpcc_ops_main_cores:
  assumes "55 < fg_n"
  shows "tpcc_ops_main nd cfg fg_n sec operation_id run db = None"
proof -
  have none: "run_tpcc_ops nd cfg fg_n now sec sched op_i st = None" for now sched op_i st
    using assms by (cases st) (simp add: run_tpcc_ops_def bind_workers_eq assertO_def bind_eq_None_conv)
  have "for_each (\<lambda>op_i. run_tpcc_ops nd cfg fg_n (fst (run op_i)) sec (snd (run op_i)) op_i) [0..<20]
      (op_start cfg db, replicate 20 0) = None" by (rule for_each_None) (simp_all add: none)
  with none show ?thesis by (simp add: tpcc_ops_main_eq Let_def)
qed

section \<open>Inserted records are new\<close>

lemma os_insert_length:
  "os_ok t \<Longrightarrow> length (os_insert t k v) = (if os_get t k = None then Suc (length t) else length t)"
  using length_os [of t] length_os [OF os_ok_insert, of t k v] os_keys_def [of t]
  by (simp add: card_insert_if os_get_None)

lemma ucast_in:
  assumes "cfg_ok cfg"
  shows "warehouse_in cfg w \<Longrightarrow> warehouse_in cfg w' \<Longrightarrow> (ucast w :: u16) = ucast w' \<longleftrightarrow> w = w'"
    and "district_in cfg d \<Longrightarrow> district_in cfg d' \<Longrightarrow> (ucast d :: byte) = ucast d' \<longleftrightarrow> d = d'"
proof -
  have "(ucast x :: u16) = ucast y \<Longrightarrow> x = y" if "unat x < 65536" "unat y < 65536" for x y :: u32
    using that unat_ucast16 by (metis word_unat_eq_iff)
  moreover have "(ucast x :: byte) = ucast y \<Longrightarrow> x = y" if "unat x < 256" "unat y < 256" for x y :: u32
    using that unat_ucast8 by (metis word_unat_eq_iff)
  ultimately show "warehouse_in cfg w \<Longrightarrow> warehouse_in cfg w' \<Longrightarrow> (ucast w :: u16) = ucast w' \<longleftrightarrow> w = w'"
    "district_in cfg d \<Longrightarrow> district_in cfg d' \<Longrightarrow> (ucast d :: byte) = ucast d' \<longleftrightarrow> d = d'"
    using assms by (auto simp: cfg_ok_def warehouse_in_def district_in_def)
qed

text \<open>The numbers handed out so far, with a bound on the counters.\<close>

definition below :: "tpcc_cfg \<Rightarrow> nat \<Rightarrow> u32 list list \<Rightarrow> bool" where
  "below cfg B v \<longleftrightarrow> (\<forall>w d. warehouse_in cfg w \<and> district_in cfg d \<longrightarrow> unat (hack_at v w d) \<le> B)"

lemma below_upd:
  assumes "below cfg B v" "hack_upd cfg v w d x v'" "unat x \<le> Suc B"
  shows "below cfg (Suc B) v'"
  using assms unfolding below_def hack_upd_def by (auto intro: le_SucI)

lemma below_mono: "below cfg B v \<Longrightarrow> B \<le> B' \<Longrightarrow> below cfg B' v"
  by (auto simp: below_def intro: order_trans)

lemma below_next:
  assumes "below cfg B v" "warehouse_in cfg w" "district_in cfg d" "B < 4294967295"
  shows "unat (hack_at v w d + 1) = unat (hack_at v w d) + 1" "unat (hack_at v w d + 1) \<le> Suc B"
    "hack_at v w d + 1 \<le> oid \<longleftrightarrow> hack_at v w d < oid"
proof -
  have "unat (hack_at v w d) \<le> B" using assms(1-3) by (simp add: below_def)
  then show s: "unat (hack_at v w d + 1) = unat (hack_at v w d) + 1" using assms(4) by (simp add: unat_word_ariths)
  with \<open>_ \<le> B\<close> show "unat (hack_at v w d + 1) \<le> Suc B" by simp
  show "hack_at v w d + 1 \<le> oid \<longleftrightarrow> hack_at v w d < oid"
    by (simp add: word_le_nat_alt word_less_nat_alt s Suc_le_eq)
qed

text \<open>
  No record of a district has a number that the district's counter has still to hand out; numbers
  are compared by their \<open>rank\<close>.
\<close>

definition free_at ::
  "tpcc_cfg \<Rightarrow> ('i \<Rightarrow> nat) \<Rightarrow> (u32 \<Rightarrow> u32 \<Rightarrow> nat) \<Rightarrow> (u32 \<Rightarrow> u32 \<Rightarrow> 'i \<Rightarrow> 'v option) \<Rightarrow> bool" where
  "free_at cfg rank pos f \<longleftrightarrow> (\<forall>w d i. warehouse_in cfg w \<and> district_in cfg d \<and> pos w d \<le> rank i \<longrightarrow> f w d i = None)"

lemma free_atD: "free_at cfg rank pos f \<Longrightarrow> warehouse_in cfg w \<Longrightarrow> district_in cfg d \<Longrightarrow> pos w d \<le> rank i \<Longrightarrow>
    f w d i = None"
  by (simp add: free_at_def)

lemma free_at_step:
  assumes "free_at cfg rank pos f" and "rank i < pos' w d" "pos w d \<le> rank i"
    and "\<And>w' d'. warehouse_in cfg w' \<Longrightarrow> district_in cfg d' \<Longrightarrow> (w', d') \<noteq> (w, d) \<Longrightarrow> pos' w' d' = pos w' d'"
    and "\<And>w' d' j. warehouse_in cfg w' \<Longrightarrow> district_in cfg d' \<Longrightarrow> (w', d', j) \<noteq> (w, d, i) \<Longrightarrow> f' w' d' j = f w' d' j"
  shows "free_at cfg rank pos' f'"
  unfolding free_at_def
proof (intro allI impI)
  fix w' d' j
  assume h: "warehouse_in cfg w' \<and> district_in cfg d' \<and> pos' w' d' \<le> rank j"
  have "(w', d', j) \<noteq> (w, d, i)" using h assms(2) by auto
  moreover have "pos w' d' \<le> rank j"
    using h assms(2-4) by (cases "(w', d') = (w, d)") auto
  ultimately show "f' w' d' j = None" using h assms(1,5) by (simp add: free_at_def)
qed

definition new_orders_free :: "tpcc_cfg \<Rightarrow> op_global \<Rightarrow> bool" where
  "new_orders_free cfg g \<longleftrightarrow> free_at cfg unat (\<lambda>w d. unat (hack_at (next_o_id_hack_info g) w d))
     (\<lambda>w d oid. os_get (table_new_order (op_db g)) (NO_key (ucast w) (ucast d) oid))"

definition orders_free :: "tpcc_cfg \<Rightarrow> op_global \<Rightarrow> bool" where
  "orders_free cfg g \<longleftrightarrow> free_at cfg unat (\<lambda>w d. unat (hack_at (next_o_id_hack_info g) w d))
     (\<lambda>w d oid. os_get (table_order (op_db g)) (O_key (ucast w) (ucast d) oid))"

definition line_rank :: "u32 \<times> byte \<Rightarrow> nat" where
  "line_rank i = unat (fst i) * 256 + unat (snd i)"

definition lines_free :: "tpcc_cfg \<Rightarrow> op_global \<Rightarrow> bool" where
  "lines_free cfg g \<longleftrightarrow> free_at cfg line_rank
     (\<lambda>w d. unat (hack_at (next_o_id_hack_info g) w d) * 256 + unat (hack_at (next_ol_number_hack_info g) w d))
     (\<lambda>w d i. os_get (table_order_line (op_db g)) (OL_key (ucast w) (ucast d) (fst i) (snd i)))"

lemmas free_defs = new_orders_free_def orders_free_def lines_free_def

lemma new_order_insert_new:
  assumes cfg: "cfg_ok cfg" and g: "op_fine cfg g" and B: "below cfg B (next_o_id_hack_info g)" "B < 4294967295"
    and free: "new_orders_free cfg g"
  shows "yields (op_new_order_insert cfg (g, s, h)) (\<lambda>g'. op_fine cfg g' \<and> below cfg (Suc B) (next_o_id_hack_info g') \<and>
    new_orders_free cfg g' \<and> length (table_new_order (op_db g')) = Suc (length (table_new_order (op_db g))))"
proof -
  have db: "ops_loaded cfg (op_db g)" and fits: "fits cfg (next_o_id_hack_info g)"
    "fits cfg (next_ol_number_hack_info g)" using g by (simp_all add: op_fine_def)
  have ok: "os_ok (table_new_order (op_db g))" using db by (simp add: ops_loaded_def tables_ok_def)
  have step: "new_orders_free cfg (g\<lparr>next_o_id_hack_info := v, op_db := (op_db g)\<lparr>table_new_order :=
      os_insert (table_new_order (op_db g)) (NO_key (ucast w) (ucast d) (hack_at (next_o_id_hack_info g) w d)) r\<rparr>\<rparr>)"
    if wd: "warehouse_in cfg w" "district_in cfg d"
      and v: "hack_upd cfg (next_o_id_hack_info g) w d (hack_at (next_o_id_hack_info g) w d + 1) v" for w d v r
    unfolding new_orders_free_def
    by (rule free_at_step [OF free [unfolded new_orders_free_def], of "hack_at (next_o_id_hack_info g) w d" _ w d])
      (use wd hack_updD(2) [OF v] below_next(1) [OF B(1) wd B(2)] ucast_in [OF cfg] in auto)
  have new: "os_get (table_new_order (op_db g)) (NO_key (ucast w) (ucast d) (hack_at (next_o_id_hack_info g) w d)) = None"
    if "warehouse_in cfg w" "district_in cfg d" for w d
    using free_atD [OF free [unfolded new_orders_free_def] that] by simp
  show ?thesis
    unfolding op_new_order_insert_def Let_def prod.case
    by (rule op_rules cfg fits | assumption
      | simp add: op_fine_def fits hack_updD(1) ops_loaded_insert [OF db] step new os_insert_length [OF ok]
          below_upd [OF B(1)] below_next(2) [OF B(1) _ _ B(2)])+
qed

lemma order_insert_new:
  assumes cfg: "cfg_ok cfg" and g: "op_fine cfg g" and B: "below cfg B (next_o_id_hack_info g)" "B < 4294967295"
    and free: "orders_free cfg g"
  shows "yields (op_order_insert cfg (g, s, h)) (\<lambda>g'. op_fine cfg g' \<and> below cfg (Suc B) (next_o_id_hack_info g') \<and>
    orders_free cfg g' \<and> length (table_order (op_db g')) = Suc (length (table_order (op_db g))))"
proof -
  have db: "ops_loaded cfg (op_db g)" and fits: "fits cfg (next_o_id_hack_info g)"
    "fits cfg (next_ol_number_hack_info g)" using g by (simp_all add: op_fine_def)
  have ok: "os_ok (table_order (op_db g))" using db by (simp add: ops_loaded_def tables_ok_def)
  have step: "orders_free cfg (g\<lparr>next_o_id_hack_info := v, op_db := (op_db g)\<lparr>table_order :=
      os_insert (table_order (op_db g)) (O_key (ucast w) (ucast d) (hack_at (next_o_id_hack_info g) w d)) r\<rparr>\<rparr>)"
    if wd: "warehouse_in cfg w" "district_in cfg d"
      and v: "hack_upd cfg (next_o_id_hack_info g) w d (hack_at (next_o_id_hack_info g) w d + 1) v" for w d v r
    unfolding orders_free_def
    by (rule free_at_step [OF free [unfolded orders_free_def], of "hack_at (next_o_id_hack_info g) w d" _ w d])
      (use wd hack_updD(2) [OF v] below_next(1) [OF B(1) wd B(2)] ucast_in [OF cfg] in auto)
  have new: "os_get (table_order (op_db g)) (O_key (ucast w) (ucast d) (hack_at (next_o_id_hack_info g) w d)) = None"
    if "warehouse_in cfg w" "district_in cfg d" for w d
    using free_atD [OF free [unfolded orders_free_def] that] by simp
  show ?thesis
    unfolding op_order_insert_def Let_def prod.case
    by (rule op_rules cfg fits | assumption
      | simp add: op_fine_def fits hack_updD(1) ops_loaded_insert [OF db] step new os_insert_length [OF ok]
          below_upd [OF B(1)] below_next(2) [OF B(1) _ _ B(2)])+
qed

text \<open>The line numbers handed out stay small: an order is closed at a number above its random size.\<close>

definition line_numbers_ok :: "tpcc_cfg \<Rightarrow> op_global \<Rightarrow> bool" where
  "line_numbers_ok cfg g \<longleftrightarrow> (\<forall>w d. warehouse_in cfg w \<and> district_in cfg d \<longrightarrow>
     hack_at (next_ol_number_hack_info g) w d \<le> 16)"

lemma line_numbers_step:
  assumes "line_numbers_ok cfg g" "hack_upd cfg (next_ol_number_hack_info g) w d x v" "x \<le> 16"
    and "next_ol_number_hack_info g' = v"
  shows "line_numbers_ok cfg g'"
  using assms by (auto simp: line_numbers_ok_def hack_upd_def)

lemma line_number_suc:
  assumes "\<not> l > (item_num :: u32)" "item_num \<le> 15"
  shows "unat (l + 1) = unat l + 1" "l + 1 \<le> 16"
proof -
  have "unat l \<le> 15" using assms by (simp add: word_le_nat_alt not_less)
  then show "unat (l + 1) = unat l + 1" by (simp add: unat_word_ariths)
  with \<open>unat l \<le> 15\<close> show "l + 1 \<le> 16" by (simp add: word_le_nat_alt)
qed

lemma order_line_insert_new:
  assumes cfg: "cfg_ok cfg" and g: "op_fine cfg g" and B: "below cfg B (next_o_id_hack_info g)" "B < 4294967295"
    and free: "lines_free cfg g" and ln: "line_numbers_ok cfg g"
  shows "yields (op_order_line_insert True cfg (g, s, h)) (\<lambda>g'. op_fine cfg g' \<and> below cfg (Suc B) (next_o_id_hack_info g') \<and>
    lines_free cfg g' \<and> line_numbers_ok cfg g' \<and>
    length (table_order_line (op_db g')) = Suc (length (table_order_line (op_db g))))"
proof -
  let ?o = "hack_at (next_o_id_hack_info g)" and ?l = "hack_at (next_ol_number_hack_info g)"
  have db: "ops_loaded cfg (op_db g)" and fits: "fits cfg (next_o_id_hack_info g)"
    "fits cfg (next_ol_number_hack_info g)" using g by (simp_all add: op_fine_def)
  have ok: "os_ok (table_order_line (op_db g))" using db by (simp add: ops_loaded_def tables_ok_def)
  have small: "unat (?l w d) \<le> 16 \<and> unat (ucast (?l w d) :: byte) = unat (?l w d)"
    if "warehouse_in cfg w" "district_in cfg d" for w d
  proof -
    have "unat (?l w d) \<le> 16" using ln that by (simp add: line_numbers_ok_def word_le_nat_alt)
    then show ?thesis using unat_ucast8 [of "?l w d"] by simp
  qed
  let ?t = "\<lambda>w d r. os_insert (table_order_line (op_db g)) (OL_key (ucast w) (ucast d) (?o w d) (ucast (?l w d))) r"
  note fstep = free_at_step [OF free [unfolded lines_free_def]]
  have over: "lines_free cfg (g\<lparr>next_o_id_hack_info := v, next_ol_number_hack_info := u,
      op_db := (op_db g)\<lparr>table_order_line := ?t w d r\<rparr>\<rparr>)"
    if wd: "warehouse_in cfg w" "district_in cfg d"
      and v: "hack_upd cfg (next_o_id_hack_info g) w d (?o w d + 1) v"
      and u: "hack_upd cfg (next_ol_number_hack_info g) w d 0 u" for w d v u r
    unfolding lines_free_def
    by (rule fstep [of "(?o w d, ucast (?l w d))" _ w d])
      (use wd hack_updD(2) [OF v] hack_updD(2) [OF u] below_next(1) [OF B(1) wd B(2)] ucast_in [OF cfg] small [OF wd]
        in \<open>auto simp: line_rank_def\<close>)
  have more: "lines_free cfg (g\<lparr>next_ol_number_hack_info := u, op_db := (op_db g)\<lparr>table_order_line := ?t w d r\<rparr>\<rparr>)"
    if wd: "warehouse_in cfg w" "district_in cfg d" and u: "hack_upd cfg (next_ol_number_hack_info g) w d (?l w d + 1) u"
      and i: "\<not> ?l w d > item_num" "item_num \<le> 15" for w d u r item_num
    unfolding lines_free_def
    by (rule fstep [of "(?o w d, ucast (?l w d))" _ w d])
      (use wd hack_updD(2) [OF u] line_number_suc(1) [OF i] ucast_in [OF cfg] small [OF wd]
        in \<open>auto simp: line_rank_def\<close>)
  have new: "os_get (table_order_line (op_db g)) (OL_key (ucast w) (ucast d) (?o w d) (ucast (?l w d))) = None"
    if "warehouse_in cfg w" "district_in cfg d" for w d
    using free_atD [OF free [unfolded lines_free_def] that, of "(?o w d, ucast (?l w d))"] small [OF that]
    by (simp add: line_rank_def)
  show ?thesis
    unfolding op_order_line_insert_def Let_def prod.case
    by (rule op_rules cfg fits | assumption
      | simp add: op_fine_def fits hack_updD(1) ops_loaded_insert [OF db] over more new os_insert_length [OF ok]
          below_upd [OF B(1)] below_next(2) [OF B(1) _ _ B(2)] below_mono [OF B(1)]
          line_numbers_step [OF ln] line_number_suc)+
qed

end
