(* ===== verification/TpccOpsTheorems.thy ===== *)
theory TpccOpsTheorems
  imports TpccOpsCorrect
begin

text \<open>
  The properties of the operation benchmark as a whole: \<open>main\<close> on the tables that \<open>prepare_kvs\<close>
  loads.
\<close>

section \<open>No measurement stops\<close>

definition op_rate :: "u64 \<Rightarrow> nat \<Rightarrow> u32" where
  "op_rate sec n = ucast ((of_nat n :: u64) div sec)"

lemma measure_ok:
  assumes "cfg_ok cfg" "op_fine cfg g" "op_id < 20" "length avg = 20" "avg ! op_id = 0" "sec \<noteq> 0"
    "\<forall>i\<in>set sched. i < fg_n" "fg_n \<le> 55"
  shows "\<exists>g'. run_tpcc_ops True cfg fg_n now sec sched op_id (g, avg) =
      Some (g', avg[op_id := op_rate sec (length sched)]) \<and> (op_id < 19 \<longrightarrow> op_fine cfg g')"
proof (cases "op_id < 19")
  case True
  have "\<exists>g'. run_tpcc_ops True cfg fg_n now sec sched op_id (g, avg) =
      Some (g', avg[op_id := ucast ((scast (avg ! op_id) :: u64) + of_nat (length sched) div sec)]) \<and> op_fine cfg g'"
    by (rule run_tpcc_ops_inv [where J = "\<lambda>_. op_fine cfg", OF assms(1-4,6-8)])
      (auto intro: op_keeps [OF assms(1) _ True])
  with assms(5) show ?thesis by (auto simp: op_rate_def)
next
  case False
  then have op: "operations True ! op_id = op_new_order_remove True" using assms(3) by (simp add: operations_def numeral_eq_Suc less_Suc_eq)
  have "\<exists>g'. run_tpcc_ops True cfg fg_n now sec sched op_id (g, avg) =
      Some (g', avg[op_id := ucast ((scast (avg ! op_id) :: u64) + of_nat (length sched) div sec)]) \<and> True"
    by (rule run_tpcc_ops_inv [where J = "\<lambda>_ _. True", OF assms(1-4,6-8)])
      (auto simp: op intro: yields_mono [OF remove_ok [OF assms(1)]])
  with assms(5) False show ?thesis by (simp add: op_rate_def)
qed

lemma main_all_ok:
  assumes "cfg_ok cfg" "ops_loaded cfg db" "sec \<noteq> 0" "\<And>op_i. \<forall>i\<in>set (snd (run op_i)). i < fg_n" "fg_n \<le> 55"
  shows "\<exists>g avg. for_each (\<lambda>op_i. run_tpcc_ops True cfg fg_n (fst (run op_i)) sec (snd (run op_i)) op_i) [0..<20]
      (op_start cfg db, replicate 20 0) = Some (g, avg) \<and>
    (\<forall>op_i<20. avg ! op_i = op_rate sec (length (snd (run op_i))))"
proof -
  let ?J = "\<lambda>i x. length (snd x) = 20 \<and> (i < 20 \<longrightarrow> op_fine cfg (fst x)) \<and>
      (\<forall>k<20. snd x ! k = (if k < i then op_rate sec (length (snd (run k))) else 0))"
  have "\<exists>x. for_each (\<lambda>op_i. run_tpcc_ops True cfg fg_n (fst (run op_i)) sec (snd (run op_i)) op_i) [0..<20]
      (op_start cfg db, replicate 20 0) = Some x \<and> ?J 20 x"
  proof (rule for_each_upt [where J = ?J])
    fix i and x :: "op_global \<times> u32 list" assume i: "i < 20" and J: "?J i x"
    obtain g avg where x: "x = (g, avg)" by (cases x)
    from J i have "op_fine cfg g" "length avg = 20" "avg ! i = 0" by (simp_all add: x)
    from measure_ok [OF assms(1) this(1) i this(2,3) assms(3-5)] obtain g' where
      "run_tpcc_ops True cfg fg_n (fst (run i)) sec (snd (run i)) i (g, avg) =
        Some (g', avg[i := op_rate sec (length (snd (run i)))])" "i < 19 \<longrightarrow> op_fine cfg g'" by blast
    with J i show "\<exists>x'. run_tpcc_ops True cfg fg_n (fst (run i)) sec (snd (run i)) i x = Some x' \<and> ?J (Suc i) x'"
      by (auto simp: x nth_list_update)
  qed (use op_start_fine [OF assms(2)] in simp)
  then show ?thesis by auto
qed

text \<open>C10: on the tables that \<open>prepare_kvs\<close> loads and with up to 55 workers, the operation benchmark
  never stops with a failed \<open>INVARIANT\<close>: in a build without assertions every operation and the whole
  sequence of the twenty operations, and with assertions each of the seventeen operations that do
  not draw up to \<open>UINT32_MAX - 1\<close>, runs through for every order of the workers' operations (each
  run as a whole), every key that is read is found, and the rate reported for an operation is its
  number of rounds per second. With more than 55 workers it always stops: the 56th cannot bind
  itself to a core.\<close>

theorem tpcc_ops_never_fail:
  assumes "cfg_ok cfg" and "mset (shuffle (map word_of_nat [1..<3001])) = mset (map word_of_nat [1..<3001])"
    and "prepare_kvs shuffle cxl cfg st = Some (db, st')"
    and "sec \<noteq> 0" and "operation_id < 20" and "\<And>op_i. \<forall>i\<in>set (snd (run op_i)). i < fg_n"
    and "nd \<or> 0 \<le> operation_id \<and> nat operation_id \<notin> {14, 17, 19}"
  shows "(fg_n \<le> 55 \<longrightarrow> (\<exists>g avg. tpcc_ops_main nd cfg fg_n sec operation_id run db = Some (g, avg) \<and>
      (\<forall>op_i<20. avg ! op_i = (if operation_id < 0 \<or> nat operation_id = op_i
         then ucast ((of_nat (length (snd (run op_i))) :: u64) div sec) else 0)))) \<and>
    (55 < fg_n \<longrightarrow> tpcc_ops_main nd cfg fg_n sec operation_id run db = None)"
proof -
  have db: "ops_loaded cfg db" using prepare_kvs_loaded [of cfg shuffle cxl st, OF assms(1-3)] by simp
  note nd = tpcc_ops_main_nd [OF assms(7)]
  have "\<exists>g avg. tpcc_ops_main True cfg fg_n sec operation_id run db = Some (g, avg) \<and>
      (\<forall>op_i<20. avg ! op_i = (if operation_id < 0 \<or> nat operation_id = op_i
         then ucast ((of_nat (length (snd (run op_i))) :: u64) div sec) else 0))" if n: "fg_n \<le> 55"
  proof (cases "0 \<le> operation_id")
    case True
    then have "nat operation_id < 20" using assms(5) by simp
    with measure_ok [OF assms(1) op_start_fine [OF db] this, of "replicate 20 0" sec "snd (run (nat operation_id))" fg_n
        "fst (run (nat operation_id))"] assms(4,6) n True
    show ?thesis by (auto simp: tpcc_ops_main_eq Let_def op_rate_def nth_list_update)
  next
    case False
    with main_all_ok [OF assms(1) db assms(4,6) n] show ?thesis
      by (auto simp: tpcc_ops_main_eq Let_def op_rate_def)
  qed
  then show ?thesis unfolding nd using tpcc_ops_main_cores by blast
qed

lemma tpcc_ops_never_fail_witness:
  "\<exists>db g avg g' avg'. map_option fst (prepare_kvs id 0 tpcc_default_cfg loader_init) = Some db \<and>
    tpcc_ops_main True tpcc_default_cfg 2 1 (-1) (\<lambda>_. (\<lambda>_. 7, [0, 1, 1])) db = Some (g, avg) \<and> avg ! 6 = 3 \<and>
    tpcc_ops_main False tpcc_default_cfg 2 1 16 (\<lambda>_. (\<lambda>_. 7, [0, 1, 1])) db = Some (g', avg') \<and> avg' ! 16 = 3 \<and>
    tpcc_ops_main False tpcc_default_cfg 60 1 16 (\<lambda>_. (\<lambda>_. 7, [0, 1, 1])) db = None"
proof -
  have cfg: "cfg_ok tpcc_default_cfg" by (simp add: cfg_ok_def tpcc_default_cfg_def)
  obtain db st' where db: "prepare_kvs id 0 tpcc_default_cfg loader_init = Some (db, st')"
    using prepare_kvs_ok [of tpcc_default_cfg id 0 loader_init] cfg by auto
  let ?run = "\<lambda>_ :: nat. (\<lambda>_ :: nat. 7 :: u64, [0 :: nat, 1, 1])"
  note never = tpcc_ops_never_fail [of tpcc_default_cfg id 0 loader_init db st' 1, OF cfg _ db]
  from never [of "- 1" ?run 2 True] obtain g avg where
    1: "tpcc_ops_main True tpcc_default_cfg 2 1 (- 1) ?run db = Some (g, avg)" "\<forall>op_i<20. avg ! op_i = 3" by auto
  from never [of 16 ?run 2 False] obtain g' avg' where
    2: "tpcc_ops_main False tpcc_default_cfg 2 1 16 ?run db = Some (g', avg')" "avg' ! 16 = 3" by auto
  have "tpcc_ops_main False tpcc_default_cfg 60 1 16 ?run db = None"
    using never [of 16 ?run 60 False] by auto
  with db 1 2 show ?thesis
    by (intro exI [of _ db] exI [of _ g] exI [of _ avg] exI [of _ g'] exI [of _ avg']) simp
qed

section \<open>Assertions\<close>

text \<open>\<open>min <= res && res <= -2\<close> cannot hold for a \<open>min\<close> of 1.\<close>

lemma random_number_asserts: "random_number False s = None"
proof -
  have "\<not> RandomNumber_assert n 1 4294967294" for n by (auto simp: RandomNumber_assert_def)
  then show ?thesis
    by (cases "RandomNumber s 1 4294967294") (auto simp: random_number_def assertO_def split_beta)
qed

lemma asserting_operations:
  assumes "op_i \<in> {14, 17, 19}"
  shows "(operations False ! op_i) cfg st = None"
proof -
  have fail: "m \<bind> (\<lambda>_. None) = None" "p \<bind> (\<lambda>(_, _). None) = None"
    for m :: "'a option" and p :: "('b \<times> 'c) option" by (cases m, simp_all) (cases p, auto)
  have "op_order_line_update False cfg st = None" "op_order_line_insert False cfg st = None"
    "op_new_order_remove False cfg st = None"
    by (simp_all add: op_order_line_update_def op_order_line_insert_def op_new_order_remove_def
        random_amount_def random_number_asserts Let_def split_beta fail)
  with assms show ?thesis by (auto simp: operations_def)
qed

lemma for_each_append: "for_each f (xs @ ys) s = for_each f xs s \<bind> for_each f ys"
  by (induction xs arbitrary: s) (auto simp: bind_eq_None_conv split: bind_splits)

lemma asserting_measurement:
  assumes "op_i \<in> {14, 17, 19}" "sched \<noteq> []"
  shows "run_tpcc_ops False cfg fg_n now sec sched op_i st = None"
proof -
  have "op_schedule ((operations False ! op_i) cfg) sched (ws, g) = None" for ws g
    using assms(2) asserting_operations [OF assms(1)]
    by (cases sched) (auto simp: op_worker_step_def vec_get_def bind_eq_None_conv)
  moreover have "vec_get (operations False) op_i = Some (operations False ! op_i)"
    using assms(1) by (auto simp: vec_get_def length_operations)
  ultimately show ?thesis
    by (cases st) (auto simp: run_tpcc_ops_def bind_eq_None_conv split_beta)
qed

text \<open>With assertions compiled in, the default build, the benchmark aborts in
  \<open>op_order_line_update\<close>, \<open>op_order_line_insert\<close> and \<open>op_new_order_remove\<close>, alone or as part of the
  whole sequence, as soon as one worker gets to run: they draw from 1 to \<open>UINT32_MAX - 1\<close>, an upper
  bound of -2 for \<open>RandomNumber\<close>.\<close>

lemma tpcc_ops_need_ndebug:
  assumes "op_i \<in> {14, 17, 19}" and "snd (run op_i) \<noteq> []" and "operation_id < 0 \<or> operation_id = int op_i"
  shows "tpcc_ops_main False cfg fg_n sec operation_id run db = None"
proof -
  note fail = asserting_measurement [OF assms(1,2)]
  show ?thesis
  proof (cases "operation_id < 0")
    case True
    have "[0..<20] = [0..<op_i] @ op_i # [Suc op_i..<20]"
      using assms(1) by (auto simp: upt_conv_Cons upt_rec)
    with True fail show ?thesis
      by (auto simp: tpcc_ops_main_def Let_def length_operations for_each_append bind_eq_None_conv)
  next
    case False
    with assms(3) fail show ?thesis by (simp add: tpcc_ops_main_def Let_def)
  qed
qed

lemma tpcc_ops_need_ndebug_witness:
  "\<exists>db. map_option fst (prepare_kvs id 0 tpcc_default_cfg loader_init) = Some db \<and>
    tpcc_ops_main False tpcc_default_cfg 1 1 14 (\<lambda>_. (\<lambda>_. 7, [0])) db = None \<and>
    tpcc_ops_main True tpcc_default_cfg 1 1 14 (\<lambda>_. (\<lambda>_. 7, [0])) db \<noteq> None"
proof -
  have cfg: "cfg_ok tpcc_default_cfg" by (simp add: cfg_ok_def tpcc_default_cfg_def)
  obtain db st' where db: "prepare_kvs id 0 tpcc_default_cfg loader_init = Some (db, st')"
    using prepare_kvs_ok [of tpcc_default_cfg id 0 loader_init] cfg by auto
  have "ops_loaded tpcc_default_cfg db" using prepare_kvs_loaded [of tpcc_default_cfg id 0 loader_init] cfg db by simp
  from measure_ok [OF cfg op_start_fine [OF this], of 14 "replicate 20 0" 1 "[0]" 1 "\<lambda>_. 7"]
  have "tpcc_ops_main True tpcc_default_cfg 1 1 14 (\<lambda>_. (\<lambda>_. 7, [0])) db \<noteq> None"
    by (auto simp: tpcc_ops_main_eq Let_def)
  moreover have "tpcc_ops_main False tpcc_default_cfg 1 1 14 (\<lambda>_. (\<lambda>_. 7, [0])) db = None"
    by (rule tpcc_ops_need_ndebug [where op_i = 14]) simp_all
  ultimately show ?thesis using db by (intro exI [of _ db]) simp
qed

section \<open>Updates and inserts\<close>

text \<open>One measurement, started by \<open>main\<close> for a given operation.\<close>

lemma single_op_inv:
  assumes "cfg_ok cfg" "ops_loaded cfg db" "op_id < 20" "sec \<noteq> 0" "\<forall>i\<in>set (snd (run op_id)). i < fg_n" "fg_n \<le> 55"
    and "\<And>g'. op_fine cfg g' \<Longrightarrow> op_db g' = db \<Longrightarrow>
      (\<And>w d. warehouse_in cfg w \<Longrightarrow> district_in cfg d \<Longrightarrow> hack_at (next_o_id_hack_info g') w d = 3001 \<and>
         hack_at (next_ol_number_hack_info g') w d = 1) \<Longrightarrow> J 0 g'"
    and "\<And>n g s h. n < length (snd (run op_id)) \<Longrightarrow> J n g \<Longrightarrow> yields ((operations True ! op_id) cfg (g, s, h)) (J (Suc n))"
  shows "\<exists>g' avg. tpcc_ops_main True cfg fg_n sec (int op_id) run db = Some (g', avg) \<and> J (length (snd (run op_id))) g'"
  using run_tpcc_ops_inv [where J = J and g = "op_start cfg db" and avg = "replicate 20 0" and fg_n = fg_n and
      now = "fst (run op_id)", OF assms(1) op_start_fine [OF assms(2)] assms(3) _ assms(4-6) _ assms(8)] assms(7)
  by (simp add: tpcc_ops_main_eq Let_def) blast

text \<open>C21: the update operations are in-place: whatever the order of the workers' operations, a measurement
  of an operation before the inserts (the reads, the scans and the six updates) leaves the set of
  keys of every table as it was loaded. This holds with and without assertions, except for
  \<open>op_order_line_update\<close>, which needs a build without them (with them it aborts); reads and scans change nothing.\<close>

theorem tpcc_updates_in_place:
  assumes "cfg_ok cfg" and "mset (shuffle (map word_of_nat [1..<3001])) = mset (map word_of_nat [1..<3001])"
    and "prepare_kvs shuffle cxl cfg st = Some (db, st')"
    and "sec \<noteq> 0" and "op_id < 15" and "\<forall>i\<in>set (snd (run op_id)). i < fg_n" and "fg_n \<le> 55"
    and "nd \<or> op_id \<noteq> 14"
  shows "\<exists>g avg. tpcc_ops_main nd cfg fg_n sec (int op_id) run db = Some (g, avg) \<and>
    same_keys db (op_db g) \<and> (op_id < 9 \<longrightarrow> op_db g = db)"
proof -
  have db: "ops_loaded cfg db" using prepare_kvs_loaded [of cfg shuffle cxl st, OF assms(1-3)] by simp
  let ?J = "\<lambda>(_ :: nat) g. op_fine cfg g \<and> same_keys db (op_db g) \<and> (op_id < 9 \<longrightarrow> op_db g = db)"
  have step: "yields ((operations True ! op_id) cfg (g, s, h)) (?J (Suc n))" if "?J n g" for n :: nat and g s h
  proof -
    have g: "ops_loaded cfg (op_db g)" using that by (simp add: op_fine_def)
    have re: "g' = g \<Longrightarrow> ?J (Suc n) g'" for g' using that by simp
    have up: "updated cfg g g' \<Longrightarrow> \<not> op_id < 9 \<Longrightarrow> ?J (Suc n) g'" for g'
      using that same_keys_trans [of db "op_db g" "op_db g'"] by (simp add: updated_def op_fine_def)
    show ?thesis
    proof (cases "op_id < 9")
      case True
      have "\<forall>runner\<in>set (take 9 (operations True)). yields (runner cfg (g, s, h)) (?J (Suc n))"
        using reads_ok [OF assms(1) g, THEN yields_mono, OF re] by (simp add: operations_def)
      moreover have "operations True ! op_id \<in> set (take 9 (operations True))"
        using True by (auto simp: in_set_conv_nth length_operations)
      ultimately show ?thesis by blast
    next
      case False
      have "\<forall>runner\<in>set (take 6 (drop 9 (operations True))). yields (runner cfg (g, s, h)) (?J (Suc n))"
        using updates_ok [OF assms(1) g, THEN yields_mono, OF up] False by (simp add: operations_def)
      moreover have "operations True ! op_id \<in> set (take 6 (drop 9 (operations True)))"
        using False assms(5) by (auto simp: in_set_conv_nth length_operations intro!: exI [of _ "op_id - 9"])
      ultimately show ?thesis by blast
    qed
  qed
  have "\<exists>g avg. tpcc_ops_main True cfg fg_n sec (int op_id) run db = Some (g, avg) \<and> ?J (length (snd (run op_id))) g"
    by (rule single_op_inv [where J = ?J and run = run and op_id = op_id, OF assms(1) db _ assms(4,6,7)])
      (use assms(5) step in auto)
  moreover have "nd \<or> 0 \<le> int op_id \<and> nat (int op_id) \<notin> {14, 17, 19}" using assms(5,8) by auto
  ultimately show ?thesis using tpcc_ops_main_nd by (metis (no_types, lifting))
qed

lemma tpcc_updates_in_place_witness:
  "\<exists>db g avg. map_option fst (prepare_kvs id 0 tpcc_default_cfg loader_init) = Some db \<and>
    tpcc_ops_main False tpcc_default_cfg 2 1 12 (\<lambda>_. (\<lambda>_. 7, [0, 1, 1])) db = Some (g, avg) \<and> same_keys db (op_db g)"
proof -
  have cfg: "cfg_ok tpcc_default_cfg" by (simp add: cfg_ok_def tpcc_default_cfg_def)
  obtain db st' where db: "prepare_kvs id 0 tpcc_default_cfg loader_init = Some (db, st')"
    using prepare_kvs_ok [of tpcc_default_cfg id 0 loader_init] cfg by auto
  from tpcc_updates_in_place [of tpcc_default_cfg id 0 loader_init db st' 1 12 "\<lambda>_. (\<lambda>_. 7, [0, 1, 1])" 2 False] cfg db
  obtain g avg where "tpcc_ops_main False tpcc_default_cfg 2 1 12 (\<lambda>_. (\<lambda>_. 7, [0, 1, 1])) db = Some (g, avg)"
    "same_keys db (op_db g)" by auto
  with db show ?thesis by (intro exI [of _ db] exI [of _ g] exI [of _ avg]) simp
qed

text \<open>When a measurement starts, the numbers to be given out are free.\<close>

lemma inserts_start:
  assumes ids: "ids_to cfg db" and g: "op_fine cfg g" "op_db g = db"
    and hack: "\<And>w d. warehouse_in cfg w \<Longrightarrow> district_in cfg d \<Longrightarrow> hack_at (next_o_id_hack_info g) w d = 3001 \<and>
       hack_at (next_ol_number_hack_info g) w d = 1"
  shows "below cfg 3001 (next_o_id_hack_info g)" "line_numbers_ok cfg g"
    "new_orders_free cfg g" "orders_free cfg g" "lines_free cfg g"
proof -
  have "3001 \<le> unat a" if "768257 \<le> unat (a :: u32) * 256 + unat (b :: byte)" for a b
    using that unat_byte_bound [of b] by simp
  moreover have "3001 \<le> x \<longleftrightarrow> 3001 \<le> unat x" for x :: u32 by (simp add: word_le_nat_alt)
  ultimately show "below cfg 3001 (next_o_id_hack_info g)" "line_numbers_ok cfg g"
    "new_orders_free cfg g" "orders_free cfg g" "lines_free cfg g" using ids g hack
    by (auto simp: below_def line_numbers_ok_def free_defs free_at_def line_rank_def ids_to_def)
qed

text \<open>C20: with one worker, every round of the insert operations adds a record: a measurement of
  \<open>op_new_order_insert\<close> or \<open>op_order_insert\<close>, with or without assertions, or of \<open>op_order_line_insert\<close>,
  without them, makes its table longer by exactly the number of rounds, until the order numbers
  wrap around. (Several workers race for the numbers.)\<close>

theorem tpcc_inserts_are_new:
  assumes "cfg_ok cfg" and "mset (shuffle (map word_of_nat [1..<3001])) = mset (map word_of_nat [1..<3001])"
    and "prepare_kvs shuffle cxl cfg st = Some (db, st')"
    and "sec \<noteq> 0" and "\<And>op_i. \<forall>i\<in>set (snd (run op_i)). i < 1"
    and "\<And>op_i. length (snd (run op_i)) < 4294964294"
  shows "(\<exists>g avg. tpcc_ops_main nd cfg 1 sec 15 run db = Some (g, avg) \<and>
      length (table_new_order (op_db g)) = length (table_new_order db) + length (snd (run 15))) \<and>
    (\<exists>g avg. tpcc_ops_main nd cfg 1 sec 16 run db = Some (g, avg) \<and>
      length (table_order (op_db g)) = length (table_order db) + length (snd (run 16))) \<and>
    (\<exists>g avg. tpcc_ops_main True cfg 1 sec 17 run db = Some (g, avg) \<and>
      length (table_order_line (op_db g)) = length (table_order_line db) + length (snd (run 17)))"
proof -
  have db: "ops_loaded cfg db" and ids: "ids_to cfg db"
    using prepare_kvs_loaded [of cfg shuffle cxl st, OF assms(1-3)] by simp_all
  let ?B = "\<lambda>n g. op_fine cfg g \<and> below cfg (3001 + n) (next_o_id_hack_info g)"
  let ?Jn = "\<lambda>n g. ?B n g \<and> new_orders_free cfg g \<and>
      length (table_new_order (op_db g)) = length (table_new_order db) + n"
  let ?Jo = "\<lambda>n g. ?B n g \<and> orders_free cfg g \<and> length (table_order (op_db g)) = length (table_order db) + n"
  let ?Jl = "\<lambda>n g. ?B n g \<and> lines_free cfg g \<and> line_numbers_ok cfg g \<and>
      length (table_order_line (op_db g)) = length (table_order_line db) + n"
  have ops: "operations True ! 15 = op_new_order_insert" "operations True ! 16 = op_order_insert"
    "operations True ! 17 = op_order_line_insert True" by (simp_all add: operations_def)
  have lt: "3001 + n < 4294967295" if "n < length (snd (run i))" for n i
    using that assms(6) [of i] by simp
  have start: "?Jn 0 g \<and> ?Jo 0 g \<and> ?Jl 0 g" if g: "op_fine cfg g" "op_db g = db"
    and hack: "\<And>w d. warehouse_in cfg w \<Longrightarrow> district_in cfg d \<Longrightarrow> hack_at (next_o_id_hack_info g) w d = 3001 \<and>
         hack_at (next_ol_number_hack_info g) w d = 1" for g
    using inserts_start [OF ids g hack] g by simp
  have sn: "yields (op_new_order_insert cfg (g, s, h)) (?Jn (Suc n))"
    if "n < length (snd (run 15))" "?Jn n g" for n g s h
    by (rule yields_mono [OF new_order_insert_new [OF assms(1) _ _ lt [OF that(1)]]]) (use that in auto)
  have so: "yields (op_order_insert cfg (g, s, h)) (?Jo (Suc n))"
    if "n < length (snd (run 16))" "?Jo n g" for n g s h
    by (rule yields_mono [OF order_insert_new [OF assms(1) _ _ lt [OF that(1)]]]) (use that in auto)
  have sl: "yields (op_order_line_insert True cfg (g, s, h)) (?Jl (Suc n))"
    if "n < length (snd (run 17))" "?Jl n g" for n g s h
    by (rule yields_mono [OF order_line_insert_new [OF assms(1) _ _ lt [OF that(1)]]]) (use that in auto)
  have n: "\<exists>g avg. tpcc_ops_main True cfg 1 sec (int 15) run db = Some (g, avg) \<and> ?Jn (length (snd (run 15))) g"
    by (rule single_op_inv [where J = ?Jn and run = run and op_id = 15, OF assms(1) db _ assms(4,5)])
      (simp, simp, use start in blast, simp only: ops sn)
  have o: "\<exists>g avg. tpcc_ops_main True cfg 1 sec (int 16) run db = Some (g, avg) \<and> ?Jo (length (snd (run 16))) g"
    by (rule single_op_inv [where J = ?Jo and run = run and op_id = 16, OF assms(1) db _ assms(4,5)])
      (simp, simp, use start in blast, simp only: ops so)
  have l: "\<exists>g avg. tpcc_ops_main True cfg 1 sec (int 17) run db = Some (g, avg) \<and> ?Jl (length (snd (run 17))) g"
    by (rule single_op_inv [where J = ?Jl and run = run and op_id = 17, OF assms(1) db _ assms(4,5)])
      (simp, simp, use start in blast, simp only: ops sl)
  have "tpcc_ops_main nd cfg 1 sec i run db = tpcc_ops_main True cfg 1 sec i run db" if "i = 15 \<or> i = 16" for i
    by (rule tpcc_ops_main_nd) (use that in auto)
  with n o l show ?thesis by auto
qed

lemma tpcc_inserts_are_new_witness:
  "\<exists>db g avg g' avg'. map_option fst (prepare_kvs id 0 tpcc_default_cfg loader_init) = Some db \<and>
    tpcc_ops_main False tpcc_default_cfg 1 1 15 (\<lambda>_. (\<lambda>_. 7, [0, 0, 0])) db = Some (g, avg) \<and>
    length (table_new_order (op_db g)) = length (table_new_order db) + 3 \<and>
    tpcc_ops_main True tpcc_default_cfg 1 1 17 (\<lambda>_. (\<lambda>_. 7, [0, 0, 0])) db = Some (g', avg') \<and>
    length (table_order_line (op_db g')) = length (table_order_line db) + 3"
proof -
  have cfg: "cfg_ok tpcc_default_cfg" by (simp add: cfg_ok_def tpcc_default_cfg_def)
  obtain db st' where db: "prepare_kvs id 0 tpcc_default_cfg loader_init = Some (db, st')"
    using prepare_kvs_ok [of tpcc_default_cfg id 0 loader_init] cfg by auto
  let ?run = "\<lambda>_ :: nat. (\<lambda>_ :: nat. 7 :: u64, [0 :: nat, 0, 0])"
  from tpcc_inserts_are_new [of tpcc_default_cfg id 0 loader_init db st' 1 ?run False] cfg db
  obtain g avg g' avg' where "tpcc_ops_main False tpcc_default_cfg 1 1 15 ?run db = Some (g, avg)"
    "length (table_new_order (op_db g)) = length (table_new_order db) + 3"
    "tpcc_ops_main True tpcc_default_cfg 1 1 17 ?run db = Some (g', avg')"
    "length (table_order_line (op_db g')) = length (table_order_line db) + 3" by auto
  with db show ?thesis
    by (intro exI [of _ db] exI [of _ g] exI [of _ avg] exI [of _ g'] exI [of _ avg']) simp
qed

section \<open>Workers with one seed\<close>

text \<open>The history records drawn from a generator state on, one per round.\<close>

definition history_next :: "tpcc_cfg \<Rightarrow> u64 \<times> u32 \<Rightarrow> u64 \<times> u32" where
  "history_next cfg x = (case history_draw cfg x of Some (kv, x') \<Rightarrow> x' | None \<Rightarrow> x)"

definition history_keys :: "tpcc_cfg \<Rightarrow> u64 \<times> u32 \<Rightarrow> nat \<Rightarrow> H_key set" where
  "history_keys cfg x n = (\<Union>c<n. set_option (map_option (fst \<circ> fst) (history_draw cfg ((history_next cfg ^^ c) x))))"

lemma history_keys_card: "finite (history_keys cfg x n) \<and> card (history_keys cfg x n) \<le> n"
proof -
  have one: "finite (set_option z) \<and> card (set_option z) \<le> 1" for z :: "H_key option" by (cases z) simp_all
  have "card (history_keys cfg x n) \<le> (\<Sum>c<n. card (set_option (map_option (fst \<circ> fst)
      (history_draw cfg ((history_next cfg ^^ c) x)))))"
    unfolding history_keys_def by (rule card_UN_le) simp
  also have "\<dots> \<le> (\<Sum>c<n. 1)" by (rule sum_mono) (use one in blast)
  finally show ?thesis using one by (simp add: history_keys_def)
qed

lemma history_keys_mem:
  "c < n \<Longrightarrow> history_draw cfg ((history_next cfg ^^ c) x) = Some ((k, v), x') \<Longrightarrow> k \<in> history_keys cfg x n"
  unfolding history_keys_def by (rule UN_I [of c]) simp_all

lemma op_history_insert_eq:
  "history_draw cfg (s, h) = Some ((k, v), s', h') \<Longrightarrow> op_history_insert cfg (g, s, h) =
     Some (g\<lparr>op_db := (op_db g)\<lparr>table_history := os_insert (table_history (op_db g)) k v\<rparr>\<rparr>, s', h')"
  by (simp add: op_history_insert_def)

text \<open>Workers that started from one state insert only the records of that state's sequence.\<close>

lemma history_schedule:
  assumes "op_schedule (op_history_insert cfg) sched (ws, g) = Some (ws', g')" "os_ok (table_history (op_db g))"
    and "\<forall>i<length ws. \<exists>c. (opw_seed (ws ! i), opw_tl_hack (ws ! i)) = (history_next cfg ^^ c) x \<and>
      c + count_list sched i \<le> n"
  shows "os_ok (table_history (op_db g')) \<and>
    os_keys (table_history (op_db g')) \<subseteq> os_keys (table_history (op_db g)) \<union> history_keys cfg x n"
  using assms
proof (induction sched arbitrary: ws g)
  case (Cons i sched)
  then have i: "i < length ws" by (auto simp: vec_get_def split: if_splits)
  then obtain c where c: "(opw_seed (ws ! i), opw_tl_hack (ws ! i)) = (history_next cfg ^^ c) x"
    "c + count_list (i # sched) i \<le> n" using Cons.prems(3) by blast
  from Cons.prems(1) i obtain k v s h where
    d: "history_draw cfg (opw_seed (ws ! i), opw_tl_hack (ws ! i)) = Some ((k, v), s, h)"
    by (cases "history_draw cfg (opw_seed (ws ! i), opw_tl_hack (ws ! i))")
      (auto simp: op_worker_step_def op_history_insert_def)
  let ?w = "\<lparr>opw_throughput = opw_throughput (ws ! i) + 1, opw_seed = s, opw_tl_hack = h\<rparr>"
  let ?g = "g\<lparr>op_db := (op_db g)\<lparr>table_history := os_insert (table_history (op_db g)) k v\<rparr>\<rparr>"
  have next_s: "(s, h) = (history_next cfg ^^ Suc c) x" using c(1) d by (simp add: history_next_def)
  have run: "op_schedule (op_history_insert cfg) sched (ws[i := ?w], ?g) = Some (ws', g')"
    using Cons.prems(1) i by (simp add: op_worker_step_def op_history_insert_eq [OF d])
  have "\<forall>j<length (ws[i := ?w]). \<exists>c. (opw_seed (ws[i := ?w] ! j), opw_tl_hack (ws[i := ?w] ! j)) =
      (history_next cfg ^^ c) x \<and> c + count_list sched j \<le> n"
  proof (intro allI impI)
    fix j assume j: "j < length (ws[i := ?w])"
    show "\<exists>c. (opw_seed (ws[i := ?w] ! j), opw_tl_hack (ws[i := ?w] ! j)) = (history_next cfg ^^ c) x \<and>
        c + count_list sched j \<le> n"
    proof (cases "j = i")
      case True
      with next_s c(2) i show ?thesis by (intro exI [of _ "Suc c"]) simp
    next
      case False
      with Cons.prems(3) j show ?thesis by (auto split: if_splits)
    qed
  qed
  from Cons.IH [OF run _ this] Cons.prems(2)
  have "os_ok (table_history (op_db g'))"
    "os_keys (table_history (op_db g')) \<subseteq> insert k (os_keys (table_history (op_db g))) \<union> history_keys cfg x n" by auto
  moreover have "k \<in> history_keys cfg x n"
    by (rule history_keys_mem [of c n cfg x k v "(s, h)"]) (use c d in auto)
  ultimately show ?case by auto
qed simp

text \<open>C27: the workers of \<open>run_tpcc_ops\<close> are seeded with the time in seconds and start with the same
  time stamp counter, so those created in one second insert the same history records: when all of
  them are, however many there are, a measurement of \<open>op_history_insert\<close> adds at most as many records
  as its busiest worker has rounds, although it counts the rounds of all.\<close>

theorem tpcc_history_workers_collide:
  assumes "cfg_ok cfg" and "mset (shuffle (map word_of_nat [1..<3001])) = mset (map word_of_nat [1..<3001])"
    and "prepare_kvs shuffle cxl cfg st = Some (db, st')"
    and "sec \<noteq> 0" and "\<forall>i\<in>set (snd (run 18)). i < fg_n" and "\<forall>i. count_list (snd (run 18)) i \<le> n"
    and "\<forall>i<fg_n. fst (run 18) i = fst (run 18) 0" and "fg_n \<le> 55"
  shows "\<exists>g avg. tpcc_ops_main nd cfg fg_n sec 18 run db = Some (g, avg) \<and>
    avg ! 18 = ucast ((of_nat (length (snd (run 18))) :: u64) div sec) \<and>
    length (table_history (op_db g)) \<le> length (table_history db) + n"
proof -
  have db: "ops_loaded cfg db" using prepare_kvs_loaded [of cfg shuffle cxl st, OF assms(1-3)] by simp
  note fine = op_start_fine [OF db]
  from measure_ok [OF assms(1) fine, of 18 "replicate 20 0" sec "snd (run 18)" fg_n "fst (run 18)"] assms(4,5,8)
  obtain g where g: "run_tpcc_ops True cfg fg_n (fst (run 18)) sec (snd (run 18)) 18 (op_start cfg db, replicate 20 0) =
      Some (g, (replicate 20 0)[18 := op_rate sec (length (snd (run 18)))])" by auto
  from init_hack_info_ok [OF assms(1) fine] obtain g1 where g1: "init_hack_info cfg (op_start cfg db) = Some g1"
    "op_db g1 = db" by auto
  have op: "vec_get (operations True) 18 = Some op_history_insert"
    by (simp add: length_operations) (simp add: operations_def)
  let ?ws = "map (\<lambda>i. op_worker_new (fst (run 18) i)) [0..<fg_n]"
  from g g1(1) op obtain ws where run: "op_schedule (op_history_insert cfg) (snd (run 18)) (?ws, g1) = Some (ws, g)"
    by (auto simp: run_tpcc_ops_def Let_def vec_get_def bind_workers_eq assertO_def vec_set_def split: bind_splits if_splits)
  let ?x = "(set_seed0 (fst (run 18) 0), tl_hack_init)"
  have ok: "os_ok (table_history (op_db g1))" using db g1(2) by (simp add: ops_loaded_def tables_ok_def)
  have ws: "(opw_seed (?ws ! i), opw_tl_hack (?ws ! i)) = ?x" if "i < fg_n" for i
    using assms(7) [rule_format, OF that] that by (simp add: op_worker_new_def)
  have "\<forall>i<length ?ws. \<exists>c. (opw_seed (?ws ! i), opw_tl_hack (?ws ! i)) = (history_next cfg ^^ c) ?x \<and>
      c + count_list (snd (run 18)) i \<le> n"
  proof (intro allI impI exI [of _ 0])
    fix i assume "i < length ?ws"
    with ws [of i] assms(6) show "(opw_seed (?ws ! i), opw_tl_hack (?ws ! i)) = (history_next cfg ^^ 0) ?x \<and>
        0 + count_list (snd (run 18)) i \<le> n" by (simp del: nth_map)
  qed
  from history_schedule [OF run ok this] g1(2)
  have "os_ok (table_history (op_db g))"
    "os_keys (table_history (op_db g)) \<subseteq> os_keys (table_history db) \<union> history_keys cfg ?x n" by auto
  then have "length (table_history (op_db g)) \<le> card (os_keys (table_history db) \<union> history_keys cfg ?x n)"
    using history_keys_card by (simp add: length_os) (intro card_mono, simp_all add: os_keys_def)
  also have "\<dots> \<le> card (os_keys (table_history db)) + n"
    using history_keys_card [of cfg ?x n] card_Un_le [of "os_keys (table_history db)" "history_keys cfg ?x n"] by linarith
  also have "card (os_keys (table_history db)) = length (table_history db)"
    using ok g1(2) by (simp add: length_os)
  finally have "\<exists>g avg. tpcc_ops_main True cfg fg_n sec 18 run db = Some (g, avg) \<and>
    avg ! 18 = ucast ((of_nat (length (snd (run 18))) :: u64) div sec) \<and>
    length (table_history (op_db g)) \<le> length (table_history db) + n"
    using g by (auto simp: tpcc_ops_main_eq Let_def op_rate_def)
  moreover have "tpcc_ops_main nd cfg fg_n sec 18 run db = tpcc_ops_main True cfg fg_n sec 18 run db"
    by (rule tpcc_ops_main_nd) simp
  ultimately show ?thesis by simp
qed

lemma tpcc_history_workers_collide_witness:
  "\<exists>db g avg. map_option fst (prepare_kvs id 0 tpcc_default_cfg loader_init) = Some db \<and>
    tpcc_ops_main True tpcc_default_cfg 3 1 18 (\<lambda>_. (\<lambda>_. 7, [0, 1, 2])) db = Some (g, avg) \<and> avg ! 18 = 3 \<and>
    length (table_history (op_db g)) \<le> length (table_history db) + 1"
proof -
  have cfg: "cfg_ok tpcc_default_cfg" by (simp add: cfg_ok_def tpcc_default_cfg_def)
  obtain db st' where db: "prepare_kvs id 0 tpcc_default_cfg loader_init = Some (db, st')"
    using prepare_kvs_ok [of tpcc_default_cfg id 0 loader_init] cfg by auto
  have "count_list [0, 1, 2 :: nat] i \<le> 1" for i by simp
  then have "\<forall>i. count_list (snd (\<lambda>_ :: nat. 7 :: u64, [0, 1, 2 :: nat])) i \<le> 1" by (simp only: snd_conv) blast
  with tpcc_history_workers_collide [of tpcc_default_cfg id 0 loader_init db st' 1 "\<lambda>_. (\<lambda>_. 7, [0, 1, 2])" 3 1 True, OF cfg _ db]
  obtain g avg where "tpcc_ops_main True tpcc_default_cfg 3 1 18 (\<lambda>_. (\<lambda>_. 7, [0, 1, 2])) db = Some (g, avg)"
    "avg ! 18 = 3" "length (table_history (op_db g)) \<le> length (table_history db) + 1" by auto
  with db show ?thesis by (intro exI [of _ db] exI [of _ g] exI [of _ avg]) simp
qed

end
