(* ===== verification/TpccOpsRace.thy ===== *)
theory TpccOpsRace
  imports TpccOpsTheorems
begin

text \<open>
  The race of \<open>op_new_order_insert\<close>: the model that takes one access to shared data per step
  (\<open>new_order_access\<close>) refines the whole operation when the accesses of an operation are not
  interrupted, and loses records when workers run in lockstep.
\<close>

section \<open>Uninterrupted operations\<close>

lemma op_worker_eq:
  "w\<lparr>opw_seed := s, opw_throughput := t\<rparr> = \<lparr>opw_throughput = t, opw_seed = s, opw_tl_hack = opw_tl_hack w\<rparr>"
  by (cases w) simp

text \<open>Five accesses of one worker in a row are one round of its loop.\<close>

lemma five_accesses:
  "access_schedule cfg (replicate 5 i @ sched) (map (Pair Draw) ws, g) =
     (case do { w \<leftarrow> vec_get ws i; op_worker_step (op_new_order_insert cfg) (w, g) } of
        None \<Rightarrow> None
      | Some (w', g') \<Rightarrow> access_schedule cfg sched (map (Pair Draw) (ws[i := w']), g'))"
proof (cases "i < length ws")
  case True
  then show ?thesis
    by (simp add: numeral_eq_Suc new_order_access_def op_worker_step_def op_new_order_insert_def Let_def
        map_update op_worker_eq split: bind_splits)
next
  case False
  then show ?thesis by (simp add: numeral_eq_Suc vec_get_def)
qed

lemma accesses_refine:
  "access_schedule cfg (concat (map (replicate 5) sched)) (map (Pair Draw) ws, g) =
     map_option (\<lambda>(ws, g). (map (Pair Draw) ws, g)) (op_schedule (op_new_order_insert cfg) sched (ws, g))"
  by (induction sched arbitrary: ws g) (auto simp: five_accesses split: option.splits bind_splits)

section \<open>Workers in lockstep\<close>

text \<open>All workers take the same step one after the other; the steps after the first change nothing more.\<close>

lemma same_steps:
  "new_order_access cfg (x, g) = Some (y, g) \<Longrightarrow>
   access_schedule cfg ([m..<m + n] @ sched) (replicate m y @ replicate n x, g) =
     access_schedule cfg sched (replicate (m + n) y, g)"
proof (induction n arbitrary: m)
  case (Suc n)
  have "(replicate m y @ replicate (Suc n) x)[m := y] = replicate (Suc m) y @ replicate n x"
    by (simp add: list_update_append replicate_app_Cons_same)
  moreover have "[m..<m + Suc n] = m # [Suc m..<Suc m + n]" by (simp add: upt_conv_Cons)
  ultimately show ?case using Suc.IH [OF Suc.prems, of "Suc m"] Suc.prems
    by (simp add: nth_append del: upt_Suc)
qed simp

lemma all_step:
  assumes "new_order_access cfg (x, g) = Some (y, g')" "new_order_access cfg (x, g') = Some (y, g')" "0 < k"
  shows "access_schedule cfg ([0..<k] @ sched) (replicate k x, g) = access_schedule cfg sched (replicate k y, g')"
proof -
  obtain n where k: "k = Suc n" using assms(3) by (cases k) auto
  have "[0..<k] = 0 # [1..<1 + n]" by (simp add: k upt_conv_Cons)
  then show ?thesis using same_steps [OF assms(2), of 1 n sched] assms(1) by (simp add: k del: upt_Suc)
qed

lemma hack_set_again: "hack_set v w d x = Some v' \<Longrightarrow> hack_set v' w d x = Some v'"
  by (auto simp: hack_set_def vec_get_def vec_set_def split: bind_splits if_splits)

lemma os_insert_again: "os_insert (os_insert t k v) k v = os_insert t k v"
  by (induction t k v rule: os_insert.induct) auto

lemma lockstep_round:
  assumes "op_worker_step (op_new_order_insert cfg) (w, g) = Some (w', g')" "0 < k"
  shows "access_schedule cfg (concat (replicate 5 [0..<k]) @ sched) (replicate k (Draw, w), g) =
    access_schedule cfg sched (replicate k (Draw, w'), g')"
proof -
  let ?v = "\<lparr>no_dummy = var_assign 2 (bytes_of ''no'')\<rparr>"
  from assms(1) obtain wid s1 did s2 oid v where
    dr: "random_warehouse cfg (opw_seed w) = Some (wid, s1)" "random_district cfg s1 = Some (did, s2)"
    and hg: "hack_get (next_o_id_hack_info g) wid did = Some oid"
    and hs: "hack_set (next_o_id_hack_info g) wid did (oid + 1) = Some v"
    and w': "w' = w\<lparr>opw_throughput := opw_throughput w + 1, opw_seed := s2\<rparr>"
    and g': "g' = g\<lparr>next_o_id_hack_info := v, op_db := (op_db g)\<lparr>table_new_order :=
        os_insert (table_new_order (op_db g)) (NO_key (ucast wid) (ucast did) oid) ?v\<rparr>\<rparr>"
    by (cases w) (auto simp: op_worker_step_def op_new_order_insert_def Let_def split: bind_splits)
  let ?w = "w\<lparr>opw_seed := s2\<rparr>" and ?g = "g\<lparr>next_o_id_hack_info := v\<rparr>"
  have five: "concat (replicate 5 xs) @ sched = xs @ xs @ xs @ xs @ xs @ sched" for xs :: "nat list"
    by (simp add: numeral_eq_Suc)
  have 1: "new_order_access cfg ((Draw, w), g) = Some ((ReadId wid did, ?w), g)"
    using dr by (simp add: new_order_access_def)
  have 2: "new_order_access cfg ((ReadId wid did, ?w), g) = Some ((LoadCounter wid did oid, ?w), g)"
    using hg by (simp add: new_order_access_def)
  have 3: "new_order_access cfg ((LoadCounter wid did oid, ?w), g) = Some ((StoreCounter wid did oid oid, ?w), g)"
    using hg by (simp add: new_order_access_def)
  have 4: "new_order_access cfg ((StoreCounter wid did oid oid, ?w), g) = Some ((InsertOrder wid did oid, ?w), ?g)"
    "new_order_access cfg ((StoreCounter wid did oid oid, ?w), ?g) = Some ((InsertOrder wid did oid, ?w), ?g)"
    using hs hack_set_again [OF hs] by (simp_all add: new_order_access_def)
  have 5: "new_order_access cfg ((InsertOrder wid did oid, ?w), ?g) = Some ((Draw, w'), g')"
    "new_order_access cfg ((InsertOrder wid did oid, ?w), g') = Some ((Draw, w'), g')"
    by (simp_all add: new_order_access_def g' w' os_insert_again)
  show ?thesis
    unfolding five
    by (simp only: all_step [OF 1 1 assms(2)] all_step [OF 2 2 assms(2)] all_step [OF 3 3 assms(2)]
        all_step [OF 4 assms(2)] all_step [OF 5 assms(2)])
qed

text \<open>Any number of such rounds: each adds one record, whatever the number of workers.\<close>

lemma lockstep_rounds:
  assumes cfg: "cfg_ok cfg" and k: "0 < k"
  shows "op_fine cfg g \<Longrightarrow> below cfg B (next_o_id_hack_info g) \<Longrightarrow> new_orders_free cfg g \<Longrightarrow> B + n < 4294967296 \<Longrightarrow>
    \<exists>w' g'. access_schedule cfg (concat (replicate n (concat (replicate 5 [0..<k])))) (replicate k (Draw, w), g) =
      Some (replicate k (Draw, w'), g') \<and> opw_throughput w' = opw_throughput w + of_nat n \<and>
      length (table_new_order (op_db g')) = length (table_new_order (op_db g)) + n"
proof (induction n arbitrary: B w g)
  case (Suc n)
  have B: "B < 4294967295" using Suc.prems(4) by simp
  from new_order_insert_new [OF cfg Suc.prems(1,2) B Suc.prems(3), of "opw_seed w" "opw_tl_hack w"]
  obtain g1 s h where st: "op_new_order_insert cfg (g, opw_seed w, opw_tl_hack w) = Some (g1, s, h)"
    "op_fine cfg g1" "below cfg (Suc B) (next_o_id_hack_info g1)" "new_orders_free cfg g1"
    "length (table_new_order (op_db g1)) = Suc (length (table_new_order (op_db g)))"
    by (auto simp: yields_def)
  let ?w = "\<lparr>opw_throughput = opw_throughput w + 1, opw_seed = s, opw_tl_hack = h\<rparr>"
  have "op_worker_step (op_new_order_insert cfg) (w, g) = Some (?w, g1)" by (simp add: op_worker_step_def st(1))
  note one = lockstep_round [OF this k]
  have "Suc B + n < 4294967296" using Suc.prems(4) by simp
  from Suc.IH [OF st(2-4) this, of ?w] obtain w' g' where
    "access_schedule cfg (concat (replicate n (concat (replicate 5 [0..<k])))) (replicate k (Draw, ?w), g1) =
      Some (replicate k (Draw, w'), g')" "opw_throughput w' = opw_throughput ?w + of_nat n"
    "length (table_new_order (op_db g')) = length (table_new_order (op_db g1)) + n" by blast
  moreover have "concat (replicate (Suc n) (concat (replicate 5 [0..<k]))) =
      concat (replicate 5 [0..<k]) @ concat (replicate n (concat (replicate 5 [0..<k])))"
    by (simp only: replicate_Suc concat.simps)
  ultimately show ?case
    using st(5) by (intro exI [of _ w'] exI [of _ g'] conjI) (simp_all only: one, simp_all only: op_worker.simps of_nat_Suc ac_simps add_Suc_right add_Suc)
next
  case 0
  then show ?case by (intro exI [of _ w] exI [of _ g]) simp
qed

text \<open>C40: the unsynchronised \<open>next_o_id_hack_info_[..][..]++\<close> loses records: when the workers of
  \<open>op_new_order_insert\<close>, of which there may be up to 55, are created in the same second, they draw the
  same warehouses and districts, and when they then run in lockstep each of \<open>n\<close> rounds of all
  workers reads the same order number and inserts the same key: the table grows by \<open>n\<close> records
  although \<open>fg_n * n\<close> inserts are counted. When no operation is interrupted, the
  accesses of each operation together are the operation as a whole.\<close>

theorem tpcc_inserts_race:
  assumes "cfg_ok cfg" and "mset (shuffle (map word_of_nat [1..<3001])) = mset (map word_of_nat [1..<3001])"
    and "prepare_kvs shuffle cxl cfg st = Some (db, st')"
    and "0 < fg_n" and "fg_n \<le> 55" and "\<forall>i<fg_n. now i = now 0" and "n < 4294964294"
  shows "(\<exists>ws g. run_new_order_accesses cfg fg_n now (concat (replicate n (concat (replicate 5 [0..<fg_n])))) db =
      Some (ws, g) \<and> (\<Sum>(pc, w)\<leftarrow>ws. opw_throughput w) = of_nat (fg_n * n) \<and>
      length (table_new_order (op_db g)) = length (table_new_order db) + n) \<and>
    (\<forall>sched ws g. access_schedule cfg (concat (map (replicate 5) sched)) (map (Pair Draw) ws, g) =
       map_option (\<lambda>(ws, g). (map (Pair Draw) ws, g)) (op_schedule (op_new_order_insert cfg) sched (ws, g)))"
proof -
  have db: "ops_loaded cfg db" and ids: "ids_to cfg db"
    using prepare_kvs_loaded [of cfg shuffle cxl st, OF assms(1-3)] by simp_all
  have sd: "op_db (op_start cfg db) = db" by (rule op_start_db)
  from init_hack_info_ok [OF assms(1) op_start_fine [OF db], unfolded sd] obtain g1 where
    g1: "init_hack_info cfg (op_start cfg db) = Some g1" "op_fine cfg g1" "op_db g1 = db"
    "\<forall>w d. warehouse_in cfg w \<and> district_in cfg d \<longrightarrow>
       hack_at (next_o_id_hack_info g1) w d = 3001 \<and> hack_at (next_ol_number_hack_info g1) w d = 1"
    by (elim exE conjE)
  have "now i = now 0" if "i \<in> set [0..<fg_n]" for i using that by (intro assms(6) [rule_format]) simp
  then have "map (\<lambda>i. (Draw, op_worker_new (now i))) [0..<fg_n] = map (\<lambda>_. (Draw, op_worker_new (now 0))) [0..<fg_n]"
    by (intro map_cong HOL.refl) (rule arg_cong)
  then have same: "map (\<lambda>i. (Draw, op_worker_new (now i))) [0..<fg_n] = replicate fg_n (Draw, op_worker_new (now 0))"
    by (simp add: map_replicate_const)
  note start = inserts_start [OF ids g1(2,3) g1(4) [rule_format, OF conjI]]
  have "3001 + n < 4294967296" using assms(7) by simp
  from lockstep_rounds [OF assms(1,4) g1(2) start(1,3) this, of "op_worker_new (now 0)"] obtain w' g' where
    run: "access_schedule cfg (concat (replicate n (concat (replicate 5 [0..<fg_n]))))
        (replicate fg_n (Draw, op_worker_new (now 0)), g1) = Some (replicate fg_n (Draw, w'), g')"
      "opw_throughput w' = opw_throughput (op_worker_new (now 0)) + of_nat n"
      "length (table_new_order (op_db g')) = length (table_new_order db) + n"
    unfolding g1(3) by blast
  have zero: "opw_throughput (op_worker_new (now 0)) = 0" by (simp add: op_worker_new_def)
  have "run_new_order_accesses cfg fg_n now (concat (replicate n (concat (replicate 5 [0..<fg_n])))) db =
      Some (replicate fg_n (Draw, w'), g')"
    using assms(5) run(1) by (simp only: run_new_order_accesses_def g1(1) bind_workers_eq assertO_def same bind.bind_lunit if_True)
  moreover have "(\<Sum>(pc, w)\<leftarrow>replicate fg_n (Draw, w'). opw_throughput w) = of_nat (fg_n * n)"
    by (simp add: sum_list_replicate run(2) zero)
  ultimately show ?thesis using run(3) accesses_refine by blast
qed

lemma tpcc_inserts_race_witness:
  "\<exists>db ws g. map_option fst (prepare_kvs id 0 tpcc_default_cfg loader_init) = Some db \<and>
    run_new_order_accesses tpcc_default_cfg 2 (\<lambda>_. 7) [0, 1, 0, 1, 0, 1, 0, 1, 0, 1] db = Some (ws, g) \<and>
    (\<Sum>(pc, w)\<leftarrow>ws. opw_throughput w) = 2 \<and>
    length (table_new_order (op_db g)) = length (table_new_order db) + 1"
proof -
  have cfg: "cfg_ok tpcc_default_cfg" by (simp add: cfg_ok_def tpcc_default_cfg_def)
  obtain db st' where db: "prepare_kvs id 0 tpcc_default_cfg loader_init = Some (db, st')"
    using prepare_kvs_ok [of tpcc_default_cfg id 0 loader_init] cfg by auto
  have s: "concat (replicate 1 (concat (replicate 5 [0..<2]))) = [0, 1, 0, 1, 0, 1, 0, 1, 0, 1 :: nat]"
    by (simp add: numeral_eq_Suc)
  from tpcc_inserts_race [of tpcc_default_cfg id 0 loader_init db st' 2 "\<lambda>_. 7" 1, OF cfg _ db, unfolded s]
  obtain ws g where "run_new_order_accesses tpcc_default_cfg 2 (\<lambda>_. 7) [0, 1, 0, 1, 0, 1, 0, 1, 0, 1] db = Some (ws, g)"
    "(\<Sum>(pc, w)\<leftarrow>ws. opw_throughput w) = 2" "length (table_new_order (op_db g)) = length (table_new_order db) + 1" by auto
  with db show ?thesis by (intro exI [of _ db] exI [of _ ws] exI [of _ g]) simp
qed

end
