(* ===== verification/Spec2Isabelle.thy ===== *)
theory Spec2Isabelle
  imports BufferKV TraceReplay RwMix ReadLatest ReadModifyWrite SkewedPartition SeqInsert
    TpccTheorems TpccOpsTheorems TpccOpsRace
begin

text \<open>
  The baselines of SIDLE: key-value wrappers around vendored indexes and the benchmarks that
  drive them.

  \<^bold>\<open>The program.\<close> \<open>src/src/kv\<close> gives several indexes one interface (\<open>get\<close>, \<open>insert\<close>, \<open>remove\<close>,
  \<open>scan\<close>, \<open>range_scan\<close>, worker registration): \<open>BufferKV\<close> is an index of its own, a sorted array;
  \<open>MasstreeKV\<close>, \<open>WormholeKV\<close>, \<open>ARTKV\<close>, \<open>Smart\<close> and \<open>PACTreeKV\<close> wrap libraries under \<open>third_party\<close>.
  \<open>src/src/helper.*\<close> holds arithmetic, timing and thread-binding helpers.
  \<open>benchmark/real_world\<close> implements TPC-C on tables that are \<open>MasstreeKV\<close> indexes: key and value
  structs and random generators (\<open>tpcc.h\<close>), the population (\<open>tpcc_loader.h\<close>), transactions, workers
  and statistics (\<open>tpcc.cpp\<close>), and a benchmark of single operations on the same tables (\<open>tpcc_op.cpp\<close>).
  \<open>benchmark/synthetic\<close> runs micro-benchmarks on the same wrappers with
  the keys of \<open>micro_base.h\<close> and the tables, key sets and workloads of \<open>micro_common.h\<close>; every
  driver there, and the trace replay \<open>real_world_trace.cpp\<close>, follows the same protocol between the
  main thread and its workers.

  \<^bold>\<open>Conventions.\<close> Machine integers are words of their width; a \<open>float\<close> or \<open>double\<close> is the rational
  it denotes, rounded after every operation (\<open>Floats\<close>; the exponent range is not modelled). A run
  that aborts, fails an assertion or leaves an array is a value: \<open>Inl\<close> of a \<open>fault\<close>, or \<open>None\<close> for
  loops that may not end (\<open>partial_function (option)\<close>), divisions by zero and vector accesses out
  of range. Uninitialised values the code reads are parameters (\<open>junk\<close>, where it matters one for
  each read). What the wrappers rely on is stated for the arguments for which the libraries promise
  it: scans of Masstree for a positive signed number of records, operations of PACTree for keys
  other than its two sentinels 0 and \<open>2^64 - 1\<close>. The vendored indexes are
  parameters whose documented behaviour is a locale (\<open>masstree_contract\<close>, \<open>wormhole_contract\<close>,
  \<open>art_contract\<close>, \<open>smart_contract\<close>, \<open>pactree_contract\<close>), each interpreted on a concrete instance.

  \<^bold>\<open>Theories.\<close>
  \<^item> \<open>Prelude\<close>: faults, arrays and raw copies, little-endian images, \<open>memcmp\<close>. \<open>KvInterface\<close>: the
    contract of an index (locales \<open>kv_store\<close>, \<open>kv_index\<close>) and the refinement of operation sequences
    to a partial map, proved once. \<open>OrderedStore\<close>: the ordered map with scans.
  \<^item> \<open>BufferKV\<close> (\<open>kv/buffer.h\<close>): keys, values, size and capacity in a record; every operation, both
    searches. Invariant, refinement to a map, equality of the two searches, the overflow of a full
    insert.
  \<^item> \<open>KeyCodec\<close>, \<open>ModelKeys\<close>, \<open>TpccKeys\<close>, \<open>MicroKeys\<close>: the key structs of \<open>tpcc.h\<close> and
    \<open>micro_base.h\<close>, their memory images, \<open>to_str_key\<close> / \<open>to_normal_key\<close> / \<open>to_model_key\<close>, order and
    bounds (locale \<open>ordered_key\<close>, interpreted for every key type).
  \<^item> \<open>KvWrappers\<close> (\<open>kv/masstree.h\<close>, \<open>kv/wormhole.h\<close>): with a contract for the library, the wrapper is
    an ordered map; scans are in key order; the references of Wormhole's workers are never null and
    all returned. \<open>OtherWrappers\<close> (\<open>kv/art_wrapper.h\<close>, \<open>kv/smart.h\<close>, \<open>kv/pactree_wrapper.h\<close>): what
    these wrappers really are.
  \<^item> \<open>HelperModel\<close> (\<open>helper.h\<close>, \<open>helper.cpp\<close>).
  \<^item> \<open>LcgPeriod\<close>, \<open>FastRandom\<close>, \<open>TpccRandom\<close>: the generator \<open>fast_random\<close> with its full period, on
    which the termination of the rejection loops rests, and the random helpers of \<open>tpcc.h\<close>.
  \<^item> \<open>TpccValues\<close>, \<open>TpccTxn\<close>: the database record (nine tables and two bookkeeping vectors) and the
    five transactions, each a function of the generator's seed, the thread's clock and the
    database. \<open>TpccInvariant\<close>, \<open>TpccCorrect\<close>: the database invariant \<open>tpcc_inv\<close> and what each
    transaction does to a database that satisfies it.
  \<^item> \<open>TpccLoader\<close>, \<open>TpccLoaded\<close> (\<open>tpcc_loader.h\<close>): the population, its termination for every seed, the
    invariant of the loaded database, and the bulk load through \<open>MasstreeKV\<close>.
  \<^item> \<open>TpccDriver\<close> (\<open>tpcc.cpp\<close>): workers and their binding to cores, transaction mix, statistics,
    schedules, \<open>run_tpcc\<close> and \<open>main\<close> with the results they print, reachable databases.
    \<open>TpccTheorems\<close>: the properties of the whole.
  \<^item> \<open>TpccOps\<close> (\<open>tpcc_op.cpp\<close>): the twenty single operations, the bookkeeping vectors, workers,
    measurements and \<open>main\<close>. \<open>TpccOpsCorrect\<close>: what each operation does to a loaded database, with a
    rule for every kind of random draw (\<open>op_rules\<close>) and an induction over schedules.
    \<open>TpccOpsTheorems\<close>: which builds and numbers of workers run to the end, which tables change and by
    how much, and when workers overwrite each other's records. \<open>TpccOpsRace\<close>: \<open>op_new_order_insert\<close>
    with one access to shared data per step, and the records that racing workers lose.
  \<^item> \<open>MicroRandom\<close>, \<open>MicroData\<close> (\<open>micro_base.h\<close>, \<open>generator.h\<close>, \<open>micro_common.h\<close>): \<open>rand_int64\<close> in
    double precision, the hash and the scrambled generator, the key loaders and the skewed
    workloads, drawn from distributions whose numbers are arguments; that the numbers stay in range,
    that the loaders end, that the hot range is one, and which percentages make the draws fault.
  \<^item> \<open>MicroTables\<close> (\<open>micro_common.h\<close>): a table as the record of the calls a driver makes, one for each
    wrapper, the \<open>prepare\<close> functions, and the locales \<open>micro_table\<close> and \<open>last_write_table\<close>, which the
    wrappers provide under the contracts of their libraries.
  \<^item> \<open>BenchProtocol\<close>: the protocol of the drivers as a step relation over any worker bodies, its own
    invariant, invariants of bodies (locale \<open>fg_safe\<close>), the missed window, joint
    invariants of the table and all workers (locale \<open>fg_joint\<close>), and simulation between two tables
    (locale \<open>fg_sim\<close>). \<open>Ycsb\<close> (\<open>rw_ycsb.cpp\<close>) and \<open>TraceReplay\<close> (\<open>real_world_trace.cpp\<close>) give the
    bodies; both interpret \<open>fg_safe\<close> and \<open>fg_sim\<close> for every table.
  \<^item> \<open>RwMix\<close> (\<open>rw_mix.cpp\<close>): workers that insert and remove, each with a window of present keys that
    moves round its key list; that the window is kept, over every table that can remove keys (locale
    \<open>removable_table\<close>), and that scans lose it.
  \<^item> \<open>ReadLatest\<close> (\<open>read_latest.cpp\<close>): workers that first generate a list of reads, inserts and
    removals, in a loop that ends only when all new keys are used, and then replay it round and round;
    when the loop ends, what it generates, and that reads find what the same worker inserted before.
  \<^item> \<open>ReadModifyWrite\<close> (\<open>read_modify_write.cpp\<close>): workers that check every result; that no check
    fails, and that one on a missing key would. \<open>SkewedPartition\<close> (\<open>skewed_partition.cpp\<close>,
    \<open>skewed_partition_dynamic.cpp\<close>): workers over a skewed workload of \<open>MicroData\<close> instead of the keys
    loaded; that they still find every key with one hot range, and that more than one is written
    outside the target vector. \<open>SeqInsert\<close> (\<open>seq_insert.cpp\<close>): workers that insert and
    remove in sorted order; that they are safe, and that all reads of a thread are of one key.

  \<^bold>\<open>How the parts meet.\<close> The transactions work on ordered stores. \<open>KvWrappers\<close> shows that \<open>MasstreeKV\<close>
  over an ordered byte-string map is such a store for every key type with an order-preserving
  image, \<open>TpccKeys\<close> shows that the images are order-preserving, and \<open>TpccTheorems\<close> that the bulk load
  fills the wrapper with exactly the loaded map. The micro-benchmarks run on the wrappers themselves:
  \<open>MicroTables\<close> derives what a driver relies on from the library contracts, and \<open>TraceReplay\<close> shows
  that a driver over \<open>MasstreeKV\<close> and one over a partial map do the same, step by step.

  \<^bold>\<open>Bounds.\<close> The run theorems assume fewer than \<open>2^32\<close> order numbers (3001 plus the number of
  transactions), the width of \<open>d_next_o_id\<close>; configurations have 1 to 65535 warehouses and 1 to 255
  districts, the widths of the key fields. There is no fuel: loops that need not end are options,
  and that they end is proved. \<open>bind_to_physical_cores\<close> stops the program for a worker number of 55 or
  more, so the theorems on runs of all drivers are for at most 55 workers.

  \<^bold>\<open>Not modelled.\<close> Concurrency inside a transaction or an operation of an index (each is one step;
  workers are interleaved between them; the exception is \<open>TpccOpsRace\<close>); locks; memory reclamation (\<open>rcu_quiesce\<close>, epochs); sleeping,
  option parsing, printing and latency vectors. The branches under \<open>ORIGIN_TPCC\<close> and \<open>if (false)\<close>.
  \<open>partition_keys\<close>, which nothing calls. The Zipfian generator (powers of random draws), whose
  values are arguments. String keys in the key loaders. The two range scans of \<open>tpcc_op.cpp\<close>, which no
  table entry names, and races on its bookkeeping vectors in operations other than
  \<open>op_new_order_insert\<close>. The assertions inside the searches of \<open>BufferKV\<close> and inside
  vendored code. The replay of
  \<open>read_latest.cpp\<close> after draws that give removals has a model but no run theorem. The drivers
  \<open>heavy_insert.cpp\<close>, \<open>short_range.cpp\<close> and \<open>dynamic_hot_range*.cpp\<close> (whose main thread replaces the key
  lists of running workers), the generators of data files, and the libraries under \<open>third_party\<close>.
\<close>

end
